(* ===== verification/RTFSC_Prelude.thy ===== *)
theory RTFSC_Prelude
  imports Main "HOL-Library.Word"
begin

unbundle bit_operations_syntax

text \<open>
  Shared vocabulary of the development: the machine integer types of the C sources, the
  collections the component proofs simplify with, and the generic facts on words, lists and
  C arithmetic that several components use.

  The sources are built for an LP64 target: \<^verbatim>\<open>unsigned int\<close> is \<^typ>\<open>32 word\<close>,
  \<^verbatim>\<open>unsigned long\<close> and \<^verbatim>\<open>unsigned long long\<close> are \<^typ>\<open>64 word\<close>.
  A signed value is an \<^typ>\<open>int\<close> where its overflow would be undefined in C, and a word read
  with \<^const>\<open>sint\<close> where the code converts it.
\<close>

section \<open>Machine integers\<close>

type_synonym u8 = "8 word"
type_synonym u16 = "16 word"
type_synonym u32 = "32 word"
type_synonym u64 = "64 word"
type_synonym s32 = int
type_synonym s64 = int

named_theorems wordarith \<open>word arithmetic read as arithmetic on natural numbers\<close>
named_theorems fio_simps \<open>field and list facts of the fio components\<close>
named_theorems redis_simps \<open>field and list facts of the redis components\<close>

lemma unat_and_mask16 [wordarith]: "unat (w AND (65535::'a::len word)) = unat w mod 65536"
proof -
  have "w AND 65535 = take_bit 16 w"
    by (simp add: take_bit_eq_mask mask_eq_exp_minus_1)
  then have "unat (w AND 65535) = take_bit 16 (unat w)"
    by (simp only: unsigned_take_bit_eq)
  then show ?thesis
    by (simp add: take_bit_eq_mod)
qed

lemma unat_drop_bit_eq_div [wordarith]: "unat (drop_bit n w) = unat w div 2 ^ n"
  for w :: "'a::len word"
  by (metis drop_bit_eq_div unsigned_drop_bit_eq take_bit_length_eq order_refl
      unsigned_take_bit_eq take_bit_word_eq_self)

lemma of_bool_unat [wordarith]: "unat (of_bool b :: 'a::len word) = of_bool b"
  by simp

text \<open>A word whose top bit is clear reads the same as signed and as unsigned number.\<close>

lemma sint_small: "sint w = int (unat w)"
  if "unat w < 2 ^ (LENGTH('a) - 1)" for w :: "'a::len word"
proof -
  have "int (unat w) < int (2 ^ (LENGTH('a) - 1))"
    using that by (simp only: of_nat_less_iff)
  then have "uint w < 2 ^ (LENGTH('a) - 1)"
    by simp
  moreover have "- (2 ^ (LENGTH('a) - 1)) \<le> uint w"
    by (rule order.trans [of _ 0]) simp_all
  ultimately have "signed_take_bit (LENGTH('a) - 1) (uint w) = uint w"
    by (simp add: signed_take_bit_int_eq_self)
  then show ?thesis
    by (simp add: sint_uint)
qed

lemma unat_less_u8 [simp]: "unat (w :: u8) < 256"
  and unat_less_u16 [simp]: "unat (w' :: u16) < 65536"
  and unat_less_u32 [simp]: "unat (v :: u32) < 4294967296"
  and unat_less_u64 [simp]: "unat (v' :: u64) < 18446744073709551616"
  using unsigned_less [of w, where ?'a = nat] unsigned_less [of w', where ?'a = nat]
    unsigned_less [of v, where ?'a = nat] unsigned_less [of v', where ?'a = nat]
  by simp_all

lemma unat_ucast_mod: "unat (ucast w :: 'b::len word) = unat w mod 2 ^ LENGTH('b)"
  for w :: "'a::len word"
  by (simp add: unsigned_ucast_eq take_bit_eq_mod)

text \<open>Exclusive or is cancellative.\<close>

lemma xor_cancel_left [simp]: "a XOR b = a XOR c \<longleftrightarrow> b = c" for a :: "'a::len word"
  by (metis xor.assoc xor.left_neutral xor_self_eq)

lemma xor_cancel_right [simp]: "b XOR a = c XOR a \<longleftrightarrow> b = c" for a :: "'a::len word"
  by (metis xor.commute xor_cancel_left)

lemma xor_eq_0_iff: "a XOR b = 0 \<longleftrightarrow> a = b" for a :: "'a::len word"
  by (metis xor_cancel_left xor_self_eq)

section \<open>C integer division and booleans\<close>

text \<open>C truncates the quotient of two signed integers towards zero.\<close>

definition cdiv :: "int \<Rightarrow> int \<Rightarrow> int" where
  "cdiv a b = sgn a * sgn b * (\<bar>a\<bar> div \<bar>b\<bar>)"

definition cmod :: "int \<Rightarrow> int \<Rightarrow> int" where
  "cmod a b = a - b * cdiv a b"

lemma cdiv_nonneg [simp]: "0 \<le> a \<Longrightarrow> 0 < b \<Longrightarrow> cdiv a b = a div b"
  by (cases "a = 0") (simp_all add: cdiv_def sgn_if)

lemma cmod_nonneg [simp]: "0 \<le> a \<Longrightarrow> 0 < b \<Longrightarrow> cmod a b = a mod b"
  by (simp add: cmod_def minus_mult_div_eq_mod)

text \<open>The C truth value of a condition stored in an integer.\<close>

abbreviation c_bool :: "bool \<Rightarrow> int" where
  "c_bool b \<equiv> (if b then 1 else 0)"

section \<open>Lists\<close>

lemma take_Suc_snoc: "n < length xs \<Longrightarrow> take (Suc n) xs = take n xs @ [xs ! n]"
  by (rule take_Suc_conv_app_nth)

lemma sum_list_update_nat:
  "i < length xs \<Longrightarrow> sum_list (xs[i := (v::nat)]) + xs ! i = sum_list xs + v"
  by (induction xs arbitrary: i) (auto split: nat.splits simp: nth_Cons)

lemma remove1_append_left: "x \<in> set xs \<Longrightarrow> remove1 x (xs @ ys) = remove1 x xs @ ys"
  by (simp add: remove1_append)

lemma length_filter_update:
  assumes "i < length xs"
  shows "length (filter P (xs[i := v])) + (if P (xs ! i) then 1 else 0)
       = length (filter P xs) + (if P v then 1 else 0)"
  using assms
proof (induction xs arbitrary: i)
  case Nil
  then show ?case by simp
next
  case (Cons x xs)
  show ?case
  proof (cases i)
    case 0
    then show ?thesis by simp
  next
    case (Suc j)
    with Cons.prems have "j < length xs" by simp
    from Cons.IH [OF this] Suc show ?thesis by (cases "P x") simp_all
  qed
qed

lemma takeWhile_until: "x \<notin> set f \<Longrightarrow> takeWhile (\<lambda>y. y \<noteq> x) (f @ x # rest) = f"
  by (induction f) auto

section \<open>Results with errors\<close>

text \<open>An operation that fails returns \<^verbatim>\<open>Inl\<close>; \<open>sbind\<close> runs the next one on the result.\<close>

definition sbind :: "'e + 'a \<Rightarrow> ('a \<Rightarrow> 'e + 'b) \<Rightarrow> 'e + 'b" where
  "sbind m f = (case m of Inl e \<Rightarrow> Inl e | Inr x \<Rightarrow> f x)"

lemma sbind_simps [simp]:
  "sbind (Inl e) f = Inl e" "sbind (Inr x) f = f x"
  by (simp_all add: sbind_def)

lemma sbind_Inr_iff: "sbind m f = Inr y \<longleftrightarrow> (\<exists>x. m = Inr x \<and> f x = Inr y)"
  by (cases m) simp_all

lemma sbind_cong [fundef_cong]: "m = m' \<Longrightarrow> (\<And>x. m' = Inr x \<Longrightarrow> f x = g x) \<Longrightarrow> sbind m f = sbind m' g"
  by (cases m') simp_all

section \<open>Runs of a component's operations\<close>

text \<open>
  A component is driven through a list of operations; an operation that fails stops the run.
  \<open>guarded_run\<close> says that the environment kept its side at every step (for instance that
  \<^verbatim>\<open>malloc\<close> answered an address that is not in use).
\<close>

fun run_ops :: "('o \<Rightarrow> 's \<Rightarrow> 'e + 's) \<Rightarrow> 'o list \<Rightarrow> 's \<Rightarrow> 'e + 's" where
  "run_ops step [] s = Inr s"
| "run_ops step (x # xs) s = (case step x s of Inl e \<Rightarrow> Inl e | Inr s' \<Rightarrow> run_ops step xs s')"

fun guarded_run :: "('o \<Rightarrow> 's \<Rightarrow> bool) \<Rightarrow> ('o \<Rightarrow> 's \<Rightarrow> 'e + 's) \<Rightarrow> 'o list \<Rightarrow> 's \<Rightarrow> bool" where
  "guarded_run guard step [] s = True"
| "guarded_run guard step (x # xs) s =
     (guard x s \<and> (case step x s of Inl e \<Rightarrow> True | Inr s' \<Rightarrow> guarded_run guard step xs s'))"

text \<open>
  The contract every stateful component states: each operation keeps the invariant as long as
  the environment keeps its guard.  Whole runs then keep it.
\<close>

locale guarded_machine =
  fixes step :: "'o \<Rightarrow> 's \<Rightarrow> 'e + 's"
    and guard :: "'o \<Rightarrow> 's \<Rightarrow> bool"
    and inv :: "'s \<Rightarrow> bool"
  assumes step_inv: "inv s \<Longrightarrow> guard x s \<Longrightarrow> step x s = Inr s' \<Longrightarrow> inv s'"
begin

lemma run_inv:
  "inv s \<Longrightarrow> guarded_run guard step xs s \<Longrightarrow> run_ops step xs s = Inr s' \<Longrightarrow> inv s'"
proof (induction xs arbitrary: s)
  case Nil
  then show ?case by simp
next
  case (Cons x xs)
  from Cons.prems(3) obtain t where t: "step x s = Inr t" and r: "run_ops step xs t = Inr s'"
    by (auto split: sum.splits)
  from Cons.prems(2) t have "guard x s" and g: "guarded_run guard step xs t"
    by auto
  from step_inv [OF Cons.prems(1) this(1) t] have "inv t" .
  from Cons.IH [OF this g r] show ?case .
qed

lemma run_append:
  "run_ops step (xs @ ys) s
     = (case run_ops step xs s of Inl e \<Rightarrow> Inl e | Inr s' \<Rightarrow> run_ops step ys s')"
  by (induction xs arbitrary: s) (auto split: sum.splits)

end

end
