(* ===== verification/RedisRand.thy ===== *)
theory RedisRand
  imports RTFSC_Prelude
begin

text \<open>
  The pseudo random generator of redis 6.0 (\<^verbatim>\<open>rand.c\<close>): the 48-bit linear congruential
  generator kept as three 16-bit limbs in 32-bit words.  The record is the file's static
  state \<^verbatim>\<open>x[3]\<close>, \<^verbatim>\<open>a[3]\<close>, \<^verbatim>\<open>c\<close>; the macros are functions of the same
  names.  The lemmas show that \<^verbatim>\<open>next\<close> is the recurrence on 48-bit numbers it announces.
\<close>

section \<open>State and macros\<close>

record rand48 =
  rx0 :: u32
  rx1 :: u32
  rx2 :: u32
  ra0 :: u32
  ra1 :: u32
  ra2 :: u32
  rc :: u32

definition LOW :: "u32 \<Rightarrow> u32" where
  "LOW w = w AND 65535"

text \<open>\<^verbatim>\<open>HIGH\<close> shifts a signed 32-bit value, so the shift is arithmetic.\<close>

definition HIGH :: "u32 \<Rightarrow> u32" where
  "HIGH w = LOW (signed_drop_bit 16 w)"

text \<open>The product is taken in 64 bits and stored into an \<^verbatim>\<open>int32_t\<close>.\<close>

definition MUL :: "u32 \<Rightarrow> u32 \<Rightarrow> u32 \<times> u32" where
  "MUL x y = (let l = ucast ((ucast x :: u64) * ucast y) :: u32 in (LOW l, HIGH l))"

text \<open>\<^verbatim>\<open>CARRY\<close> adds an \<^verbatim>\<open>int32_t\<close> and a \<^verbatim>\<open>long\<close>: signed arithmetic.\<close>

definition CARRY :: "u32 \<Rightarrow> u32 \<Rightarrow> u32" where
  "CARRY x y = of_bool (sint x + uint y > 65535)"

definition ADDEQU :: "u32 \<Rightarrow> u32 \<Rightarrow> u32 \<times> u32" where
  "ADDEQU x y = (LOW (x + y), CARRY x y)"

definition SEED :: "u32 \<Rightarrow> u32 \<Rightarrow> u32 \<Rightarrow> rand48" where
  "SEED s0 s1 s2 = \<lparr>rx0 = s0, rx1 = s1, rx2 = s2, ra0 = 0xE66D, ra1 = 0xDEEC, ra2 = 0x5, rc = 0xB\<rparr>"

text \<open>The initial values of the static variables.\<close>

definition rand48_init :: rand48 where
  "rand48_init = SEED 0x330E 0xABCD 0x1234"

section \<open>Operations\<close>

definition next_rand :: "rand48 \<Rightarrow> rand48" where
  "next_rand s =
     (let (p0, p1) = MUL (ra0 s) (rx0 s);
          (p0, carry0) = ADDEQU p0 (rc s);
          (p1, carry1) = ADDEQU p1 carry0;
          (q0, q1) = MUL (ra0 s) (rx1 s);
          (p1, carry0) = ADDEQU p1 q0;
          (r0, r1) = MUL (ra1 s) (rx0 s);
          n2 = LOW (carry0 + carry1 + CARRY p1 r0 + q1 + r1
                    + ra0 s * rx2 s + ra1 s * rx1 s + ra2 s * rx0 s);
          n1 = LOW (p1 + r0);
          n0 = LOW p0
      in s\<lparr>rx0 := n0, rx1 := n1, rx2 := n2\<rparr>)"

text \<open>The value returned is an \<^verbatim>\<open>int32_t\<close>: the word, read as a signed number.\<close>

definition redisLrand48 :: "rand48 \<Rightarrow> int \<times> rand48" where
  "redisLrand48 s =
     (let s' = next_rand s in (sint (push_bit 15 (rx2 s') + drop_bit 1 (rx1 s')), s'))"

definition redisSrand48 :: "u32 \<Rightarrow> rand48" where
  "redisSrand48 seedval = SEED 0x330E (LOW seedval) (HIGH seedval)"

section \<open>The abstract generator\<close>

text \<open>The 48-bit number the three limbs stand for, and the recurrence on it.\<close>

definition limbs :: "u32 \<Rightarrow> u32 \<Rightarrow> u32 \<Rightarrow> nat" where
  "limbs l0 l1 l2 = unat l0 + 2^16 * unat l1 + 2^32 * unat l2"

definition X_of :: "rand48 \<Rightarrow> nat" where
  "X_of s = limbs (rx0 s) (rx1 s) (rx2 s)"

definition A_of :: "rand48 \<Rightarrow> nat" where
  "A_of s = limbs (ra0 s) (ra1 s) (ra2 s)"

definition lcg48 :: "nat \<Rightarrow> nat \<Rightarrow> nat \<Rightarrow> nat" where
  "lcg48 a k x = (a * x + k) mod 2 ^ 48"

definition rand48_wf :: "rand48 \<Rightarrow> bool" where
  "rand48_wf s \<longleftrightarrow> unat (rx0 s) < 2^16 \<and> unat (rx1 s) < 2^16 \<and> unat (rx2 s) < 2^16 \<and>
                  unat (ra0 s) < 2^16 \<and> unat (ra1 s) < 2^16 \<and> unat (ra2 s) < 2^16 \<and>
                  unat (rc s) < 2^16"

section \<open>Facts about the macros\<close>

lemma unat_LOW [simp]: "unat (LOW w) = unat w mod 2^16"
  by (simp add: LOW_def wordarith)

lemma HIGH_eq: "HIGH w = drop_bit 16 w"
proof (rule bit_word_eqI)
  fix n
  assume n: "n < LENGTH(32)"
  have m: "(65535::u32) = mask 16"
    by (simp add: mask_eq_exp_minus_1)
  show "bit (HIGH w) n = bit (drop_bit 16 w) n"
    using n bit_imp_le_length [of w "16 + n"]
    by (auto simp: HIGH_def LOW_def m bit_simps min_def not_le add.commute)
qed

lemma unat_HIGH [simp]: "unat (HIGH w) = unat w div 2^16"
  by (simp add: HIGH_eq unat_drop_bit_eq_div)

lemma LOW_less [simp]: "unat (LOW w) < 2^16"
  by simp

lemma unat_MUL:
  assumes "unat x < 2^16" and "unat y < 2^16" and "MUL x y = (p, q)"
  shows "unat p = unat x * unat y mod 2^16" and "unat q = unat x * unat y div 2^16"
proof -
  have "unat x * unat y \<le> (2^16 - 1) * (2^16 - 1)"
    using assms by (intro mult_le_mono) auto
  then have b: "unat x * unat y < 2^32" by simp
  have "unat (ucast ((ucast x :: u64) * ucast y) :: u32) = unat x * unat y"
    using b using assms(1,2) by (simp add: unat_ucast_mod unat_word_ariths)
  then show "unat p = unat x * unat y mod 2^16" and "unat q = unat x * unat y div 2^16"
    using assms(3) by (auto simp: MUL_def Let_def)
qed

lemma CARRY_eq:
  assumes "unat x < 2^16"
  shows "unat (CARRY x y) = of_bool (unat x + unat y \<ge> 2^16)"
proof -
  have "sint x = int (unat x)"
    using assms by (intro sint_small) simp
  then have "sint x + uint y = int (unat x + unat y)"
    by simp
  moreover have "65535 < int n \<longleftrightarrow> 2^16 \<le> n" for n
    by (simp, linarith)
  ultimately have "sint x + uint y > 65535 \<longleftrightarrow> unat x + unat y \<ge> 2^16"
    by (simp only:)
  then show ?thesis
    by (simp only: CARRY_def of_bool_unat)
qed

lemma ADDEQU_eq:
  assumes "unat x < 2^16" and "unat y < 2^16" and "ADDEQU x y = (s, k)"
  shows "unat s + 2^16 * unat k = unat x + unat y" and "unat s < 2^16" and "unat k \<le> 1"
proof -
  have k: "unat k = of_bool (unat x + unat y \<ge> 2^16)"
    using assms CARRY_eq [of x y] by (simp add: ADDEQU_def)
  have "unat s = (unat x + unat y) mod 2^16"
    using assms by (auto simp: ADDEQU_def unat_word_ariths mod_mod_cancel)
  with k assms(1,2) show "unat s + 2^16 * unat k = unat x + unat y" and "unat s < 2^16"
    by (auto simp: mod_if)
  show "unat k \<le> 1" using k by simp
qed

section \<open>The recurrence\<close>

lemma limbs_product:
  fixes x0 x1 x2 a0 a1 a2 k :: nat
  shows "((a0 + 2^16 * a1 + 2^32 * a2) * (x0 + 2^16 * x1 + 2^32 * x2) + k) mod 2^48
       = (a0 * x0 + k + 2^16 * (a0 * x1 + a1 * x0)
          + 2^32 * (a0 * x2 + a1 * x1 + a2 * x0)) mod 2^48"
proof -
  have "(a0 + 2^16 * a1 + 2^32 * a2) * (x0 + 2^16 * x1 + 2^32 * x2) + k
      = (a0 * x0 + k + 2^16 * (a0 * x1 + a1 * x0) + 2^32 * (a0 * x2 + a1 * x1 + a2 * x0))
        + 2^48 * (a1 * x2 + a2 * x1 + 2^16 * (a2 * x2))"
    by (simp add: algebra_simps)
  then show ?thesis by (simp only: mod_mult_self2)
qed

lemma limbs_mod:
  fixes l0 l1 u :: nat
  assumes "l0 < 2^16" and "l1 < 2^16"
  shows "(l0 + 2^16 * l1 + 2^32 * u) mod 2^48 = l0 + 2^16 * l1 + 2^32 * (u mod 2^16)"
proof -
  have "l0 + 2^16 * l1 + 2^32 * u
      = (l0 + 2^16 * l1 + 2^32 * (u mod 2^16)) + 2^48 * (u div 2^16)"
  proof -
    have "4294967296 * (65536 * q + r) = 4294967296 * r + 281474976710656 * (q::nat)"
      for q r by simp
    from this [of "u div 65536" "u mod 65536"] show ?thesis by simp
  qed
  moreover have "u mod 2^16 < 2^16" by simp
  then have "l0 + 2^16 * l1 + 2^32 * (u mod 2^16) < 2^48"
    using assms by simp
  ultimately show ?thesis
    by (simp only: mod_mult_self2 mod_less)
qed

text \<open>The carry chain, on natural numbers: three limbs of the sum and the bits dropped.\<close>

lemma carry_chain:
  fixes p0 p1 p0' p1' p1'' q0 q1 r0 r1 k0 k1 k2 k3 n1 t :: nat
  assumes "p0' + 2^16 * k0 = p0 + c" and "p1' + 2^16 * k1 = p1 + k0"
    and "p1'' + 2^16 * k2 = p1' + q0" and "n1 + 2^16 * k3 = p1'' + r0"
  shows "p0 + 2^16 * p1 + c + 2^16 * (q0 + 2^16 * q1 + (r0 + 2^16 * r1)) + 2^32 * t
       = p0' + 2^16 * n1 + 2^32 * (k2 + k1 + k3 + q1 + r1 + t)"
  using assms by simp

lemma next_rand_frame [redis_simps]:
  "ra0 (next_rand s) = ra0 s" "ra1 (next_rand s) = ra1 s" "ra2 (next_rand s) = ra2 s"
  "rc (next_rand s) = rc s"
  by (simp_all add: next_rand_def Let_def split: prod.splits)

lemma next_rand_eq:
  assumes wf: "rand48_wf s"
  shows "X_of (next_rand s) = lcg48 (A_of s) (unat (rc s)) (X_of s)"
    and "rand48_wf (next_rand s)"
proof -
  obtain p0 p1 where P: "MUL (ra0 s) (rx0 s) = (p0, p1)" by fastforce
  obtain p0' k0 where K0: "ADDEQU p0 (rc s) = (p0', k0)" by fastforce
  obtain p1' k1 where K1: "ADDEQU p1 k0 = (p1', k1)" by fastforce
  obtain q0 q1 where Q: "MUL (ra0 s) (rx1 s) = (q0, q1)" by fastforce
  obtain p1'' k2 where K2: "ADDEQU p1' q0 = (p1'', k2)" by fastforce
  obtain r0 r1 where R: "MUL (ra1 s) (rx0 s) = (r0, r1)" by fastforce
  obtain n1 k3 where K3: "ADDEQU p1'' r0 = (n1, k3)" by fastforce
  define n2 where "n2 = LOW (k2 + k1 + k3 + q1 + r1
                    + ra0 s * rx2 s + ra1 s * rx1 s + ra2 s * rx0 s)"
  have K3': "CARRY p1'' r0 = k3" "LOW (p1'' + r0) = n1"
    using K3 by (simp_all add: ADDEQU_def)
  have step: "next_rand s = s\<lparr>rx0 := LOW p0', rx1 := n1, rx2 := n2\<rparr>"
    using K3' by (simp add: next_rand_def P K0 K1 Q K2 R n2_def)
  note wf' = wf [unfolded rand48_wf_def]
  have mul: "unat p + 2^16 * unat q = unat x * unat y" "unat p < 2^16" "unat q < 2^16"
    if "MUL x y = (p, q)" "unat x < 2^16" "unat y < 2^16" for x y p q
  proof -
    note u = unat_MUL [OF that(2,3,1)]
    show "unat p + 2^16 * unat q = unat x * unat y" "unat p < 2^16"
      by (simp_all add: u)
    have "unat x * unat y < 2^16 * 2^16"
      using that by (intro mult_strict_mono) auto
    then show "unat q < 2^16"
      by (simp add: u div_less_iff_less_mult)
  qed
  have Pm: "unat p0 + 2^16 * unat p1 = unat (ra0 s) * unat (rx0 s)" "unat p0 < 2^16" "unat p1 < 2^16"
    using mul [OF P] wf' by auto
  have Qm: "unat q0 + 2^16 * unat q1 = unat (ra0 s) * unat (rx1 s)" "unat q0 < 2^16"
    using mul [OF Q] wf' by auto
  have Rm: "unat r0 + 2^16 * unat r1 = unat (ra1 s) * unat (rx0 s)" "unat r0 < 2^16"
    using mul [OF R] wf' by auto
  have A0: "unat p0' + 2^16 * unat k0 = unat p0 + unat (rc s)" "unat p0' < 2^16" "unat k0 \<le> 1"
    using ADDEQU_eq [OF _ _ K0] Pm(2) wf' by auto
  have A1: "unat p1' + 2^16 * unat k1 = unat p1 + unat k0" "unat p1' < 2^16"
    using ADDEQU_eq [OF _ _ K1] Pm(3) A0(3) by auto
  have A2: "unat p1'' + 2^16 * unat k2 = unat p1' + unat q0" "unat p1'' < 2^16"
    using ADDEQU_eq [OF _ _ K2] A1(2) Qm(2) by auto
  have A3: "unat n1 + 2^16 * unat k3 = unat p1'' + unat r0" "unat n1 < 2^16"
    using ADDEQU_eq [OF _ _ K3] A2(2) Rm(2) by auto
  let ?t = "unat (ra0 s) * unat (rx2 s) + unat (ra1 s) * unat (rx1 s) + unat (ra2 s) * unat (rx0 s)"
  let ?u = "unat k2 + unat k1 + unat k3 + unat q1 + unat r1 + ?t"
  have n2: "unat n2 = ?u mod 2^16"
    by (simp add: n2_def unat_word_ariths mod_simps mod_mod_cancel add.assoc)
  have "unat (ra0 s) * unat (rx0 s) + unat (rc s)
      + 2^16 * (unat (ra0 s) * unat (rx1 s) + unat (ra1 s) * unat (rx0 s)) + 2^32 * ?t
      = unat p0' + 2^16 * unat n1 + 2^32 * ?u"
    using carry_chain [OF A0(1) A1(1) A2(1) A3(1), of "unat q1" "unat r1" ?t]
    by (simp only: Pm(1) Qm(1) Rm(1) add.assoc)
  then have "lcg48 (A_of s) (unat (rc s)) (X_of s) = (unat p0' + 2^16 * unat n1 + 2^32 * ?u) mod 2^48"
    by (simp only: lcg48_def A_of_def X_of_def limbs_def limbs_product)
  also have "\<dots> = unat p0' + 2^16 * unat n1 + 2^32 * (?u mod 2^16)"
    using A0(2) A3(2) by (rule limbs_mod)
  also have "\<dots> = X_of (next_rand s)"
    using A0(2) n2 by (simp add: step X_of_def limbs_def)
  finally show "X_of (next_rand s) = lcg48 (A_of s) (unat (rc s)) (X_of s)" by simp
  show "rand48_wf (next_rand s)"
    using wf' A3(2) by (simp add: rand48_wf_def step n2)
qed

lemma limbs_less: "rand48_wf s \<Longrightarrow> X_of s < 2^48"
  by (simp add: rand48_wf_def X_of_def limbs_def)

lemma rand48_output:
  assumes "rand48_wf s"
  shows "sint (push_bit 15 (rx2 s) + drop_bit 1 (rx1 s)) = int (X_of s div 2^17)"
proof -
  note wf = assms [unfolded rand48_wf_def]
  have "unat (rx1 s) div 2 < 2^15"
    using wf by (simp add: div_less_iff_less_mult)
  then have "unat (push_bit 15 (rx2 s) + drop_bit 1 (rx1 s)) = 2^15 * unat (rx2 s) + unat (rx1 s) div 2"
    using wf by (simp add: unat_word_ariths push_bit_eq_mult unat_drop_bit_eq_div)
  also have "\<dots> = X_of s div 2^17"
  proof -
    have "(a + 65536 * b + 131072 * d) div 131072 = d + b div 2" if "a < 65536" for a b d :: nat
      using that div_mult2_eq [of "a + 65536 * b" 65536 2] by simp
    from this [of "unat (rx0 s)" "unat (rx1 s)" "32768 * unat (rx2 s)"] wf show ?thesis
      by (simp add: X_of_def limbs_def)
  qed
  finally have u: "unat (push_bit 15 (rx2 s) + drop_bit 1 (rx1 s)) = X_of s div 2^17" .
  have "X_of s div 2^17 < 2^31"
    using limbs_less [OF assms] by (simp add: div_less_iff_less_mult)
  with u show ?thesis
    by (subst sint_small) simp_all
qed

lemma rand48_wf_seed [simp]: "rand48_wf (redisSrand48 seed)"
  by (simp add: rand48_wf_def redisSrand48_def SEED_def div_less_iff_less_mult)

lemma X_of_seed: "X_of (redisSrand48 seed) = 2^16 * unat seed + 0x330E"
proof -
  have "2^16 * r + 2^32 * q = 2^16 * (q * 65536 + r :: nat)" for q r
    by simp
  from this [of "unat seed mod 65536" "unat seed div 65536"] show ?thesis
    by (simp add: X_of_def limbs_def redisSrand48_def SEED_def)
qed

lemma A_of_seed: "A_of (redisSrand48 seed) = 0x5DEECE66D" "unat (rc (redisSrand48 seed)) = 0xB"
  by (simp_all add: A_of_def limbs_def redisSrand48_def SEED_def)

lemma iterate_next:
  assumes "rand48_wf s"
  shows "rand48_wf ((next_rand ^^ n) s)
    \<and> A_of ((next_rand ^^ n) s) = A_of s \<and> rc ((next_rand ^^ n) s) = rc s
    \<and> X_of ((next_rand ^^ n) s) = (lcg48 (A_of s) (unat (rc s)) ^^ n) (X_of s)"
proof (induction n)
  case 0
  then show ?case using assms by simp
next
  case (Suc n)
  then show ?case
    using next_rand_eq [of "(next_rand ^^ n) s"]
    by (simp add: A_of_def redis_simps)
qed

text \<open>The state left by \<^verbatim>\<open>n\<close> calls of \<^verbatim>\<open>redisLrand48\<close>.\<close>

fun lrand_calls :: "nat \<Rightarrow> rand48 \<Rightarrow> int list \<times> rand48" where
  "lrand_calls 0 s = ([], s)"
| "lrand_calls (Suc n) s =
     (let (v, s1) = redisLrand48 s; (vs, s2) = lrand_calls n s1 in (v # vs, s2))"

lemma lrand_calls_eq:
  "rand48_wf s \<Longrightarrow> fst (lrand_calls n s)
     = map (\<lambda>i. int (X_of ((next_rand ^^ Suc i) s) div 2^17)) [0..<n]"
proof (induction n arbitrary: s)
  case 0
  then show ?case by simp
next
  case (Suc n)
  let ?s = "next_rand s"
  from Suc.prems have wf: "rand48_wf ?s" by (rule next_rand_eq(2))
  have "fst (lrand_calls (Suc n) s) = int (X_of ?s div 2^17) # fst (lrand_calls n ?s)"
    using rand48_output [OF wf] by (simp add: redisLrand48_def Let_def split: prod.split)
  also have "fst (lrand_calls n ?s)
      = map (\<lambda>i. int (X_of ((next_rand ^^ Suc i) ?s) div 2^17)) [0..<n]"
    by (rule Suc.IH [OF wf])
  also have "\<dots> = map (\<lambda>i. int (X_of ((next_rand ^^ Suc i) s) div 2^17)) [1..<Suc n]"
    by (simp add: map_Suc_upt [symmetric] funpow_swap1 del: upt_Suc map_Suc_upt)
  finally show ?case
    by (simp add: upt_conv_Cons del: upt_Suc)
qed

section \<open>Properties\<close>

text \<open>C23: after \<^verbatim>\<open>redisSrand48(seed)\<close>, the values of the first \<^verbatim>\<open>n\<close> calls of
  \<^verbatim>\<open>redisLrand48\<close> are the top 31 bits of the successive terms of the linear congruential
  sequence \<open>x' = (0x5DEECE66D x + 11) mod 2^48\<close> started at \<open>seed * 2^16 + 0x330E\<close>: the
  limb arithmetic with its carries loses nothing, for every seed and every length.\<close>

theorem redisLrand48_is_lcg:
  "fst (lrand_calls n (redisSrand48 seed))
   = map (\<lambda>i. int ((lcg48 0x5DEECE66D 0xB ^^ Suc i) (2^16 * unat seed + 0x330E) div 2^17)) [0..<n]"
  by (simp only: lrand_calls_eq [OF rand48_wf_seed] A_of_seed X_of_seed
      conjunct2 [OF conjunct2 [OF conjunct2 [OF iterate_next [OF rand48_wf_seed]]]])

end
