(* ===== verification/RedisZmalloc.thy ===== *)
theory RedisZmalloc
  imports RTFSC_Prelude
begin

text \<open>
  The allocation wrapper of redis 2.2 (\<^verbatim>\<open>zmalloc.c\<close>), in the configuration without
  \<^verbatim>\<open>HAVE_MALLOC_SIZE\<close>: every block carries its size in a \<^verbatim>\<open>size_t\<close> prefix and the file
  keeps the sum of the rounded block sizes in \<^verbatim>\<open>used_memory\<close>.  The state holds the static
  variables and the prefixes of the live blocks, by real address.  What the C library's
  \<^verbatim>\<open>malloc\<close> and \<^verbatim>\<open>realloc\<close> answer is an argument of each operation: \<^const>\<open>None\<close> for a null
  pointer, and otherwise the address.  The mutex is held for one addition only and is taken
  as that atomic addition.
\<close>

section \<open>State\<close>

record zheap =
  used_memory :: u64
  zmalloc_thread_safe :: bool
  prefixes :: "u64 \<rightharpoonup> u64"

datatype zerror =
    Oom u64        \<comment> \<open>\<^verbatim>\<open>zmalloc_oom(size)\<close> aborts the process\<close>
  | BadPointer u64 \<comment> \<open>the prefix of a pointer that no live block owns is read\<close>

definition PREFIX_SIZE :: u64 where
  "PREFIX_SIZE = 8"

definition zheap_init :: zheap where
  "zheap_init = \<lparr>used_memory = 0, zmalloc_thread_safe = False, prefixes = Map.empty\<rparr>"

section \<open>Statistics macros\<close>

text \<open>\<^verbatim>\<open>if (_n&(sizeof(long)-1)) _n += sizeof(long)-(_n&(sizeof(long)-1));\<close>\<close>

definition round_long :: "u64 \<Rightarrow> u64" where
  "round_long n = (if n AND 7 \<noteq> 0 then n + (8 - (n AND 7)) else n)"

definition update_zmalloc_stat_alloc :: "u64 \<Rightarrow> zheap \<Rightarrow> zheap" where
  "update_zmalloc_stat_alloc n s = s\<lparr>used_memory := used_memory s + round_long n\<rparr>"

definition update_zmalloc_stat_free :: "u64 \<Rightarrow> zheap \<Rightarrow> zheap" where
  "update_zmalloc_stat_free n s = s\<lparr>used_memory := used_memory s - round_long n\<rparr>"

section \<open>Operations\<close>

definition zmalloc :: "u64 \<Rightarrow> u64 option \<Rightarrow> zheap \<Rightarrow> zerror + u64 \<times> zheap" where
  "zmalloc sz ptr s =
     (case ptr of
        None \<Rightarrow> Inl (Oom sz)
      | Some p \<Rightarrow>
          (let s = s\<lparr>prefixes := (prefixes s)(p \<mapsto> sz)\<rparr>;
               s = update_zmalloc_stat_alloc (sz + PREFIX_SIZE) s
           in Inr (p + PREFIX_SIZE, s)))"

text \<open>\<^verbatim>\<open>zcalloc\<close> differs from \<^verbatim>\<open>zmalloc\<close> in the zeroed contents, which the state does not hold.\<close>

definition zcalloc :: "u64 \<Rightarrow> u64 option \<Rightarrow> zheap \<Rightarrow> zerror + u64 \<times> zheap" where
  "zcalloc sz ptr s =
     (case ptr of
        None \<Rightarrow> Inl (Oom sz)
      | Some p \<Rightarrow>
          (let s = s\<lparr>prefixes := (prefixes s)(p \<mapsto> sz)\<rparr>;
               s = update_zmalloc_stat_alloc (sz + PREFIX_SIZE) s
           in Inr (p + PREFIX_SIZE, s)))"

definition zrealloc :: "u64 \<Rightarrow> u64 \<Rightarrow> u64 option \<Rightarrow> zheap \<Rightarrow> zerror + u64 \<times> zheap" where
  "zrealloc ptr sz newptr s =
     (if ptr = 0 then zmalloc sz newptr s
      else
        let realptr = ptr - PREFIX_SIZE in
        case prefixes s realptr of
          None \<Rightarrow> Inl (BadPointer ptr)
        | Some oldsize \<Rightarrow>
            (case newptr of
               None \<Rightarrow> Inl (Oom sz)
             | Some p \<Rightarrow>
                 (let s = s\<lparr>prefixes := ((prefixes s)(realptr := None))(p \<mapsto> sz)\<rparr>;
                      s = update_zmalloc_stat_free oldsize s;
                      s = update_zmalloc_stat_alloc sz s
                  in Inr (p + PREFIX_SIZE, s))))"

definition zfree :: "u64 \<Rightarrow> zheap \<Rightarrow> zerror + zheap" where
  "zfree ptr s =
     (if ptr = 0 then Inr s
      else
        let realptr = ptr - PREFIX_SIZE in
        case prefixes s realptr of
          None \<Rightarrow> Inl (BadPointer ptr)
        | Some oldsize \<Rightarrow>
            (let s = update_zmalloc_stat_free (oldsize + PREFIX_SIZE) s
             in Inr (s\<lparr>prefixes := (prefixes s)(realptr := None)\<rparr>)))"

text \<open>\<^verbatim>\<open>zstrdup\<close> allocates \<^verbatim>\<open>strlen(s)+1\<close> bytes; the copied bytes are its second result.\<close>

definition zstrdup :: "string \<Rightarrow> u64 option \<Rightarrow> zheap \<Rightarrow> zerror + (u64 \<times> string) \<times> zheap" where
  "zstrdup str ptr s =
     (let l = word_of_nat (length str) + 1 in
      case zmalloc l ptr s of Inl e \<Rightarrow> Inl e | Inr (p, s') \<Rightarrow> Inr ((p, str), s'))"

definition zmalloc_used_memory :: "zheap \<Rightarrow> u64" where
  "zmalloc_used_memory s = used_memory s"

definition zmalloc_enable_thread_safeness :: "zheap \<Rightarrow> zheap" where
  "zmalloc_enable_thread_safeness s = s\<lparr>zmalloc_thread_safe := True\<rparr>"

section \<open>Resident set size\<close>

text \<open>\<^verbatim>\<open>strchr(p,' ')\<close>, then one past it: the rest of the string after the first blank.\<close>

fun after_blank :: "string \<Rightarrow> string option" where
  "after_blank [] = None"
| "after_blank (ch # cs) = (if ch = CHR '' '' then Some cs else after_blank cs)"

text \<open>\<^verbatim>\<open>while(p && count--) { p = strchr(p,' '); if (p) p++; }\<close>\<close>

fun skip_fields :: "nat \<Rightarrow> string \<Rightarrow> string option" where
  "skip_fields 0 p = Some p"
| "skip_fields (Suc count) p =
     (case after_blank p of None \<Rightarrow> None | Some p' \<Rightarrow> skip_fields count p')"

text \<open>\<^verbatim>\<open>strtoll\<close> is an argument; \<^verbatim>\<open>stat\<close> is what \<^verbatim>\<open>/proc/<pid>/stat\<close> holds, if it can be read.\<close>

definition zmalloc_get_rss :: "(string \<Rightarrow> u64) \<Rightarrow> u64 \<Rightarrow> string option \<Rightarrow> u64" where
  "zmalloc_get_rss strtoll page stat =
     (case stat of
        None \<Rightarrow> 0
      | Some buf \<Rightarrow>
          (case skip_fields 23 buf of
             None \<Rightarrow> 0
           | Some p \<Rightarrow>
               (case after_blank p of
                  None \<Rightarrow> 0
                | Some _ \<Rightarrow> strtoll (takeWhile (\<lambda>ch. ch \<noteq> CHR '' '') p) * page)))"

section \<open>Rounding\<close>

lemma unat_and_7: "unat (n AND 7 :: u64) = unat n mod 8"
proof -
  have "n AND 7 = take_bit 3 n"
    by (simp add: take_bit_eq_mask mask_eq_exp_minus_1)
  then have "unat (n AND 7) = take_bit 3 (unat n)"
    by (simp only: unsigned_take_bit_eq)
  then show ?thesis by (simp add: take_bit_eq_mod)
qed

lemma and_7_add_8 [simp]: "(n + 8) AND 7 = n AND 7" for n :: u64
  by (simp add: word_unat_eq_iff unat_and_7 unat_word_ariths mod_mod_cancel)

lemma round_long_add_8: "round_long (n + 8) = round_long n + 8"
  by (simp add: round_long_def)

lemma round_long_aligned: "round_long n AND 7 = 0"
proof -
  have "unat (n - (n AND 7)) = unat n - unat n mod 8"
    by (subst unat_sub) (simp_all add: word_le_nat_alt unat_and_7)
  then have "(n - (n AND 7)) AND 7 = 0"
    by (simp add: word_unat_eq_iff unat_and_7 minus_mod_eq_mult_div)
  moreover have "n + (8 - (n AND 7)) = (n - (n AND 7)) + 8" by simp
  ultimately show ?thesis
    by (simp only: round_long_def and_7_add_8 split: if_split) simp
qed

section \<open>Accounting\<close>

text \<open>What the live blocks weigh: each one its rounded size with the prefix.  The sum is taken
  in \<^typ>\<open>u64\<close>, so it is exact modulo \<^term>\<open>2 ^ 64\<close> whatever is allocated.\<close>

definition block_weight :: "u64 \<Rightarrow> u64" where
  "block_weight sz = round_long (sz + PREFIX_SIZE)"

definition live_weight :: "(u64 \<rightharpoonup> u64) \<Rightarrow> u64" where
  "live_weight m = (\<Sum>p\<in>dom m. block_weight (the (m p)))"

definition accounted :: "zheap \<Rightarrow> bool" where
  "accounted s \<longleftrightarrow> finite (dom (prefixes s)) \<and> used_memory s = live_weight (prefixes s)"

lemma live_weight_insert:
  assumes "finite (dom m)" and "p \<notin> dom m"
  shows "live_weight (m(p \<mapsto> sz)) = live_weight m + block_weight sz"
proof -
  have "(\<Sum>q\<in>dom m. block_weight (the ((m(p \<mapsto> sz)) q))) = live_weight m"
    unfolding live_weight_def using assms(2) by (intro sum.cong) auto
  then show ?thesis
    using assms by (simp add: live_weight_def add.commute)
qed

lemma live_weight_delete:
  assumes "finite (dom m)" and "m p = Some sz"
  shows "live_weight (m(p := None)) = live_weight m - block_weight sz"
proof -
  let ?m = "m(p := None)"
  have "finite (dom ?m)" "p \<notin> dom ?m"
    using assms by simp_all
  from live_weight_insert [OF this, of sz] have "live_weight (?m(p \<mapsto> sz)) = live_weight ?m + block_weight sz" .
  moreover have "?m(p \<mapsto> sz) = m"
    using assms(2) by auto
  ultimately show ?thesis by simp
qed

section \<open>Every operation keeps the account\<close>

lemma zmalloc_accounted:
  assumes "accounted s" and "zmalloc sz (Some p) s = Inr (q, s')" and "p \<notin> dom (prefixes s)"
  shows "accounted s'"
  using assms live_weight_insert [of "prefixes s" p sz]
  by (auto simp: accounted_def zmalloc_def update_zmalloc_stat_alloc_def block_weight_def Let_def)

lemma zmalloc_zfree:
  assumes "zmalloc sz (Some p) s = Inr (q, s')" and "prefixes s p = None" and "p + PREFIX_SIZE \<noteq> 0"
  shows "zfree q s' = Inr s"
  using assms
  by (auto simp: zmalloc_def zfree_def update_zmalloc_stat_alloc_def update_zmalloc_stat_free_def
      PREFIX_SIZE_def Let_def fun_upd_idem)

lemma zcalloc_eq_zmalloc: "zcalloc = zmalloc"
  by (intro ext) (simp add: zcalloc_def zmalloc_def)

lemma zfree_accounted:
  assumes "accounted s" and "zfree ptr s = Inr s'"
  shows "accounted s'"
  using assms live_weight_delete [of "prefixes s" "ptr - PREFIX_SIZE"]
  by (auto simp: accounted_def zfree_def update_zmalloc_stat_free_def block_weight_def Let_def
      split: if_splits option.splits)

text \<open>\<^verbatim>\<open>zrealloc\<close> accounts for the sizes without the prefix on both sides; the difference is
  the same because the prefix is a multiple of the rounding.\<close>

lemma zrealloc_accounted:
  assumes "accounted s" and "zrealloc ptr sz (Some p) s = Inr (q, s')"
    and "p \<notin> dom ((prefixes s)(ptr - PREFIX_SIZE := None))"
    and "ptr = 0 \<Longrightarrow> p \<notin> dom (prefixes s)"
  shows "accounted s'"
proof (cases "ptr = 0")
  case True
  then show ?thesis
    using assms zmalloc_accounted by (simp add: zrealloc_def)
next
  case False
  let ?r = "ptr - PREFIX_SIZE"
  from assms(2) False obtain old where old: "prefixes s ?r = Some old"
    by (auto simp: zrealloc_def Let_def split: option.splits)
  have fin: "finite (dom (prefixes s))" and um: "used_memory s = live_weight (prefixes s)"
    using assms(1) by (simp_all add: accounted_def)
  have "s' = s\<lparr>prefixes := ((prefixes s)(?r := None))(p \<mapsto> sz),
               used_memory := used_memory s - round_long old + round_long sz\<rparr>"
    using assms(2) False old
    by (auto simp: zrealloc_def Let_def update_zmalloc_stat_free_def update_zmalloc_stat_alloc_def)
  moreover have "live_weight (((prefixes s)(?r := None))(p \<mapsto> sz))
      = live_weight (prefixes s) - block_weight old + block_weight sz"
    using live_weight_insert [of "(prefixes s)(?r := None)" p sz] fin assms(3)
      live_weight_delete [OF fin old] by simp
  ultimately show ?thesis
    using fin um by (simp add: accounted_def block_weight_def PREFIX_SIZE_def round_long_add_8)
qed

section \<open>Runs\<close>

datatype zop =
    Zmalloc u64 "u64 option"
  | Zcalloc u64 "u64 option"
  | Zrealloc u64 u64 "u64 option"
  | Zfree u64
  | EnableThreadSafeness

fun zstep :: "zop \<Rightarrow> zheap \<Rightarrow> zerror + zheap" where
  "zstep (Zmalloc sz p) s = map_sum id snd (zmalloc sz p s)"
| "zstep (Zcalloc sz p) s = map_sum id snd (zcalloc sz p s)"
| "zstep (Zrealloc ptr sz p) s = map_sum id snd (zrealloc ptr sz p s)"
| "zstep (Zfree ptr) s = zfree ptr s"
| "zstep EnableThreadSafeness s = Inr (zmalloc_enable_thread_safeness s)"

text \<open>The promise of the C library: a new block does not overlap a live one.\<close>

fun malloc_fresh :: "zop \<Rightarrow> zheap \<Rightarrow> bool" where
  "malloc_fresh (Zmalloc sz p) s = (\<forall>a. p = Some a \<longrightarrow> prefixes s a = None)"
| "malloc_fresh (Zcalloc sz p) s = (\<forall>a. p = Some a \<longrightarrow> prefixes s a = None)"
| "malloc_fresh (Zrealloc ptr sz p) s =
     (\<forall>a. p = Some a \<longrightarrow> prefixes s a = None \<or> ptr \<noteq> 0 \<and> a = ptr - PREFIX_SIZE)"
| "malloc_fresh (Zfree ptr) s = True"
| "malloc_fresh EnableThreadSafeness s = True"

lemma map_sum_snd_Inr: "map_sum id snd r = Inr s \<longleftrightarrow> (\<exists>q. r = Inr (q, s))"
  by (cases r) auto

lemma zmalloc_None [simp]: "zmalloc sz None s = Inl (Oom sz)"
  by (simp add: zmalloc_def)

lemma zrealloc_None: "zrealloc ptr sz None s \<noteq> Inr r"
  by (auto simp: zrealloc_def Let_def split: option.splits)

lemma zstep_accounted:
  assumes "accounted s" and "malloc_fresh x s" and "zstep x s = Inr s'"
  shows "accounted s'"
proof (cases x)
  case (Zmalloc sz p)
  then show ?thesis
    using assms zmalloc_accounted [of s sz "the p"] by (cases p) (auto simp: map_sum_snd_Inr)
next
  case (Zcalloc sz p)
  then show ?thesis
    using assms zmalloc_accounted [of s sz "the p"] by (cases p) (auto simp: map_sum_snd_Inr zcalloc_eq_zmalloc)
next
  case (Zrealloc ptr sz p)
  then show ?thesis
    using assms zrealloc_accounted [of s ptr sz]
    by (cases p) (auto simp: map_sum_snd_Inr zrealloc_None)
next
  case (Zfree ptr)
  then show ?thesis
    using assms zfree_accounted by simp
next
  case EnableThreadSafeness
  then show ?thesis
    using assms by (auto simp: zmalloc_enable_thread_safeness_def accounted_def)
qed

interpretation zm: guarded_machine zstep malloc_fresh accounted
  by unfold_locales (rule zstep_accounted)

section \<open>Fields of a status line\<close>

lemma after_blank_append:
  "CHR '' '' \<notin> set f \<Longrightarrow> after_blank (f @ CHR '' '' # rest) = Some rest"
  by (induction f) auto

lemma skip_fields_concat:
  assumes "\<forall>f\<in>set fs. CHR '' '' \<notin> set f"
  shows "skip_fields (length fs) (concat (map (\<lambda>f. f @ '' '') fs) @ rest) = Some rest"
  using assms
proof (induction fs)
  case Nil
  then show ?case by simp
next
  case (Cons f fs)
  then show ?case
    using after_blank_append [of f "concat (map (\<lambda>f. f @ '' '') fs) @ rest"] by simp
qed

section \<open>Properties\<close>

text \<open>C24: after any run of \<^verbatim>\<open>zmalloc\<close>, \<^verbatim>\<open>zcalloc\<close>, \<^verbatim>\<open>zrealloc\<close> and \<^verbatim>\<open>zfree\<close> in which the C
  library hands out unused addresses, \<^verbatim>\<open>zmalloc_used_memory()\<close> is the sum over the live blocks
  of their sizes with the prefix, rounded up to a multiple of \<^verbatim>\<open>sizeof(long)\<close> - although
  \<^verbatim>\<open>zrealloc\<close> adds and subtracts sizes without the prefix.\<close>

theorem zmalloc_accounting:
  assumes "guarded_run malloc_fresh zstep xs zheap_init"
    and "run_ops zstep xs zheap_init = Inr s"
  shows "zmalloc_used_memory s
       = (\<Sum>p\<in>dom (prefixes s). round_long (the (prefixes s p) + PREFIX_SIZE))"
proof -
  have "accounted zheap_init"
    by (simp add: accounted_def zheap_init_def live_weight_def)
  from zm.run_inv [OF this assms] show ?thesis
    by (simp add: accounted_def live_weight_def block_weight_def zmalloc_used_memory_def)
qed

theorem zmalloc_accounting_witness:
  "let s = \<lparr>used_memory = 32, zmalloc_thread_safe = False, prefixes = [4096 \<mapsto> (20::u64)]\<rparr>
   in zmalloc_used_memory s
      = (\<Sum>p\<in>dom (prefixes s). round_long (the (prefixes s p) + PREFIX_SIZE))"
proof -
  let ?xs = "[Zmalloc 5 (Some 64), Zmalloc 3 (Some 1024), Zrealloc 72 20 (Some 4096), Zfree 1032]"
  have eq: "((Map.empty((64::u64) \<mapsto> 5, 1024 \<mapsto> 3))(64 := None, 4096 \<mapsto> 20))(1024 := None) = [4096 \<mapsto> (20::u64)]"
    by auto
  have "guarded_run malloc_fresh zstep ?xs zheap_init"
    by (simp add: zmalloc_def zrealloc_def zfree_def zheap_init_def PREFIX_SIZE_def Let_def
        update_zmalloc_stat_alloc_def update_zmalloc_stat_free_def)
  moreover have "run_ops zstep ?xs zheap_init
      = Inr \<lparr>used_memory = 32, zmalloc_thread_safe = False, prefixes = [4096 \<mapsto> 20]\<rparr>"
    using eq by (simp add: zmalloc_def zrealloc_def zfree_def zheap_init_def PREFIX_SIZE_def Let_def
        update_zmalloc_stat_alloc_def update_zmalloc_stat_free_def round_long_def)
  ultimately show ?thesis
    unfolding Let_def by (rule zmalloc_accounting)
qed

text \<open>For a status line of blank-separated fields with at least 25 of them, none holding a
  blank itself, \<^verbatim>\<open>zmalloc_get_rss\<close> is the 24th field (the resident pages) times the page
  size.\<close>

theorem zmalloc_get_rss_field:
  assumes "\<forall>f\<in>set fs. CHR '' '' \<notin> set f" and "24 \<le> length fs"
  shows "zmalloc_get_rss strtoll page (Some (concat (map (\<lambda>f. f @ '' '') fs) @ rest))
       = strtoll (fs ! 23) * page"
proof -
  let ?row = "\<lambda>fs. concat (map (\<lambda>f. f @ '' '') fs)"
  have split: "fs = take 23 fs @ fs ! 23 # drop 24 fs"
    using assms(2) id_take_nth_drop [of 23 fs] by simp
  let ?tail = "?row (drop 24 fs) @ rest"
  have noblank: "CHR '' '' \<notin> set (fs ! 23)"
    using assms by simp
  have "?row fs @ rest = ?row (take 23 fs) @ (fs ! 23 @ CHR '' '' # ?tail)"
    by (subst split) simp
  moreover have "length (take 23 fs) = 23" and "\<forall>f\<in>set (take 23 fs). CHR '' '' \<notin> set f"
    using assms by (auto dest: in_set_takeD)
  ultimately have "skip_fields 23 (?row fs @ rest) = Some (fs ! 23 @ CHR '' '' # ?tail)"
    using skip_fields_concat [of "take 23 fs"] by metis
  moreover have "takeWhile (\<lambda>ch. ch \<noteq> CHR '' '') (fs ! 23 @ CHR '' '' # ?tail) = fs ! 23"
    using noblank by (rule takeWhile_until)
  ultimately show ?thesis
    using after_blank_append [OF noblank] by (simp add: zmalloc_get_rss_def)
qed

theorem zmalloc_get_rss_field_witness:
  "zmalloc_get_rss (\<lambda>str. word_of_nat (length str)) 4096
     (Some (concat (map (\<lambda>f. f @ '' '') (replicate 23 ''1'' @ [''812'', ''9''])) @ []))
   = 3 * 4096"
  by (subst zmalloc_get_rss_field) (simp_all add: nth_append)

end
