(* ===== verification/RedisVmPages.thy ===== *)
theory RedisVmPages
  imports RTFSC_Prelude
begin

text \<open>
  The page table of the redis 2.2 virtual memory (\<^verbatim>\<open>VM/vm.c\<close>): one bit of \<^verbatim>\<open>server.vm_bitmap\<close> per
  page of the swap file, the marking of page ranges with their assertions, and the search for
  contiguous free pages with its forward jumps.  \<^verbatim>\<open>off_t\<close> values are integers; the readings of
  \<^verbatim>\<open>random()\<close> are a function of the number of calls so far.  The record is extended by the server
  state of \<open>RedisVm\<close>, so the operations work on any extension of it.
\<close>

section \<open>State\<close>

abbreviation REDIS_VM_MAX_NEAR_PAGES :: int where "REDIS_VM_MAX_NEAR_PAGES \<equiv> 65536"
abbreviation REDIS_VM_MAX_RANDOM_JUMP :: int where "REDIS_VM_MAX_RANDOM_JUMP \<equiv> 4096"

record vm_table =
  vm_bitmap :: "u8 list"
  vm_pages :: int
  vm_next_page :: int
  vm_near_pages :: int
  vm_stats_used_pages :: int
  random_calls :: nat

datatype vm_error =
    AssertFailed  \<comment> \<open>a \<open>redisAssert\<close> stops the server\<close>
  | Exited  \<comment> \<open>the process exits after an unrecoverable error\<close>
  | Dangling  \<comment> \<open>an access through the pointer of a freed object\<close>
  | Panicked  \<comment> \<open>\<^verbatim>\<open>redisPanic\<close>\<close>
  | Busy  \<comment> \<open>an I/O thread is at work on the job: the caller waits and tries again\<close>

section \<open>Operations\<close>

definition vmFreePage :: "int \<Rightarrow> 'a vm_table_scheme \<Rightarrow> bool" where
  "vmFreePage page s =
     (let byte = cdiv page 8; bt = page AND 7
      in vm_bitmap s ! nat byte AND push_bit (nat bt) 1 = 0)"

definition vmMarkPageUsed :: "int \<Rightarrow> 'a vm_table_scheme \<Rightarrow> vm_error + 'a vm_table_scheme" where
  "vmMarkPageUsed page s =
     (let byte = cdiv page 8; bt = page AND 7
      in if vmFreePage page s
         then Inr (s\<lparr>vm_bitmap := (vm_bitmap s)[nat byte := vm_bitmap s ! nat byte OR push_bit (nat bt) 1]\<rparr>)
         else Inl AssertFailed)"

definition vmMarkPageFree :: "int \<Rightarrow> 'a vm_table_scheme \<Rightarrow> vm_error + 'a vm_table_scheme" where
  "vmMarkPageFree page s =
     (let byte = cdiv page 8; bt = page AND 7
      in if \<not> vmFreePage page s
         then Inr (s\<lparr>vm_bitmap := (vm_bitmap s)[nat byte := vm_bitmap s ! nat byte AND NOT (push_bit (nat bt) 1)]\<rparr>)
         else Inl AssertFailed)"

text \<open>The loops over \<open>n\<close> pages.\<close>

fun mark_each ::
  "(int \<Rightarrow> 's \<Rightarrow> vm_error + 's) \<Rightarrow> int \<Rightarrow> nat \<Rightarrow> 's \<Rightarrow> vm_error + 's" where
  "mark_each mark page 0 s = Inr s"
| "mark_each mark page (Suc n) s =
     (case mark page s of Inl e \<Rightarrow> Inl e | Inr s' \<Rightarrow> mark_each mark (page + 1) n s')"

definition vmMarkPagesUsed :: "int \<Rightarrow> int \<Rightarrow> 'a vm_table_scheme \<Rightarrow> vm_error + 'a vm_table_scheme" where
  "vmMarkPagesUsed page count s =
     (case mark_each vmMarkPageUsed page (nat count) s of
        Inl e \<Rightarrow> Inl e | Inr s \<Rightarrow> Inr (s\<lparr>vm_stats_used_pages := vm_stats_used_pages s + count\<rparr>))"

definition vmMarkPagesFree :: "int \<Rightarrow> int \<Rightarrow> 'a vm_table_scheme \<Rightarrow> vm_error + 'a vm_table_scheme" where
  "vmMarkPagesFree page count s =
     (case mark_each vmMarkPageFree page (nat count) s of
        Inl e \<Rightarrow> Inl e | Inr s \<Rightarrow> Inr (s\<lparr>vm_stats_used_pages := vm_stats_used_pages s - count\<rparr>))"

text \<open>The loop of \<^verbatim>\<open>vmFindContiguousPages\<close> over its four locals and the number of calls of
  \<^verbatim>\<open>random()\<close>.  A success is the page the run of \<open>n\<close> pages ends at.  A jump may have length 0,
  but then \<open>since_jump\<close> is 0 and the next iteration advances.\<close>

function find_loop ::
  "(nat \<Rightarrow> nat) \<Rightarrow> (int \<Rightarrow> bool) \<Rightarrow> int \<Rightarrow> int \<Rightarrow> int \<Rightarrow> int \<Rightarrow> int \<Rightarrow> int \<Rightarrow> nat \<Rightarrow> int option \<times> nat" where
  "find_loop rnd free pages base n offset since_jump numfree r =
     (if offset < pages then
        let page = base + offset;
            (page, numfree) =
              (if page \<ge> pages
               then let page = page - pages in (page, if page = 0 then 0 else numfree)
               else (page, numfree))
        in if free page \<and> numfree + 1 = n then (Some page, r)
           else
             let numfree = (if free page then numfree + 1 else 0);
                 since_jump = since_jump + 1
             in if numfree = 0 \<and> since_jump \<ge> REDIS_VM_MAX_RANDOM_JUMP div 4
                then find_loop rnd free pages base n
                       (offset + int (rnd r) mod REDIS_VM_MAX_RANDOM_JUMP) 0 numfree (Suc r)
                else find_loop rnd free pages base n (offset + 1) since_jump numfree r
      else (None, r))"
  by pat_completeness auto

termination
proof (relation "measure (\<lambda>(rnd, free, pages, base, n, offset, since_jump, numfree, r).
    2 * nat (pages - offset) + (if since_jump \<ge> 1023 then 1 else 0))", goal_cases)
  case 1
  then show ?case by simp
next
  case (2 rnd free pages base n offset since_jump numfree r)
  have "0 \<le> int (rnd r) mod REDIS_VM_MAX_RANDOM_JUMP" by simp
  then have "nat (pages - (offset + int (rnd r) mod REDIS_VM_MAX_RANDOM_JUMP)) \<le> nat (pages - offset)"
    by linarith
  with 2 show ?case by simp
next
  case (3 rnd free pages base n offset since_jump numfree r)
  then show ?case by auto
qed

definition vmFindContiguousPages ::
  "(nat \<Rightarrow> nat) \<Rightarrow> int \<Rightarrow> 'a vm_table_scheme \<Rightarrow> int option \<times> 'a vm_table_scheme" where
  "vmFindContiguousPages rnd n s =
     (let s = (if vm_near_pages s = REDIS_VM_MAX_NEAR_PAGES
               then s\<lparr>vm_near_pages := 0, vm_next_page := 0\<rparr> else s);
          s = s\<lparr>vm_near_pages := vm_near_pages s + 1\<rparr>;
          (found, r) = find_loop rnd (\<lambda>p. vmFreePage p s) (vm_pages s) (vm_next_page s) n 0 0 0 (random_calls s);
          s = s\<lparr>random_calls := r\<rparr>
      in case found of
           None \<Rightarrow> (None, s)
         | Some page \<Rightarrow> (Some (page - (n - 1)), s\<lparr>vm_next_page := page + 1\<rparr>))"

section \<open>The bitmap as a set of pages\<close>

definition table_ok :: "'a vm_table_scheme \<Rightarrow> bool" where
  "table_ok s \<longleftrightarrow> 0 \<le> vm_pages s \<and> int (length (vm_bitmap s)) = (vm_pages s + 7) div 8
     \<and> 0 \<le> vm_next_page s \<and> vm_next_page s \<le> vm_pages s"

definition used_set :: "'a vm_table_scheme \<Rightarrow> int set" where
  "used_set s = {p. 0 \<le> p \<and> p < vm_pages s \<and> \<not> vmFreePage p s}"

lemma and_7: "(p :: int) AND 7 = p mod 8"
  using take_bit_eq_mask [of 3 p] by (simp add: take_bit_eq_mod mask_eq_exp_minus_1)

lemma page_split: "(p :: int) = q \<longleftrightarrow> p div 8 = q div 8 \<and> p mod 8 = q mod 8"
  by (metis mult_div_mod_eq)

lemma free_page_bit:
  "0 \<le> p \<Longrightarrow> vmFreePage p s \<longleftrightarrow> \<not> bit (vm_bitmap s ! nat (p div 8)) (nat (p mod 8))"
  by (simp add: vmFreePage_def Let_def and_7 and_exp_eq_0_iff_not_bit)

lemma table_index: "table_ok s \<Longrightarrow> 0 \<le> p \<Longrightarrow> p < vm_pages s \<Longrightarrow> nat (p div 8) < length (vm_bitmap s)"
  unfolding table_ok_def by linarith

text \<open>Rewriting one byte changes the pages of that byte only.\<close>

lemma free_page_update:
  assumes "0 \<le> p" "0 \<le> q" "nat (p div 8) < length (vm_bitmap s)"
  shows "vmFreePage q (s\<lparr>vm_bitmap := (vm_bitmap s)[nat (p div 8) := w]\<rparr>)
     \<longleftrightarrow> (if q div 8 = p div 8 then \<not> bit w (nat (q mod 8)) else vmFreePage q s)"
proof -
  have "nat (p div 8) = nat (q div 8) \<longleftrightarrow> q div 8 = p div 8"
    using assms(1,2) by (auto simp: eq_nat_nat_iff)
  then show ?thesis
    using assms by (cases "q div 8 = p div 8") (simp_all add: free_page_bit nth_list_update)
qed

lemma same_bit:
  assumes "0 \<le> p" "0 \<le> q" "q div 8 = p div 8"
  shows "nat (q mod 8) = nat (p mod 8) \<longleftrightarrow> q = p"
  using assms page_split [of q p] by (auto simp: eq_nat_nat_iff)

lemma bit_set: "bit (w OR push_bit b 1) n \<longleftrightarrow> bit w n \<or> n = b" if "b < 8" for w :: u8
  using that by (auto simp: bit_simps)

lemma bit_clear: "bit (w AND NOT (push_bit b 1)) n \<longleftrightarrow> bit w n \<and> n \<noteq> b" if "n < 8" for w :: u8
  using that by (auto simp: bit_simps)

lemma vmMarkPageUsed_set:
  assumes ok: "table_ok s" and p: "0 \<le> p" "p < vm_pages s" and free: "p \<notin> used_set s"
  shows "\<exists>bm. vmMarkPageUsed p s = Inr (s\<lparr>vm_bitmap := bm\<rparr>) \<and> length bm = length (vm_bitmap s)
     \<and> used_set (s\<lparr>vm_bitmap := bm\<rparr>) = insert p (used_set s)"
proof -
  let ?i = "nat (p div 8)" and ?b = "nat (p mod 8)"
  define w where "w = vm_bitmap s ! ?i OR push_bit ?b 1"
  let ?t = "s\<lparr>vm_bitmap := (vm_bitmap s)[?i := w]\<rparr>"
  have i: "?i < length (vm_bitmap s)" by (rule table_index [OF ok p])
  have b: "?b < 8" by linarith
  have "vmFreePage p s" using free p by (simp add: used_set_def)
  then have m: "vmMarkPageUsed p s = Inr ?t"
    using p by (simp add: vmMarkPageUsed_def Let_def and_7 w_def)
  have up: "vmFreePage q ?t \<longleftrightarrow> vmFreePage q s \<and> q \<noteq> p" if "0 \<le> q" for q
    unfolding free_page_update [OF p(1) that i] w_def bit_set [OF b]
    using that p(1) same_bit [OF p(1) that] by (auto simp: free_page_bit)
  have "used_set ?t = insert p (used_set s)"
    using p by (auto simp: used_set_def up)
  with m show ?thesis by (intro exI [of _ "(vm_bitmap s)[?i := w]"]) simp
qed

lemma vmMarkPageFree_set:
  assumes ok: "table_ok s" and p: "p \<in> used_set s"
  shows "\<exists>bm. vmMarkPageFree p s = Inr (s\<lparr>vm_bitmap := bm\<rparr>) \<and> length bm = length (vm_bitmap s)
     \<and> used_set (s\<lparr>vm_bitmap := bm\<rparr>) = used_set s - {p}"
proof -
  have r: "0 \<le> p" "p < vm_pages s" "\<not> vmFreePage p s" using p by (auto simp: used_set_def)
  let ?i = "nat (p div 8)" and ?b = "nat (p mod 8)"
  define w where "w = vm_bitmap s ! ?i AND NOT (push_bit ?b 1)"
  let ?t = "s\<lparr>vm_bitmap := (vm_bitmap s)[?i := w]\<rparr>"
  have i: "?i < length (vm_bitmap s)" by (rule table_index [OF ok r(1,2)])
  have m: "vmMarkPageFree p s = Inr ?t"
    using r by (simp add: vmMarkPageFree_def Let_def and_7 w_def)
  have up: "vmFreePage q ?t \<longleftrightarrow> vmFreePage q s \<or> q = p" if "0 \<le> q" for q
  proof -
    have "nat (q mod 8) < 8" by linarith
    from bit_clear [OF this, of "vm_bitmap s ! ?i" ?b, folded w_def] show ?thesis
      unfolding free_page_update [OF r(1) that i]
      using that r(1) same_bit [OF r(1) that] by (auto simp: free_page_bit)
  qed
  have "used_set ?t = used_set s - {p}"
    by (auto simp: used_set_def up)
  with m show ?thesis by (intro exI [of _ "(vm_bitmap s)[?i := w]"]) simp
qed

section \<open>Ranges of pages\<close>

text \<open>What an operation on the bitmap leaves as it was.\<close>

definition same_but_bitmap :: "'a vm_table_scheme \<Rightarrow> 'a vm_table_scheme \<Rightarrow> bool" where
  "same_but_bitmap s t \<longleftrightarrow> length (vm_bitmap t) = length (vm_bitmap s) \<and> (\<exists>bm. t = s\<lparr>vm_bitmap := bm\<rparr>)"

lemma same_but_bitmap_ok: "same_but_bitmap s t \<Longrightarrow> table_ok t = table_ok s \<and> vm_pages t = vm_pages s"
  by (auto simp: same_but_bitmap_def table_ok_def)

lemma same_but_bitmap_trans: "same_but_bitmap s t \<Longrightarrow> same_but_bitmap t u \<Longrightarrow> same_but_bitmap s u"
  by (auto simp: same_but_bitmap_def)

lemma page_range_Suc: "{p ..< p + int (Suc n)} = insert p {p + 1 ..< p + 1 + int n}" for p :: int
  by auto

lemma mark_each_used:
  assumes "table_ok s" "0 \<le> p" "p + int n \<le> vm_pages s" "{p ..< p + int n} \<inter> used_set s = {}"
  shows "\<exists>t. mark_each vmMarkPageUsed p n s = Inr t \<and> same_but_bitmap s t
     \<and> used_set t = used_set s \<union> {p ..< p + int n}"
  using assms
proof (induction n arbitrary: p s)
  case 0
  then show ?case by (auto simp: same_but_bitmap_def intro: exI [of _ "vm_bitmap s"])
next
  case (Suc n)
  have p: "p < vm_pages s" "p \<notin> used_set s"
    using Suc.prems page_range_Suc [of p n] by auto
  from vmMarkPageUsed_set [OF Suc.prems(1,2) p] obtain bm where
    m: "vmMarkPageUsed p s = Inr (s\<lparr>vm_bitmap := bm\<rparr>)" and len: "length bm = length (vm_bitmap s)"
    and u: "used_set (s\<lparr>vm_bitmap := bm\<rparr>) = insert p (used_set s)" by blast
  let ?s = "s\<lparr>vm_bitmap := bm\<rparr>"
  have sb: "same_but_bitmap s ?s"
    using len by (auto simp: same_but_bitmap_def)
  have "{p + 1 ..< p + 1 + int n} \<inter> used_set ?s = {}"
    using Suc.prems(4) unfolding u page_range_Suc by auto
  moreover have "table_ok ?s" "p + 1 + int n \<le> vm_pages ?s"
    using same_but_bitmap_ok [OF sb] Suc.prems by auto
  ultimately obtain t where t: "mark_each vmMarkPageUsed (p + 1) n ?s = Inr t" "same_but_bitmap ?s t"
    "used_set t = used_set ?s \<union> {p + 1 ..< p + 1 + int n}"
    using Suc.IH [of ?s "p + 1"] Suc.prems(2) by auto
  have "used_set t = used_set s \<union> {p ..< p + int (Suc n)}"
    unfolding t(3) u page_range_Suc by auto
  with m t same_but_bitmap_trans [OF sb t(2)] show ?case by auto
qed

lemma mark_each_free:
  assumes "table_ok s" "{p ..< p + int n} \<subseteq> used_set s"
  shows "\<exists>t. mark_each vmMarkPageFree p n s = Inr t \<and> same_but_bitmap s t
     \<and> used_set t = used_set s - {p ..< p + int n}"
  using assms
proof (induction n arbitrary: p s)
  case 0
  then show ?case by (auto simp: same_but_bitmap_def intro: exI [of _ "vm_bitmap s"])
next
  case (Suc n)
  have p: "p \<in> used_set s" using Suc.prems page_range_Suc [of p n] by auto
  from vmMarkPageFree_set [OF Suc.prems(1) p] obtain bm where
    m: "vmMarkPageFree p s = Inr (s\<lparr>vm_bitmap := bm\<rparr>)" and len: "length bm = length (vm_bitmap s)"
    and u: "used_set (s\<lparr>vm_bitmap := bm\<rparr>) = used_set s - {p}" by blast
  let ?s = "s\<lparr>vm_bitmap := bm\<rparr>"
  have sb: "same_but_bitmap s ?s"
    using len by (auto simp: same_but_bitmap_def)
  have "{p + 1 ..< p + 1 + int n} \<subseteq> used_set ?s"
    using Suc.prems(2) u page_range_Suc [of p n] by auto
  moreover have "table_ok ?s"
    using same_but_bitmap_ok [OF sb] Suc.prems by auto
  ultimately obtain t where t: "mark_each vmMarkPageFree (p + 1) n ?s = Inr t" "same_but_bitmap ?s t"
    "used_set t = used_set ?s - {p + 1 ..< p + 1 + int n}"
    using Suc.IH [of ?s "p + 1"] by auto
  have "used_set t = used_set s - {p ..< p + int (Suc n)}"
    unfolding t(3) u page_range_Suc by auto
  with m t same_but_bitmap_trans [OF sb t(2)] show ?case by auto
qed

lemma used_set_stat [simp]:
  "used_set (s\<lparr>vm_stats_used_pages := x\<rparr>) = used_set s"
  "used_set (s\<lparr>vm_stats_used_pages := x, vm_bitmap := bm\<rparr>) = used_set (s\<lparr>vm_bitmap := bm\<rparr>)"
  "used_set (s\<lparr>vm_next_page := y\<rparr>) = used_set s"
  "used_set (s\<lparr>vm_near_pages := y\<rparr>) = used_set s"
  "used_set (s\<lparr>random_calls := r\<rparr>) = used_set s"
  "table_ok (s\<lparr>vm_stats_used_pages := x\<rparr>) = table_ok s"
  "table_ok (s\<lparr>vm_near_pages := x\<rparr>) = table_ok s"
  "table_ok (s\<lparr>random_calls := r\<rparr>) = table_ok s"
  by (simp_all add: used_set_def vmFreePage_def table_ok_def)

text \<open>Marking a free range and freeing a used one succeed and do what they say.\<close>

lemma vmMarkPagesUsed_set:
  assumes "table_ok s" "0 \<le> p" "p + n \<le> vm_pages s" "{p ..< p + n} \<inter> used_set s = {}" "0 \<le> n"
  shows "\<exists>bm. vmMarkPagesUsed p n s
       = Inr (s\<lparr>vm_bitmap := bm, vm_stats_used_pages := vm_stats_used_pages s + n\<rparr>)
     \<and> length bm = length (vm_bitmap s) \<and> used_set (s\<lparr>vm_bitmap := bm\<rparr>) = used_set s \<union> {p ..< p + n}"
proof -
  from mark_each_used [of s p "nat n"] assms obtain t where
    "mark_each vmMarkPageUsed p (nat n) s = Inr t" "same_but_bitmap s t" "used_set t = used_set s \<union> {p ..< p + n}"
    by auto
  then show ?thesis
    by (auto simp: vmMarkPagesUsed_def same_but_bitmap_def)
qed

lemma vmMarkPagesFree_set:
  assumes "table_ok s" "{p ..< p + n} \<subseteq> used_set s" "0 \<le> n"
  shows "\<exists>bm. vmMarkPagesFree p n s
       = Inr (s\<lparr>vm_bitmap := bm, vm_stats_used_pages := vm_stats_used_pages s - n\<rparr>)
     \<and> length bm = length (vm_bitmap s) \<and> used_set (s\<lparr>vm_bitmap := bm\<rparr>) = used_set s - {p ..< p + n}"
proof -
  from mark_each_free [of s p "nat n"] assms obtain t where
    "mark_each vmMarkPageFree p (nat n) s = Inr t" "same_but_bitmap s t" "used_set t = used_set s - {p ..< p + n}"
    by auto
  then show ?thesis
    by (auto simp: vmMarkPagesFree_def same_but_bitmap_def)
qed

section \<open>The search\<close>

declare find_loop.simps [simp del]

text \<open>The page an iteration looks at, and what \<^verbatim>\<open>numfree\<close> means there: the pages just before it
  are free, unless the search has just wrapped around.\<close>

definition page_at :: "int \<Rightarrow> int \<Rightarrow> int \<Rightarrow> int" where
  "page_at pages base offset = (if base + offset \<ge> pages then base + offset - pages else base + offset)"

definition free_run :: "(int \<Rightarrow> bool) \<Rightarrow> int \<Rightarrow> int \<Rightarrow> int \<Rightarrow> int \<Rightarrow> bool" where
  "free_run free pages base offset numfree \<longleftrightarrow> 0 \<le> numfree \<and>
     (numfree = 0 \<or> base + offset = pages
      \<or> numfree \<le> page_at pages base offset
        \<and> (\<forall>i. page_at pages base offset - numfree \<le> i \<and> i < page_at pages base offset \<longrightarrow> free i))"

definition run_length :: "(int \<Rightarrow> bool) \<Rightarrow> int \<Rightarrow> int \<Rightarrow> int \<Rightarrow> int \<Rightarrow> int" where
  "run_length free pages base offset numfree = (if base + offset = pages then 0 else numfree)"

lemma find_loop_step:
  "offset < pages \<Longrightarrow> find_loop rnd free pages base n offset sj numfree r =
     (let page = page_at pages base offset; nf = run_length free pages base offset numfree;
          nf' = (if free page then nf + 1 else 0)
      in if free page \<and> nf + 1 = n then (Some page, r)
         else if nf' = 0 \<and> sj + 1 \<ge> REDIS_VM_MAX_RANDOM_JUMP div 4
         then find_loop rnd free pages base n (offset + int (rnd r) mod 4096) 0 nf' (Suc r)
         else find_loop rnd free pages base n (offset + 1) (sj + 1) nf' r)"
  by (subst find_loop.simps) (simp add: page_at_def run_length_def Let_def)

lemma run_here:
  assumes "free_run free pages base offset numfree" "0 \<le> base" "base \<le> pages" "0 \<le> offset" "offset < pages"
  defines "page \<equiv> page_at pages base offset"
  defines "nf \<equiv> run_length free pages base offset numfree"
  shows "0 \<le> page" "page < pages" "0 \<le> nf" "nf \<le> page" "\<And>i. page - nf \<le> i \<Longrightarrow> i < page \<Longrightarrow> free i"
  using assms(1-5) unfolding page_def nf_def
  by (auto simp: free_run_def run_length_def page_at_def split: if_splits)

lemma run_next:
  assumes run: "free_run free pages base offset numfree" and b: "0 \<le> base" "base \<le> pages" "0 \<le> offset" "offset < pages"
  defines "nf \<equiv> run_length free pages base offset numfree"
  shows "free_run free pages base (offset + 1) (if free (page_at pages base offset) then nf + 1 else 0)"
proof (cases "free (page_at pages base offset) \<and> base + (offset + 1) \<noteq> pages")
  case True
  note h = run_here [OF run b]
  have next_page: "page_at pages base (offset + 1) = page_at pages base offset + 1"
    using True by (auto simp: page_at_def)
  have "free i" if "page_at pages base offset - nf \<le> i" "i < page_at pages base offset + 1" for i
    using h(5) [of i] that True by (cases "i = page_at pages base offset") (auto simp: nf_def)
  then show ?thesis
    using True h(3,4) by (simp add: free_run_def next_page nf_def)
next
  case False
  then show ?thesis
    using run_here(3) [OF run b] by (auto simp: free_run_def nf_def)
qed

lemma find_loop_sound:
  "find_loop rnd free pages base n offset sj numfree r = (Some q, r') \<Longrightarrow> free_run free pages base offset numfree
     \<Longrightarrow> 0 \<le> base \<Longrightarrow> base \<le> pages \<Longrightarrow> 0 \<le> offset \<Longrightarrow>
   0 \<le> q - (n - 1) \<and> q < pages \<and> (\<forall>i. q - (n - 1) \<le> i \<and> i \<le> q \<longrightarrow> free i) \<and> 1 \<le> n"
proof (induction rnd free pages base n offset sj numfree r rule: find_loop.induct)
  case (1 rnd free pages base n offset sj numfree r)
  let ?p = "page_at pages base offset" and ?nf = "run_length free pages base offset numfree"
  let ?nf' = "if free ?p then ?nf + 1 else 0"
  have lt: "offset < pages"
    using 1(3) by (auto simp: find_loop.simps [of rnd free pages base n offset] split: if_splits)
  note run = 1(4) and b = 1(5-7)
  note h = run_here [OF run b lt]
  note st = 1(3) [unfolded find_loop_step [OF lt] Let_def]
  show ?case
  proof (cases "free ?p \<and> ?nf + 1 = n")
    case True
    then have q: "q = ?p" and n: "n - 1 = ?nf" using st by auto
    have "free i" if "?p - ?nf \<le> i" "i \<le> ?p" for i
      using h(5) [of i] that True by (cases "i = ?p") auto
    then show ?thesis
      using h n q by auto
  next
    case False
    note nx = run_next [OF run b lt]
    have pr: "(?p, ?nf) = (if pages \<le> base + offset
        then let page = base + offset - pages in (page, if page = 0 then 0 else numfree)
        else (base + offset, numfree))"
      by (simp add: page_at_def run_length_def Let_def)
    show ?thesis
    proof (cases "?nf' = 0 \<and> sj + 1 \<ge> REDIS_VM_MAX_RANDOM_JUMP div 4")
      case True
      have off: "0 \<le> offset + int (rnd r) mod 4096" using b(3) by simp
      have fr: "free_run free pages base (offset + int (rnd r) mod 4096) ?nf'"
        using True by (simp only: free_run_def) simp
      have "find_loop rnd free pages base n (offset + int (rnd r) mod 4096) 0 ?nf' (Suc r) = (Some q, r')"
        using st unfolding if_not_P [OF False] if_P [OF True] .
      from 1(1) [OF lt refl refl pr False refl refl True this fr b(1,2) off] show ?thesis .
    next
      case nojump: False
      have off: "0 \<le> offset + 1" using b(3) by simp
      have "find_loop rnd free pages base n (offset + 1) (sj + 1) ?nf' r = (Some q, r')"
        using st unfolding if_not_P [OF False] if_not_P [OF nojump] .
      from 1(2) [OF lt refl refl pr False refl refl nojump this nx b(1,2) off] show ?thesis .
    qed
  qed
qed

lemma vmFindContiguousPages_sound:
  assumes ok: "table_ok s" and run: "vmFindContiguousPages rnd n s = (res, s')"
  shows "table_ok s'" "used_set s' = used_set s"
    "\<exists>np nx r. s' = s\<lparr>vm_near_pages := np, vm_next_page := nx, random_calls := r\<rparr>"
    "res = Some p \<Longrightarrow> 0 \<le> p \<and> p + n \<le> vm_pages s \<and> {p ..< p + n} \<inter> used_set s = {} \<and> 1 \<le> n"
proof -
  define s1 where "s1 = (if vm_near_pages s = REDIS_VM_MAX_NEAR_PAGES
               then s\<lparr>vm_near_pages := 0, vm_next_page := 0\<rparr> else s)"
  define s2 where "s2 = s1\<lparr>vm_near_pages := vm_near_pages s1 + 1\<rparr>"
  obtain found r where fl: "find_loop rnd (\<lambda>p. vmFreePage p s2) (vm_pages s2) (vm_next_page s2) n 0 0 0 (random_calls s2)
      = (found, r)" by fastforce
  have s': "(res, s') = (case found of None \<Rightarrow> (None, s2\<lparr>random_calls := r\<rparr>)
     | Some page \<Rightarrow> (Some (page - (n - 1)), s2\<lparr>random_calls := r, vm_next_page := page + 1\<rparr>))"
    using run [unfolded vmFindContiguousPages_def Let_def, folded s1_def, folded s2_def, unfolded fl case_prod_conv]
    by (cases found) auto
  have nx: "0 \<le> vm_next_page s2" "vm_next_page s2 \<le> vm_pages s2"
    using ok by (auto simp: s1_def s2_def table_ok_def)
  have fr: "vmFreePage q s2 = vmFreePage q s" "vm_pages s2 = vm_pages s" for q
    by (auto simp: s1_def s2_def vmFreePage_def)
  have sound: "0 \<le> q - (n - 1) \<and> q < vm_pages s \<and> (\<forall>i. q - (n - 1) \<le> i \<and> i \<le> q \<longrightarrow> vmFreePage i s) \<and> 1 \<le> n"
    if "found = Some q" for q
    using find_loop_sound [OF fl [unfolded that] _ nx] by (simp add: free_run_def fr)
  show "table_ok s'"
    using s' ok sound by (cases found) (auto simp: table_ok_def s1_def s2_def)
  show "used_set s' = used_set s"
    using s' by (cases found) (auto simp: s1_def s2_def)
  show "\<exists>np nx r. s' = s\<lparr>vm_near_pages := np, vm_next_page := nx, random_calls := r\<rparr>"
  proof (intro exI)
    show "s' = s\<lparr>vm_near_pages := vm_near_pages s', vm_next_page := vm_next_page s', random_calls := random_calls s'\<rparr>"
      using s' by (cases found) (auto simp: s1_def s2_def)
  qed
  show "0 \<le> p \<and> p + n \<le> vm_pages s \<and> {p ..< p + n} \<inter> used_set s = {} \<and> 1 \<le> n" if "res = Some p"
  proof -
    from that s' obtain q where q: "found = Some q" "p = q - (n - 1)"
      by (cases found) auto
    show ?thesis
      using sound [OF q(1)] q(2) by (auto simp: used_set_def)
  qed
qed

section \<open>Properties\<close>

text \<open>C14: for every source of random numbers the search for contiguous pages returns, and a range it
  finds lies in the swap file, is entirely free, and can be marked: no assertion fails, exactly
  these pages become used and the counter grows by their number.\<close>

theorem vm_found_pages_can_be_marked:
  assumes "table_ok s" and "vmFindContiguousPages rnd n s = (Some p, s1)"
  shows "0 \<le> p \<and> p + n \<le> vm_pages s \<and> {p ..< p + n} \<inter> used_set s = {}
    \<and> (\<exists>s2. vmMarkPagesUsed p n s1 = Inr s2 \<and> used_set s2 = used_set s \<union> {p ..< p + n}
         \<and> vm_stats_used_pages s2 = vm_stats_used_pages s + n)"
proof -
  note f = vmFindContiguousPages_sound [OF assms]
  then have r: "0 \<le> p" "p + n \<le> vm_pages s" "{p ..< p + n} \<inter> used_set s = {}" "1 \<le> n" by auto
  have pg: "vm_pages s1 = vm_pages s" "vm_stats_used_pages s1 = vm_stats_used_pages s"
    using f(3) by auto
  from vmMarkPagesUsed_set [OF f(1), of p n] r pg f(2) obtain bm where
    "vmMarkPagesUsed p n s1 = Inr (s1\<lparr>vm_bitmap := bm, vm_stats_used_pages := vm_stats_used_pages s1 + n\<rparr>)"
    "used_set (s1\<lparr>vm_bitmap := bm\<rparr>) = used_set s1 \<union> {p ..< p + n}" by auto
  with r pg f(2) show ?thesis by auto
qed

definition small_table :: vm_table where
  "small_table = \<lparr>vm_bitmap = [3, 0], vm_pages = 12, vm_next_page = 0, vm_near_pages = 5,
     vm_stats_used_pages = 2, random_calls = 0\<rparr>"

theorem vm_found_pages_can_be_marked_witness:
  "\<exists>s1. vmFindContiguousPages (\<lambda>_. 7) 3 small_table = (Some 2, s1) \<and> {2 ..< 2 + 3} \<inter> used_set small_table = {}"
proof -
  obtain s1 where run: "vmFindContiguousPages (\<lambda>_. 7) 3 small_table = (Some 2, s1)"
    by (simp add: vmFindContiguousPages_def small_table_def Let_def find_loop.simps vmFreePage_def)
  have "table_ok small_table" by (simp add: table_ok_def small_table_def)
  from vm_found_pages_can_be_marked [OF this run] run show ?thesis by blast
qed

text \<open>Marking a free range of pages as used and freeing it again passes all assertions and
  restores the set of used pages and the counter.\<close>

theorem vm_mark_then_free:
  assumes "table_ok s" and "0 \<le> p" "0 \<le> n" "p + n \<le> vm_pages s" and "{p ..< p + n} \<inter> used_set s = {}"
  shows "\<exists>t u. vmMarkPagesUsed p n s = Inr t \<and> vmMarkPagesFree p n t = Inr u
    \<and> used_set u = used_set s \<and> vm_stats_used_pages u = vm_stats_used_pages s"
proof -
  from vmMarkPagesUsed_set [OF assms(1,2,4,5,3)] obtain bm where
    m: "vmMarkPagesUsed p n s = Inr (s\<lparr>vm_bitmap := bm, vm_stats_used_pages := vm_stats_used_pages s + n\<rparr>)"
    and l: "length bm = length (vm_bitmap s)" and u: "used_set (s\<lparr>vm_bitmap := bm\<rparr>) = used_set s \<union> {p ..< p + n}"
    by blast
  let ?t = "s\<lparr>vm_bitmap := bm, vm_stats_used_pages := vm_stats_used_pages s + n\<rparr>"
  have "table_ok ?t" using assms(1) l by (simp add: table_ok_def)
  moreover have ut: "used_set ?t = used_set s \<union> {p ..< p + n}" using u by simp
  ultimately obtain bm' where f: "vmMarkPagesFree p n ?t
      = Inr (?t\<lparr>vm_bitmap := bm', vm_stats_used_pages := vm_stats_used_pages ?t - n\<rparr>)"
    and u': "used_set (?t\<lparr>vm_bitmap := bm'\<rparr>) = used_set ?t - {p ..< p + n}"
    using vmMarkPagesFree_set [of ?t p n] assms(3) by auto
  have "used_set (?t\<lparr>vm_bitmap := bm', vm_stats_used_pages := vm_stats_used_pages ?t - n\<rparr>) = used_set s"
    using u' ut assms(5) by auto
  with m f show ?thesis by auto
qed

theorem vm_mark_then_free_witness:
  "\<exists>t u. vmMarkPagesUsed 6 5 small_table = Inr t \<and> vmMarkPagesFree 6 5 t = Inr u \<and> vm_stats_used_pages u = 2"
proof -
  have "{6 ..< 6 + 5} \<inter> used_set small_table = {}"
  proof -
    have "{6 ..< 6 + 5} = {6, 7, 8, 9, 10 :: int}" by auto
    then show ?thesis by (simp add: used_set_def vmFreePage_def small_table_def Let_def)
  qed
  moreover have "table_ok small_table" "6 + 5 \<le> vm_pages small_table"
    by (simp_all add: table_ok_def small_table_def)
  ultimately show ?thesis
    using vm_mark_then_free [of small_table 6 5] by (simp add: small_table_def) blast
qed

end
