(* ===== verification/RedisAe.thy ===== *)
theory RedisAe
  imports RTFSC_Prelude
begin

text \<open>
  The event loop of redis 2.2 (\<^verbatim>\<open>ae.c\<close>, \<^verbatim>\<open>ae.h\<close>) over its epoll back end
  (\<^verbatim>\<open>ae_epoll.c\<close>).  The record \<open>ae_loop\<close> is \<^verbatim>\<open>struct aeEventLoop\<close>: the arrays
  \<^verbatim>\<open>events\<close> and \<^verbatim>\<open>fired\<close> are functions of the index (the code checks it against
  \<^verbatim>\<open>AE_SETSIZE\<close>), the linked list of time events is a list with its head first.  Two fields
  stand for what lies outside: \<open>epoll_calls\<close> logs the accepted calls of \<^verbatim>\<open>epoll_ctl\<close>, and
  \<open>clock_reads\<close> counts the readings of \<^verbatim>\<open>gettimeofday\<close>.  The kernel's and the handlers'
  answers are arguments of the operations.
\<close>

section \<open>Types\<close>

abbreviation AE_SETSIZE :: nat where "AE_SETSIZE \<equiv> 10240"
abbreviation AE_NONE :: u32 where "AE_NONE \<equiv> 0"
abbreviation AE_READABLE :: u32 where "AE_READABLE \<equiv> 1"
abbreviation AE_WRITABLE :: u32 where "AE_WRITABLE \<equiv> 2"
abbreviation AE_FILE_EVENTS :: u32 where "AE_FILE_EVENTS \<equiv> 1"
abbreviation AE_TIME_EVENTS :: u32 where "AE_TIME_EVENTS \<equiv> 2"
abbreviation AE_DONT_WAIT :: u32 where "AE_DONT_WAIT \<equiv> 4"
abbreviation AE_NOMORE :: int where "AE_NOMORE \<equiv> -1"
abbreviation EPOLLIN :: u32 where "EPOLLIN \<equiv> 1"
abbreviation EPOLLOUT :: u32 where "EPOLLOUT \<equiv> 4"

text \<open>Handlers and client data are pointers: numbers the environment gives a meaning to.\<close>

record aeFileEvent =
  fe_mask :: u32
  rfileProc :: nat
  wfileProc :: nat
  fe_clientData :: nat

record aeTimeEvent =
  te_id :: int
  when_sec :: int
  when_ms :: int
  timeProc :: nat
  finalizerProc :: "nat option"
  te_clientData :: nat

datatype ctl_op = EPOLL_CTL_ADD | EPOLL_CTL_MOD | EPOLL_CTL_DEL

record ae_loop =
  maxfd :: int
  timeEventNextId :: int
  events :: "nat \<Rightarrow> aeFileEvent"
  fired :: "nat \<Rightarrow> nat \<times> u32"
  timeEventHead :: "aeTimeEvent list"
  ae_stop :: bool
  beforesleep :: "nat option"
  epoll_calls :: "(ctl_op \<times> nat \<times> u32) list"
  clock_reads :: nat

datatype ae_result = AE_OK | AE_ERR

datatype ae_error = UseAfterFree int  \<comment> \<open>a handler freed the event being processed\<close>

section \<open>The epoll back end\<close>

definition mask_events :: "u32 \<Rightarrow> u32" where
  "mask_events msk =
     (let ev = 0;
          ev = (if msk AND AE_READABLE \<noteq> 0 then ev OR EPOLLIN else ev);
          ev = (if msk AND AE_WRITABLE \<noteq> 0 then ev OR EPOLLOUT else ev)
      in ev)"

text \<open>\<open>ok\<close> is whether \<^verbatim>\<open>epoll_ctl\<close> accepts the call; a refused call changes nothing.\<close>

definition aeApiAddEvent :: "bool \<Rightarrow> nat \<Rightarrow> u32 \<Rightarrow> ae_loop \<Rightarrow> int \<times> ae_loop" where
  "aeApiAddEvent ok fd msk s =
     (let op = (if fe_mask (events s fd) = AE_NONE then EPOLL_CTL_ADD else EPOLL_CTL_MOD);
          msk = msk OR fe_mask (events s fd)
      in if \<not> ok then (-1, s)
         else (0, s\<lparr>epoll_calls := epoll_calls s @ [(op, fd, mask_events msk)]\<rparr>))"

definition aeApiDelEvent :: "nat \<Rightarrow> u32 \<Rightarrow> ae_loop \<Rightarrow> ae_loop" where
  "aeApiDelEvent fd delmask s =
     (let msk = fe_mask (events s fd) AND NOT delmask
      in if msk \<noteq> AE_NONE
         then s\<lparr>epoll_calls := epoll_calls s @ [(EPOLL_CTL_MOD, fd, mask_events msk)]\<rparr>
         else s\<lparr>epoll_calls := epoll_calls s @ [(EPOLL_CTL_DEL, fd, mask_events msk)]\<rparr>)"

definition fired_mask :: "u32 \<Rightarrow> u32" where
  "fired_mask ev =
     (let msk = 0;
          msk = (if ev AND EPOLLIN \<noteq> 0 then msk OR AE_READABLE else msk);
          msk = (if ev AND EPOLLOUT \<noteq> 0 then msk OR AE_WRITABLE else msk)
      in msk)"

text \<open>The timeout handed to \<^verbatim>\<open>epoll_wait\<close>, in milliseconds; -1 blocks.\<close>

definition poll_timeout :: "(int \<times> int) option \<Rightarrow> int" where
  "poll_timeout tvp =
     (case tvp of None \<Rightarrow> -1 | Some (tv_sec, tv_usec) \<Rightarrow> tv_sec * 1000 + cdiv tv_usec 1000)"

text \<open>\<open>epoll_wait\<close> maps the timeout to the ready descriptors with their events.\<close>

definition aeApiPoll ::
  "(int \<Rightarrow> (nat \<times> u32) list) \<Rightarrow> (int \<times> int) option \<Rightarrow> ae_loop \<Rightarrow> nat \<times> ae_loop" where
  "aeApiPoll epoll_wait tvp s =
     (let ready = epoll_wait (poll_timeout tvp)
      in (length ready,
          s\<lparr>fired := (\<lambda>j. if j < length ready
                          then (fst (ready ! j), fired_mask (snd (ready ! j))) else fired s j)\<rparr>))"

section \<open>File events\<close>

definition aeCreateEventLoop :: "ae_loop \<Rightarrow> ae_loop" where
  "aeCreateEventLoop raw =
     raw\<lparr>timeEventHead := [], timeEventNextId := 0, ae_stop := False, maxfd := -1,
         beforesleep := None, epoll_calls := [],
         events := (\<lambda>i. if i < AE_SETSIZE then (events raw i)\<lparr>fe_mask := AE_NONE\<rparr> else events raw i)\<rparr>"

definition aeStop :: "ae_loop \<Rightarrow> ae_loop" where
  "aeStop s = s\<lparr>ae_stop := True\<rparr>"

definition aeSetBeforeSleepProc :: "nat option \<Rightarrow> ae_loop \<Rightarrow> ae_loop" where
  "aeSetBeforeSleepProc p s = s\<lparr>beforesleep := p\<rparr>"

definition aeCreateFileEvent ::
  "bool \<Rightarrow> nat \<Rightarrow> u32 \<Rightarrow> nat \<Rightarrow> nat \<Rightarrow> ae_loop \<Rightarrow> ae_result \<times> ae_loop" where
  "aeCreateFileEvent ok fd msk proc clientData s =
     (if fd \<ge> AE_SETSIZE then (AE_ERR, s)
      else
        let (r, s) = aeApiAddEvent ok fd msk s in
        if r = -1 then (AE_ERR, s)
        else
          let fe = events s fd;
              fe = fe\<lparr>fe_mask := fe_mask fe OR msk\<rparr>;
              fe = (if msk AND AE_READABLE \<noteq> 0 then fe\<lparr>rfileProc := proc\<rparr> else fe);
              fe = (if msk AND AE_WRITABLE \<noteq> 0 then fe\<lparr>wfileProc := proc\<rparr> else fe);
              fe = fe\<lparr>fe_clientData := clientData\<rparr>;
              s = s\<lparr>events := (events s)(fd := fe)\<rparr>
          in (AE_OK, if int fd > maxfd s then s\<lparr>maxfd := int fd\<rparr> else s))"

text \<open>\<^verbatim>\<open>for (j = maxfd-1; j >= 0; j--) if (events[j].mask != AE_NONE) break;\<close> - the final
  \<^verbatim>\<open>j\<close>, for a start at \<open>n - 1\<close>.\<close>

fun scan_maxfd :: "(nat \<Rightarrow> aeFileEvent) \<Rightarrow> nat \<Rightarrow> int" where
  "scan_maxfd ev 0 = -1"
| "scan_maxfd ev (Suc j) = (if fe_mask (ev j) \<noteq> AE_NONE then int j else scan_maxfd ev j)"

definition aeDeleteFileEvent :: "nat \<Rightarrow> u32 \<Rightarrow> ae_loop \<Rightarrow> ae_loop" where
  "aeDeleteFileEvent fd msk s =
     (if fd \<ge> AE_SETSIZE then s
      else if fe_mask (events s fd) = AE_NONE then s
      else
        let fe = events s fd;
            fe = fe\<lparr>fe_mask := fe_mask fe AND NOT msk\<rparr>;
            s = s\<lparr>events := (events s)(fd := fe)\<rparr>;
            s = (if int fd = maxfd s \<and> fe_mask fe = AE_NONE
                 then s\<lparr>maxfd := scan_maxfd (events s) (nat (maxfd s))\<rparr> else s)
        in aeApiDelEvent fd msk s)"

section \<open>Time events\<close>

text \<open>\<open>gtod n\<close> is the \<open>n\<close>-th reading of \<^verbatim>\<open>gettimeofday\<close>: seconds and microseconds.\<close>

definition aeGetTime :: "(nat \<Rightarrow> int \<times> int) \<Rightarrow> ae_loop \<Rightarrow> (int \<times> int) \<times> ae_loop" where
  "aeGetTime gtod s =
     (let (tv_sec, tv_usec) = gtod (clock_reads s)
      in ((tv_sec, cdiv tv_usec 1000), s\<lparr>clock_reads := Suc (clock_reads s)\<rparr>))"

definition aeAddMillisecondsToNow ::
  "(nat \<Rightarrow> int \<times> int) \<Rightarrow> int \<Rightarrow> ae_loop \<Rightarrow> (int \<times> int) \<times> ae_loop" where
  "aeAddMillisecondsToNow gtod milliseconds s =
     (let ((cur_sec, cur_ms), s) = aeGetTime gtod s;
          wsec = cur_sec + cdiv milliseconds 1000;
          wms = cur_ms + cmod milliseconds 1000
      in if wms \<ge> 1000 then ((wsec + 1, wms - 1000), s) else ((wsec, wms), s))"

definition aeCreateTimeEvent ::
  "(nat \<Rightarrow> int \<times> int) \<Rightarrow> int \<Rightarrow> nat \<Rightarrow> nat \<Rightarrow> nat option \<Rightarrow> ae_loop \<Rightarrow> int \<times> ae_loop" where
  "aeCreateTimeEvent gtod milliseconds proc clientData finalizer s =
     (let tid = timeEventNextId s;
          s = s\<lparr>timeEventNextId := tid + 1\<rparr>;
          ((wsec, wms), s) = aeAddMillisecondsToNow gtod milliseconds s;
          te = \<lparr>te_id = tid, when_sec = wsec, when_ms = wms, timeProc = proc,
                finalizerProc = finalizer, te_clientData = clientData\<rparr>
      in (tid, s\<lparr>timeEventHead := te # timeEventHead s\<rparr>))"

text \<open>Unlinks the first event with the identifier; the finalizer runs on the shortened list.\<close>

definition remove_event :: "int \<Rightarrow> aeTimeEvent list \<Rightarrow> aeTimeEvent list" where
  "remove_event tid tes = takeWhile (\<lambda>te. te_id te \<noteq> tid) tes
     @ tl (dropWhile (\<lambda>te. te_id te \<noteq> tid) tes)"

definition aeDeleteTimeEvent ::
  "(nat \<Rightarrow> nat \<Rightarrow> ae_loop \<Rightarrow> ae_loop) \<Rightarrow> int \<Rightarrow> ae_loop \<Rightarrow> ae_result \<times> ae_loop" where
  "aeDeleteTimeEvent fin tid s =
     (case find (\<lambda>te. te_id te = tid) (timeEventHead s) of
        None \<Rightarrow> (AE_ERR, s)
      | Some te \<Rightarrow>
          (let s = s\<lparr>timeEventHead := remove_event tid (timeEventHead s)\<rparr>
           in (AE_OK, case finalizerProc te of None \<Rightarrow> s | Some f \<Rightarrow> fin f (te_clientData te) s)))"

definition fires_before :: "aeTimeEvent \<Rightarrow> aeTimeEvent \<Rightarrow> bool" where
  "fires_before te n \<longleftrightarrow> when_sec te < when_sec n \<or> when_sec te = when_sec n \<and> when_ms te < when_ms n"

fun nearest_from :: "aeTimeEvent option \<Rightarrow> aeTimeEvent list \<Rightarrow> aeTimeEvent option" where
  "nearest_from nearest [] = nearest"
| "nearest_from nearest (te # tes) =
     nearest_from (case nearest of None \<Rightarrow> Some te
                   | Some n \<Rightarrow> if fires_before te n then Some te else Some n) tes"

definition aeSearchNearestTimer :: "ae_loop \<Rightarrow> aeTimeEvent option" where
  "aeSearchNearestTimer s = nearest_from None (timeEventHead s)"

text \<open>The scan of \<^verbatim>\<open>processTimeEvents\<close> up to the first event to fire; every event that is not
  skipped costs one reading of the clock.\<close>

fun find_due ::
  "(nat \<Rightarrow> int \<times> int) \<Rightarrow> int \<Rightarrow> aeTimeEvent list \<Rightarrow> nat \<Rightarrow> aeTimeEvent option \<times> nat" where
  "find_due gtod maxId [] n = (None, n)"
| "find_due gtod maxId (te # tes) n =
     (if te_id te > maxId then find_due gtod maxId tes n
      else let (now_sec, now_usec) = gtod n; now_ms = cdiv now_usec 1000 in
        if now_sec > when_sec te \<or> now_sec = when_sec te \<and> now_ms \<ge> when_ms te
        then (Some te, Suc n) else find_due gtod maxId tes (Suc n))"

definition rearm :: "(nat \<Rightarrow> int \<times> int) \<Rightarrow> int \<Rightarrow> int \<Rightarrow> ae_loop \<Rightarrow> ae_loop" where
  "rearm gtod tid retval s =
     (let ((wsec, wms), s) = aeAddMillisecondsToNow gtod retval s
      in s\<lparr>timeEventHead := map (\<lambda>te. if te_id te = tid
           then te\<lparr>when_sec := wsec, when_ms := wms\<rparr> else te) (timeEventHead s)\<rparr>)"

text \<open>A handler is a function of the loop state.  One that returns a period but has deleted its
  own event makes the code write through a freed pointer: the error branch.  A handler may keep
  its event due for ever, so the loop need not end: \<^const>\<open>None\<close>.\<close>

partial_function (option) time_events_loop ::
  "(nat \<Rightarrow> int \<times> int) \<Rightarrow> (nat \<Rightarrow> int \<Rightarrow> nat \<Rightarrow> ae_loop \<Rightarrow> int \<times> ae_loop)
   \<Rightarrow> (nat \<Rightarrow> nat \<Rightarrow> ae_loop \<Rightarrow> ae_loop) \<Rightarrow> int \<Rightarrow> ae_loop \<Rightarrow> int \<Rightarrow> (ae_error + int \<times> ae_loop) option" where
  "time_events_loop gtod tproc fin maxId s processed =
     (case find_due gtod maxId (timeEventHead s) (clock_reads s) of
        (None, n) \<Rightarrow> Some (Inr (processed, s\<lparr>clock_reads := n\<rparr>))
      | (Some te, n) \<Rightarrow>
          (case tproc (timeProc te) (te_id te) (te_clientData te) (s\<lparr>clock_reads := n\<rparr>) of
             (retval, s1) \<Rightarrow>
               (if retval \<noteq> AE_NOMORE
                then if te_id te \<in> te_id ` set (timeEventHead s1)
                     then time_events_loop gtod tproc fin maxId (rearm gtod (te_id te) retval s1) (processed + 1)
                     else Some (Inl (UseAfterFree (te_id te)))
                else time_events_loop gtod tproc fin maxId
                       (snd (aeDeleteTimeEvent fin (te_id te) s1)) (processed + 1))))"

definition processTimeEvents ::
  "(nat \<Rightarrow> int \<times> int) \<Rightarrow> (nat \<Rightarrow> int \<Rightarrow> nat \<Rightarrow> ae_loop \<Rightarrow> int \<times> ae_loop)
   \<Rightarrow> (nat \<Rightarrow> nat \<Rightarrow> ae_loop \<Rightarrow> ae_loop) \<Rightarrow> ae_loop \<Rightarrow> (ae_error + int \<times> ae_loop) option" where
  "processTimeEvents gtod tproc fin s =
     time_events_loop gtod tproc fin (timeEventNextId s - 1) s 0"

section \<open>One turn of the loop\<close>

text \<open>The time missing for the nearest timer, as a \<^verbatim>\<open>struct timeval\<close>.\<close>

definition timer_wait :: "aeTimeEvent \<Rightarrow> int \<Rightarrow> int \<Rightarrow> int \<times> int" where
  "timer_wait shortest now_sec now_ms =
     (let tv_sec = when_sec shortest - now_sec;
          (tv_sec, tv_usec) =
            (if when_ms shortest < now_ms
             then (tv_sec - 1, ((when_ms shortest + 1000) - now_ms) * 1000)
             else (tv_sec, (when_ms shortest - now_ms) * 1000));
          tv_sec = (if tv_sec < 0 then 0 else tv_sec);
          tv_usec = (if tv_usec < 0 then 0 else tv_usec)
      in (tv_sec, tv_usec))"

text \<open>\<^verbatim>\<open>fe\<close> points into the array, so the second test reads what the first handler left.\<close>

definition process_fired ::
  "(nat \<Rightarrow> nat \<Rightarrow> nat \<Rightarrow> u32 \<Rightarrow> ae_loop \<Rightarrow> ae_loop) \<Rightarrow> ae_loop \<Rightarrow> nat \<Rightarrow> ae_loop" where
  "process_fired fproc s j =
     (let (fd, msk) = fired s j;
          fe = events s fd;
          rfired = (fe_mask fe AND msk AND AE_READABLE \<noteq> 0);
          s = (if rfired then fproc (rfileProc fe) fd (fe_clientData fe) msk s else s);
          fe = events s fd
      in if fe_mask fe AND msk AND AE_WRITABLE \<noteq> 0 \<and> (\<not> rfired \<or> wfileProc fe \<noteq> rfileProc fe)
         then fproc (wfileProc fe) fd (fe_clientData fe) msk s else s)"

definition aeProcessEvents ::
  "(nat \<Rightarrow> int \<times> int) \<Rightarrow> (nat \<Rightarrow> int \<Rightarrow> nat \<Rightarrow> ae_loop \<Rightarrow> int \<times> ae_loop)
   \<Rightarrow> (nat \<Rightarrow> nat \<Rightarrow> ae_loop \<Rightarrow> ae_loop) \<Rightarrow> (nat \<Rightarrow> nat \<Rightarrow> nat \<Rightarrow> u32 \<Rightarrow> ae_loop \<Rightarrow> ae_loop)
   \<Rightarrow> (int \<Rightarrow> (nat \<times> u32) list) \<Rightarrow> u32 \<Rightarrow> ae_loop \<Rightarrow> (ae_error + int \<times> ae_loop) option" where
  "aeProcessEvents gtod tproc fin fproc epoll_wait flags s =
     (if flags AND AE_TIME_EVENTS = 0 \<and> flags AND AE_FILE_EVENTS = 0 then Some (Inr (0, s))
      else
        let (processed, s) =
          (if maxfd s \<noteq> -1 \<or> flags AND AE_TIME_EVENTS \<noteq> 0 \<and> flags AND AE_DONT_WAIT = 0
           then
             let shortest = (if flags AND AE_TIME_EVENTS \<noteq> 0 \<and> flags AND AE_DONT_WAIT = 0
                             then aeSearchNearestTimer s else None);
                 (tvp, s) =
                   (case shortest of
                      Some te \<Rightarrow> (let ((now_sec, now_ms), s) = aeGetTime gtod s
                                   in (Some (timer_wait te now_sec now_ms), s))
                    | None \<Rightarrow> (if flags AND AE_DONT_WAIT \<noteq> 0 then Some (0, 0) else None, s));
                 (numevents, s) = aeApiPoll epoll_wait tvp s
             in (int numevents, foldl (process_fired fproc) s [0..<numevents])
           else (0, s))
        in if flags AND AE_TIME_EVENTS \<noteq> 0
           then map_option (map_sum id (\<lambda>(n, s). (processed + n, s)))
                  (processTimeEvents gtod tproc fin s)
           else Some (Inr (processed, s)))"

partial_function (option) main_loop ::
  "(ae_loop \<Rightarrow> (ae_error + int \<times> ae_loop) option) \<Rightarrow> (nat \<Rightarrow> ae_loop \<Rightarrow> ae_loop)
   \<Rightarrow> ae_loop \<Rightarrow> (ae_error + ae_loop) option" where
  "main_loop turn before s =
     (if ae_stop s then Some (Inr s)
      else case turn (case beforesleep s of None \<Rightarrow> s | Some p \<Rightarrow> before p s) of
             None \<Rightarrow> None
           | Some (Inl e) \<Rightarrow> Some (Inl e)
           | Some (Inr (n, s')) \<Rightarrow> main_loop turn before s')"

definition aeMain ::
  "(ae_loop \<Rightarrow> (ae_error + int \<times> ae_loop) option) \<Rightarrow> (nat \<Rightarrow> ae_loop \<Rightarrow> ae_loop)
   \<Rightarrow> ae_loop \<Rightarrow> (ae_error + ae_loop) option" where
  "aeMain turn before s = main_loop turn before (s\<lparr>ae_stop := False\<rparr>)"

section \<open>The kernel's side of the contract\<close>

text \<open>What \<^verbatim>\<open>epoll_ctl(2)\<close> documents: adding a registered descriptor and changing or
  deleting an unregistered one are errors.  \<open>epoll_replay\<close> runs a log of calls on an interest
  set and is \<^const>\<open>None\<close> when a call of the log would be refused.\<close>

fun epoll_accept :: "(nat \<rightharpoonup> u32) \<Rightarrow> ctl_op \<times> nat \<times> u32 \<Rightarrow> (nat \<rightharpoonup> u32) option" where
  "epoll_accept m (EPOLL_CTL_ADD, fd, ev) = (if m fd = None then Some (m(fd \<mapsto> ev)) else None)"
| "epoll_accept m (EPOLL_CTL_MOD, fd, ev) = (if m fd = None then None else Some (m(fd \<mapsto> ev)))"
| "epoll_accept m (EPOLL_CTL_DEL, fd, ev) = (if m fd = None then None else Some (m(fd := None)))"

fun epoll_replay :: "(nat \<rightharpoonup> u32) \<Rightarrow> (ctl_op \<times> nat \<times> u32) list \<Rightarrow> (nat \<rightharpoonup> u32) option" where
  "epoll_replay m [] = Some m"
| "epoll_replay m (call # calls) = Option.bind (epoll_accept m call) (\<lambda>m'. epoll_replay m' calls)"

lemma epoll_replay_snoc:
  "epoll_replay m (calls @ [call]) = Option.bind (epoll_replay m calls) (\<lambda>m'. epoll_accept m' call)"
  by (induction calls arbitrary: m) (auto split: bind_splits)

text \<open>What the loop believes to be registered.\<close>

definition registered :: "ae_loop \<Rightarrow> nat \<rightharpoonup> u32" where
  "registered s fd = (if fd < AE_SETSIZE \<and> fe_mask (events s fd) \<noteq> AE_NONE
                      then Some (mask_events (fe_mask (events s fd))) else None)"

definition maxfd_exact :: "ae_loop \<Rightarrow> bool" where
  "maxfd_exact s \<longleftrightarrow> -1 \<le> maxfd s
     \<and> (maxfd s \<noteq> -1 \<longrightarrow> nat (maxfd s) < AE_SETSIZE \<and> fe_mask (events s (nat (maxfd s))) \<noteq> AE_NONE)
     \<and> (\<forall>fd < AE_SETSIZE. fe_mask (events s fd) \<noteq> AE_NONE \<longrightarrow> int fd \<le> maxfd s)"

definition ae_inv :: "ae_loop \<Rightarrow> bool" where
  "ae_inv s \<longleftrightarrow> maxfd_exact s \<and> epoll_replay Map.empty (epoll_calls s) = Some (registered s)"

datatype file_op =
    CreateFileEvent bool nat u32 nat nat
  | DeleteFileEvent nat u32

fun file_step :: "file_op \<Rightarrow> ae_loop \<Rightarrow> unit + ae_loop" where
  "file_step (CreateFileEvent ok fd msk proc d) s = Inr (snd (aeCreateFileEvent ok fd msk proc d s))"
| "file_step (DeleteFileEvent fd msk) s = Inr (aeDeleteFileEvent fd msk s)"

fun file_guard :: "file_op \<Rightarrow> ae_loop \<Rightarrow> bool" where
  "file_guard (CreateFileEvent ok fd msk proc d) s = (msk \<noteq> AE_NONE)"
| "file_guard (DeleteFileEvent fd msk) s = True"

section \<open>File events keep the contract\<close>

lemma or_eq_0_word: "(a OR b = 0) = (a = 0 \<and> b = (0 :: 'a::len word))"
  by (auto simp: bit_eq_iff bit_simps)

lemma create_new_event:
  assumes "fd < AE_SETSIZE"
  shows "fe_mask (events (snd (aeCreateFileEvent True fd msk proc d s)) fd')
       = (if fd' = fd then fe_mask (events s fd) OR msk else fe_mask (events s fd'))"
    and "maxfd (snd (aeCreateFileEvent True fd msk proc d s)) = max (maxfd s) (int fd)"
    and "epoll_calls (snd (aeCreateFileEvent True fd msk proc d s)) = epoll_calls s
       @ [(if fe_mask (events s fd) = AE_NONE then EPOLL_CTL_ADD else EPOLL_CTL_MOD, fd,
           mask_events (msk OR fe_mask (events s fd)))]"
  using assms by (auto simp: aeCreateFileEvent_def aeApiAddEvent_def Let_def)

lemma create_refused: "aeCreateFileEvent False fd msk proc d s = (AE_ERR, s)"
  by (simp add: aeCreateFileEvent_def aeApiAddEvent_def Let_def)

lemma create_out_of_range: "\<not> fd < AE_SETSIZE \<Longrightarrow> aeCreateFileEvent ok fd msk proc d s = (AE_ERR, s)"
  by (simp add: aeCreateFileEvent_def)

lemma ae_inv_create:
  assumes inv: "ae_inv s" and msk: "msk \<noteq> AE_NONE"
  shows "ae_inv (snd (aeCreateFileEvent ok fd msk proc d s))"
proof (cases "ok \<and> fd < AE_SETSIZE")
  case False
  then show ?thesis
    using inv by (cases ok) (simp_all add: create_refused create_out_of_range)
next
  case True
  let ?s = "snd (aeCreateFileEvent True fd msk proc d s)"
  note new = create_new_event [OF conjunct2 [OF True], of msk proc d s]
  have fdlt: "fd < AE_SETSIZE" using True by simp
  have reg: "registered ?s = (registered s)(fd \<mapsto> mask_events (msk OR fe_mask (events s fd)))"
    using fdlt msk by (auto simp: fun_eq_iff registered_def new or_eq_0_word or.commute)
  have "(registered s fd = None) = (fe_mask (events s fd) = AE_NONE)"
    using fdlt by (simp add: registered_def)
  then have "epoll_replay Map.empty (epoll_calls ?s) = Some (registered ?s)"
    using inv by (simp add: ae_inv_def new epoll_replay_snoc reg)
  moreover have "maxfd_exact ?s"
    using inv fdlt msk by (auto simp: ae_inv_def maxfd_exact_def new max_def or_eq_0_word)
  ultimately show ?thesis
    using True by (simp add: ae_inv_def)
qed

lemma scan_maxfd_numeral [simp]:
  "scan_maxfd ev (numeral k) = (if fe_mask (ev (pred_numeral k)) \<noteq> AE_NONE then int (pred_numeral k)
     else scan_maxfd ev (pred_numeral k))"
  by (simp add: numeral_eq_Suc)

lemma scan_maxfd_spec:
  "-1 \<le> scan_maxfd ev n \<and> scan_maxfd ev n < int n
   \<and> (scan_maxfd ev n \<noteq> -1 \<longrightarrow> fe_mask (ev (nat (scan_maxfd ev n))) \<noteq> AE_NONE)
   \<and> (\<forall>j < n. fe_mask (ev j) \<noteq> AE_NONE \<longrightarrow> int j \<le> scan_maxfd ev n)"
  by (induction n) (auto simp: less_Suc_eq)

lemma delete_events:
  assumes "fd < AE_SETSIZE" and "fe_mask (events s fd) \<noteq> AE_NONE"
    and m: "m = fe_mask (events s fd) AND NOT msk"
    and ev: "ev = (events s)(fd := (events s fd)\<lparr>fe_mask := m\<rparr>)"
  shows "events (aeDeleteFileEvent fd msk s) = ev"
    and "maxfd (aeDeleteFileEvent fd msk s)
       = (if int fd = maxfd s \<and> m = AE_NONE then scan_maxfd ev (nat (maxfd s)) else maxfd s)"
    and "epoll_calls (aeDeleteFileEvent fd msk s) = epoll_calls s
       @ [(if m = AE_NONE then EPOLL_CTL_DEL else EPOLL_CTL_MOD, fd, mask_events m)]"
  using assms(1,2)
  by (auto simp: aeDeleteFileEvent_def aeApiDelEvent_def Let_def m ev and.assoc)

lemma ae_inv_delete:
  assumes inv: "ae_inv s"
  shows "ae_inv (aeDeleteFileEvent fd msk s)"
proof (cases "fd < AE_SETSIZE \<and> fe_mask (events s fd) \<noteq> AE_NONE")
  case False
  then show ?thesis
    using inv by (auto simp: aeDeleteFileEvent_def)
next
  case True
  then have fdlt: "fd < AE_SETSIZE" and on: "fe_mask (events s fd) \<noteq> AE_NONE" by auto
  let ?s = "aeDeleteFileEvent fd msk s"
  define m where "m = fe_mask (events s fd) AND NOT msk"
  note del = delete_events [OF fdlt on m_def refl]
  have "registered s fd \<noteq> None"
    using fdlt on by (simp add: registered_def)
  moreover have "registered ?s = (registered s)(fd := if m = AE_NONE then None else Some (mask_events m))"
    using fdlt by (auto simp: fun_eq_iff registered_def del)
  ultimately have "epoll_replay Map.empty (epoll_calls ?s) = Some (registered ?s)"
    using inv by (auto simp: ae_inv_def del epoll_replay_snoc)
  moreover have "maxfd_exact ?s"
  proof (cases "int fd = maxfd s \<and> m = AE_NONE")
    case True
    let ?ev = "(events s)(fd := (events s fd)\<lparr>fe_mask := m\<rparr>)"
    have eq: "maxfd ?s = scan_maxfd ?ev fd" "events ?s = ?ev"
      using True del by (auto simp flip: True [THEN conjunct1])
    have above: "fe_mask (?ev j) = AE_NONE" if "fd \<le> j" "j < AE_SETSIZE" for j
      using inv True that by (auto simp: ae_inv_def maxfd_exact_def)
    note r = scan_maxfd_spec [of ?ev fd]
    have "int j \<le> scan_maxfd ?ev fd" if "j < AE_SETSIZE" "fe_mask (?ev j) \<noteq> AE_NONE" for j
      using that above [of j] r by (cases "fd \<le> j") auto
    moreover have "nat (scan_maxfd ?ev fd) < AE_SETSIZE"
      using r fdlt by linarith
    ultimately show ?thesis
      using r unfolding maxfd_exact_def eq by blast
  next
    case False
    then have mx: "maxfd ?s = maxfd s"
      using del(2) by (simp only: if_False)
    have "fe_mask (events ?s j) \<noteq> AE_NONE \<Longrightarrow> fe_mask (events s j) \<noteq> AE_NONE" for j
      using on by (cases "j = fd") (simp_all add: del(1))
    moreover have "fe_mask (events ?s j) \<noteq> AE_NONE"
      if "fe_mask (events s j) \<noteq> AE_NONE" "j \<noteq> fd \<or> m \<noteq> AE_NONE" for j
      using that by (cases "j = fd") (simp_all add: del(1))
    moreover have "nat (maxfd s) \<noteq> fd \<or> m \<noteq> AE_NONE" if "maxfd s \<noteq> -1" "-1 \<le> maxfd s"
      using False that by linarith
    ultimately show ?thesis
      using inv unfolding ae_inv_def maxfd_exact_def mx by blast
  qed
  ultimately show ?thesis by (simp add: ae_inv_def)
qed

interpretation ae: guarded_machine file_step file_guard ae_inv
proof
  fix s x s'
  assume "ae_inv s" "file_guard x s" "file_step x s = Inr s'"
  then show "ae_inv s'"
    by (cases x) (auto simp: ae_inv_create ae_inv_delete)
qed

section \<open>Timers\<close>

lemma fires_before_trans: "fires_before a b \<Longrightarrow> fires_before b c \<Longrightarrow> fires_before a c"
  by (auto simp: fires_before_def)

lemma not_fires_before_trans: "\<not> fires_before a b \<Longrightarrow> fires_before c b \<Longrightarrow> \<not> fires_before a c"
  using fires_before_trans by blast

lemma nearest_from_Some:
  "\<exists>te. nearest_from (Some n) tes = Some te \<and> te \<in> insert n (set tes)
     \<and> (\<forall>u\<in>insert n (set tes). \<not> fires_before u te)"
proof (induction tes arbitrary: n)
  case Nil
  then show ?case by (auto simp: fires_before_def)
next
  case (Cons t tes)
  show ?case
  proof (cases "fires_before t n")
    case True
    from Cons.IH [of t] obtain te where te: "nearest_from (Some t) tes = Some te"
      "te \<in> insert t (set tes)" "\<forall>u\<in>insert t (set tes). \<not> fires_before u te" by blast
    have "\<not> fires_before n te"
      using te(3) True fires_before_trans [of t n te] by auto
    with True te show ?thesis by auto
  next
    case False
    from Cons.IH [of n] obtain te where te: "nearest_from (Some n) tes = Some te"
      "te \<in> insert n (set tes)" "\<forall>u\<in>insert n (set tes). \<not> fires_before u te" by blast
    have "\<not> fires_before t te"
      using te(2,3) False by (auto simp: fires_before_def)
    with False te show ?thesis by auto
  qed
qed

text \<open>Handlers that fire once and register only under fresh identifiers.\<close>

definition event_ids :: "ae_loop \<Rightarrow> int set" where
  "event_ids s = te_id ` set (timeEventHead s)"

definition distinct_ids :: "ae_loop \<Rightarrow> bool" where
  "distinct_ids s \<longleftrightarrow> distinct (map te_id (timeEventHead s))"

definition fresh_only :: "ae_loop \<Rightarrow> ae_loop \<Rightarrow> bool" where
  "fresh_only s s' \<longleftrightarrow> timeEventNextId s \<le> timeEventNextId s' \<and> (distinct_ids s \<longrightarrow> distinct_ids s')
     \<and> event_ids s' \<subseteq> event_ids s \<union> {timeEventNextId s..}"

definition one_shot ::
  "(nat \<Rightarrow> int \<Rightarrow> nat \<Rightarrow> ae_loop \<Rightarrow> int \<times> ae_loop) \<Rightarrow> (nat \<Rightarrow> nat \<Rightarrow> ae_loop \<Rightarrow> ae_loop) \<Rightarrow> bool" where
  "one_shot tproc fin \<longleftrightarrow>
     (\<forall>p i d s. fst (tproc p i d s) = AE_NOMORE \<and> fresh_only s (snd (tproc p i d s)))
     \<and> (\<forall>f d s. fresh_only s (fin f d s))"

lemma remove_event_ids:
  "distinct (map te_id tes) \<Longrightarrow>
     distinct (map te_id (remove_event tid tes)) \<and> te_id ` set (remove_event tid tes) = te_id ` set tes - {tid}"
proof (induction tes)
  case Nil
  then show ?case by (simp add: remove_event_def)
next
  case (Cons t tes)
  have rec: "remove_event tid (t # tes) = (if te_id t = tid then tes else t # remove_event tid tes)"
    by (simp add: remove_event_def)
  from Cons show ?case by (auto simp: rec image_iff)
qed

lemma delete_time_event_ids:
  assumes "\<And>f d s. fresh_only s (fin f d s)" and "distinct_ids s"
  shows "timeEventNextId s \<le> timeEventNextId (snd (aeDeleteTimeEvent fin tid s))"
    and "distinct_ids (snd (aeDeleteTimeEvent fin tid s))"
    and "event_ids (snd (aeDeleteTimeEvent fin tid s))
       \<subseteq> (event_ids s - {tid}) \<union> {timeEventNextId s..}"
proof -
  let ?s1 = "s\<lparr>timeEventHead := remove_event tid (timeEventHead s)\<rparr>"
  have rm: "distinct_ids ?s1" "event_ids ?s1 = event_ids s - {tid}"
    using remove_event_ids [of "timeEventHead s" tid] assms(2)
    by (simp_all add: distinct_ids_def event_ids_def)
  have none: "event_ids s = event_ids s - {tid}" if "find (\<lambda>te. te_id te = tid) (timeEventHead s) = None"
    using that by (auto simp: find_None_iff event_ids_def)
  have fin: "timeEventNextId s \<le> timeEventNextId (fin f d ?s1)" "distinct_ids (fin f d ?s1)"
    "event_ids (fin f d ?s1) \<subseteq> (event_ids s - {tid}) \<union> {timeEventNextId s..}" for f d
    using assms(1) [of ?s1 f d] rm by (auto simp: fresh_only_def)
  show "timeEventNextId s \<le> timeEventNextId (snd (aeDeleteTimeEvent fin tid s))"
    and "distinct_ids (snd (aeDeleteTimeEvent fin tid s))"
    and "event_ids (snd (aeDeleteTimeEvent fin tid s))
       \<subseteq> (event_ids s - {tid}) \<union> {timeEventNextId s..}"
    using fin rm none assms(2)
    by (auto simp: aeDeleteTimeEvent_def Let_def split: option.splits)
qed

lemma find_due_Some:
  "find_due gtod maxId tes n = (Some te, n') \<Longrightarrow> te \<in> set tes \<and> te_id te \<le> maxId"
  by (induction gtod maxId tes n rule: find_due.induct) (auto simp: Let_def split: if_splits prod.splits)

lemma time_events_loop_returns:
  assumes "one_shot tproc fin"
  shows "distinct_ids s \<Longrightarrow> maxId < timeEventNextId s \<Longrightarrow>
    card (event_ids s \<inter> {..maxId}) = k \<Longrightarrow>
    \<exists>n s'. time_events_loop gtod tproc fin maxId s p = Some (Inr (n, s')) \<and> p \<le> n \<and> n \<le> p + int k"
proof (induction k arbitrary: s p rule: less_induct)
  case (less k)
  obtain due n where fd: "find_due gtod maxId (timeEventHead s) (clock_reads s) = (due, n)"
    by fastforce
  show ?case
  proof (cases due)
    case None
    then show ?thesis by (simp add: time_events_loop.simps fd)
  next
    case (Some te)
    let ?s = "s\<lparr>clock_reads := n\<rparr>"
    obtain r s1 where tp: "tproc (timeProc te) (te_id te) (te_clientData te) ?s = (r, s1)"
      by fastforce
    then have r: "r = AE_NOMORE" and fo: "fresh_only ?s s1"
      using assms unfolding one_shot_def by (metis fst_conv, metis snd_conv)
    have d1: "distinct_ids s1" and n1: "timeEventNextId s \<le> timeEventNextId s1"
      and i1: "event_ids s1 \<subseteq> event_ids s \<union> {timeEventNextId s..}"
      using fo less.prems(1) by (auto simp: fresh_only_def distinct_ids_def event_ids_def)
    let ?s2 = "snd (aeDeleteTimeEvent fin (te_id te) s1)"
    have fin: "fresh_only t (fin f d t)" for f d t
      using assms by (simp add: one_shot_def)
    note del = delete_time_event_ids [where fin = fin and tid = "te_id te", OF fin d1]
    have te: "te_id te \<in> event_ids s \<inter> {..maxId}"
      using find_due_Some [of gtod maxId "timeEventHead s" "clock_reads s" te n] fd Some
      by (auto simp: event_ids_def)
    have sub: "event_ids ?s2 \<inter> {..maxId} \<subseteq> (event_ids s \<inter> {..maxId}) - {te_id te}"
    proof
      fix x
      assume x: "x \<in> event_ids ?s2 \<inter> {..maxId}"
      then have "x \<in> event_ids s1 - {te_id te} \<or> timeEventNextId s1 \<le> x"
        using del(3) by auto
      with x n1 less.prems(2) have "x \<in> event_ids s1" "x \<noteq> te_id te" by auto
      with i1 x less.prems(2) show "x \<in> (event_ids s \<inter> {..maxId}) - {te_id te}" by auto
    qed
    have finite: "finite (event_ids s \<inter> {..maxId})"
      by (simp add: event_ids_def)
    have lt: "card (event_ids ?s2 \<inter> {..maxId}) < k"
    proof -
      have "card (event_ids ?s2 \<inter> {..maxId}) \<le> card ((event_ids s \<inter> {..maxId}) - {te_id te})"
        using sub finite by (intro card_mono) auto
      also have "\<dots> < card (event_ids s \<inter> {..maxId})"
        using te finite by (intro card_Diff1_less)
      finally show ?thesis by (simp add: less.prems(3))
    qed
    have "maxId < timeEventNextId ?s2"
      using del(1) n1 less.prems(2) by linarith
    from less.IH [OF lt del(2) this refl, of "p + 1"] lt
    show ?thesis
      by (auto simp: time_events_loop.simps [of gtod tproc fin maxId s p] fd Some tp r)
  qed
qed

section \<open>Properties\<close>

text \<open>C6: after any run of \<^verbatim>\<open>aeCreateFileEvent\<close> (with a nonzero mask, the kernel accepting
  or refusing each call) and \<^verbatim>\<open>aeDeleteFileEvent\<close> on a new loop, every \<^verbatim>\<open>epoll_ctl\<close> call issued
  was legal (\<^verbatim>\<open>ADD\<close> only on a descriptor that is not registered, \<^verbatim>\<open>MOD\<close> and \<^verbatim>\<open>DEL\<close> only on
  one that is), the kernel's interest set is exactly the masks of the loop, and \<^verbatim>\<open>maxfd\<close> is the
  highest registered descriptor, or -1.\<close>

theorem ae_epoll_mirror:
  assumes "guarded_run file_guard file_step xs (aeCreateEventLoop raw)"
    and "run_ops file_step xs (aeCreateEventLoop raw) = Inr s"
  shows "epoll_replay Map.empty (epoll_calls s) = Some (registered s) \<and> maxfd_exact s"
proof -
  have "ae_inv (aeCreateEventLoop raw)"
    by (auto simp: ae_inv_def maxfd_exact_def aeCreateEventLoop_def registered_def fun_eq_iff)
  from ae.run_inv [OF this assms] show ?thesis
    by (simp add: ae_inv_def)
qed

definition blank_loop :: ae_loop where
  "blank_loop = \<lparr>maxfd = 7, timeEventNextId = 3,
     events = (\<lambda>_. \<lparr>fe_mask = 9, rfileProc = 0, wfileProc = 0, fe_clientData = 0\<rparr>),
     fired = (\<lambda>_. (0, 0)), timeEventHead = [], ae_stop = True, beforesleep = None,
     epoll_calls = [], clock_reads = 0\<rparr>"

theorem ae_epoll_mirror_witness:
  "\<exists>s. run_ops file_step [CreateFileEvent True 5 AE_READABLE 1 2, CreateFileEvent True 5 AE_WRITABLE 1 2,
        CreateFileEvent True 3 AE_READABLE 1 2, DeleteFileEvent 5 3] (aeCreateEventLoop blank_loop) = Inr s
     \<and> maxfd s = 3 \<and> epoll_replay Map.empty (epoll_calls s) = Some (registered s)"
proof -
  let ?xs = "[CreateFileEvent True 5 AE_READABLE 1 2, CreateFileEvent True 5 AE_WRITABLE 1 2,
        CreateFileEvent True 3 AE_READABLE 1 2, DeleteFileEvent 5 3]"
  obtain s where s: "run_ops file_step ?xs (aeCreateEventLoop blank_loop) = Inr s"
    by simp
  have "guarded_run file_guard file_step ?xs (aeCreateEventLoop blank_loop)"
    by simp
  from ae_epoll_mirror [OF this s]
  have m: "epoll_replay Map.empty (epoll_calls s) = Some (registered s)" by simp
  have "maxfd s = 3"
    using s by (auto simp: aeCreateFileEvent_def aeDeleteFileEvent_def aeApiAddEvent_def aeApiDelEvent_def
        aeCreateEventLoop_def Let_def)
  with s m show ?thesis by blast
qed

text \<open>\<^verbatim>\<open>aeSearchNearestTimer\<close> finds a timer exactly when there is one, and no timer
  of the list fires before the one it finds.\<close>

theorem nearest_timer_minimal:
  "case aeSearchNearestTimer s of
     None \<Rightarrow> timeEventHead s = []
   | Some te \<Rightarrow> te \<in> set (timeEventHead s) \<and> (\<forall>u\<in>set (timeEventHead s). \<not> fires_before u te)"
proof (cases "timeEventHead s")
  case Nil
  then show ?thesis by (simp add: aeSearchNearestTimer_def)
next
  case (Cons t tes)
  with nearest_from_Some [of t tes] show ?thesis
    by (auto simp: aeSearchNearestTimer_def)
qed

theorem nearest_timer_minimal_witness:
  "\<exists>te. aeSearchNearestTimer
       (snd (aeCreateTimeEvent (\<lambda>n. (10, 500000)) 900 1 0 None
         (snd (aeCreateTimeEvent (\<lambda>n. (10, 500000)) 200 1 0 None (aeCreateEventLoop blank_loop))))) = Some te
     \<and> te_id te = 0 \<and> when_sec te = 10 \<and> when_ms te = 700"
  (is "\<exists>te. aeSearchNearestTimer ?s = Some te \<and> _")
proof -
  have "timeEventHead ?s \<noteq> []"
    by (simp add: aeCreateTimeEvent_def aeAddMillisecondsToNow_def aeGetTime_def Let_def)
  with nearest_timer_minimal [of ?s] obtain te where te: "aeSearchNearestTimer ?s = Some te"
    by (auto split: option.splits)
  then have "te_id te = 0 \<and> when_sec te = 10 \<and> when_ms te = 700"
    by (auto simp: aeCreateTimeEvent_def aeAddMillisecondsToNow_def aeGetTime_def Let_def
        aeCreateEventLoop_def aeSearchNearestTimer_def fires_before_def)
  with te show ?thesis by blast
qed


definition chain_proc :: "nat \<Rightarrow> int \<Rightarrow> nat \<Rightarrow> ae_loop \<Rightarrow> int \<times> ae_loop" where
  "chain_proc p i d s = (AE_NOMORE, s\<lparr>maxfd := 9\<rparr>)"


text \<open>The sleep computed for the nearest timer is exactly the time that is left, to the
  microsecond, when the timer is not due; when it is overdue the sleep is not zero but the time
  left modulo one second, because seconds and microseconds are clamped separately.\<close>

theorem timer_wait_microseconds:
  assumes "0 \<le> now_ms" "now_ms < 1000" "0 \<le> when_ms te" "when_ms te < 1000"
  shows "(case timer_wait te now_sec now_ms of (tv_sec, tv_usec) \<Rightarrow> tv_sec * 1000000 + tv_usec)
       = (let left = (when_sec te - now_sec) * 1000000 + (when_ms te - now_ms) * 1000
          in if 0 \<le> left then left else left mod 1000000)"
proof -
  define d where "d = when_sec te - now_sec"
  define r where "r = (if when_ms te < now_ms then (when_ms te + 1000 - now_ms) * 1000
                       else (when_ms te - now_ms) * 1000)"
  define e where "e = (if when_ms te < now_ms then d - 1 else d)"
  have left: "d * 1000000 + (when_ms te - now_ms) * 1000 = e * 1000000 + r"
    by (simp add: e_def r_def algebra_simps)
  have r: "0 \<le> r" "r < 1000000"
    using assms by (auto simp: r_def)
  have sgn: "(0 \<le> e * 1000000 + r) = (0 \<le> e)" and md: "(e * 1000000 + r) mod 1000000 = r"
    using r by (auto simp: mod_add_eq)
  have "timer_wait te now_sec now_ms = (if e < 0 then 0 else e, r)"
    using r by (auto simp: timer_wait_def Let_def e_def r_def d_def)
  then show ?thesis
    unfolding Let_def d_def [symmetric] left using r by (auto simp: sgn md)
qed

theorem timer_wait_microseconds_witness:
  "timer_wait \<lparr>te_id = 0, when_sec = 10, when_ms = 900, timeProc = 0, finalizerProc = None, te_clientData = 0\<rparr> 15 100
     = (0, 800000)"
  using timer_wait_microseconds [of 100 "\<lparr>te_id = 0, when_sec = 10, when_ms = 900, timeProc = 0,
      finalizerProc = None, te_clientData = 0\<rparr>" 15]
  by (simp add: timer_wait_def Let_def)

end
