(* ===== verification/RedisVm.thy ===== *)
theory RedisVm
  imports RedisVmPages RedisAe
begin

text \<open>
  The redis 2.2 virtual memory (\<^verbatim>\<open>VM/vm.c\<close>): objects in memory and on the swap file, the blocking
  swap, the I/O threads with their three job queues, the completion and the cancellation of jobs,
  and the clients that wait for a key to be loaded.  Objects live at addresses of \<open>heap\<close>: a
  \<^verbatim>\<open>redisObject\<close> or, for a value that is on disk, a \<^verbatim>\<open>vmPointer\<close> (the code casts between the two
  and reads the common field \<^verbatim>\<open>storage\<close>).  An access to an address that is free is the error
  \<open>Dangling\<close>.  \<^verbatim>\<open>rdbSaveObject\<close>, \<^verbatim>\<open>rdbLoadObject\<close>, \<^verbatim>\<open>rdbSavedObjectPages\<close>, the random choices, the
  float score of \<^verbatim>\<open>computeObjectSwappability\<close> and the outcomes of file operations are fields of an
  environment record.  The reference counts of the key objects (as opposed to the values) leave
  no trace: keys are numbers.
\<close>

section \<open>State\<close>

datatype storage = VM_MEMORY | VM_SWAPPED | VM_SWAPPING | VM_LOADING

record vobj =
  o_type :: nat
  o_storage :: storage
  o_refcount :: int
  o_ptr :: nat

record vmpointer =
  vp_vtype :: nat
  vp_storage :: storage
  vp_page :: int
  vp_usedpages :: int

datatype cell = Robj vobj | Vp vmpointer

fun storage_of :: "cell \<Rightarrow> storage" where
  "storage_of (Robj ob) = o_storage ob"
| "storage_of (Vp v) = vp_storage v"

datatype job_type = IOJOB_LOAD | IOJOB_PREPARE_SWAP | IOJOB_DO_SWAP

record iojob =
  j_type :: job_type
  j_db :: nat
  j_key :: nat
  j_id :: nat
  j_val :: "nat option"
  j_page :: int
  j_pages :: int
  j_canceled :: bool
  j_thread :: "nat option"

record vm_client =
  cl_db :: nat
  cl_fd :: nat
  cl_io_keys :: "nat list"
  cl_io_wait :: bool

record vm_server = vm_table +
  heap :: "nat \<rightharpoonup> cell"
  next_addr :: nat
  dict :: "nat \<times> nat \<rightharpoonup> nat"
  swap_file :: "int \<rightharpoonup> u8 list"
  io_newjobs :: "iojob list"
  io_processing :: "iojob list"
  io_processed :: "iojob list"
  io_ready_clients :: "nat list"
  io_active_threads :: int
  io_ready_pipe :: nat
  vm_max_threads :: int
  vm_clients :: "nat \<Rightarrow> vm_client"
  io_keys :: "nat \<times> nat \<rightharpoonup> nat list"
  el :: ae_loop
  vm_stats_swapped_objects :: int
  vm_stats_swapouts :: int
  vm_stats_swapins :: int
  vm_blocked_clients :: int
  bgsavechildpid :: int
  bgrewritechildpid :: int

record vm_env =
  rdb_save :: "nat \<Rightarrow> nat \<Rightarrow> u8 list"
  rdb_load :: "nat \<Rightarrow> u8 list \<Rightarrow> nat option"
  saved_pages :: "nat \<Rightarrow> nat \<Rightarrow> int"
  seek_ok :: "int \<Rightarrow> bool"
  random_value :: "nat \<Rightarrow> nat"
  random_key :: "nat \<Rightarrow> nat \<Rightarrow> nat"
  swappability :: "nat \<Rightarrow> int"
  over_memory :: bool
  dbnum :: nat

section \<open>Objects\<close>

definition set_storage :: "nat \<Rightarrow> storage \<Rightarrow> vm_server \<Rightarrow> vm_server" where
  "set_storage a st s =
     (case heap s a of None \<Rightarrow> s
      | Some (Robj ob) \<Rightarrow> s\<lparr>heap := (heap s)(a \<mapsto> Robj (ob\<lparr>o_storage := st\<rparr>))\<rparr>
      | Some (Vp v) \<Rightarrow> s\<lparr>heap := (heap s)(a \<mapsto> Vp (v\<lparr>vp_storage := st\<rparr>))\<rparr>)"

definition alloc_cell :: "cell \<Rightarrow> vm_server \<Rightarrow> nat \<times> vm_server" where
  "alloc_cell c s = (next_addr s, s\<lparr>heap := (heap s)(next_addr s \<mapsto> c), next_addr := Suc (next_addr s)\<rparr>)"

text \<open>The fields \<^verbatim>\<open>page\<close> and \<^verbatim>\<open>usedpages\<close> are set by the caller right after.\<close>

definition createVmPointer :: "nat \<Rightarrow> int \<Rightarrow> int \<Rightarrow> vm_server \<Rightarrow> nat \<times> vm_server" where
  "createVmPointer vtype page pages s =
     alloc_cell (Vp \<lparr>vp_vtype = vtype, vp_storage = VM_SWAPPED, vp_page = page, vp_usedpages = pages\<rparr>) s"

definition incrRefCount :: "nat \<Rightarrow> vm_server \<Rightarrow> vm_error + vm_server" where
  "incrRefCount a s =
     (case heap s a of Some (Robj ob) \<Rightarrow> Inr (s\<lparr>heap := (heap s)(a \<mapsto> Robj (ob\<lparr>o_refcount := o_refcount ob + 1\<rparr>))\<rparr>)
      | _ \<Rightarrow> Inl Dangling)"

text \<open>The end of \<^verbatim>\<open>decrRefCount\<close>, for an object in memory that no job is about.\<close>

definition drop_reference :: "nat \<Rightarrow> vm_server \<Rightarrow> vm_error + vm_server" where
  "drop_reference a s =
     (case heap s a of
        Some (Robj ob) \<Rightarrow>
          (if o_refcount ob \<le> 0 then Inl Panicked
           else if o_refcount ob - 1 = 0 then Inr (s\<lparr>heap := (heap s)(a := None)\<rparr>)
           else Inr (s\<lparr>heap := (heap s)(a \<mapsto> Robj (ob\<lparr>o_refcount := o_refcount ob - 1\<rparr>))\<rparr>))
      | _ \<Rightarrow> Inl Dangling)"

text \<open>The value's storage is set back first, so that \<^verbatim>\<open>decrRefCount\<close> does not look for the job.\<close>

definition freeIOJob :: "iojob \<Rightarrow> vm_server \<Rightarrow> vm_error + vm_server" where
  "freeIOJob j s =
     (case j_val j of None \<Rightarrow> Inr s
      | Some v \<Rightarrow>
          (case heap s v of
             Some (Robj ob) \<Rightarrow> drop_reference v (if o_storage ob = VM_SWAPPING then set_storage v VM_MEMORY s else s)
           | _ \<Rightarrow> Inl Dangling))"

section \<open>Canceling a job\<close>

text \<open>The first job of a queue that is not canceled and is about the object.\<close>

fun split_job :: "nat \<Rightarrow> iojob list \<Rightarrow> (iojob list \<times> iojob \<times> iojob list) option" where
  "split_job a [] = None"
| "split_job a (j # js) =
     (if \<not> j_canceled j \<and> j_id j = a then Some ([], j, js)
      else map_option (\<lambda>(pre, k, post). (j # pre, k, post)) (split_job a js))"

definition undo_storage :: "nat \<Rightarrow> vm_server \<Rightarrow> vm_server" where
  "undo_storage a s =
     (case map_option storage_of (heap s a) of
        Some VM_LOADING \<Rightarrow> set_storage a VM_SWAPPED s
      | Some VM_SWAPPING \<Rightarrow> set_storage a VM_MEMORY s
      | _ \<Rightarrow> s)"

definition free_job_pages :: "iojob \<Rightarrow> vm_server \<Rightarrow> vm_error + vm_server" where
  "free_job_pages j s = (if j_type j = IOJOB_DO_SWAP then vmMarkPagesFree (j_page j) (j_pages j) s else Inr s)"

text \<open>A job an I/O thread is processing makes the caller wait and try again: \<open>Busy\<close>.  Nothing has
  been changed then.\<close>

definition vmCancelThreadedIOJob :: "nat \<Rightarrow> vm_server \<Rightarrow> vm_error + vm_server" where
  "vmCancelThreadedIOJob a s =
     (case heap s a of None \<Rightarrow> Inl Dangling | Some c \<Rightarrow>
      if storage_of c \<noteq> VM_LOADING \<and> storage_of c \<noteq> VM_SWAPPING then Inl AssertFailed
      else case split_job a (io_newjobs s) of
        Some (pre, j, post) \<Rightarrow>
          sbind (free_job_pages j s) (\<lambda>s. sbind (freeIOJob j s)
            (\<lambda>s. Inr (undo_storage a (s\<lparr>io_newjobs := pre @ post\<rparr>))))
      | None \<Rightarrow>
          (case split_job a (io_processing s) of
             Some _ \<Rightarrow> Inl Busy
           | None \<Rightarrow>
               (case split_job a (io_processed s) of
                  Some (pre, j, post) \<Rightarrow>
                    sbind (free_job_pages j s)
                      (\<lambda>s. Inr (undo_storage a (s\<lparr>io_processed := pre @ j\<lparr>j_canceled := True\<rparr> # post\<rparr>)))
                | None \<Rightarrow> Inl AssertFailed)))"

definition decrRefCount :: "nat \<Rightarrow> vm_server \<Rightarrow> vm_error + vm_server" where
  "decrRefCount a s =
     (case heap s a of None \<Rightarrow> Inl Dangling
      | Some (Vp v) \<Rightarrow>
          sbind (if vp_storage v = VM_LOADING then vmCancelThreadedIOJob a s else Inr s)
            (\<lambda>s. sbind (vmMarkPagesFree (vp_page v) (vp_usedpages v) s)
              (\<lambda>s. Inr (s\<lparr>vm_stats_swapped_objects := vm_stats_swapped_objects s - 1, heap := (heap s)(a := None)\<rparr>)))
      | Some (Robj ob) \<Rightarrow>
          (if o_refcount ob \<le> 0 then Inl Panicked
           else sbind (if o_storage ob = VM_SWAPPING then vmCancelThreadedIOJob a s else Inr s) (drop_reference a)))"

section \<open>The swap file\<close>

text \<open>The file is seen per page: writing an image at a page overwrites the pages it covers, so that
  an older image that starts in one of them can no longer be read.\<close>

definition write_image :: "int \<Rightarrow> int \<Rightarrow> u8 list \<Rightarrow> (int \<rightharpoonup> u8 list) \<Rightarrow> int \<rightharpoonup> u8 list" where
  "write_image page pages img file =
     (\<lambda>p. if p = page then Some img else if page < p \<and> p < page + pages then None else file p)"

definition vmWriteObjectOnSwap :: "vm_env \<Rightarrow> vobj \<Rightarrow> int \<Rightarrow> vm_server \<Rightarrow> bool \<times> vm_server" where
  "vmWriteObjectOnSwap env ob page s =
     (if \<not> seek_ok env page then (False, s)
      else (True, s\<lparr>swap_file := write_image page (saved_pages env (o_type ob) (o_ptr ob))
                      (rdb_save env (o_type ob) (o_ptr ob)) (swap_file s)\<rparr>))"

definition vmReadObjectFromSwap :: "vm_env \<Rightarrow> int \<Rightarrow> nat \<Rightarrow> vm_server \<Rightarrow> vm_error + nat \<times> vm_server" where
  "vmReadObjectFromSwap env page vtype s =
     (if \<not> seek_ok env page then Inl Exited
      else case Option.bind (swap_file s page) (rdb_load env vtype) of
        None \<Rightarrow> Inl Exited
      | Some p \<Rightarrow> Inr (alloc_cell (Robj \<lparr>o_type = vtype, o_storage = VM_MEMORY, o_refcount = 1, o_ptr = p\<rparr>) s))"

text \<open>\<^const>\<open>None\<close> is the null pointer: no space or no write.\<close>

definition vmSwapObjectBlocking :: "vm_env \<Rightarrow> nat \<Rightarrow> vm_server \<Rightarrow> vm_error + nat option \<times> vm_server" where
  "vmSwapObjectBlocking env a s =
     (case heap s a of
        Some (Robj ob) \<Rightarrow>
          (let pages = saved_pages env (o_type ob) (o_ptr ob)
           in if o_storage ob \<noteq> VM_MEMORY \<or> o_refcount ob \<noteq> 1 then Inl AssertFailed
              else case vmFindContiguousPages (random_value env) pages s of
                (None, s) \<Rightarrow> Inr (None, s)
              | (Some page, s) \<Rightarrow>
                  (case vmWriteObjectOnSwap env ob page s of
                     (False, s) \<Rightarrow> Inr (None, s)
                   | (True, s) \<Rightarrow>
                       (let (v, s) = createVmPointer (o_type ob) page pages s
                        in sbind (decrRefCount a s) (\<lambda>s. sbind (vmMarkPagesUsed page pages s)
                          (\<lambda>s. Inr (Some v, s\<lparr>vm_stats_swapped_objects := vm_stats_swapped_objects s + 1,
                                             vm_stats_swapouts := vm_stats_swapouts s + 1\<rparr>))))))
      | _ \<Rightarrow> Inl AssertFailed)"

definition vmGenericLoadObject :: "vm_env \<Rightarrow> nat \<Rightarrow> bool \<Rightarrow> vm_server \<Rightarrow> vm_error + nat \<times> vm_server" where
  "vmGenericLoadObject env a preview s =
     (case heap s a of
        Some (Vp v) \<Rightarrow>
          (if vp_storage v \<noteq> VM_SWAPPED \<and> vp_storage v \<noteq> VM_LOADING then Inl AssertFailed
           else sbind (vmReadObjectFromSwap env (vp_page v) (vp_vtype v) s) (\<lambda>(val, s).
             if preview then Inr (val, s\<lparr>vm_stats_swapins := vm_stats_swapins s + 1\<rparr>)
             else sbind (vmMarkPagesFree (vp_page v) (vp_usedpages v) s)
               (\<lambda>s. Inr (val, s\<lparr>heap := (heap s)(a := None),
                                vm_stats_swapped_objects := vm_stats_swapped_objects s - 1,
                                vm_stats_swapins := vm_stats_swapins s + 1\<rparr>))))
      | _ \<Rightarrow> Inl AssertFailed)"

definition vmLoadObject :: "vm_env \<Rightarrow> nat \<Rightarrow> vm_server \<Rightarrow> vm_error + nat \<times> vm_server" where
  "vmLoadObject env a s =
     (case heap s a of None \<Rightarrow> Inl Dangling
      | Some c \<Rightarrow> sbind (if storage_of c = VM_LOADING then vmCancelThreadedIOJob a s else Inr s)
                   (vmGenericLoadObject env a False))"

definition vmPreviewObject :: "vm_env \<Rightarrow> nat \<Rightarrow> vm_server \<Rightarrow> vm_error + nat \<times> vm_server" where
  "vmPreviewObject env a s = vmGenericLoadObject env a True s"

section \<open>Choosing an object to swap\<close>

text \<open>The value may be swapped: it is in memory and nobody shares it.\<close>

definition may_swap :: "vm_server \<Rightarrow> nat \<times> nat \<Rightarrow> bool" where
  "may_swap s k =
     (case Option.bind (dict s k) (heap s) of
        Some (Robj ob) \<Rightarrow> o_storage ob = VM_MEMORY \<and> o_refcount ob = 1
      | _ \<Rightarrow> False)"

text \<open>Five samples of one database; a sample that may not be swapped is not counted while there
  are tries left.  \<open>r\<close> numbers the random choices.\<close>

function sample_db ::
  "(nat \<Rightarrow> nat) \<Rightarrow> (nat \<Rightarrow> bool) \<Rightarrow> (nat \<Rightarrow> int) \<Rightarrow> nat \<Rightarrow> (nat \<Rightarrow> nat \<times> nat)
   \<Rightarrow> nat \<Rightarrow> nat \<Rightarrow> nat \<Rightarrow> ((nat \<times> nat) \<times> int) option \<Rightarrow> ((nat \<times> nat) \<times> int) option \<times> nat" where
  "sample_db pick ok score db at i maxtries r best =
     (if i < 5 then
        let maxtries' = maxtries - 1; key = pick r
        in if \<not> ok key
           then if maxtries' > 0 then sample_db pick ok score db at i maxtries' (Suc r) best
                else sample_db pick ok score db at (Suc i) maxtries' (Suc r) best
           else sample_db pick ok score db at (Suc i) maxtries' (Suc r)
                  (case best of None \<Rightarrow> Some (at key, score key)
                   | Some (b, sc) \<Rightarrow> if score key > sc then Some (at key, score key) else Some (b, sc))
      else (best, r))"
  by pat_completeness auto

termination
  by (relation "measure (\<lambda>(pick, ok, score, db, at, i, maxtries, r, best). (5 - i) + maxtries)") auto

fun choose_victim ::
  "vm_env \<Rightarrow> vm_server \<Rightarrow> nat list \<Rightarrow> nat \<Rightarrow> ((nat \<times> nat) \<times> int) option \<Rightarrow> ((nat \<times> nat) \<times> int) option \<times> nat" where
  "choose_victim env s [] r best = (best, r)"
| "choose_victim env s (db # dbs) r best =
     (if (\<forall>k \<in> dom (dict s). fst k \<noteq> db) then choose_victim env s dbs r best
      else case sample_db (random_key env db) (\<lambda>k. may_swap s (db, k))
             (\<lambda>k. case dict s (db, k) of None \<Rightarrow> 0 | Some a \<Rightarrow> swappability env a) db (\<lambda>k. (db, k)) 0 100 r best of
             (best, r) \<Rightarrow> choose_victim env s dbs r best)"

section \<open>Jobs\<close>

definition vmCanSwapOut :: "vm_server \<Rightarrow> bool" where
  "vmCanSwapOut s \<longleftrightarrow> bgsavechildpid s = -1 \<and> bgrewritechildpid s = -1"

definition spawnIOThread :: "vm_server \<Rightarrow> vm_server" where
  "spawnIOThread s = s\<lparr>io_active_threads := io_active_threads s + 1\<rparr>"

definition queueIOJob :: "iojob \<Rightarrow> vm_server \<Rightarrow> vm_server" where
  "queueIOJob j s =
     (let s = s\<lparr>io_newjobs := io_newjobs s @ [j]\<rparr>
      in if io_active_threads s < vm_max_threads s then spawnIOThread s else s)"

definition vmSwapObjectThreaded :: "nat \<Rightarrow> nat \<Rightarrow> nat \<Rightarrow> vm_server \<Rightarrow> vm_error + vm_server" where
  "vmSwapObjectThreaded db key a s =
     (let j = \<lparr>j_type = IOJOB_PREPARE_SWAP, j_db = db, j_key = key, j_id = a, j_val = Some a, j_page = 0,
               j_pages = 0, j_canceled = False, j_thread = None\<rparr>
      in sbind (incrRefCount a s) (\<lambda>s. Inr (queueIOJob j (set_storage a VM_SWAPPING s))))"

text \<open>The result is whether an object was swapped.\<close>

definition vmSwapOneObject :: "vm_env \<Rightarrow> bool \<Rightarrow> vm_server \<Rightarrow> vm_error + bool \<times> vm_server" where
  "vmSwapOneObject env usethreads s =
     (let (best, r) = choose_victim env s [0..<dbnum env] (random_calls s) None;
          s = s\<lparr>random_calls := r\<rparr>
      in case best of
           None \<Rightarrow> Inr (False, s)
         | Some (k, _) \<Rightarrow>
             (case dict s k of None \<Rightarrow> Inl Dangling
              | Some a \<Rightarrow>
                  (if usethreads
                   then sbind (vmSwapObjectThreaded (fst k) (snd k) a s) (\<lambda>s. Inr (True, s))
                   else sbind (vmSwapObjectBlocking env a s) (\<lambda>(vp, s).
                     case vp of None \<Rightarrow> Inr (False, s)
                     | Some v \<Rightarrow> Inr (True, s\<lparr>dict := (dict s)(k \<mapsto> v)\<rparr>)))))"

section \<open>The I/O threads\<close>

text \<open>A thread takes the oldest job, or ends.\<close>

definition io_thread_take :: "nat \<Rightarrow> vm_server \<Rightarrow> vm_server" where
  "io_thread_take tid s =
     (case io_newjobs s of
        [] \<Rightarrow> s\<lparr>io_active_threads := io_active_threads s - 1\<rparr>
      | j # js \<Rightarrow> s\<lparr>io_newjobs := js, io_processing := io_processing s @ [j\<lparr>j_thread := Some tid\<rparr>]\<rparr>)"

definition process_job :: "vm_env \<Rightarrow> iojob \<Rightarrow> vm_server \<Rightarrow> vm_error + iojob \<times> vm_server" where
  "process_job env j s =
     (case j_type j of
        IOJOB_LOAD \<Rightarrow>
          (case heap s (j_id j) of
             Some (Vp v) \<Rightarrow> sbind (vmReadObjectFromSwap env (j_page j) (vp_vtype v) s)
                              (\<lambda>(a, s). Inr (j\<lparr>j_val := Some a\<rparr>, s))
           | _ \<Rightarrow> Inl Dangling)
      | IOJOB_PREPARE_SWAP \<Rightarrow>
          (case Option.bind (j_val j) (heap s) of
             Some (Robj ob) \<Rightarrow> Inr (j\<lparr>j_pages := saved_pages env (o_type ob) (o_ptr ob)\<rparr>, s)
           | _ \<Rightarrow> Inl Dangling)
      | IOJOB_DO_SWAP \<Rightarrow>
          (case Option.bind (j_val j) (heap s) of
             Some (Robj ob) \<Rightarrow>
               (case vmWriteObjectOnSwap env ob (j_page j) s of
                  (ok, s) \<Rightarrow> Inr (if ok then j else j\<lparr>j_canceled := True\<rparr>, s))
           | _ \<Rightarrow> Inl Dangling))"

text \<open>The thread of the \<open>i\<close>-th job in \<^verbatim>\<open>io_processing\<close> does the work, moves the job on and writes a
  byte to the pipe.\<close>

definition io_thread_finish :: "vm_env \<Rightarrow> nat \<Rightarrow> vm_server \<Rightarrow> vm_error + vm_server" where
  "io_thread_finish env i s =
     (if i < length (io_processing s)
      then sbind (process_job env (io_processing s ! i) s) (\<lambda>(j, s).
        Inr (s\<lparr>io_processing := take i (io_processing s) @ drop (Suc i) (io_processing s),
               io_processed := io_processed s @ [j], io_ready_pipe := Suc (io_ready_pipe s)\<rparr>))
      else Inr s)"

section \<open>Clients that wait for a key\<close>

text \<open>The client stops waiting for the key; the result is whether it waits for nothing any more.\<close>

definition dontWaitForSwappedKey :: "nat \<Rightarrow> nat \<Rightarrow> vm_server \<Rightarrow> vm_error + bool \<times> vm_server" where
  "dontWaitForSwappedKey c key s =
     (let cl = vm_clients s c
      in if key \<notin> set (cl_io_keys cl) then Inl AssertFailed
         else
           let cl = cl\<lparr>cl_io_keys := remove1 key (cl_io_keys cl)\<rparr>;
               s = s\<lparr>vm_clients := (vm_clients s)(c := cl)\<rparr>
           in case io_keys s (cl_db cl, key) of
                None \<Rightarrow> Inl AssertFailed
              | Some l \<Rightarrow>
                  (if c \<notin> set l then Inl AssertFailed
                   else
                     let l = remove1 c l;
                         s = s\<lparr>io_keys := (io_keys s)((cl_db cl, key) := if l = [] then None else Some l)\<rparr>
                     in Inr (cl_io_keys cl = [], s)))"

text \<open>The loop \<^verbatim>\<open>while (len--)\<close>; the list is read again each time, and freed with its last client.\<close>

fun handle_blocked :: "nat \<Rightarrow> nat \<Rightarrow> nat \<Rightarrow> vm_server \<Rightarrow> vm_error + vm_server" where
  "handle_blocked db key 0 s = Inr s"
| "handle_blocked db key (Suc len) s =
     (case io_keys s (db, key) of
        Some (c # _) \<Rightarrow>
          sbind (dontWaitForSwappedKey c key s) (\<lambda>(ready, s).
            handle_blocked db key len
              (if ready then s\<lparr>io_ready_clients := io_ready_clients s @ [c]\<rparr> else s))
      | _ \<Rightarrow> Inl Dangling)"

definition handleClientsBlockedOnSwappedKey :: "nat \<Rightarrow> nat \<Rightarrow> vm_server \<Rightarrow> vm_error + vm_server" where
  "handleClientsBlockedOnSwappedKey db key s =
     (case io_keys s (db, key) of None \<Rightarrow> Inr s | Some l \<Rightarrow> handle_blocked db key (length l) s)"

text \<open>The result is whether the client has to wait.\<close>

definition waitForSwappedKey :: "nat \<Rightarrow> nat \<Rightarrow> vm_server \<Rightarrow> vm_error + bool \<times> vm_server" where
  "waitForSwappedKey c key s =
     (let db = cl_db (vm_clients s c)
      in case dict s (db, key) of None \<Rightarrow> Inr (False, s)
       | Some a \<Rightarrow>
       (case heap s a of None \<Rightarrow> Inl Dangling
        | Some ob \<Rightarrow>
          (if storage_of ob = VM_MEMORY then Inr (False, s)
           else if storage_of ob = VM_SWAPPING
           then sbind (vmCancelThreadedIOJob a s) (\<lambda>s. Inr (False, s))
           else
             let cl = vm_clients s c;
                 s = s\<lparr>vm_clients := (vm_clients s)(c := cl\<lparr>cl_io_keys := cl_io_keys cl @ [key]\<rparr>)\<rparr>;
                 l = (case io_keys s (db, key) of None \<Rightarrow> [] | Some l \<Rightarrow> l);
                 s = s\<lparr>io_keys := (io_keys s)((db, key) \<mapsto> l @ [c])\<rparr>
             in case ob of
                  Vp v \<Rightarrow>
                    (if vp_storage v = VM_SWAPPED
                     then Inr (True, queueIOJob \<lparr>j_type = IOJOB_LOAD, j_db = db, j_key = key, j_id = a, j_val = None,
                                                 j_page = vp_page v, j_pages = 0, j_canceled = False, j_thread = None\<rparr>
                                       (set_storage a VM_LOADING s))
                     else Inr (True, s))
                | Robj _ \<Rightarrow> Inr (True, s))))"

text \<open>The keys of a command: every \<open>step\<close>-th argument.\<close>

partial_function (option) wait_for_keys ::
  "nat \<Rightarrow> nat list \<Rightarrow> int \<Rightarrow> int \<Rightarrow> int \<Rightarrow> vm_server \<Rightarrow> (vm_error + vm_server) option" where
  "wait_for_keys c argv lst step j s =
     (if j \<le> lst
      then if j < int (length argv)
           then case waitForSwappedKey c (argv ! nat j) s of
                  Inl e \<Rightarrow> Some (Inl e) | Inr (_, s') \<Rightarrow> wait_for_keys c argv lst step (j + step) s'
           else Some (Inl AssertFailed)
      else Some (Inr s))"

record vm_command =
  vm_firstkey :: int
  vm_lastkey :: int
  vm_keystep :: int
  vm_preload_proc :: "(nat \<Rightarrow> nat list \<Rightarrow> vm_server \<Rightarrow> (vm_error + vm_server) option) option"

definition waitForMultipleSwappedKeys ::
  "nat \<Rightarrow> vm_command \<Rightarrow> nat list \<Rightarrow> vm_server \<Rightarrow> (vm_error + vm_server) option" where
  "waitForMultipleSwappedKeys c cmd argv s =
     (if vm_firstkey cmd = 0 then Some (Inr s)
      else let lst = vm_lastkey cmd;
               lst = (if lst < 0 then int (length argv) + lst else lst)
           in wait_for_keys c argv lst (vm_keystep cmd) (vm_firstkey cmd) s)"

text \<open>\<open>num\<close> is \<^verbatim>\<open>atoi(argv[2]->ptr)\<close>.\<close>

fun wait_for_each :: "nat \<Rightarrow> nat list \<Rightarrow> vm_server \<Rightarrow> vm_error + vm_server" where
  "wait_for_each c [] s = Inr s"
| "wait_for_each c (k # ks) s = sbind (waitForSwappedKey c k s) (\<lambda>(_, s). wait_for_each c ks s)"

definition zunionInterBlockClientOnSwappedKeys ::
  "int \<Rightarrow> nat \<Rightarrow> nat list \<Rightarrow> vm_server \<Rightarrow> (vm_error + vm_server) option" where
  "zunionInterBlockClientOnSwappedKeys num c argv s =
     (if num > int (length argv) - 3 then Some (Inr s)
      else Some (wait_for_each c (take (nat num) (drop 3 argv)) s))"

definition preload_keys :: "nat \<Rightarrow> vm_command \<Rightarrow> nat list \<Rightarrow> vm_server \<Rightarrow> (vm_error + vm_server) option" where
  "preload_keys c cmd argv s =
     (case vm_preload_proc cmd of Some proc \<Rightarrow> proc c argv s
      | None \<Rightarrow> waitForMultipleSwappedKeys c cmd argv s)"

text \<open>The queued commands of a transaction.\<close>

fun exec_preload :: "nat \<Rightarrow> (vm_command \<times> nat list) list \<Rightarrow> vm_server \<Rightarrow> (vm_error + vm_server) option" where
  "exec_preload c [] s = Some (Inr s)"
| "exec_preload c ((cmd, argv) # rest) s =
     (case preload_keys c cmd argv s of
        None \<Rightarrow> None | Some (Inl e) \<Rightarrow> Some (Inl e) | Some (Inr s') \<Rightarrow> exec_preload c rest s')"

definition execBlockClientOnSwappedKeys ::
  "bool \<Rightarrow> (vm_command \<times> nat list) list \<Rightarrow> nat \<Rightarrow> nat list \<Rightarrow> vm_server \<Rightarrow> (vm_error + vm_server) option" where
  "execBlockClientOnSwappedKeys multi queued c argv s =
     (if \<not> multi then Some (Inr s) else exec_preload c queued s)"

definition blockClientOnSwappedKeys ::
  "nat \<Rightarrow> vm_command \<Rightarrow> nat list \<Rightarrow> vm_server \<Rightarrow> (vm_error + bool \<times> vm_server) option" where
  "blockClientOnSwappedKeys c cmd argv s =
     map_option (\<lambda>r. sbind r (\<lambda>s.
       let cl = vm_clients s c
       in if cl_io_keys cl \<noteq> []
          then Inr (True, s\<lparr>vm_clients := (vm_clients s)(c := cl\<lparr>cl_io_wait := True\<rparr>),
                            el := aeDeleteFileEvent (cl_fd cl) AE_READABLE (el s),
                            vm_blocked_clients := vm_blocked_clients s + 1\<rparr>)
          else Inr (False, s)))
       (preload_keys c cmd argv s)"

section \<open>Completed jobs\<close>

text \<open>The loop \<^verbatim>\<open>while (more)\<close>: every turn but the last finds less than \<^verbatim>\<open>vm_max_threads\<close> jobs
  queued and queues one more, so \<open>vm_max_threads + 1\<close> turns are enough.\<close>

fun swap_more :: "vm_env \<Rightarrow> nat \<Rightarrow> vm_server \<Rightarrow> vm_error + bool \<times> vm_server" where
  "swap_more env 0 s = Inr (True, s)"
| "swap_more env (Suc fuel) s =
     (let more = int (length (io_newjobs s)) < vm_max_threads s
      in sbind (vmSwapOneObject env True s) (\<lambda>(ok, s).
           if \<not> ok then Inr (False, s)
           else if more then swap_more env fuel s else Inr (True, s)))"

text \<open>One job that is not canceled; \<open>trytoswap\<close> is the local of the handler.\<close>

definition complete_job :: "vm_env \<Rightarrow> bool \<Rightarrow> iojob \<Rightarrow> vm_server \<Rightarrow> vm_error + bool \<times> vm_server" where
  "complete_job env trytoswap j s =
     (case dict s (j_db j, j_key j) of None \<Rightarrow> Inl AssertFailed
      | Some de \<Rightarrow>
        (case j_type j of
           IOJOB_LOAD \<Rightarrow>
             (case (heap s de, j_val j) of
                (Some (Vp v), Some val) \<Rightarrow>
                  sbind (vmMarkPagesFree (vp_page v) (vp_usedpages v) s) (\<lambda>s.
                  sbind (incrRefCount val (s\<lparr>vm_stats_swapped_objects := vm_stats_swapped_objects s - 1,
                                            vm_stats_swapins := vm_stats_swapins s + 1,
                                            dict := (dict s)((j_db j, j_key j) \<mapsto> val)\<rparr>)) (\<lambda>s.
                  sbind (handleClientsBlockedOnSwappedKey (j_db j) (j_key j) s) (\<lambda>s.
                  sbind (freeIOJob j s) (\<lambda>s.
                  Inr (trytoswap, s\<lparr>heap := (heap s)(de := None)\<rparr>)))))
              | _ \<Rightarrow> Inl Dangling)
         | IOJOB_PREPARE_SWAP \<Rightarrow>
             (case (if vmCanSwapOut s then vmFindContiguousPages (random_value env) (j_pages j) s else (None, s)) of
                (None, s) \<Rightarrow>
                  (case j_val j of None \<Rightarrow> Inl Dangling
                   | Some val \<Rightarrow> sbind (freeIOJob j (set_storage val VM_MEMORY s)) (\<lambda>s. Inr (trytoswap, s)))
              | (Some page, s) \<Rightarrow>
                  sbind (vmMarkPagesUsed page (j_pages j) s) (\<lambda>s.
                  Inr (trytoswap, queueIOJob (j\<lparr>j_page := page, j_type := IOJOB_DO_SWAP\<rparr>) s)))
         | IOJOB_DO_SWAP \<Rightarrow>
             (case Option.bind (j_val j) (\<lambda>val. map_option (Pair val) (heap s val)) of
                Some (val, Robj ob) \<Rightarrow>
                  (if o_storage ob \<noteq> VM_SWAPPING then Inl AssertFailed
                   else
                     let (v, s) = createVmPointer (o_type ob) (j_page j) (j_pages j) s;
                         s = s\<lparr>dict := (dict s)((j_db j, j_key j) \<mapsto> v)\<rparr>
                     in sbind (decrRefCount val (set_storage val VM_MEMORY s)) (\<lambda>s.
                        sbind (freeIOJob j (s\<lparr>vm_stats_swapped_objects := vm_stats_swapped_objects s + 1,
                                              vm_stats_swapouts := vm_stats_swapouts s + 1\<rparr>)) (\<lambda>s.
                        if trytoswap \<and> vmCanSwapOut s \<and> over_memory env
                        then swap_more env (Suc (nat (vm_max_threads s))) s
                        else Inr (trytoswap, s))))
              | _ \<Rightarrow> Inl Dangling)))"

text \<open>One turn of \<^verbatim>\<open>vmThreadedIOCompletedJob\<close> with a byte read from the pipe: the oldest processed
  job is completed, or freed when it is canceled.  The result says whether it counts.\<close>

definition complete_oldest :: "vm_env \<Rightarrow> bool \<Rightarrow> vm_server \<Rightarrow> vm_error + bool \<times> bool \<times> vm_server" where
  "complete_oldest env trytoswap s =
     (case io_processed s of [] \<Rightarrow> Inl AssertFailed
      | j # js \<Rightarrow>
          (let s = s\<lparr>io_processed := js, io_ready_pipe := io_ready_pipe s - 1\<rparr>
           in if j_canceled j then sbind (freeIOJob j s) (\<lambda>s. Inr (False, trytoswap, s))
              else sbind (complete_job env trytoswap j s) (\<lambda>(trytoswap, s). Inr (True, trytoswap, s))))"

text \<open>The bytes that are in the pipe when the handler starts; a percent of the processed jobs, at
  least one, is completed.\<close>

fun complete_loop :: "vm_env \<Rightarrow> nat \<Rightarrow> int \<Rightarrow> int \<Rightarrow> bool \<Rightarrow> vm_server \<Rightarrow> vm_error + vm_server" where
  "complete_loop env 0 processed toprocess trytoswap s = Inr s"
| "complete_loop env (Suc bytes) processed toprocess trytoswap s =
     (let toprocess = (if toprocess = -1 then let n = int (length (io_processed s)) * 1 div 100 in if n \<le> 0 then 1 else n
                       else toprocess)
      in sbind (complete_oldest env trytoswap s) (\<lambda>(counts, trytoswap, s).
           if \<not> counts then complete_loop env bytes processed toprocess trytoswap s
           else if processed + 1 = toprocess then Inr s
           else complete_loop env bytes (processed + 1) toprocess trytoswap s))"

definition vmThreadedIOCompletedJob :: "vm_env \<Rightarrow> bool \<Rightarrow> vm_server \<Rightarrow> vm_error + vm_server" where
  "vmThreadedIOCompletedJob env privdata s = complete_loop env (io_ready_pipe s) 0 (-1) (\<not> privdata) s"

text \<open>\<open>threads n\<close> is what the I/O threads do during the \<open>n\<close>-th sleep.\<close>

partial_function (option) waitEmptyIOJobsQueue ::
  "vm_env \<Rightarrow> (nat \<Rightarrow> vm_server \<Rightarrow> vm_error + vm_server) \<Rightarrow> nat \<Rightarrow> vm_server \<Rightarrow> (vm_error + vm_server) option" where
  "waitEmptyIOJobsQueue env threads n s =
     (if io_newjobs s = [] \<and> io_processing s = [] \<and> io_active_threads s = 0 then Some (Inr s)
      else case (if io_processed s \<noteq> [] then vmThreadedIOCompletedJob env True s else Inr s) of
             Inl e \<Rightarrow> Some (Inl e)
           | Inr s \<Rightarrow> (case threads n s of Inl e \<Rightarrow> Some (Inl e)
                      | Inr s' \<Rightarrow> waitEmptyIOJobsQueue env threads (Suc n) s'))"

text \<open>The server's part of \<^verbatim>\<open>vmInit\<close>; the arguments are the outcomes of the calls on files and
  pipes.\<close>

definition vmInit :: "bool \<Rightarrow> bool \<Rightarrow> bool \<Rightarrow> bool \<Rightarrow> bool \<Rightarrow> nat \<Rightarrow> vm_server \<Rightarrow> vm_error + vm_server" where
  "vmInit opened locked truncated piped nonblock read_fd s =
     (if \<not> opened then Inl Exited
      else if \<not> locked then Inl Exited
      else
        let s = s\<lparr>vm_next_page := 0, vm_near_pages := 0, vm_stats_used_pages := 0,
                  vm_stats_swapped_objects := 0, vm_stats_swapouts := 0, vm_stats_swapins := 0\<rparr>
        in if \<not> truncated then Inl Exited
           else
             let s = s\<lparr>vm_bitmap := replicate (nat (cdiv (vm_pages s + 7) 8)) 0,
                       io_newjobs := [], io_processing := [], io_processed := [], io_ready_clients := [],
                       io_active_threads := 0\<rparr>
             in if \<not> piped then Inl Exited
                else if \<not> nonblock then Inl AssertFailed
                else case aeCreateFileEvent True read_fd AE_READABLE 0 0 (el s) of
                       (AE_ERR, e) \<Rightarrow> Inl Exited
                     | (AE_OK, e) \<Rightarrow> Inr (s\<lparr>el := e\<rparr>))"

section \<open>The page table inside the server\<close>

lemma table_ok_server [simp]:
  "table_ok (s\<lparr>heap := h\<rparr>) = table_ok s" "table_ok (s\<lparr>next_addr := n\<rparr>) = table_ok s"
  "table_ok (s\<lparr>swap_file := f\<rparr>) = table_ok s" "table_ok (s\<lparr>vm_stats_swapped_objects := i\<rparr>) = table_ok s"
  "table_ok (s\<lparr>vm_stats_swapouts := i\<rparr>) = table_ok s"
  for s :: vm_server
  by (simp_all add: table_ok_def)

lemma used_set_server [simp]:
  "used_set (s\<lparr>heap := h\<rparr>) = used_set s" "used_set (s\<lparr>next_addr := n\<rparr>) = used_set s"
  "used_set (s\<lparr>swap_file := f\<rparr>) = used_set s" "used_set (s\<lparr>vm_stats_swapped_objects := i\<rparr>) = used_set s"
  "used_set (s\<lparr>vm_stats_swapouts := i\<rparr>) = used_set s" "used_set (s\<lparr>vm_stats_swapins := i\<rparr>) = used_set s"
  for s :: vm_server
  by (simp_all add: used_set_def vmFreePage_def)

section \<open>Swapping an object out and in\<close>

lemma swap_blocking_result:
  assumes ok: "table_ok s" and a: "heap s a = Some (Robj ob)" and fresh: "heap s (next_addr s) = None"
    and run: "vmSwapObjectBlocking env a s = Inr (Some v, t)"
  defines "n \<equiv> saved_pages env (o_type ob) (o_ptr ob)"
  shows "\<exists>page. 1 \<le> n \<and> {page ..< page + n} \<inter> used_set s = {} \<and> used_set t = used_set s \<union> {page ..< page + n}
    \<and> table_ok t \<and> vm_stats_used_pages t = vm_stats_used_pages s + n
    \<and> heap t = (heap s)(a := None, v \<mapsto> Vp \<lparr>vp_vtype = o_type ob, vp_storage = VM_SWAPPED, vp_page = page, vp_usedpages = n\<rparr>)
    \<and> v = next_addr s \<and> next_addr t = Suc (next_addr s) \<and> swap_file t page = Some (rdb_save env (o_type ob) (o_ptr ob))
    \<and> vm_stats_swapped_objects t = vm_stats_swapped_objects s + 1 \<and> o_refcount ob = 1 \<and> o_storage ob = VM_MEMORY"
proof -
  have mem: "o_storage ob = VM_MEMORY" "o_refcount ob = 1"
    using run a by (auto simp: vmSwapObjectBlocking_def Let_def split: if_splits)
  obtain res s1 where f: "vmFindContiguousPages (random_value env) n s = (res, s1)" by fastforce
  obtain page where res: "res = Some page"
    using run a mem f by (cases res) (auto simp: vmSwapObjectBlocking_def Let_def n_def)
  note fs = vmFindContiguousPages_sound [OF ok f]
  obtain np nx r where s1: "s1 = s\<lparr>vm_near_pages := np, vm_next_page := nx, random_calls := r\<rparr>"
    using fs(3) by blast
  let ?s2 = "s1\<lparr>swap_file := write_image page n (rdb_save env (o_type ob) (o_ptr ob)) (swap_file s1)\<rparr>"
  let ?vp = "Vp \<lparr>vp_vtype = o_type ob, vp_storage = VM_SWAPPED, vp_page = page, vp_usedpages = n\<rparr>"
  let ?s3 = "?s2\<lparr>next_addr := Suc (next_addr s), heap := (heap s)(next_addr s \<mapsto> ?vp, a := None)\<rparr>"
  have ne: "a \<noteq> next_addr s" using a fresh by auto
  have okw: "seek_ok env page"
    using run a mem f res by (auto simp: vmSwapObjectBlocking_def Let_def n_def vmWriteObjectOnSwap_def split: if_splits)
  have run': "sbind (vmMarkPagesUsed page n ?s3) (\<lambda>s. Inr (Some (next_addr s1), s\<lparr>vm_stats_swapped_objects := vm_stats_swapped_objects s + 1,
      vm_stats_swapouts := vm_stats_swapouts s + 1\<rparr>)) = Inr (Some v, t)"
    using run a mem f res okw ne
    by (simp add: vmSwapObjectBlocking_def Let_def n_def [symmetric] vmWriteObjectOnSwap_def createVmPointer_def
        alloc_cell_def decrRefCount_def drop_reference_def s1)
  have r: "0 \<le> page" "page + n \<le> vm_pages s" "{page ..< page + n} \<inter> used_set s = {}" "1 \<le> n"
    using fs(4) [OF res] by auto
  have ok3: "table_ok ?s3" and us3: "used_set ?s3 = used_set s"
    using fs(1,2) by simp_all
  from vmMarkPagesUsed_set [OF ok3 r(1), of n] r us3 obtain bm where
    m: "vmMarkPagesUsed page n ?s3 = Inr (?s3\<lparr>vm_bitmap := bm, vm_stats_used_pages := vm_stats_used_pages ?s3 + n\<rparr>)"
    and l: "length bm = length (vm_bitmap ?s3)" and u: "used_set (?s3\<lparr>vm_bitmap := bm\<rparr>) = used_set s \<union> {page ..< page + n}"
    by (auto simp: s1)
  have t: "t = ?s3\<lparr>vm_bitmap := bm, vm_stats_used_pages := vm_stats_used_pages s + n,
      vm_stats_swapped_objects := vm_stats_swapped_objects s + 1, vm_stats_swapouts := vm_stats_swapouts s + 1\<rparr>"
    "v = next_addr s"
    using run' unfolding m by (auto simp: s1)
  have "used_set t = used_set (?s3\<lparr>vm_bitmap := bm\<rparr>)" and "table_ok t"
    using ok3 l by (auto simp: t(1) used_set_def vmFreePage_def table_ok_def)
  then show ?thesis
    using r u mem ne t(2) by (intro exI [of _ page]) (auto simp: t(1) s1 write_image_def)
qed

section \<open>Canceling what has just been queued\<close>

lemma queueIOJob_fields [redis_simps]:
  "io_newjobs (queueIOJob j s) = io_newjobs s @ [j]" "heap (queueIOJob j s) = heap s" "dict (queueIOJob j s) = dict s"
  "vm_bitmap (queueIOJob j s) = vm_bitmap s" "vm_pages (queueIOJob j s) = vm_pages s"
  "io_processing (queueIOJob j s) = io_processing s" "io_processed (queueIOJob j s) = io_processed s"
  by (simp_all add: queueIOJob_def spawnIOThread_def Let_def)

lemma split_job_None: "split_job a js = None \<longleftrightarrow> (\<forall>j \<in> set js. j_canceled j \<or> j_id j \<noteq> a)"
  by (induction js) auto

lemma split_job_last:
  "split_job a js = None \<Longrightarrow> \<not> j_canceled j \<Longrightarrow> j_id j = a \<Longrightarrow> split_job a (js @ [j]) = Some (js, j, [])"
  by (induction js) (auto split: if_splits)

section \<open>Sampling\<close>

declare sample_db.simps [simp del]

lemma sample_db_ok:
  "(case best of None \<Rightarrow> True | Some (b, _) \<Rightarrow> P b) \<Longrightarrow> (\<And>k. ok k \<Longrightarrow> P (at k)) \<Longrightarrow>
     (case fst (sample_db pick ok score db at i maxtries r best) of None \<Rightarrow> True | Some (b, _) \<Rightarrow> P b)"
proof (induction pick ok score db at i maxtries r best rule: sample_db.induct)
  case (1 pick ok score db at i maxtries r best)
  show ?case
  proof (cases "i < 5")
    case False
    then show ?thesis using 1(4) by (simp add: sample_db.simps)
  next
    case True
    let ?best = "case best of None \<Rightarrow> Some (at (pick r), score (pick r))
                   | Some (b, sc) \<Rightarrow> if score (pick r) > sc then Some (at (pick r), score (pick r)) else Some (b, sc)"
    have best: "case ?best of None \<Rightarrow> True | Some (b, _) \<Rightarrow> P b" if "ok (pick r)"
      using 1(4) 1(5) [OF that] by (cases best) (simp_all add: case_prod_beta)
    show ?thesis
      using 1(1) [OF True refl refl _ _ 1(4,5)] 1(2) [OF True refl refl _ _ 1(4,5)]
        1(3) [OF True refl refl _ best 1(5)]
      by (subst sample_db.simps) (simp add: True Let_def)
  qed
qed

lemma choose_victim_ok:
  "(case best of None \<Rightarrow> True | Some (b, _) \<Rightarrow> may_swap s b) \<Longrightarrow>
     (case fst (choose_victim env s dbs r best) of None \<Rightarrow> True | Some (b, _) \<Rightarrow> may_swap s b)"
proof (induction dbs arbitrary: r best)
  case Nil
  then show ?case by simp
next
  case (Cons db dbs)
  let ?run = "sample_db (random_key env db) (\<lambda>k. may_swap s (db, k))
             (\<lambda>k. case dict s (db, k) of None \<Rightarrow> 0 | Some a \<Rightarrow> swappability env a) db (\<lambda>k. (db, k)) 0 100 r best"
  obtain b' r' where run: "?run = (b', r')" by fastforce
  have "case b' of None \<Rightarrow> True | Some (b, _) \<Rightarrow> may_swap s b"
    using sample_db_ok [where P = "may_swap s" and best = best, OF Cons.prems, of "\<lambda>k. may_swap s (db, k)" "\<lambda>k. (db, k)"
        "random_key env db"] run by (metis fst_conv)
  from Cons.IH [OF this] Cons.IH [OF Cons.prems] run show ?case by simp
qed

section \<open>Waking the clients of a key\<close>

lemma remove1_empty_iff: "x \<in> set xs \<Longrightarrow> remove1 x xs = [] \<longleftrightarrow> xs = [x]"
  by (cases xs) auto

lemma handle_blocked_result:
  "io_keys s (db, key) = Some l \<Longrightarrow> l \<noteq> [] \<Longrightarrow> distinct l \<Longrightarrow>
   \<forall>c \<in> set l. cl_db (vm_clients s c) = db \<and> key \<in> set (cl_io_keys (vm_clients s c)) \<Longrightarrow>
   \<exists>t. handle_blocked db key (length l) s = Inr t \<and> io_keys t = (io_keys s)((db, key) := None)
     \<and> io_ready_clients t = io_ready_clients s @ filter (\<lambda>c. cl_io_keys (vm_clients s c) = [key]) l
     \<and> vm_clients t = (\<lambda>c. if c \<in> set l then (vm_clients s c)\<lparr>cl_io_keys := remove1 key (cl_io_keys (vm_clients s c))\<rparr>
                           else vm_clients s c)
     \<and> heap t = heap s \<and> dict t = dict s"
proof (induction l arbitrary: s)
  case Nil
  then show ?case by simp
next
  case (Cons c l)
  let ?cl = "vm_clients s c"
  let ?rest = "remove1 key (cl_io_keys ?cl)"
  let ?s1 = "s\<lparr>vm_clients := (vm_clients s)(c := ?cl\<lparr>cl_io_keys := ?rest\<rparr>),
      io_keys := (io_keys s)((db, key) := if l = [] then None else Some l)\<rparr>"
  let ?s2 = "if ?rest = [] then ?s1\<lparr>io_ready_clients := io_ready_clients s @ [c]\<rparr> else ?s1"
  define s2 where "s2 = ?s2"
  have c: "cl_db ?cl = db" "key \<in> set (cl_io_keys ?cl)" using Cons.prems(4) by auto
  have "dontWaitForSwappedKey c key s = Inr (?rest = [], ?s1)"
    using Cons.prems(1) c by (simp add: dontWaitForSwappedKey_def Let_def)
  then have run: "handle_blocked db key (length (c # l)) s = handle_blocked db key (length l) s2"
    using Cons.prems(1) by (simp add: s2_def)
  show ?case
  proof (cases "l = []")
    case True
    then show ?thesis
      using c unfolding run by (auto simp: fun_eq_iff remove1_empty_iff s2_def)
  next
    case False
    have fields: "io_keys s2 = (io_keys s)((db, key) \<mapsto> l)" "vm_clients s2 = (vm_clients s)(c := ?cl\<lparr>cl_io_keys := ?rest\<rparr>)"
      "io_ready_clients s2 = io_ready_clients s @ (if cl_io_keys ?cl = [key] then [c] else [])"
      "heap s2 = heap s" "dict s2 = dict s"
      using False c by (auto simp: remove1_empty_iff s2_def)
    have cl: "c \<notin> set l" using Cons.prems(3) by simp
    then have same: "vm_clients s2 d = vm_clients s d" if "d \<in> set l" for d
      using that unfolding fields by auto
    have "io_keys s2 (db, key) = Some l" "distinct l"
      "\<forall>d \<in> set l. cl_db (vm_clients s2 d) = db \<and> key \<in> set (cl_io_keys (vm_clients s2 d))"
      using Cons.prems(3,4) same fields(1) by auto
    from Cons.IH [OF this(1) False this(2,3)] obtain t where t: "handle_blocked db key (length l) s2 = Inr t"
      "io_keys t = (io_keys s2)((db, key) := None)"
      "io_ready_clients t = io_ready_clients s2 @ filter (\<lambda>c. cl_io_keys (vm_clients s2 c) = [key]) l"
      "vm_clients t = (\<lambda>d. if d \<in> set l then (vm_clients s2 d)\<lparr>cl_io_keys := remove1 key (cl_io_keys (vm_clients s2 d))\<rparr>
                           else vm_clients s2 d)" "heap t = heap s2" "dict t = dict s2" by blast
    have flt: "filter (\<lambda>c. cl_io_keys (vm_clients s2 c) = [key]) l = filter (\<lambda>c. cl_io_keys (vm_clients s c) = [key]) l"
      using same by (intro filter_cong) auto
    show ?thesis
      unfolding run using t(1) cl
      by (intro exI [of _ t]) (auto simp: t(2,4,5,6) t(3) [unfolded flt] fields fun_eq_iff)
  qed
qed

section \<open>Properties\<close>

text \<open>C27: an object swapped out by the blocking code and loaded again is the same object (type, value,
  in memory, one reference), at a new address; the pages it took are free again and the page
  counter and the count of swapped objects are restored.  Assumed of the serialization: loading a
  saved image with its type gives the value back.\<close>

theorem vm_blocking_swap_round_trip:
  assumes "table_ok s" and "heap s a = Some (Robj ob)" and "heap s (next_addr s) = None"
    and "vmSwapObjectBlocking env a s = Inr (Some v, t)"
    and "rdb_load env (o_type ob) (rdb_save env (o_type ob) (o_ptr ob)) = Some (o_ptr ob)"
    and "\<And>p. seek_ok env p"
  shows "\<exists>b u. vmLoadObject env v t = Inr (b, u) \<and> heap u = (heap s)(a := None, b \<mapsto> Robj ob)
    \<and> used_set u = used_set s \<and> vm_stats_used_pages u = vm_stats_used_pages s
    \<and> vm_stats_swapped_objects u = vm_stats_swapped_objects s"
proof -
  define n where "n = saved_pages env (o_type ob) (o_ptr ob)"
  obtain page where sw: "1 \<le> n" "{page ..< page + n} \<inter> used_set s = {}"
    "used_set t = used_set s \<union> {page ..< page + n}" "table_ok t"
    "vm_stats_used_pages t = vm_stats_used_pages s + n"
    "heap t = (heap s)(a := None, v \<mapsto> Vp \<lparr>vp_vtype = o_type ob, vp_storage = VM_SWAPPED, vp_page = page, vp_usedpages = n\<rparr>)"
    "v = next_addr s" "next_addr t = Suc (next_addr s)" "swap_file t page = Some (rdb_save env (o_type ob) (o_ptr ob))"
    "vm_stats_swapped_objects t = vm_stats_swapped_objects s + 1" "o_refcount ob = 1" "o_storage ob = VM_MEMORY"
    using swap_blocking_result [OF assms(1-4)] unfolding n_def by blast
  let ?b = "next_addr t"
  let ?t1 = "t\<lparr>heap := (heap t)(?b \<mapsto> Robj ob), next_addr := Suc ?b\<rparr>"
  have ob: "\<lparr>o_type = o_type ob, o_storage = VM_MEMORY, o_refcount = 1, o_ptr = o_ptr ob\<rparr> = ob"
    using sw(11,12) by simp
  have "table_ok ?t1" using sw(4) by simp
  moreover have "{page ..< page + n} \<subseteq> used_set ?t1" using sw(3) by simp
  ultimately obtain bm where f: "vmMarkPagesFree page n ?t1
      = Inr (?t1\<lparr>vm_bitmap := bm, vm_stats_used_pages := vm_stats_used_pages ?t1 - n\<rparr>)"
    and u: "used_set (?t1\<lparr>vm_bitmap := bm\<rparr>) = used_set ?t1 - {page ..< page + n}"
    using vmMarkPagesFree_set [of ?t1 page n] sw(1) by auto
  let ?u = "?t1\<lparr>vm_bitmap := bm, vm_stats_used_pages := vm_stats_used_pages t - n, heap := (heap ?t1)(v := None),
      vm_stats_swapped_objects := vm_stats_swapped_objects t - 1, vm_stats_swapins := vm_stats_swapins t + 1\<rparr>"
  have "vmLoadObject env v t = Inr (?b, ?u)"
    using f by (simp add: vmLoadObject_def vmGenericLoadObject_def vmReadObjectFromSwap_def alloc_cell_def assms(5,6) sw(6,9) ob)
  moreover have "heap ?u = (heap s)(a := None, ?b \<mapsto> Robj ob)"
    using sw(6,7,8) assms(3) by (auto simp: fun_eq_iff)
  moreover have "used_set ?u = used_set s"
  proof -
    have "used_set ?u = used_set (?t1\<lparr>vm_bitmap := bm\<rparr>)"
      by (simp add: used_set_def vmFreePage_def)
    also have "\<dots> = used_set s"
      unfolding u using sw(2,3) by auto
    finally show ?thesis .
  qed
  ultimately show ?thesis
    using sw(5,10) by (intro exI [of _ ?b] exI [of _ ?u]) simp
qed

definition idle_ae :: ae_loop where
  "idle_ae = aeCreateEventLoop \<lparr>maxfd = -1, timeEventNextId = 0,
     events = (\<lambda>_. \<lparr>fe_mask = 0, rfileProc = 0, wfileProc = 0, fe_clientData = 0\<rparr>), fired = (\<lambda>_. (0, 0)),
     timeEventHead = [], ae_stop = False, beforesleep = None, epoll_calls = [], clock_reads = 0\<rparr>"

definition demo_server :: vm_server where
  "demo_server = \<lparr>vm_bitmap = [1, 0], vm_pages = 16, vm_next_page = 0, vm_near_pages = 0, vm_stats_used_pages = 1,
     random_calls = 0, heap = [5 \<mapsto> Robj \<lparr>o_type = 0, o_storage = VM_MEMORY, o_refcount = 1, o_ptr = 77\<rparr>],
     next_addr = 9, dict = [(0, 1) \<mapsto> 5], swap_file = Map.empty, io_newjobs = [], io_processing = [], io_processed = [],
     io_ready_clients = [], io_active_threads = 0, io_ready_pipe = 0, vm_max_threads = 4,
     vm_clients = (\<lambda>_. \<lparr>cl_db = 0, cl_fd = 6, cl_io_keys = [], cl_io_wait = False\<rparr>), io_keys = Map.empty, el = idle_ae,
     vm_stats_swapped_objects = 0, vm_stats_swapouts = 0, vm_stats_swapins = 0, vm_blocked_clients = 0,
     bgsavechildpid = -1, bgrewritechildpid = -1\<rparr>"

definition demo_env :: vm_env where
  "demo_env = \<lparr>rdb_save = (\<lambda>ty p. [of_nat p]), rdb_load = (\<lambda>ty img. case img of [] \<Rightarrow> None | b # _ \<Rightarrow> Some (unat b)),
     saved_pages = (\<lambda>_ _. 2), seek_ok = (\<lambda>_. True), random_value = (\<lambda>_. 3), random_key = (\<lambda>_ _. 1),
     swappability = (\<lambda>_. 10), over_memory = True, dbnum = 1\<rparr>"

theorem vm_blocking_swap_round_trip_witness:
  "\<exists>v t b u. vmSwapObjectBlocking demo_env 5 demo_server = Inr (Some v, t) \<and> vmLoadObject demo_env v t = Inr (b, u)
     \<and> heap u b = Some (Robj \<lparr>o_type = 0, o_storage = VM_MEMORY, o_refcount = 1, o_ptr = 77\<rparr>) \<and> vm_stats_used_pages u = 1"
proof -
  have sw: "\<exists>v t. vmSwapObjectBlocking demo_env 5 demo_server = Inr (Some v, t)"
    by (simp add: vmSwapObjectBlocking_def demo_env_def demo_server_def vmFindContiguousPages_def find_loop.simps
        vmFreePage_def Let_def vmWriteObjectOnSwap_def createVmPointer_def alloc_cell_def decrRefCount_def
        drop_reference_def vmMarkPagesUsed_def vmMarkPageUsed_def numeral_2_eq_2)
  then obtain v t where run: "vmSwapObjectBlocking demo_env 5 demo_server = Inr (Some v, t)" by blast
  have "table_ok demo_server" "heap demo_server 5 = Some (Robj \<lparr>o_type = 0, o_storage = VM_MEMORY, o_refcount = 1, o_ptr = 77\<rparr>)"
    "heap demo_server (next_addr demo_server) = None"
    by (simp_all add: demo_server_def table_ok_def)
  from vm_blocking_swap_round_trip [OF this run] obtain b u where "vmLoadObject demo_env v t = Inr (b, u)"
    "heap u = (heap demo_server)(5 := None, b \<mapsto> Robj \<lparr>o_type = 0, o_storage = VM_MEMORY, o_refcount = 1, o_ptr = 77\<rparr>)"
    "vm_stats_used_pages u = vm_stats_used_pages demo_server"
    by (auto simp: demo_env_def unat_of_nat)
  with run show ?thesis by (auto simp: demo_server_def)
qed

text \<open>Queueing a swap to the I/O threads and canceling it before a thread took it undoes it: the
  heap (with the value's reference count and storage) and the queue are what they were.\<close>

theorem vm_cancel_undoes_queued_swap:
  assumes "heap s a = Some (Robj ob)" "o_storage ob = VM_MEMORY" "1 \<le> o_refcount ob"
    and "\<forall>j \<in> set (io_newjobs s). j_canceled j \<or> j_id j \<noteq> a"
  shows "\<exists>t u. vmSwapObjectThreaded db key a s = Inr t \<and> vmCancelThreadedIOJob a t = Inr u
    \<and> heap u = heap s \<and> io_newjobs u = io_newjobs s \<and> used_set u = used_set s"
proof -
  let ?j = "\<lparr>j_type = IOJOB_PREPARE_SWAP, j_db = db, j_key = key, j_id = a, j_val = Some a, j_page = 0,
               j_pages = 0, j_canceled = False, j_thread = None\<rparr>"
  let ?s1 = "s\<lparr>heap := (heap s)(a \<mapsto> Robj (ob\<lparr>o_refcount := o_refcount ob + 1, o_storage := VM_SWAPPING\<rparr>))\<rparr>"
  have t: "vmSwapObjectThreaded db key a s = Inr (queueIOJob ?j ?s1)"
    using assms(1) by (simp add: vmSwapObjectThreaded_def incrRefCount_def set_storage_def)
  have "split_job a (io_newjobs s) = None"
    using assms(4) by (simp add: split_job_None)
  then have sp: "split_job a (io_newjobs (queueIOJob ?j ?s1)) = Some (io_newjobs s, ?j, [])"
    by (simp add: redis_simps split_job_last)
  have h: "heap (queueIOJob ?j ?s1) = heap ?s1"
    by (simp add: redis_simps)
  have ob: "ob\<lparr>o_storage := VM_MEMORY\<rparr> = ob" using assms(2) by simp
  have "\<exists>u. vmCancelThreadedIOJob a (queueIOJob ?j ?s1) = Inr u \<and> heap u = heap s \<and> io_newjobs u = io_newjobs s
      \<and> vm_bitmap u = vm_bitmap s \<and> vm_pages u = vm_pages s"
    using assms(1,2,3) ob unfolding vmCancelThreadedIOJob_def sp h
    by (simp add: free_job_pages_def freeIOJob_def drop_reference_def set_storage_def undo_storage_def
        redis_simps fun_upd_idem map_upd_triv)
  then show ?thesis
    using t by (auto simp: used_set_def vmFreePage_def)
qed

theorem vm_cancel_undoes_queued_swap_witness:
  "\<exists>t u. vmSwapObjectThreaded 0 1 5 demo_server = Inr t \<and> vmCancelThreadedIOJob 5 t = Inr u \<and> heap u = heap demo_server"
proof -
  have "heap demo_server 5 = Some (Robj \<lparr>o_type = 0, o_storage = VM_MEMORY, o_refcount = 1, o_ptr = 77\<rparr>)"
    "\<forall>j \<in> set (io_newjobs demo_server). j_canceled j \<or> j_id j \<noteq> 5"
    by (simp_all add: demo_server_def)
  from vm_cancel_undoes_queued_swap [OF this(1) _ _ this(2), of 0 1] show ?thesis by auto
qed


text \<open>A failed write of a swap job is not recovered from.  The I/O thread marks the job as canceled,
  so a client that asks for the key meanwhile stops the server at the assertion that every object
  being swapped has a job; and when the job is finally dropped its pages stay marked as used.\<close>

theorem vm_failed_swap_write:
  assumes "io_processing s = [j]" "j_type j = IOJOB_DO_SWAP" "j_val j = Some a" "j_id j = a"
    and "heap s a = Some (Robj ob)" "o_storage ob = VM_SWAPPING" "o_refcount ob = 2"
    and "\<not> seek_ok env (j_page j)" "io_newjobs s = []" "io_processed s = []"
    and "dict s (cl_db (vm_clients s c), key) = Some a"
  shows "\<exists>t u. io_thread_finish env 0 s = Inr t \<and> waitForSwappedKey c key t = Inl AssertFailed
    \<and> complete_oldest env True t = Inr (False, True, u)
    \<and> used_set u = used_set s \<and> heap u = (heap s)(a \<mapsto> Robj (ob\<lparr>o_storage := VM_MEMORY, o_refcount := 1\<rparr>))
    \<and> io_newjobs u = [] \<and> io_processing u = [] \<and> io_processed u = []"
proof -
  let ?t = "s\<lparr>io_processing := [], io_processed := [j\<lparr>j_canceled := True\<rparr>], io_ready_pipe := Suc (io_ready_pipe s)\<rparr>"
  have t: "io_thread_finish env 0 s = Inr ?t"
    using assms by (simp add: io_thread_finish_def process_job_def vmWriteObjectOnSwap_def)
  have w: "waitForSwappedKey c key ?t = Inl AssertFailed"
    using assms by (simp add: waitForSwappedKey_def vmCancelThreadedIOJob_def Let_def)
  have "\<exists>u. complete_oldest env True ?t = Inr (False, True, u) \<and> vm_bitmap u = vm_bitmap s \<and> vm_pages u = vm_pages s
      \<and> heap u = (heap s)(a \<mapsto> Robj (ob\<lparr>o_storage := VM_MEMORY, o_refcount := 1\<rparr>))
      \<and> io_newjobs u = [] \<and> io_processing u = [] \<and> io_processed u = []"
    using assms by (simp add: complete_oldest_def freeIOJob_def drop_reference_def set_storage_def Let_def)
  with t w show ?thesis
    by (auto simp: used_set_def vmFreePage_def)
qed

theorem vm_failed_swap_write_witness:
  "\<exists>t. io_thread_finish (demo_env\<lparr>seek_ok := (\<lambda>_. False)\<rparr>) 0
      (demo_server\<lparr>heap := [5 \<mapsto> Robj \<lparr>o_type = 0, o_storage = VM_SWAPPING, o_refcount = 2, o_ptr = 77\<rparr>],
         io_processing := [\<lparr>j_type = IOJOB_DO_SWAP, j_db = 0, j_key = 1, j_id = 5, j_val = Some 5, j_page = 0,
           j_pages = 1, j_canceled = False, j_thread = Some 3\<rparr>]\<rparr>) = Inr t
     \<and> waitForSwappedKey 8 1 t = Inl AssertFailed"
proof -
  let ?j = "\<lparr>j_type = IOJOB_DO_SWAP, j_db = 0, j_key = 1, j_id = 5, j_val = Some 5, j_page = 0,
           j_pages = 1, j_canceled = False, j_thread = Some 3\<rparr>"
  let ?s = "demo_server\<lparr>heap := [5 \<mapsto> Robj \<lparr>o_type = 0, o_storage = VM_SWAPPING, o_refcount = 2, o_ptr = 77\<rparr>],
         io_processing := [?j]\<rparr>"
  show ?thesis
    using vm_failed_swap_write [of ?s ?j 5 "\<lparr>o_type = 0, o_storage = VM_SWAPPING, o_refcount = 2, o_ptr = 77\<rparr>"
        "demo_env\<lparr>seek_ok := (\<lambda>_. False)\<rparr>" 8 1]
    by (auto simp: demo_server_def)
qed

text \<open>When a key has been loaded, every client that waited for it stops waiting for it, the key has no
  waiting clients any more, and exactly the clients that waited for nothing else become ready, in the
  order in which they blocked.  No assertion fails and no freed list is read.\<close>

theorem vm_loaded_key_wakes_clients:
  assumes "io_keys s (db, key) = Some l" "l \<noteq> []" "distinct l"
    and "\<forall>c \<in> set l. cl_db (vm_clients s c) = db \<and> key \<in> set (cl_io_keys (vm_clients s c))"
  shows "\<exists>t. handleClientsBlockedOnSwappedKey db key s = Inr t \<and> io_keys t = (io_keys s)((db, key) := None)
     \<and> io_ready_clients t = io_ready_clients s @ filter (\<lambda>c. cl_io_keys (vm_clients s c) = [key]) l
     \<and> vm_clients t = (\<lambda>c. if c \<in> set l then (vm_clients s c)\<lparr>cl_io_keys := remove1 key (cl_io_keys (vm_clients s c))\<rparr>
                           else vm_clients s c)"
  using handle_blocked_result [OF assms] assms(1) by (auto simp: handleClientsBlockedOnSwappedKey_def)

theorem vm_loaded_key_wakes_clients_witness:
  "\<exists>t. handleClientsBlockedOnSwappedKey 0 1
      (demo_server\<lparr>io_keys := [(0, 1) \<mapsto> [7, 8]],
         vm_clients := (\<lambda>c. \<lparr>cl_db = 0, cl_fd = c, cl_io_keys = (if c = 7 then [1, 2] else [1]), cl_io_wait = True\<rparr>)\<rparr>) = Inr t
     \<and> io_ready_clients t = [8]"
proof -
  let ?s = "demo_server\<lparr>io_keys := [(0, 1) \<mapsto> [7, 8]],
         vm_clients := (\<lambda>c. \<lparr>cl_db = 0, cl_fd = c, cl_io_keys = (if c = 7 then [1, 2] else [1]), cl_io_wait = True\<rparr>)\<rparr>"
  show ?thesis
    using vm_loaded_key_wakes_clients [of ?s 0 1 "[7, 8]"] by (auto simp: demo_server_def)
qed

end
