(* ===== verification/LinuxEpoll.thy ===== *)
theory LinuxEpoll
  imports RTFSC_Prelude
begin

text \<open>
  The kernel side of epoll (\<^verbatim>\<open>linux/io/epoll\<close>): creation, \<^verbatim>\<open>epoll_ctl\<close>, the wake-up callback and
  \<^verbatim>\<open>epoll_wait\<close>.  The record \<open>eventpoll\<close> is \<^verbatim>\<open>struct eventpoll\<close>: the red-black tree \<^verbatim>\<open>rbr\<close> is a
  map from the pair (file, descriptor), \<^verbatim>\<open>rdllist\<close> and the private \<^verbatim>\<open>txlist\<close> of a scan are lists of
  items linked through \<^verbatim>\<open>rdllink\<close>, \<^verbatim>\<open>ovflist\<close> is \<^const>\<open>None\<close> for \<^verbatim>\<open>EP_UNACTIVE_PTR\<close> and otherwise the
  chain with its head first (\<^verbatim>\<open>epi->next == EP_UNACTIVE_PTR\<close> is: not on the chain).  What other
  kernel code answers (file polls, allocations, locks, the clock) is an argument; callbacks that
  arrive while a lock is not held are lists of callbacks in the arguments.  Wakeup sources, the
  RCU and the lock operations that cannot fail leave no trace in the model.
\<close>

section \<open>Constants of the interface\<close>

abbreviation KEPOLLIN :: u32 where "KEPOLLIN \<equiv> 0x1"
abbreviation KEPOLLOUT :: u32 where "KEPOLLOUT \<equiv> 0x4"
abbreviation KEPOLLERR :: u32 where "KEPOLLERR \<equiv> 0x8"
abbreviation KEPOLLHUP :: u32 where "KEPOLLHUP \<equiv> 0x10"
abbreviation POLLFREE :: u32 where "POLLFREE \<equiv> 0x4000"
abbreviation EPOLLEXCLUSIVE :: u32 where "EPOLLEXCLUSIVE \<equiv> 0x10000000"
abbreviation EPOLLWAKEUP :: u32 where "EPOLLWAKEUP \<equiv> 0x20000000"
abbreviation EPOLLONESHOT :: u32 where "EPOLLONESHOT \<equiv> 0x40000000"
abbreviation EPOLLET :: u32 where "EPOLLET \<equiv> 0x80000000"
abbreviation EP_PRIVATE_BITS :: u32 where "EP_PRIVATE_BITS \<equiv> 0xF0000000"
abbreviation EPOLLINOUT_BITS :: u32 where "EPOLLINOUT_BITS \<equiv> 0x5"
abbreviation EPOLLEXCLUSIVE_OK_BITS :: u32 where "EPOLLEXCLUSIVE_OK_BITS \<equiv> 0xB000001D"
abbreviation DEFAULT_POLLMASK :: u32 where "DEFAULT_POLLMASK \<equiv> 0x145"

abbreviation EP_MAX_EVENTS :: int where "EP_MAX_EVENTS \<equiv> 178956970"
abbreviation EPOLL_CLOEXEC :: u32 where "EPOLL_CLOEXEC \<equiv> 0x80000"

abbreviation ENOENT :: int where "ENOENT \<equiv> 2"
abbreviation EINTR :: int where "EINTR \<equiv> 4"
abbreviation EBADF :: int where "EBADF \<equiv> 9"
abbreviation ENOMEM :: int where "ENOMEM \<equiv> 12"
abbreviation EFAULT :: int where "EFAULT \<equiv> 14"
abbreviation EEXIST :: int where "EEXIST \<equiv> 17"
abbreviation EINVAL :: int where "EINVAL \<equiv> 22"
abbreviation EPERM :: int where "EPERM \<equiv> 1"
abbreviation ENOSPC :: int where "ENOSPC \<equiv> 28"
abbreviation ELOOP :: int where "ELOOP \<equiv> 40"

abbreviation CTL_ADD :: int where "CTL_ADD \<equiv> 1"
abbreviation CTL_DEL :: int where "CTL_DEL \<equiv> 2"
abbreviation CTL_MOD :: int where "CTL_MOD \<equiv> 3"

section \<open>State\<close>

text \<open>\<^verbatim>\<open>struct epoll_filefd\<close>: the file and the descriptor, the key of the tree.\<close>

type_synonym ffd = "nat \<times> int"

record epoll_event =
  ev_events :: u32
  ev_data :: u64

record epitem =
  ei_event :: epoll_event
  ei_nwait :: int
  ei_pwqlist :: "nat list"
  ei_ws :: bool

record eventpoll =
  rbr :: "ffd \<rightharpoonup> epitem"
  rdllist :: "ffd list"
  txlist :: "ffd list"
  ovflist :: "ffd list option"
  wq :: "nat list"
  poll_waiters :: "nat list"
  wakeups :: nat
  pwakes :: nat
  epoll_watches :: int
  f_ep_links :: "nat \<Rightarrow> ffd list"
  wait_queues :: "nat \<Rightarrow> (ffd \<times> bool) list"

abbreviation item_events :: "epitem \<Rightarrow> u32" where
  "item_events epi \<equiv> ev_events (ei_event epi)"

definition ep_is_linked :: "ffd \<Rightarrow> eventpoll \<Rightarrow> bool" where
  "ep_is_linked k s \<longleftrightarrow> k \<in> set (rdllist s) \<or> k \<in> set (txlist s)"

definition ep_events_available :: "eventpoll \<Rightarrow> bool" where
  "ep_events_available s \<longleftrightarrow> rdllist s \<noteq> [] \<or> ovflist s \<noteq> None"

definition waitqueue_active :: "nat list \<Rightarrow> bool" where
  "waitqueue_active q \<longleftrightarrow> q \<noteq> []"

definition wake_up :: "eventpoll \<Rightarrow> eventpoll" where
  "wake_up s = s\<lparr>wakeups := Suc (wakeups s)\<rparr>"

definition ep_poll_safewake :: "eventpoll \<Rightarrow> eventpoll" where
  "ep_poll_safewake s = s\<lparr>pwakes := Suc (pwakes s)\<rparr>"

section \<open>Creation\<close>

definition ep_alloc :: "bool \<Rightarrow> (nat \<Rightarrow> ffd list) \<Rightarrow> (nat \<Rightarrow> (ffd \<times> bool) list) \<Rightarrow> int \<Rightarrow> int + eventpoll" where
  "ep_alloc kzalloc_ok links wqs watches =
     (if \<not> kzalloc_ok then Inl (- ENOMEM)
      else Inr \<lparr>rbr = Map.empty, rdllist = [], txlist = [], ovflist = None, wq = [], poll_waiters = [],
                wakeups = 0, pwakes = 0, epoll_watches = watches, f_ep_links = links, wait_queues = wqs\<rparr>)"

text \<open>\<open>unused_fd\<close> and \<open>getfile\<close> are the answers of \<^verbatim>\<open>get_unused_fd_flags\<close> and
  \<^verbatim>\<open>anon_inode_getfile\<close> (0 or a negative error).  The result is the descriptor with the instance
  behind it, or the error.\<close>

definition do_epoll_create :: "int + eventpoll \<Rightarrow> int \<Rightarrow> int \<Rightarrow> u32 \<Rightarrow> int + int \<times> eventpoll" where
  "do_epoll_create alloc unused_fd getfile flags =
     (if flags AND NOT EPOLL_CLOEXEC \<noteq> 0 then Inl (- EINVAL)
      else case alloc of
        Inl error \<Rightarrow> Inl error
      | Inr ep \<Rightarrow>
          (if unused_fd < 0 then Inl unused_fd
           else if getfile < 0 then Inl getfile
           else Inr (unused_fd, ep)))"

definition epoll_create :: "int + eventpoll \<Rightarrow> int \<Rightarrow> int \<Rightarrow> int \<Rightarrow> int + int \<times> eventpoll" where
  "epoll_create alloc unused_fd getfile sz =
     (if sz \<le> 0 then Inl (- EINVAL) else do_epoll_create alloc unused_fd getfile 0)"

definition epoll_create1 :: "int + eventpoll \<Rightarrow> int \<Rightarrow> int \<Rightarrow> u32 \<Rightarrow> int + int \<times> eventpoll" where
  "epoll_create1 alloc unused_fd getfile flags = do_epoll_create alloc unused_fd getfile flags"

section \<open>The wake-up callback\<close>

text \<open>Whether a wake-up of an exclusive item counts, by the in/out bits of the key.\<close>

definition exclusive_wake :: "epitem \<Rightarrow> u32 \<Rightarrow> bool" where
  "exclusive_wake epi pollflags =
     (if item_events epi AND EPOLLEXCLUSIVE \<noteq> 0 \<and> pollflags AND POLLFREE = 0
      then let m = pollflags AND EPOLLINOUT_BITS in
        if m = KEPOLLIN then item_events epi AND KEPOLLIN \<noteq> 0
        else if m = KEPOLLOUT then item_events epi AND KEPOLLOUT \<noteq> 0
        else m = 0
      else False)"

text \<open>The entry of item \<open>k\<close> on wait queue \<open>whead\<close> is called with the key \<open>pollflags\<close>; the result
  is \<^verbatim>\<open>ewake\<close>.  An item that is gone has no entry that could be called.\<close>

definition ep_poll_callback :: "ffd \<Rightarrow> nat \<Rightarrow> u32 \<Rightarrow> eventpoll \<Rightarrow> bool \<times> eventpoll" where
  "ep_poll_callback k whead pollflags s =
     (case rbr s k of None \<Rightarrow> (False, s) | Some epi \<Rightarrow>
       let (ewake, pwake, s) =
         (if item_events epi AND NOT EP_PRIVATE_BITS = 0 then (False, False, s)
          else if pollflags \<noteq> 0 \<and> pollflags AND item_events epi = 0 then (False, False, s)
          else case ovflist s of
            Some ov \<Rightarrow> (False, False, if k \<in> set ov then s else s\<lparr>ovflist := Some (k # ov)\<rparr>)
          | None \<Rightarrow>
              (let s = (if ep_is_linked k s then s else s\<lparr>rdllist := rdllist s @ [k]\<rparr>);
                   (ewake, s) = (if waitqueue_active (wq s) then (exclusive_wake epi pollflags, wake_up s)
                                 else (False, s))
               in (ewake, waitqueue_active (poll_waiters s), s)));
         s = (if pwake then ep_poll_safewake s else s);
         ewake = (if item_events epi AND EPOLLEXCLUSIVE = 0 then True else ewake);
         s = (if pollflags AND POLLFREE \<noteq> 0
              then s\<lparr>wait_queues := (wait_queues s)(whead :=
                     remove1 (k, item_events epi AND EPOLLEXCLUSIVE \<noteq> 0) (wait_queues s whead))\<rparr>
              else s)
       in (ewake, s))"

type_synonym wait_call = "ffd \<times> nat \<times> u32"

definition callbacks :: "wait_call list \<Rightarrow> eventpoll \<Rightarrow> eventpoll" where
  "callbacks cbs s = foldl (\<lambda>s (k, whead, fl). snd (ep_poll_callback k whead fl s)) s cbs"

section \<open>Polling an item\<close>

text \<open>\<open>alloc\<close> is the answer of \<^verbatim>\<open>kmem_cache_alloc\<close>.\<close>

definition ep_ptable_queue_proc :: "bool \<Rightarrow> ffd \<Rightarrow> nat \<Rightarrow> eventpoll \<Rightarrow> eventpoll" where
  "ep_ptable_queue_proc alloc k whead s =
     (case rbr s k of None \<Rightarrow> s | Some epi \<Rightarrow>
       if ei_nwait epi \<ge> 0 \<and> alloc
       then s\<lparr>wait_queues := (wait_queues s)(whead := wait_queues s whead
                @ [(k, item_events epi AND EPOLLEXCLUSIVE \<noteq> 0)]),
              rbr := (rbr s)(k \<mapsto> epi\<lparr>ei_pwqlist := ei_pwqlist epi @ [whead], ei_nwait := ei_nwait epi + 1\<rparr>)\<rparr>
       else s\<lparr>rbr := (rbr s)(k \<mapsto> epi\<lparr>ei_nwait := -1\<rparr>)\<rparr>)"

definition poll_wait :: "(nat \<Rightarrow> eventpoll \<Rightarrow> eventpoll) option \<Rightarrow> nat option \<Rightarrow> eventpoll \<Rightarrow> eventpoll" where
  "poll_wait qproc wait_address s =
     (case qproc of None \<Rightarrow> s | Some q \<Rightarrow> (case wait_address of None \<Rightarrow> s | Some w \<Rightarrow> q w s))"

text \<open>What a file's own \<^verbatim>\<open>poll\<close> answers: its event mask and the wait queues it passes to
  \<^verbatim>\<open>poll_wait\<close>; \<^const>\<open>None\<close> for a file without that operation.\<close>

type_synonym poll_answer = "(u32 \<times> nat option list) option"

definition vfs_poll ::
  "poll_answer \<Rightarrow> (nat \<Rightarrow> eventpoll \<Rightarrow> eventpoll) option \<Rightarrow> eventpoll \<Rightarrow> u32 \<times> eventpoll" where
  "vfs_poll ans qproc s =
     (case ans of None \<Rightarrow> (DEFAULT_POLLMASK, s)
      | Some (m, ws) \<Rightarrow> (m, foldl (\<lambda>s w. poll_wait qproc w s) s ws))"

definition ep_item_poll ::
  "poll_answer \<Rightarrow> (nat \<Rightarrow> eventpoll \<Rightarrow> eventpoll) option \<Rightarrow> ffd \<Rightarrow> eventpoll \<Rightarrow> u32 \<times> eventpoll" where
  "ep_item_poll ans qproc k s =
     (let (res, s') = vfs_poll ans qproc s
      in (case rbr s k of None \<Rightarrow> 0 | Some epi \<Rightarrow> res AND item_events epi, s'))"

section \<open>Inserting an item\<close>

text \<open>The answers \<^verbatim>\<open>ep_insert\<close> gets: the allocations, \<^verbatim>\<open>ep_create_wakeup_source\<close>,
  \<^verbatim>\<open>reverse_path_check\<close>, the file's poll, the callbacks that hit before the lock is taken, and
  \<^verbatim>\<open>ep_unregister_pollwait\<close> on the wait queues.\<close>

record insert_env =
  ie_max_user_watches :: int
  ie_epi_ok :: bool
  ie_ws_error :: int
  ie_reverse_path_check :: bool
  ie_poll :: poll_answer
  ie_pwq_ok :: "nat \<Rightarrow> bool"
  ie_callbacks :: "wait_call list"
  ie_unregister :: "ffd \<Rightarrow> (nat \<Rightarrow> (ffd \<times> bool) list) \<Rightarrow> nat \<Rightarrow> (ffd \<times> bool) list"

text \<open>The labels \<^verbatim>\<open>error_remove_epi\<close> and \<^verbatim>\<open>error_unregister\<close>.\<close>

definition error_remove_epi :: "ffd \<Rightarrow> eventpoll \<Rightarrow> eventpoll" where
  "error_remove_epi k s =
     s\<lparr>f_ep_links := (f_ep_links s)(fst k := remove1 k (f_ep_links s (fst k))),
       rbr := (rbr s)(k := None), rdllist := remove1 k (rdllist s)\<rparr>"

definition error_unregister :: "insert_env \<Rightarrow> ffd \<Rightarrow> eventpoll \<Rightarrow> eventpoll" where
  "error_unregister ie k s = error_remove_epi k (s\<lparr>wait_queues := ie_unregister ie k (wait_queues s)\<rparr>)"

definition link_new_item :: "epoll_event \<Rightarrow> ffd \<Rightarrow> eventpoll \<Rightarrow> eventpoll" where
  "link_new_item event k s =
     s\<lparr>f_ep_links := (f_ep_links s)(fst k := f_ep_links s (fst k) @ [k]),
       rbr := (rbr s)(k \<mapsto> \<lparr>ei_event = event, ei_nwait = 0, ei_pwqlist = [],
                             ei_ws = (ev_events event AND EPOLLWAKEUP \<noteq> 0)\<rparr>)\<rparr>"

definition ep_insert :: "insert_env \<Rightarrow> epoll_event \<Rightarrow> ffd \<Rightarrow> bool \<Rightarrow> eventpoll \<Rightarrow> int \<times> eventpoll" where
  "ep_insert ie event k full_check s =
     (if epoll_watches s \<ge> ie_max_user_watches ie then (- ENOSPC, s)
      else if \<not> ie_epi_ok ie then (- ENOMEM, s)
      else if ev_events event AND EPOLLWAKEUP \<noteq> 0 \<and> ie_ws_error ie \<noteq> 0 then (ie_ws_error ie, s)
      else
        let s = link_new_item event k s in
        if full_check \<and> ie_reverse_path_check ie then (- EINVAL, error_remove_epi k s)
        else
          let (revents, s) = ep_item_poll (ie_poll ie)
                (Some (\<lambda>w. ep_ptable_queue_proc (ie_pwq_ok ie w) k w)) k s;
              s = callbacks (ie_callbacks ie) s
          in if (case rbr s k of None \<Rightarrow> False | Some epi \<Rightarrow> ei_nwait epi < 0)
             then (- ENOMEM, error_unregister ie k s)
             else
               let (pwake, s) =
                 (if revents \<noteq> 0 \<and> \<not> ep_is_linked k s
                  then let s = s\<lparr>rdllist := rdllist s @ [k]\<rparr>;
                           s = (if waitqueue_active (wq s) then wake_up s else s)
                       in (waitqueue_active (poll_waiters s), s)
                  else (False, s));
                 s = s\<lparr>epoll_watches := epoll_watches s + 1\<rparr>
               in (0, if pwake then ep_poll_safewake s else s))"

section \<open>The controller interface\<close>

record kfile =
  kf_id :: nat
  kf_can_poll :: bool
  kf_is_epoll :: bool
  kf_ep_links_empty :: bool

text \<open>What \<^verbatim>\<open>do_epoll_ctl\<close> asks of the rest of the kernel: the three locks (0 or a negative
  error), \<^verbatim>\<open>ep->gen == loop_check_gen\<close>, \<^verbatim>\<open>ep_loop_check\<close>, the lookup in the tree and the
  operations whose code is elsewhere.\<close>

record ctl_env =
  ce_lock1 :: int
  ce_epmutex :: int
  ce_lock2 :: int
  ce_tep_lock :: int
  ce_gen_equal :: bool
  ce_loop_check :: bool
  ce_insert :: insert_env
  ce_ep_find :: "eventpoll \<Rightarrow> ffd \<Rightarrow> epitem option"
  ce_ep_remove :: "ffd \<Rightarrow> eventpoll \<Rightarrow> int \<times> eventpoll"
  ce_ep_modify :: "ffd \<Rightarrow> epoll_event \<Rightarrow> eventpoll \<Rightarrow> int \<times> eventpoll"

definition ep_op_has_event :: "int \<Rightarrow> bool" where
  "ep_op_has_event op \<longleftrightarrow> op \<noteq> CTL_DEL"

text \<open>The checks on the files and the events, up to \<^verbatim>\<open>private_data\<close>: 0 when they pass.\<close>

definition ctl_file_checks :: "kfile option \<Rightarrow> kfile option \<Rightarrow> int \<Rightarrow> u32 \<Rightarrow> int" where
  "ctl_file_checks f tf op evs =
     (case f of None \<Rightarrow> - EBADF | Some f \<Rightarrow>
      case tf of None \<Rightarrow> - EBADF | Some tf \<Rightarrow>
        if \<not> kf_can_poll tf then - EPERM
        else if kf_id f = kf_id tf \<or> \<not> kf_is_epoll f then - EINVAL
        else if ep_op_has_event op \<and> evs AND EPOLLEXCLUSIVE \<noteq> 0 \<and>
          (op = CTL_MOD \<or> op = CTL_ADD \<and> (kf_is_epoll tf \<or> evs AND NOT EPOLLEXCLUSIVE_OK_BITS \<noteq> 0))
        then - EINVAL else 0)"

text \<open>The locks and loop checks of an insertion; the result is the error and \<^verbatim>\<open>full_check\<close>.\<close>

definition ctl_locks :: "ctl_env \<Rightarrow> kfile \<Rightarrow> kfile \<Rightarrow> int \<Rightarrow> int \<times> bool" where
  "ctl_locks ce f tf op =
     (if ce_lock1 ce \<noteq> 0 then (ce_lock1 ce, False)
      else if op = CTL_ADD \<and> (\<not> kf_ep_links_empty f \<or> ce_gen_equal ce \<or> kf_is_epoll tf)
      then if ce_epmutex ce \<noteq> 0 then (ce_epmutex ce, False)
           else if kf_is_epoll tf \<and> ce_loop_check ce then (- ELOOP, True)
           else if ce_lock2 ce \<noteq> 0 then (ce_lock2 ce, True)
           else if kf_is_epoll tf \<and> ce_tep_lock ce \<noteq> 0 then (ce_tep_lock ce, True)
           else (0, True)
      else (0, False))"

text \<open>The switch over the operation.  A MOD of an exclusive item leaves \<^verbatim>\<open>error\<close> as it is.\<close>

definition ctl_switch ::
  "ctl_env \<Rightarrow> int \<Rightarrow> ffd \<Rightarrow> epoll_event \<Rightarrow> bool \<Rightarrow> eventpoll \<Rightarrow> int \<times> eventpoll" where
  "ctl_switch ce op k epds full_check s =
     (let epi = ce_ep_find ce s k;
          epds' = epds\<lparr>ev_events := ev_events epds OR KEPOLLERR OR KEPOLLHUP\<rparr>
      in if op = CTL_ADD then
           (case epi of None \<Rightarrow> ep_insert (ce_insert ce) epds' k full_check s | Some _ \<Rightarrow> (- EEXIST, s))
         else if op = CTL_DEL then
           (case epi of Some _ \<Rightarrow> ce_ep_remove ce k s | None \<Rightarrow> (- ENOENT, s))
         else if op = CTL_MOD then
           (case epi of Some epi \<Rightarrow>
               if item_events epi AND EPOLLEXCLUSIVE = 0 then ce_ep_modify ce k epds' s else (- EINVAL, s)
            | None \<Rightarrow> (- ENOENT, s))
         else (- EINVAL, s))"

text \<open>\<^verbatim>\<open>ep_take_care_of_epollwakeup\<close> may clear the wakeup bit.\<close>

definition do_epoll_ctl ::
  "ctl_env \<Rightarrow> (epoll_event \<Rightarrow> epoll_event) \<Rightarrow> kfile option \<Rightarrow> kfile option \<Rightarrow> int \<Rightarrow> int \<Rightarrow> epoll_event
   \<Rightarrow> eventpoll \<Rightarrow> int \<times> eventpoll" where
  "do_epoll_ctl ce take_care f tf op fd epds s =
     (let epds = (if ep_op_has_event op \<and> f \<noteq> None \<and> (case tf of None \<Rightarrow> False | Some t \<Rightarrow> kf_can_poll t)
                  then take_care epds else epds);
          error = ctl_file_checks f tf op (ev_events epds)
      in if error \<noteq> 0 then (error, s)
         else case (f, tf) of
           (Some f, Some tf) \<Rightarrow>
             (let (error, full_check) = ctl_locks ce f tf op
              in if error \<noteq> 0 then (error, s)
                 else ctl_switch ce op (kf_id tf, fd) epds full_check s)
         | _ \<Rightarrow> (- EBADF, s))"

text \<open>The system call copies the event from user memory first, except for a deletion.\<close>

definition epoll_ctl ::
  "ctl_env \<Rightarrow> (epoll_event \<Rightarrow> epoll_event) \<Rightarrow> kfile option \<Rightarrow> kfile option \<Rightarrow> int \<Rightarrow> int
   \<Rightarrow> epoll_event option \<Rightarrow> epoll_event \<Rightarrow> eventpoll \<Rightarrow> int \<times> eventpoll" where
  "epoll_ctl ce take_care f tf op fd user_event garbage s =
     (if ep_op_has_event op
      then case user_event of None \<Rightarrow> (- EFAULT, s)
           | Some epds \<Rightarrow> do_epoll_ctl ce take_care f tf op fd epds s
      else do_epoll_ctl ce take_care f tf op fd garbage s)"

section \<open>Scanning the ready list\<close>

text \<open>One iteration of \<^verbatim>\<open>ep_send_events_proc\<close>: the callbacks that arrive while it runs, the
  answer of the file's poll, and whether the two stores to user memory succeed.\<close>

record scan_env =
  se_callbacks :: "wait_call list"
  se_poll :: poll_answer
  se_put_user :: bool

definition scan_item :: "scan_env \<Rightarrow> ffd \<Rightarrow> ffd list \<Rightarrow> eventpoll \<Rightarrow> u32 \<times> eventpoll" where
  "scan_item se k tx s =
     ep_item_poll (se_poll se) None k (callbacks (se_callbacks se) (s\<lparr>txlist := tx\<rparr>))"

text \<open>One-shot items are disabled, level-triggered ones go back to the ready list.\<close>

definition after_delivery :: "ffd \<Rightarrow> eventpoll \<Rightarrow> eventpoll" where
  "after_delivery k s =
     (case rbr s k of None \<Rightarrow> s | Some epi \<Rightarrow>
       if item_events epi AND EPOLLONESHOT \<noteq> 0
       then s\<lparr>rbr := (rbr s)(k \<mapsto> epi\<lparr>ei_event :=
              (ei_event epi)\<lparr>ev_events := item_events epi AND EP_PRIVATE_BITS\<rparr>\<rparr>)\<rparr>
       else if item_events epi AND EPOLLET = 0 then s\<lparr>rdllist := rdllist s @ [k]\<rparr> else s)"

definition item_data :: "ffd \<Rightarrow> eventpoll \<Rightarrow> u64" where
  "item_data k s = (case rbr s k of None \<Rightarrow> 0 | Some epi \<Rightarrow> ev_data (ei_event epi))"

text \<open>\<open>tx\<close> is the private list; \<open>out\<close> the events stored at \<^verbatim>\<open>esed->events\<close>, so \<^verbatim>\<open>esed->res\<close> is its
  length until an error.  The result holds \<^verbatim>\<open>esed->res\<close>, the number of items looked at and the
  events.\<close>

fun ep_send_events_proc ::
  "(nat \<Rightarrow> scan_env) \<Rightarrow> int \<Rightarrow> ffd list \<Rightarrow> nat \<Rightarrow> (u32 \<times> u64) list \<Rightarrow> eventpoll
   \<Rightarrow> int \<times> nat \<times> (u32 \<times> u64) list \<times> eventpoll" where
  "ep_send_events_proc env maxevents [] i out s = (int (length out), i, out, s)"
| "ep_send_events_proc env maxevents (k # tx) i out s =
     (if int (length out) < maxevents then
        let (revents, s) = scan_item (env i) k tx s
        in if revents = 0 then ep_send_events_proc env maxevents tx (Suc i) out s
           else if \<not> se_put_user (env i)
           then (if out = [] then - EFAULT else int (length out), Suc i, out, s\<lparr>txlist := k # tx\<rparr>)
           else ep_send_events_proc env maxevents tx (Suc i) (out @ [(revents, item_data k s)])
                  (after_delivery k s)
      else (int (length out), i, out, s))"

text \<open>The chain of events queued during the scan, from its head.\<close>

fun requeue_ovflist :: "ffd list \<Rightarrow> eventpoll \<Rightarrow> eventpoll" where
  "requeue_ovflist [] s = s"
| "requeue_ovflist (k # ov) s =
     requeue_ovflist ov (if ep_is_linked k s then s else s\<lparr>rdllist := rdllist s @ [k]\<rparr>)"

definition ep_scan_ready_list ::
  "(ffd list \<Rightarrow> eventpoll \<Rightarrow> 'r \<times> eventpoll) \<Rightarrow> eventpoll \<Rightarrow> 'r \<times> eventpoll" where
  "ep_scan_ready_list sproc s =
     (let tx = rdllist s;
          s = s\<lparr>txlist := tx, rdllist := [], ovflist := Some []\<rparr>;
          (error, s) = sproc tx s;
          s = (case ovflist s of None \<Rightarrow> s | Some ov \<Rightarrow> requeue_ovflist ov s);
          s = s\<lparr>ovflist := None\<rparr>;
          s = s\<lparr>rdllist := txlist s @ rdllist s, txlist := []\<rparr>;
          s = (if rdllist s \<noteq> [] \<and> waitqueue_active (wq s) then wake_up s else s);
          s = (if rdllist s \<noteq> [] \<and> waitqueue_active (poll_waiters s) then ep_poll_safewake s else s)
      in (error, s))"

definition ep_send_events ::
  "(nat \<Rightarrow> scan_env) \<Rightarrow> int \<Rightarrow> eventpoll \<Rightarrow> int \<times> nat \<times> (u32 \<times> u64) list \<times> eventpoll" where
  "ep_send_events env maxevents s =
     (case ep_scan_ready_list (\<lambda>tx s. case ep_send_events_proc env maxevents tx 0 [] s of
             (res, n, out, s) \<Rightarrow> ((res, n, out), s)) s of
        ((res, n, out), s) \<Rightarrow> (res, n, out, s))"

section \<open>Waiting\<close>

text \<open>One sleep of \<^verbatim>\<open>ep_poll\<close>: the signals pending before it, the callbacks that arrive during it,
  and whether the timer has expired when it ends.\<close>

record sleep_env =
  sl_fatal :: bool
  sl_signal :: bool
  sl_callbacks :: "wait_call list"
  sl_expired :: bool

text \<open>The wait loop, from sleep number \<open>n\<close>: the result is \<^verbatim>\<open>-EINTR\<close> or 0, \<^verbatim>\<open>timed_out\<close>, the
  number of sleeps so far and the state.  Nothing need ever happen: \<^const>\<open>None\<close>.\<close>

partial_function (option) ep_sleep ::
  "(nat \<Rightarrow> sleep_env) \<Rightarrow> bool \<Rightarrow> nat \<Rightarrow> eventpoll \<Rightarrow> (int \<times> bool \<times> nat \<times> eventpoll) option" where
  "ep_sleep sl timed_out n s =
     (if sl_fatal (sl n) then Some (- EINTR, timed_out, n, s)
      else if ep_events_available s \<or> timed_out then Some (0, timed_out, n, s)
      else if sl_signal (sl n) then Some (- EINTR, timed_out, n, s)
      else ep_sleep sl (timed_out \<or> sl_expired (sl n)) (Suc n) (callbacks (sl_callbacks (sl n)) s))"

definition ep_wait_for_events ::
  "nat \<Rightarrow> (nat \<Rightarrow> sleep_env) \<Rightarrow> bool \<Rightarrow> nat \<Rightarrow> eventpoll \<Rightarrow> (int \<times> bool \<times> nat \<times> eventpoll) option" where
  "ep_wait_for_events current sl timed_out n s =
     (if ep_events_available s then Some (0, timed_out, n, s)
      else map_option (\<lambda>(res, timed_out, n, s). (res, timed_out, n, s\<lparr>wq := remove1 current (wq s)\<rparr>))
             (ep_sleep sl timed_out n (s\<lparr>wq := wq s @ [current]\<rparr>)))"

text \<open>\<open>fetch\<close> tells whether the wait comes first (the label \<^verbatim>\<open>fetch_events\<close>) or not
  (\<^verbatim>\<open>check_events\<close>); \<open>r\<close> numbers the scans.\<close>

partial_function (option) ep_poll_loop ::
  "nat \<Rightarrow> (nat \<Rightarrow> nat \<Rightarrow> scan_env) \<Rightarrow> (nat \<Rightarrow> sleep_env) \<Rightarrow> int \<Rightarrow> bool \<Rightarrow> bool \<Rightarrow> nat \<Rightarrow> nat \<Rightarrow> eventpoll
   \<Rightarrow> (int \<times> (u32 \<times> u64) list \<times> eventpoll) option" where
  "ep_poll_loop current env sl maxevents fetch timed_out n r s =
     Option.bind (if fetch then ep_wait_for_events current sl timed_out n s else Some (0, timed_out, n, s))
       (\<lambda>(res, timed_out, n, s).
          if res = 0 \<and> ep_events_available s
          then case ep_send_events (env r) maxevents s of (res, _, out, s) \<Rightarrow>
                 (if res = 0 \<and> \<not> timed_out
                  then ep_poll_loop current env sl maxevents True timed_out n (Suc r) s
                  else Some (res, out, s))
          else Some (res, [], s))"

definition ep_poll ::
  "nat \<Rightarrow> (nat \<Rightarrow> nat \<Rightarrow> scan_env) \<Rightarrow> (nat \<Rightarrow> sleep_env) \<Rightarrow> int \<Rightarrow> int \<Rightarrow> eventpoll
   \<Rightarrow> (int \<times> (u32 \<times> u64) list \<times> eventpoll) option" where
  "ep_poll current env sl maxevents timeout s =
     (if timeout = 0 then ep_poll_loop current env sl maxevents False True 0 0 s
      else ep_poll_loop current env sl maxevents True False 0 0 s)"

definition epoll_wait ::
  "nat \<Rightarrow> (nat \<Rightarrow> nat \<Rightarrow> scan_env) \<Rightarrow> (nat \<Rightarrow> sleep_env) \<Rightarrow> kfile option \<Rightarrow> bool \<Rightarrow> int \<Rightarrow> int \<Rightarrow> eventpoll
   \<Rightarrow> (int \<times> (u32 \<times> u64) list \<times> eventpoll) option" where
  "epoll_wait current env sl f access_ok maxevents timeout s =
     (if maxevents \<le> 0 \<or> maxevents > EP_MAX_EVENTS then Some (- EINVAL, [], s)
      else if \<not> access_ok then Some (- EFAULT, [], s)
      else case f of None \<Rightarrow> Some (- EBADF, [], s)
           | Some f \<Rightarrow> if \<not> kf_is_epoll f then Some (- EINVAL, [], s)
                       else ep_poll current env sl maxevents timeout s)"

section \<open>The lists of an instance\<close>

text \<open>Keys are pairs; quantifiers over them stay as they are.\<close>

declare split_paired_All [simp del] split_paired_Ex [simp del]

text \<open>An item is linked through \<^verbatim>\<open>rdllink\<close> at most once, is chained at most once, and every
  item on a list is in the tree.\<close>

definition ep_lists :: "eventpoll \<Rightarrow> bool" where
  "ep_lists s \<longleftrightarrow> distinct (rdllist s @ txlist s) \<and> set (rdllist s @ txlist s) \<subseteq> dom (rbr s)
     \<and> (case ovflist s of None \<Rightarrow> True | Some ov \<Rightarrow> distinct ov \<and> set ov \<subseteq> dom (rbr s))"

definition ep_idle :: "eventpoll \<Rightarrow> bool" where
  "ep_idle s \<longleftrightarrow> ep_lists s \<and> txlist s = [] \<and> ovflist s = None"

definition pending :: "eventpoll \<Rightarrow> ffd set" where
  "pending s = set (rdllist s) \<union> set (txlist s)
     \<union> (case ovflist s of None \<Rightarrow> {} | Some ov \<Rightarrow> set ov)"

text \<open>The callback with key \<open>fl\<close> concerns the item: it is enabled and the key has no event or one
  of interest.\<close>

definition interested :: "epitem \<Rightarrow> u32 \<Rightarrow> bool" where
  "interested epi fl \<longleftrightarrow> item_events epi AND NOT EP_PRIVATE_BITS \<noteq> 0 \<and> (fl = 0 \<or> fl AND item_events epi \<noteq> 0)"

definition same_frame :: "eventpoll \<Rightarrow> eventpoll \<Rightarrow> bool" where
  "same_frame s s' \<longleftrightarrow> rbr s' = rbr s \<and> txlist s' = txlist s \<and> wq s' = wq s \<and> poll_waiters s' = poll_waiters s
     \<and> epoll_watches s' = epoll_watches s \<and> f_ep_links s' = f_ep_links s"

lemma same_frame_refl [simp]: "same_frame s s"
  by (simp add: same_frame_def)

lemma same_frame_trans: "same_frame s t \<Longrightarrow> same_frame t u \<Longrightarrow> same_frame s u"
  by (simp add: same_frame_def)

lemma callback_frame: "same_frame s (snd (ep_poll_callback k w fl s))"
  by (auto simp: same_frame_def ep_poll_callback_def Let_def wake_up_def ep_poll_safewake_def
      split: option.splits)

text \<open>Without and with the overflow chain active.\<close>

lemma callback_idle:
  assumes "rbr s k = Some epi" "ovflist s = None"
  shows "ovflist (snd (ep_poll_callback k w fl s)) = None"
    and "rdllist (snd (ep_poll_callback k w fl s))
       = (if interested epi fl \<and> \<not> ep_is_linked k s then rdllist s @ [k] else rdllist s)"
    and "wakeups (snd (ep_poll_callback k w fl s))
       = (if interested epi fl \<and> wq s \<noteq> [] then Suc (wakeups s) else wakeups s)"
  using assms
  by (auto simp: ep_poll_callback_def Let_def wake_up_def ep_poll_safewake_def interested_def
      waitqueue_active_def ep_is_linked_def)

lemma callback_scanning:
  assumes "rbr s k = Some epi" "ovflist s = Some ov"
  shows "ovflist (snd (ep_poll_callback k w fl s))
       = Some (if interested epi fl \<and> k \<notin> set ov then k # ov else ov)"
    and "rdllist (snd (ep_poll_callback k w fl s)) = rdllist s"
    and "wakeups (snd (ep_poll_callback k w fl s)) = wakeups s"
  using assms
  by (auto simp: ep_poll_callback_def Let_def wake_up_def ep_poll_safewake_def interested_def)

lemma callback_gone: "rbr s k = None \<Longrightarrow> snd (ep_poll_callback k w fl s) = s"
  by (simp add: ep_poll_callback_def)

lemma callback_lists: "ep_lists s \<Longrightarrow> ep_lists (snd (ep_poll_callback k w fl s))"
proof (cases "rbr s k")
  case None
  then show "ep_lists s \<Longrightarrow> ?thesis" by (simp add: callback_gone)
next
  case (Some epi)
  assume inv: "ep_lists s"
  note fr = callback_frame [of s k w fl, unfolded same_frame_def]
  show ?thesis
  proof (cases "ovflist s")
    case None
    from inv show ?thesis
      unfolding ep_lists_def using fr Some None
      by (auto simp: callback_idle [OF Some None] ep_is_linked_def)
  next
    case (Some ov)
    from inv show ?thesis
      unfolding ep_lists_def using fr Some \<open>rbr s k = Some epi\<close>
      by (auto simp: callback_scanning [OF \<open>rbr s k = Some epi\<close> Some])
  qed
qed

lemma callback_pending:
  "pending s \<subseteq> pending (snd (ep_poll_callback k w fl s))"
  "rbr s k = Some epi \<Longrightarrow> interested epi fl \<Longrightarrow> k \<in> pending (snd (ep_poll_callback k w fl s))"
proof -
  note fr = callback_frame [of s k w fl, unfolded same_frame_def]
  show "pending s \<subseteq> pending (snd (ep_poll_callback k w fl s))"
  proof (cases "rbr s k")
    case None
    then show ?thesis by (simp add: callback_gone)
  next
    case (Some epi)
    then show ?thesis
      using fr by (cases "ovflist s")
        (auto simp: pending_def callback_idle [OF Some] callback_scanning [OF Some])
  qed
  show "rbr s k = Some epi \<Longrightarrow> interested epi fl \<Longrightarrow> k \<in> pending (snd (ep_poll_callback k w fl s))"
    using fr by (cases "ovflist s") (auto simp: pending_def callback_idle callback_scanning ep_is_linked_def)
qed

text \<open>The same for a sequence of callbacks.\<close>

lemma callbacks_simps [simp]:
  "callbacks [] s = s"
  "callbacks ((k, w, fl) # cbs) s = callbacks cbs (snd (ep_poll_callback k w fl s))"
  by (simp_all add: callbacks_def)

lemma callbacks_frame: "same_frame s (callbacks cbs s)"
proof (induction cbs arbitrary: s)
  case (Cons c cbs)
  obtain k w fl where c: "c = (k, w, fl)" by (cases c)
  from Cons [of "snd (ep_poll_callback k w fl s)"] callback_frame [of s k w fl] show ?case
    by (simp add: c same_frame_trans)
qed simp

lemma callbacks_lists: "ep_lists s \<Longrightarrow> ep_lists (callbacks cbs s)"
  by (induction cbs arbitrary: s) (auto simp: callback_lists)

lemma callbacks_idle: "ovflist s = None \<Longrightarrow> ovflist (callbacks cbs s) = None"
proof (induction cbs arbitrary: s)
  case (Cons c cbs)
  obtain k w fl where c: "c = (k, w, fl)" by (cases c)
  from Cons show ?case
    by (cases "rbr s k") (auto simp: c callback_gone callback_idle)
qed simp

lemma callbacks_scanning:
  "ovflist s = Some ov \<Longrightarrow>
     \<exists>ov'. ovflist (callbacks cbs s) = Some ov' \<and> set ov \<subseteq> set ov' \<and> rdllist (callbacks cbs s) = rdllist s
       \<and> wakeups (callbacks cbs s) = wakeups s"
proof (induction cbs arbitrary: s ov)
  case (Cons c cbs)
  obtain k w fl where c: "c = (k, w, fl)" by (cases c)
  show ?case
  proof (cases "rbr s k")
    case None
    with Cons show ?thesis by (simp add: c callback_gone)
  next
    case (Some epi)
    note sc = callback_scanning [OF Some Cons.prems, of w fl]
    from Cons.IH [OF sc(1)] sc(2,3) show ?thesis
      by (auto simp: c split: if_splits)
  qed
qed simp

text \<open>While a scan runs, a callback of interest always ends up on the overflow chain.\<close>

lemma callbacks_queued:
  "(k, w, fl) \<in> set cbs \<Longrightarrow> rbr s k = Some epi \<Longrightarrow> interested epi fl \<Longrightarrow> ovflist s = Some ov \<Longrightarrow>
     k \<in> set (the (ovflist (callbacks cbs s)))"
proof (induction cbs arbitrary: s ov)
  case (Cons c cbs)
  obtain k' w' fl' where c: "c = (k', w', fl')" by (cases c)
  let ?s = "snd (ep_poll_callback k' w' fl' s)"
  obtain ov1 where ov1: "ovflist ?s = Some ov1"
    using callback_scanning(1) [OF _ Cons.prems(4), of k' _ w' fl'] Cons.prems(4)
    by (cases "rbr s k'") (auto simp: callback_gone)
  show ?case
  proof (cases "(k, w, fl) = c")
    case True
    then have "k \<in> set ov1"
      using callback_scanning(1) [OF Cons.prems(2,4), of w fl] Cons.prems(3) ov1
      by (auto simp: c split: if_splits)
    then show ?thesis
      using callbacks_scanning [OF ov1, of cbs] by (auto simp: c)
  next
    case False
    moreover have "rbr ?s = rbr s"
      using callback_frame [of s k' w' fl'] by (simp add: same_frame_def)
    ultimately show ?thesis
      using Cons.IH [of ?s] Cons.prems ov1 by (auto simp: c)
  qed
qed simp

section \<open>Scanning\<close>

lemma poll_without_queue: "foldl (\<lambda>s w. poll_wait None w s) s ws = s"
  by (induction ws) (simp_all add: poll_wait_def)

definition poll_mask :: "poll_answer \<Rightarrow> u32" where
  "poll_mask ans = (case ans of None \<Rightarrow> DEFAULT_POLLMASK | Some (m, _) \<Rightarrow> m)"

lemma scan_item_eq:
  "scan_item se k tx s =
     (case rbr s k of None \<Rightarrow> 0 | Some epi \<Rightarrow> poll_mask (se_poll se) AND item_events epi,
      callbacks (se_callbacks se) (s\<lparr>txlist := tx\<rparr>))"
proof -
  have "rbr (callbacks (se_callbacks se) (s\<lparr>txlist := tx\<rparr>)) = rbr s"
    using callbacks_frame [of "s\<lparr>txlist := tx\<rparr>" "se_callbacks se"] by (simp add: same_frame_def)
  then show ?thesis
    by (auto simp: scan_item_def ep_item_poll_def vfs_poll_def poll_without_queue poll_mask_def
        split: option.splits)
qed

lemma scan_item_state:
  assumes "ep_lists s" "txlist s = k # tx" "ovflist s = Some ov"
    and t_def: "t = snd (scan_item se k tx s)"
  shows "ep_lists t" "txlist t = tx" "rbr t = rbr s" "rdllist t = rdllist s"
    "\<exists>ov'. ovflist t = Some ov' \<and> set ov \<subseteq> set ov'"
    "(k', w, fl) \<in> set (se_callbacks se) \<Longrightarrow> rbr s k' = Some epi \<Longrightarrow> interested epi fl
       \<Longrightarrow> k' \<in> set (the (ovflist t))"
    "wq t = wq s" "poll_waiters t = poll_waiters s" "wakeups t = wakeups s"
    "epoll_watches t = epoll_watches s"
proof -
  let ?s = "s\<lparr>txlist := tx\<rparr>"
  have t: "t = callbacks (se_callbacks se) ?s"
    by (simp add: t_def scan_item_eq)
  have "ep_lists ?s" using assms(1,2,3) by (auto simp: ep_lists_def)
  then show "ep_lists t" unfolding t by (rule callbacks_lists)
  show "txlist t = tx" "rbr t = rbr s" "wq t = wq s" "poll_waiters t = poll_waiters s"
    "epoll_watches t = epoll_watches s"
    using callbacks_frame [of ?s "se_callbacks se"] by (simp_all add: same_frame_def t)
  show "rdllist t = rdllist s" "\<exists>ov'. ovflist t = Some ov' \<and> set ov \<subseteq> set ov'" "wakeups t = wakeups s"
    using callbacks_scanning [of ?s ov "se_callbacks se"] assms(3) by (auto simp: t)
  show "(k', w, fl) \<in> set (se_callbacks se) \<Longrightarrow> rbr s k' = Some epi \<Longrightarrow> interested epi fl
       \<Longrightarrow> k' \<in> set (the (ovflist t))"
    using callbacks_queued [of k' w fl "se_callbacks se" ?s epi ov] assms(3) by (simp add: t)
qed

definition one_shot_item :: "epitem \<Rightarrow> bool" where
  "one_shot_item epi \<longleftrightarrow> item_events epi AND EPOLLONESHOT \<noteq> 0"

definition edge_item :: "epitem \<Rightarrow> bool" where
  "edge_item epi \<longleftrightarrow> item_events epi AND EPOLLET \<noteq> 0"

lemma after_delivery_state:
  assumes "ep_lists s" "txlist s = tx" "rbr s k = Some epi" "k \<notin> set (rdllist s)" "k \<notin> set tx" "ovflist s = Some ov"
    and t_def: "t = after_delivery k s"
  shows "ep_lists t" "txlist t = tx" "ovflist t = ovflist s" "dom (rbr t) = dom (rbr s)"
    "k' \<noteq> k \<Longrightarrow> rbr t k' = rbr s k'"
    "\<not> one_shot_item epi \<Longrightarrow> rbr t = rbr s"
    "rdllist t = (if \<not> one_shot_item epi \<and> \<not> edge_item epi then rdllist s @ [k] else rdllist s)"
    "wq t = wq s" "poll_waiters t = poll_waiters s" "wakeups t = wakeups s"
    "epoll_watches t = epoll_watches s"
  using assms by (auto simp: t_def after_delivery_def ep_lists_def one_shot_item_def edge_item_def)

text \<open>An item that leaves the lists had nothing to report, or was reported and is one-shot or
  edge-triggered.\<close>

definition retired :: "(ffd \<rightharpoonup> epitem) \<Rightarrow> scan_env \<Rightarrow> ffd \<Rightarrow> bool" where
  "retired m se k \<longleftrightarrow> (\<forall>epi. m k = Some epi \<longrightarrow>
     poll_mask (se_poll se) AND item_events epi = 0 \<or> one_shot_item epi \<or> edge_item epi)"

text \<open>What an \<^verbatim>\<open>EPOLLONESHOT\<close> delivery may change in the tree between two states.\<close>

definition tree_le :: "eventpoll \<Rightarrow> eventpoll \<Rightarrow> ffd set \<Rightarrow> bool" where
  "tree_le s t K \<longleftrightarrow> dom (rbr t) = dom (rbr s) \<and> (\<forall>k. k \<notin> K \<longrightarrow> rbr t k = rbr s k)
     \<and> (\<forall>k epi. rbr s k = Some epi \<longrightarrow> \<not> one_shot_item epi \<longrightarrow> rbr t k = Some epi)"

lemma tree_le_trans: "tree_le s t K \<Longrightarrow> tree_le t u L \<Longrightarrow> tree_le s u (K \<union> L)"
  unfolding tree_le_def by auto

text \<open>One iteration that goes on.\<close>

definition scan_next :: "scan_env \<Rightarrow> ffd \<Rightarrow> ffd list \<Rightarrow> eventpoll \<Rightarrow> eventpoll" where
  "scan_next se k tx s =
     (let (revents, t) = scan_item se k tx s in if revents = 0 then t else after_delivery k t)"

definition scan_rel :: "scan_env \<Rightarrow> ffd \<Rightarrow> eventpoll \<Rightarrow> eventpoll \<Rightarrow> bool" where
  "scan_rel se k s t \<longleftrightarrow> ep_lists t \<and> tree_le s t {k} \<and> set (rdllist s) \<subseteq> set (rdllist t)
     \<and> (\<exists>ov'. ovflist t = Some ov' \<and> set (the (ovflist s)) \<subseteq> set ov')
     \<and> (k \<in> set (rdllist t) \<or> retired (rbr s) se k)
     \<and> (\<forall>(k', w, fl) \<in> set (se_callbacks se). \<forall>epi. rbr s k' = Some epi \<longrightarrow> interested epi fl
        \<longrightarrow> k' \<in> set (the (ovflist t)))
     \<and> wq t = wq s \<and> poll_waiters t = poll_waiters s \<and> wakeups t = wakeups s \<and> epoll_watches t = epoll_watches s"

lemma scan_next_rel:
  assumes inv: "ep_lists s" and tx: "txlist s = k # tx" and ov: "ovflist s = Some ov"
  shows "scan_rel se k s (scan_next se k tx s) \<and> txlist (scan_next se k tx s) = tx"
proof -
  let ?t = "snd (scan_item se k tx s)" and ?r = "fst (scan_item se k tx s)"
  note it = scan_item_state [where se = se, OF inv tx ov refl]
  obtain ov' where ov': "ovflist ?t = Some ov'" "set ov \<subseteq> set ov'" using it(5) by blast
  obtain epi where epi: "rbr s k = Some epi"
    using inv tx by (auto simp: ep_lists_def)
  have r: "?r = poll_mask (se_poll se) AND item_events epi"
    by (simp add: scan_item_eq epi)
  have notin: "k \<notin> set (rdllist ?t)" "k \<notin> set tx"
    using inv tx it(4) by (auto simp: ep_lists_def)
  show ?thesis
  proof (cases "?r = 0")
    case True
    then have "scan_next se k tx s = ?t"
      by (simp add: scan_next_def case_prod_beta)
    moreover have "retired (rbr s) se k"
      using True epi r by (simp add: retired_def)
    ultimately show ?thesis
      using it ov' ov by (auto simp: scan_rel_def tree_le_def)
  next
    case False
    then have n: "scan_next se k tx s = after_delivery k ?t"
      by (simp add: scan_next_def case_prod_beta)
    have "rbr ?t k = Some epi" using it(3) epi by simp
    note ad = after_delivery_state [OF it(1,2) this notin ov'(1) refl]
    have "tree_le s (after_delivery k ?t) {k}"
      unfolding tree_le_def using ad(4,5,6) it(3) epi by (metis option.inject singletonI)
    moreover have "k \<in> set (rdllist (after_delivery k ?t)) \<or> retired (rbr s) se k"
      using ad(7) epi by (auto simp: retired_def)
    ultimately show ?thesis
      unfolding n scan_rel_def using ad(1,2,3,7,8,9,10,11) it(4,6,7,8,9,10) ov' ov by auto
  qed
qed

lemma proc_unfold:
  "ep_send_events_proc env m (k # tx) i out s =
     (if int (length out) < m then
        let r = fst (scan_item (env i) k tx s); t = snd (scan_item (env i) k tx s)
        in if r \<noteq> 0 \<and> \<not> se_put_user (env i)
           then (if out = [] then - EFAULT else int (length out), Suc i, out, t\<lparr>txlist := k # tx\<rparr>)
           else ep_send_events_proc env m tx (Suc i)
                  (if r = 0 then out else out @ [(r, item_data k t)]) (scan_next (env i) k tx s)
      else (int (length out), i, out, s))"
  by (simp add: scan_next_def Let_def case_prod_beta)

text \<open>What a whole run of \<^verbatim>\<open>ep_send_events_proc\<close> guarantees.\<close>

definition proc_ok ::
  "(nat \<Rightarrow> scan_env) \<Rightarrow> int \<Rightarrow> ffd list \<Rightarrow> nat \<Rightarrow> (u32 \<times> u64) list \<Rightarrow> eventpoll
   \<Rightarrow> int \<Rightarrow> nat \<Rightarrow> (u32 \<times> u64) list \<Rightarrow> eventpoll \<Rightarrow> bool" where
  "proc_ok env m tx i out s res n out' t \<longleftrightarrow> ep_lists t \<and> tree_le s t (set tx)
     \<and> set (rdllist s) \<subseteq> set (rdllist t)
     \<and> (\<exists>ov'. ovflist t = Some ov' \<and> set (the (ovflist s)) \<subseteq> set ov')
     \<and> (\<forall>j < length tx. tx ! j \<in> set (rdllist t) \<union> set (txlist t) \<or> i + j < n \<and> retired (rbr s) (env (i + j)) (tx ! j))
     \<and> (\<forall>j. i \<le> j \<longrightarrow> j < n \<longrightarrow> (\<forall>(k, w, fl) \<in> set (se_callbacks (env j)). \<forall>epi.
          rbr s k = Some epi \<longrightarrow> \<not> one_shot_item epi \<longrightarrow> interested epi fl
          \<longrightarrow> k \<in> set (the (ovflist t))))
     \<and> wq t = wq s \<and> poll_waiters t = poll_waiters s \<and> wakeups t = wakeups s \<and> epoll_watches t = epoll_watches s
     \<and> (\<exists>xs. out' = out @ xs \<and> length xs \<le> n - i) \<and> i \<le> n \<and> n \<le> i + length tx
     \<and> (int (length out) \<le> m \<longrightarrow> int (length out') \<le> m)
     \<and> (res = int (length out') \<or> res = - EFAULT \<and> out' = [])"

lemma proc_ok_stop:
  "ep_lists s \<Longrightarrow> txlist s = tx \<Longrightarrow> ovflist s = Some ov \<Longrightarrow>
     proc_ok env m tx i out s (int (length out)) i out s"
  by (auto simp: proc_ok_def tree_le_def pending_def)

lemma retired_tree_le:
  assumes "tree_le s t {k}" "k' \<noteq> k" "retired (rbr t) se k'"
  shows "retired (rbr s) se k'"
  using assms by (auto simp: tree_le_def retired_def)

lemma proc_ok_fault:
  assumes inv: "ep_lists s" and tx: "txlist s = k # tx" and ov: "ovflist s = Some ov"
    and t: "t = snd (scan_item (env i) k tx s)"
  shows "proc_ok env m (k # tx) i out s (if out = [] then - EFAULT else int (length out)) (Suc i) out
           (t\<lparr>txlist := k # tx\<rparr>)"
proof -
  note it = scan_item_state [where se = "env i", OF inv tx ov t]
  obtain ov' where ov': "ovflist t = Some ov'" "set ov \<subseteq> set ov'" using it(5) by blast
  have "ep_lists (t\<lparr>txlist := k # tx\<rparr>)"
    using inv it(1,2,3,4) tx ov' by (auto simp: ep_lists_def)
  moreover have "\<forall>j < length (k # tx). (k # tx) ! j \<in> set (k # tx)"
    by (intro allI impI nth_mem)
  moreover have "\<forall>(k', w, fl) \<in> set (se_callbacks (env j)). \<forall>epi. rbr s k' = Some epi \<longrightarrow> \<not> one_shot_item epi
      \<longrightarrow> interested epi fl \<longrightarrow> k' \<in> set (the (ovflist t))" if "i \<le> j" "j < Suc i" for j
    using it(6) that by (auto simp: le_antisym less_Suc_eq_le)
  ultimately show ?thesis
    unfolding proc_ok_def tree_le_def
    by (intro conjI) (use it(3,4,7,8,9,10) ov' ov in \<open>auto\<close>)
qed

lemma proc_ok_step:
  assumes rel: "scan_rel (env i) k s u" and nxt: "proc_ok env m tx (Suc i) out1 u res n out' t"
    and inv: "ep_lists s" and tx: "txlist s = k # tx" and lt: "int (length out) < m"
    and out1: "out1 = out \<or> (\<exists>x. out1 = out @ [x])"
  shows "proc_ok env m (k # tx) i out s res n out' t"
proof -
  have le: "tree_le s u {k}" and k: "k \<in> set (rdllist u) \<or> retired (rbr s) (env i) k"
    using rel by (auto simp: scan_rel_def)
  have distinct: "k \<notin> set tx"
    using inv tx by (simp add: ep_lists_def)
  have tree: "tree_le s t (set (k # tx))"
    using tree_le_trans [OF le, of t "set tx"] nxt by (simp add: proc_ok_def)
  have mem: "(k # tx) ! j \<in> set (rdllist t) \<union> set (txlist t) \<or> i + j < n \<and> retired (rbr s) (env (i + j)) ((k # tx) ! j)"
    if "j < length (k # tx)" for j
  proof (cases j)
    case 0
    then show ?thesis using k nxt by (auto simp: proc_ok_def)
  next
    case (Suc j')
    then have j': "j' < length tx" using that by simp
    then have ne: "tx ! j' \<noteq> k" using distinct nth_mem by metis
    from nxt j' have "tx ! j' \<in> set (rdllist t) \<union> set (txlist t)
        \<or> Suc i + j' < n \<and> retired (rbr u) (env (Suc i + j')) (tx ! j')"
      by (auto simp: proc_ok_def)
    with retired_tree_le [OF le ne] Suc show ?thesis by auto
  qed
  have cb: "k' \<in> set (the (ovflist t))"
    if "i \<le> j" "j < n" "(k', w, fl) \<in> set (se_callbacks (env j))" "rbr s k' = Some epi"
      "\<not> one_shot_item epi" "interested epi fl" for j k' w fl epi
  proof (cases "j = i")
    case True
    then have "k' \<in> set (the (ovflist u))"
      using rel that by (auto simp: scan_rel_def)
    then show ?thesis
      using nxt by (auto simp: proc_ok_def)
  next
    case False
    then have "Suc i \<le> j" using that(1) by simp
    have u: "rbr u k' = Some epi"
      using le that by (simp add: tree_le_def)
    from nxt have "\<forall>j. Suc i \<le> j \<longrightarrow> j < n \<longrightarrow> (\<forall>(k, w, fl) \<in> set (se_callbacks (env j)). \<forall>epi.
        rbr u k = Some epi \<longrightarrow> \<not> one_shot_item epi \<longrightarrow> interested epi fl \<longrightarrow> k \<in> set (the (ovflist t)))"
      unfolding proc_ok_def by (elim conjE)
    then have "\<forall>(k, w, fl) \<in> set (se_callbacks (env j)). \<forall>epi.
        rbr u k = Some epi \<longrightarrow> \<not> one_shot_item epi \<longrightarrow> interested epi fl \<longrightarrow> k \<in> set (the (ovflist t))"
      using \<open>Suc i \<le> j\<close> that(2) by blast
    from bspec [OF this that(3)] show ?thesis
      using u that(5,6) by simp
  qed
  obtain ov' where ov': "ovflist t = Some ov'" "set (the (ovflist s)) \<subseteq> set ov'"
    using rel nxt by (auto simp: scan_rel_def proc_ok_def)
  from nxt obtain xs where xs: "out' = out1 @ xs" "length xs \<le> n - Suc i" "Suc i \<le> n"
    by (auto simp: proc_ok_def)
  have out: "\<exists>xs. out' = out @ xs \<and> length xs \<le> n - i"
    using out1
  proof
    assume "out1 = out"
    with xs show ?thesis by auto
  next
    assume "\<exists>x. out1 = out @ [x]"
    then obtain x where "out' = out @ x # xs" using xs(1) by auto
    moreover have "length (x # xs) \<le> n - i" using xs by simp
    ultimately show ?thesis by blast
  qed
  have "int (length out1) \<le> m"
    using out1 lt by auto
  then have m: "int (length out') \<le> m"
    using nxt by (simp add: proc_ok_def)
  have bounds: "i \<le> n" "n \<le> i + length (k # tx)"
    using nxt by (auto simp: proc_ok_def)
  have frame: "set (rdllist s) \<subseteq> set (rdllist t)" "wq t = wq s" "poll_waiters t = poll_waiters s"
    "wakeups t = wakeups s" "epoll_watches t = epoll_watches s" "ep_lists t"
    "res = int (length out') \<or> res = - EFAULT \<and> out' = []"
    using rel nxt by (auto simp: scan_rel_def proc_ok_def)
  have mem': "\<forall>j < length (k # tx). (k # tx) ! j \<in> set (rdllist t) \<union> set (txlist t)
      \<or> i + j < n \<and> retired (rbr s) (env (i + j)) ((k # tx) ! j)"
    using mem by blast
  have cb': "\<forall>j. i \<le> j \<longrightarrow> j < n \<longrightarrow> (\<forall>(k, w, fl) \<in> set (se_callbacks (env j)). \<forall>epi.
      rbr s k = Some epi \<longrightarrow> \<not> one_shot_item epi \<longrightarrow> interested epi fl \<longrightarrow> k \<in> set (the (ovflist t)))"
    using cb by blast
  have ov'': "\<exists>ov'. ovflist t = Some ov' \<and> set (the (ovflist s)) \<subseteq> set ov'"
    using ov' by blast
  show ?thesis
    unfolding proc_ok_def using m by (intro conjI impI) (rule tree mem' cb' ov'' out bounds frame | assumption)+
qed

lemma proc_ok_run:
  "ep_lists s \<Longrightarrow> txlist s = tx \<Longrightarrow> ovflist s = Some ov \<Longrightarrow>
     ep_send_events_proc env m tx i out s = (res, n, out', t) \<Longrightarrow> proc_ok env m tx i out s res n out' t"
proof (induction tx arbitrary: i out s ov)
  case Nil
  then show ?case
    using proc_ok_stop [of s "[]" ov env m i out] by auto
next
  case (Cons k tx)
  show ?case
  proof (cases "int (length out) < m")
    case False
    then show ?thesis
      using proc_ok_stop [OF Cons.prems(1,2,3), of env m i out] Cons.prems(4) by auto
  next
    case True
    let ?r = "fst (scan_item (env i) k tx s)" and ?t = "snd (scan_item (env i) k tx s)"
    let ?out = "if ?r = 0 then out else out @ [(?r, item_data k ?t)]"
    note unf = Cons.prems(4) [unfolded proc_unfold Let_def if_P [OF True]]
    show ?thesis
    proof (cases "?r \<noteq> 0 \<and> \<not> se_put_user (env i)")
      case True
      then show ?thesis
        using proc_ok_fault [OF Cons.prems(1,2,3) refl, of env m i out] unf by auto
    next
      case False
      note rel = scan_next_rel [OF Cons.prems(1,2,3), of "env i"]
      then obtain ov' where ov': "ovflist (scan_next (env i) k tx s) = Some ov'"
        by (auto simp: scan_rel_def)
      have "ep_lists (scan_next (env i) k tx s)" "txlist (scan_next (env i) k tx s) = tx"
        using rel by (auto simp: scan_rel_def)
      from Cons.IH [OF this ov'] unf False
      have "proc_ok env m tx (Suc i) ?out (scan_next (env i) k tx s) res n out' t"
        by simp
      from proc_ok_step [where env = env and i = i, OF conjunct1 [OF rel] this Cons.prems(1,2) True]
      show ?thesis by simp
    qed
  qed
qed

section \<open>A whole scan\<close>

lemma requeue_ovflist_state:
  assumes "ep_lists s" "set ov \<subseteq> dom (rbr s)" 
  shows "ep_lists (requeue_ovflist ov s)
    \<and> set (rdllist (requeue_ovflist ov s)) \<union> set (txlist s) = set (rdllist s) \<union> set (txlist s) \<union> set ov
    \<and> same_frame s (requeue_ovflist ov s) \<and> ovflist (requeue_ovflist ov s) = ovflist s
    \<and> wakeups (requeue_ovflist ov s) = wakeups s"
  using assms
proof (induction ov arbitrary: s)
  case (Cons k ov)
  let ?s = "if ep_is_linked k s then s else s\<lparr>rdllist := rdllist s @ [k]\<rparr>"
  have "ep_lists ?s" "rbr ?s = rbr s"
    using Cons.prems by (auto simp: ep_lists_def ep_is_linked_def split: option.splits)
  with Cons.IH [of ?s] Cons.prems(2) show ?case
    by (auto simp: same_frame_def ep_is_linked_def)
qed simp

text \<open>The contract of a scan callback, and what \<^verbatim>\<open>ep_scan_ready_list\<close> makes of it: the lists are
  again those of an idle instance, nothing that is left on the private list or came in on the
  overflow chain is lost, and waiters are woken when something is ready.\<close>

lemma scan_ready_list_state:
  assumes idle: "ep_idle s"
    and t: "sproc (rdllist s) (s\<lparr>txlist := rdllist s, rdllist := [], ovflist := Some []\<rparr>) = (r, t)"
    and ok: "ep_lists t" "ovflist t = Some ov"
    and s': "ep_scan_ready_list sproc s = (r', s')"
  shows "r' = r" "ep_idle s'" "set (rdllist s') = set (rdllist t) \<union> set (txlist t) \<union> set ov"
    "rbr s' = rbr t" "wq s' = wq t" "poll_waiters s' = poll_waiters t" "epoll_watches s' = epoll_watches t"
    "wakeups s' = (if rdllist s' \<noteq> [] \<and> wq t \<noteq> [] then Suc (wakeups t) else wakeups t)"
proof -
  let ?u = "requeue_ovflist ov t"
  have "set ov \<subseteq> dom (rbr t)" using ok by (auto simp: ep_lists_def)
  note u = requeue_ovflist_state [OF ok(1) this]
  have fr: "rbr ?u = rbr t" "txlist ?u = txlist t" "wq ?u = wq t" "poll_waiters ?u = poll_waiters t"
    "epoll_watches ?u = epoll_watches t" "wakeups ?u = wakeups t"
    using u by (auto simp: same_frame_def)
  have set: "set (rdllist ?u) \<union> set (txlist t) = set (rdllist t) \<union> set (txlist t) \<union> set ov"
    using u by simp
  have lists: "distinct (txlist ?u @ rdllist ?u)" "set (txlist ?u @ rdllist ?u) \<subseteq> dom (rbr t)"
    using u fr by (auto simp: ep_lists_def)
  note sc = s' [unfolded ep_scan_ready_list_def Let_def t case_prod_conv ok(2) option.case]
  show "r' = r" using sc by auto
  have s'_eq: "rdllist s' = txlist ?u @ rdllist ?u" "txlist s' = []" "ovflist s' = None" "rbr s' = rbr ?u"
    "wq s' = wq ?u" "poll_waiters s' = poll_waiters ?u" "epoll_watches s' = epoll_watches ?u"
    "wakeups s' = (if rdllist s' \<noteq> [] \<and> wq t \<noteq> [] then Suc (wakeups t) else wakeups t)"
    using sc fr by (auto simp: wake_up_def ep_poll_safewake_def waitqueue_active_def split: if_splits)
  show "ep_idle s'"
    using s'_eq lists fr by (simp add: ep_idle_def ep_lists_def)
  show "set (rdllist s') = set (rdllist t) \<union> set (txlist t) \<union> set ov"
    using s'_eq fr set by auto
  show "rbr s' = rbr t" "wq s' = wq t" "poll_waiters s' = poll_waiters t" "epoll_watches s' = epoll_watches t"
    "wakeups s' = (if rdllist s' \<noteq> [] \<and> wq t \<noteq> [] then Suc (wakeups t) else wakeups t)"
    using s'_eq fr by auto
qed

lemma send_events_state:
  assumes idle: "ep_idle s" and run: "ep_send_events env m s = (res, n, out, s')"
  shows "ep_idle s'"
    and "j < length (rdllist s) \<Longrightarrow>
      rdllist s ! j \<in> set (rdllist s') \<or> j < n \<and> retired (rbr s) (env j) (rdllist s ! j)"
    and "j < n \<Longrightarrow> (k, w, fl) \<in> set (se_callbacks (env j)) \<Longrightarrow> rbr s k = Some epi \<Longrightarrow> \<not> one_shot_item epi
      \<Longrightarrow> interested epi fl \<Longrightarrow> k \<in> set (rdllist s')"
    and "wakeups s' = (if rdllist s' \<noteq> [] \<and> wq s \<noteq> [] then Suc (wakeups s) else wakeups s)"
    and "wq s' = wq s" "dom (rbr s') = dom (rbr s)" "epoll_watches s' = epoll_watches s"
    and "0 \<le> m \<Longrightarrow> int (length out) \<le> m" "length out \<le> n"
    and "res = int (length out) \<or> res = - EFAULT \<and> out = []"
proof -
  let ?s = "s\<lparr>txlist := rdllist s, rdllist := [], ovflist := Some []\<rparr>"
  let ?sproc = "\<lambda>tx s. case ep_send_events_proc env m tx 0 [] s of (res, n, out, s) \<Rightarrow> ((res, n, out), s)"
  obtain t where pr: "ep_send_events_proc env m (rdllist s) 0 [] ?s = (res, n, out, t)"
    and sc: "ep_scan_ready_list ?sproc s = ((res, n, out), s')"
  proof -
    obtain res' n' out' t where pr: "ep_send_events_proc env m (rdllist s) 0 [] ?s = (res', n', out', t)"
      by (metis prod_cases4)
    then have "fst (ep_scan_ready_list ?sproc s) = (res', n', out')"
      by (simp add: ep_scan_ready_list_def Let_def)
    with run pr that [of t] show thesis
      by (auto simp: ep_send_events_def split: prod.splits)
  qed
  have lists: "ep_lists ?s" using idle by (auto simp: ep_idle_def ep_lists_def)
  then have ok: "proc_ok env m (rdllist s) 0 [] ?s res n out t"
    by (rule proc_ok_run [OF _ _ _ pr]) simp_all
  then obtain ov where ov: "ovflist t = Some ov" by (auto simp: proc_ok_def)
  have "ep_lists t" using ok by (simp add: proc_ok_def)
  have sp: "?sproc (rdllist s) ?s = ((res, n, out), t)" using pr by simp
  note fin = scan_ready_list_state [OF idle sp \<open>ep_lists t\<close> ov sc]
  show "ep_idle s'" by (rule fin)
  show "j < length (rdllist s) \<Longrightarrow>
      rdllist s ! j \<in> set (rdllist s') \<or> j < n \<and> retired (rbr s) (env j) (rdllist s ! j)"
    using ok fin(3) by (auto simp: proc_ok_def)
  show "wq s' = wq s" "epoll_watches s' = epoll_watches s" "length out \<le> n"
    "res = int (length out) \<or> res = - EFAULT \<and> out = []"
    "wakeups s' = (if rdllist s' \<noteq> [] \<and> wq s \<noteq> [] then Suc (wakeups s) else wakeups s)"
    using ok fin by (auto simp: proc_ok_def)
  show "dom (rbr s') = dom (rbr s)"
    using ok fin(4) by (simp add: proc_ok_def tree_le_def)
  show "0 \<le> m \<Longrightarrow> int (length out) \<le> m"
    using ok by (simp add: proc_ok_def)
  assume cb: "j < n" "(k, w, fl) \<in> set (se_callbacks (env j))" "rbr s k = Some epi" "\<not> one_shot_item epi"
    "interested epi fl"
  from ok have "\<forall>j. 0 \<le> j \<longrightarrow> j < n \<longrightarrow> (\<forall>(k, w, fl) \<in> set (se_callbacks (env j)). \<forall>epi.
      rbr ?s k = Some epi \<longrightarrow> \<not> one_shot_item epi \<longrightarrow> interested epi fl \<longrightarrow> k \<in> set (the (ovflist t)))"
    unfolding proc_ok_def by (elim conjE)
  then have "\<forall>(k, w, fl) \<in> set (se_callbacks (env j)). \<forall>epi.
      rbr s k = Some epi \<longrightarrow> \<not> one_shot_item epi \<longrightarrow> interested epi fl \<longrightarrow> k \<in> set (the (ovflist t))"
    using cb(1) by simp
  from bspec [OF this cb(2)] cb(3,4,5) ov fin(3) show "k \<in> set (rdllist s')"
    by simp
qed

section \<open>Insertion\<close>

text \<open>Hooking the item to wait queues only touches its own entry of the tree.\<close>

definition hook :: "(nat \<Rightarrow> bool) \<Rightarrow> ffd \<Rightarrow> nat option list \<Rightarrow> eventpoll \<Rightarrow> eventpoll" where
  "hook ok k ws s = foldl (\<lambda>s w. poll_wait (Some (\<lambda>w. ep_ptable_queue_proc (ok w) k w)) w s) s ws"

lemma hook_frame:
  "rdllist (hook ok k ws s) = rdllist s \<and> txlist (hook ok k ws s) = txlist s \<and> ovflist (hook ok k ws s) = ovflist s
   \<and> epoll_watches (hook ok k ws s) = epoll_watches s \<and> f_ep_links (hook ok k ws s) = f_ep_links s
   \<and> dom (rbr (hook ok k ws s)) = dom (rbr s) \<and> (\<forall>k'. k' \<noteq> k \<longrightarrow> rbr (hook ok k ws s) k' = rbr s k')
   \<and> wq (hook ok k ws s) = wq s"
proof (induction ws arbitrary: s)
  case Nil
  then show ?case by (simp add: hook_def)
next
  case (Cons w ws)
  let ?s = "poll_wait (Some (\<lambda>w. ep_ptable_queue_proc (ok w) k w)) w s"
  have s: "hook ok k (w # ws) s = hook ok k ws ?s"
    by (simp add: hook_def)
  have "rdllist ?s = rdllist s" "txlist ?s = txlist s" "ovflist ?s = ovflist s" "epoll_watches ?s = epoll_watches s"
    "f_ep_links ?s = f_ep_links s" "dom (rbr ?s) = dom (rbr s)" "\<forall>k'. k' \<noteq> k \<longrightarrow> rbr ?s k' = rbr s k'" "wq ?s = wq s"
    by (auto simp: poll_wait_def ep_ptable_queue_proc_def split: option.splits)
  with Cons.IH [of ?s] show ?case
    unfolding s by simp
qed

lemma item_poll_hook:
  "snd (ep_item_poll ans (Some (\<lambda>w. ep_ptable_queue_proc (ok w) k w)) k s)
     = (case ans of None \<Rightarrow> s | Some (m, ws) \<Rightarrow> hook ok k ws s)"
  "fst (ep_item_poll ans (Some (\<lambda>w. ep_ptable_queue_proc (ok w) k w)) k s)
     = (case rbr s k of None \<Rightarrow> 0 | Some epi \<Rightarrow> poll_mask ans AND item_events epi)"
  by (auto simp: ep_item_poll_def vfs_poll_def hook_def poll_mask_def Let_def split: option.splits prod.splits)

lemma link_new_item_idle:
  assumes "ep_idle s" "rbr s k = None"
  shows "ep_idle (link_new_item e k s)" "rbr (link_new_item e k s) k \<noteq> None"
    "k \<notin> set (rdllist (link_new_item e k s))" "\<forall>k'. k' \<noteq> k \<longrightarrow> rbr (link_new_item e k s) k' = rbr s k'"
    "epoll_watches (link_new_item e k s) = epoll_watches s"
    "f_ep_links (link_new_item e k s) = (f_ep_links s)(fst k := f_ep_links s (fst k) @ [k])"
  using assms by (auto simp: link_new_item_def ep_idle_def ep_lists_def)

lemma insert_polled_state:
  assumes idle: "ep_idle s" and new: "rbr s k = None"
    and p: "ep_item_poll ans (Some (\<lambda>w. ep_ptable_queue_proc (ok w) k w)) k (link_new_item e k s) = (revents, t)"
    and u_def: "u = callbacks cbs t"
  shows "ep_idle u" "rbr u k \<noteq> None" "\<forall>k'. k' \<noteq> k \<longrightarrow> rbr u k' = rbr s k'" "epoll_watches u = epoll_watches s"
    "f_ep_links u = (f_ep_links s)(fst k := f_ep_links s (fst k) @ [k])"
proof -
  let ?l = "link_new_item e k s"
  note l = link_new_item_idle [OF idle new, of e]
  have t: "t = (case ans of None \<Rightarrow> ?l | Some (m, ws) \<Rightarrow> hook ok k ws ?l)"
    using item_poll_hook(1) [of ans ok k ?l] p by simp
  have tf: "rdllist t = rdllist ?l \<and> txlist t = txlist ?l \<and> ovflist t = ovflist ?l
      \<and> epoll_watches t = epoll_watches ?l \<and> f_ep_links t = f_ep_links ?l
      \<and> dom (rbr t) = dom (rbr ?l) \<and> (\<forall>k'. k' \<noteq> k \<longrightarrow> rbr t k' = rbr ?l k')"
    unfolding t using hook_frame [of ok k _ ?l] by (cases ans) (simp_all add: case_prod_beta)
  then have "ep_idle t"
    using l(1) by (simp add: ep_idle_def ep_lists_def)
  then show "ep_idle u"
    using callbacks_lists [of t cbs] callbacks_idle [of t cbs] callbacks_frame [of t cbs]
    by (simp add: ep_idle_def same_frame_def u_def)
  have u: "rbr u = rbr t" "epoll_watches u = epoll_watches t" "f_ep_links u = f_ep_links t"
    using callbacks_frame [of t cbs] by (simp_all add: same_frame_def u_def)
  show "rbr u k \<noteq> None"
    using l(2) tf u by (metis domIff)
  show "\<forall>k'. k' \<noteq> k \<longrightarrow> rbr u k' = rbr s k'" "epoll_watches u = epoll_watches s"
    "f_ep_links u = (f_ep_links s)(fst k := f_ep_links s (fst k) @ [k])"
    using tf l(4,5,6) u by simp_all
qed

lemma error_remove_state:
  assumes idle: "ep_idle u" and rbr: "rbr u k \<noteq> None" "\<forall>k'. k' \<noteq> k \<longrightarrow> rbr u k' = rbr s k'"
    and new: "rbr s k = None" "k \<notin> set (f_ep_links s (fst k))"
    and links: "f_ep_links u = (f_ep_links s)(fst k := f_ep_links s (fst k) @ [k])"
  shows "ep_idle (error_remove_epi k u)" "rbr (error_remove_epi k u) = rbr s"
    "f_ep_links (error_remove_epi k u) = f_ep_links s"
proof -
  show "rbr (error_remove_epi k u) = rbr s"
    using rbr new by (auto simp: error_remove_epi_def)
  show "f_ep_links (error_remove_epi k u) = f_ep_links s"
    using links new by (auto simp: error_remove_epi_def remove1_append)
  show "ep_idle (error_remove_epi k u)"
    using idle by (auto simp: ep_idle_def ep_lists_def error_remove_epi_def)
qed

text \<open>Either the item is in the tree and counted, or everything the insertion did is undone.\<close>

definition inserted :: "ffd \<Rightarrow> eventpoll \<Rightarrow> int \<times> eventpoll \<Rightarrow> bool" where
  "inserted k s out \<longleftrightarrow> ep_idle (snd out) \<and>
     (if fst out = 0
      then rbr (snd out) k \<noteq> None \<and> (\<forall>k'. k' \<noteq> k \<longrightarrow> rbr (snd out) k' = rbr s k')
        \<and> epoll_watches (snd out) = epoll_watches s + 1
        \<and> f_ep_links (snd out) = (f_ep_links s)(fst k := f_ep_links s (fst k) @ [k])
      else rbr (snd out) = rbr s \<and> epoll_watches (snd out) = epoll_watches s \<and> f_ep_links (snd out) = f_ep_links s)"

lemma ep_insert_inserted:
  assumes idle: "ep_idle s" and new: "rbr s k = None" "k \<notin> set (f_ep_links s (fst k))"
  shows "inserted k s (ep_insert ie e k full_check s)"
proof -
  let ?l = "link_new_item e k s"
  obtain revents t where p: "ep_item_poll (ie_poll ie) (Some (\<lambda>w. ep_ptable_queue_proc (ie_pwq_ok ie w) k w)) k ?l
      = (revents, t)" by fastforce
  let ?u = "callbacks (ie_callbacks ie) t"
  note l = link_new_item_idle [OF idle new(1), of e]
  note u = insert_polled_state [OF idle new(1) p refl, of "ie_callbacks ie"]
  have rm: "inserted k s (r, error_remove_epi k v)" if "r \<noteq> 0" "ep_idle v" "rbr v k \<noteq> None"
    "\<forall>k'. k' \<noteq> k \<longrightarrow> rbr v k' = rbr s k'" "f_ep_links v = (f_ep_links s)(fst k := f_ep_links s (fst k) @ [k])"
    "epoll_watches v = epoll_watches s" for r v
    using that error_remove_state [OF that(2,3,4) new that(5)]
    by (simp add: inserted_def) (simp add: error_remove_epi_def)
  have keep: "inserted k s (r, s)" if "r \<noteq> 0" for r
    using that idle by (simp add: inserted_def)
  have ok: "inserted k s (0, v\<lparr>epoll_watches := epoll_watches v + 1\<rparr>)"
    "inserted k s (0, ep_poll_safewake (v\<lparr>epoll_watches := epoll_watches v + 1\<rparr>))"
    if "ep_idle v" "rbr v = rbr ?u" "epoll_watches v = epoll_watches ?u" "f_ep_links v = f_ep_links ?u" for v
    using that u by (auto simp: inserted_def ep_idle_def ep_lists_def ep_poll_safewake_def)
  have idle_add: "ep_idle (?u\<lparr>rdllist := rdllist ?u @ [k]\<rparr>)"
    "ep_idle (wake_up (?u\<lparr>rdllist := rdllist ?u @ [k]\<rparr>))" if "\<not> ep_is_linked k ?u"
    using that u(1,2) by (auto simp: ep_idle_def ep_lists_def ep_is_linked_def wake_up_def)
  have unreg: "inserted k s (r, error_unregister ie k ?u)" if "r \<noteq> 0" for r
    unfolding error_unregister_def
    by (rule rm [OF that]) (use u in \<open>auto simp: ep_idle_def ep_lists_def\<close>)
  show ?thesis
    unfolding ep_insert_def Let_def p case_prod_conv
    using ok [OF u(1) refl refl refl] ok [OF idle_add(1)] ok [OF idle_add(2)]
    by (auto simp: keep unreg wake_up_def intro!: rm l(2,4,5,6) l(1) dest!: option.discI)
qed

section \<open>Fairness of level-triggered items\<close>

definition level_ready :: "(ffd \<rightharpoonup> epitem) \<Rightarrow> scan_env \<Rightarrow> ffd \<Rightarrow> bool" where
  "level_ready m se k \<longleftrightarrow> se_callbacks se = [] \<and> se_put_user se
     \<and> (case m k of None \<Rightarrow> False | Some epi \<Rightarrow> \<not> one_shot_item epi \<and> \<not> edge_item epi
          \<and> poll_mask (se_poll se) AND item_events epi \<noteq> 0)"

lemma level_ready_step:
  assumes "level_ready (rbr s) (env i) k" "int (length out) < m"
  shows "\<exists>ev. ep_send_events_proc env m (k # tx) i out s
       = ep_send_events_proc env m tx (Suc i) (out @ [ev]) (s\<lparr>txlist := tx, rdllist := rdllist s @ [k]\<rparr>)"
proof -
  obtain epi where epi: "rbr s k = Some epi" "\<not> one_shot_item epi" "\<not> edge_item epi"
    "poll_mask (se_poll (env i)) AND item_events epi \<noteq> 0"
    using assms(1) by (auto simp: level_ready_def split: option.splits)
  have "se_callbacks (env i) = []" "se_put_user (env i)"
    using assms(1) by (auto simp: level_ready_def)
  then show ?thesis
    using epi assms(2)
    by (auto simp: scan_item_eq after_delivery_def one_shot_item_def edge_item_def)
qed

lemma level_ready_proc:
  assumes "\<forall>j < length tx. level_ready (rbr s) (env (i + j)) (tx ! j)" "length out \<le> m" "txlist s = tx"
  shows "\<exists>n out'. ep_send_events_proc env (int m) tx i out s
       = (int (min m (length out + length tx)), n, out',
          s\<lparr>rdllist := rdllist s @ take (m - length out) tx, txlist := drop (m - length out) tx\<rparr>)"
  using assms
proof (induction tx arbitrary: i out s)
  case Nil
  then show ?case by (auto simp: min_def)
next
  case (Cons k tx)
  show ?case
  proof (cases "length out < m")
    case False
    with Cons.prems(2,3) show ?thesis by simp
  next
    case True
    from Cons.prems(1) have "level_ready (rbr s) (env i) k" by force
    from level_ready_step [where env = env and i = i, OF this, of out "int m" tx] True obtain ev where
      st: "ep_send_events_proc env (int m) (k # tx) i out s = ep_send_events_proc env (int m) tx (Suc i)
             (out @ [ev]) (s\<lparr>txlist := tx, rdllist := rdllist s @ [k]\<rparr>)" by auto
    have "\<forall>j < length tx. level_ready (rbr s) (env (Suc i + j)) (tx ! j)"
    proof (intro allI impI)
      fix j
      assume "j < length tx"
      with Cons.prems(1) [rule_format, of "Suc j"] show "level_ready (rbr s) (env (Suc i + j)) (tx ! j)" by simp
    qed
    with Cons.IH [of "s\<lparr>txlist := tx, rdllist := rdllist s @ [k]\<rparr>" "Suc i" "out @ [ev]"] True
    obtain n out' where "ep_send_events_proc env (int m) (k # tx) i out s
      = (int (min m (Suc (length out) + length tx)), n, out', s\<lparr>rdllist := (rdllist s @ [k]) @ take (m - Suc (length out)) tx,
           txlist := drop (m - Suc (length out)) tx\<rparr>)"
      unfolding st by auto
    then show ?thesis
      using True by (simp add: take_Cons' drop_Cons' Suc_diff_Suc)
  qed
qed

section \<open>The instance as a machine\<close>

text \<open>What may happen to an instance between system calls and within them.\<close>

datatype ep_op =
    EpInsert insert_env epoll_event ffd bool
  | EpCallback ffd nat u32
  | EpSend "nat \<Rightarrow> scan_env" int

fun ep_step :: "ep_op \<Rightarrow> eventpoll \<Rightarrow> unit + eventpoll" where
  "ep_step (EpInsert ie e k full) s = Inr (snd (ep_insert ie e k full s))"
| "ep_step (EpCallback k w fl) s = Inr (snd (ep_poll_callback k w fl s))"
| "ep_step (EpSend env m) s = Inr (case ep_send_events env m s of (_, _, _, s') \<Rightarrow> s')"

text \<open>\<^verbatim>\<open>do_epoll_ctl\<close> inserts only a key that is not in the tree.\<close>

fun ep_guard :: "ep_op \<Rightarrow> eventpoll \<Rightarrow> bool" where
  "ep_guard (EpInsert ie e k full) s = (rbr s k = None \<and> k \<notin> set (f_ep_links s (fst k)))"
| "ep_guard (EpCallback k w fl) s = True"
| "ep_guard (EpSend env m) s = True"

lemma callback_keeps_idle: "ep_idle s \<Longrightarrow> ep_idle (snd (ep_poll_callback k w fl s))"
  using callback_lists [of s k w fl] callback_frame [of s k w fl]
  by (cases "rbr s k") (auto simp: ep_idle_def same_frame_def callback_gone callback_idle)

interpretation ep: guarded_machine ep_step ep_guard ep_idle
proof
  fix s x s'
  assume "ep_idle s" "ep_guard x s" "ep_step x s = Inr s'"
  then show "ep_idle s'"
  proof (cases x)
    case (EpInsert ie e k full)
    then show ?thesis
      using ep_insert_inserted [of s k ie e full] \<open>ep_idle s\<close> \<open>ep_guard x s\<close> \<open>ep_step x s = Inr s'\<close>
      by (auto simp: inserted_def)
  next
    case (EpCallback k w fl)
    then show ?thesis
      using callback_keeps_idle [of s k w fl] \<open>ep_idle s\<close> \<open>ep_step x s = Inr s'\<close> by auto
  next
    case (EpSend env m)
    then show ?thesis
      using send_events_state(1) [OF \<open>ep_idle s\<close>] \<open>ep_step x s = Inr s'\<close>
      by (auto split: prod.splits)
  qed
qed

section \<open>Properties\<close>

text \<open>C26: after any run of insertions of new keys, wake-up callbacks and event deliveries on a new
  instance, with callbacks arriving at any point of a scan or of an insertion, every item is
  linked at most once, only items of the tree are linked, and no scan is left open.\<close>

theorem epoll_lists_consistent:
  assumes "ep_alloc True links wqs watches = Inr s0"
    and "guarded_run ep_guard ep_step xs s0" and "run_ops ep_step xs s0 = Inr s"
  shows "distinct (rdllist s) \<and> set (rdllist s) \<subseteq> dom (rbr s) \<and> txlist s = [] \<and> ovflist s = None"
proof -
  have "ep_idle s0"
    using assms(1) by (auto simp: ep_alloc_def ep_idle_def ep_lists_def)
  from ep.run_inv [OF this assms(2,3)] show ?thesis
    by (simp add: ep_idle_def ep_lists_def)
qed

definition plain_env :: "poll_answer \<Rightarrow> insert_env" where
  "plain_env ans = \<lparr>ie_max_user_watches = 100, ie_epi_ok = True, ie_ws_error = 0,
     ie_reverse_path_check = False, ie_poll = ans, ie_pwq_ok = (\<lambda>_. True), ie_callbacks = [],
     ie_unregister = (\<lambda>k q. q)\<rparr>"

definition new_ep :: eventpoll where
  "new_ep = \<lparr>rbr = Map.empty, rdllist = [], txlist = [], ovflist = None, wq = [], poll_waiters = [],
     wakeups = 0, pwakes = 0, epoll_watches = 0, f_ep_links = (\<lambda>_. []), wait_queues = (\<lambda>_. [])\<rparr>"

theorem epoll_lists_consistent_witness:
  "\<exists>s. run_ops ep_step [EpInsert (plain_env (Some (4, [Some 7]))) \<lparr>ev_events = 5, ev_data = 9\<rparr> (3, 3) False,
       EpCallback (3, 3) 7 1] new_ep = Inr s \<and> distinct (rdllist s) \<and> set (rdllist s) \<subseteq> dom (rbr s)"
proof -
  let ?xs = "[EpInsert (plain_env (Some (4, [Some 7]))) \<lparr>ev_events = 5, ev_data = 9\<rparr> (3, 3) False, EpCallback (3, 3) 7 1]"
  obtain s where s: "run_ops ep_step ?xs new_ep = Inr s" by simp
  have "ep_alloc True (\<lambda>_. []) (\<lambda>_. []) 0 = Inr new_ep"
    by (simp add: ep_alloc_def new_ep_def)
  moreover have "guarded_run ep_guard ep_step ?xs new_ep"
    by (simp add: new_ep_def)
  ultimately have "distinct (rdllist s) \<and> set (rdllist s) \<subseteq> dom (rbr s)"
    using epoll_lists_consistent [OF _ _ s] by auto
  with s show ?thesis by blast
qed


definition two_items :: eventpoll where
  "two_items = new_ep\<lparr>rbr := [(3, 3) \<mapsto> \<lparr>ei_event = \<lparr>ev_events = 1, ev_data = 30\<rparr>, ei_nwait = 1, ei_pwqlist = [7], ei_ws = False\<rparr>,
       (4, 4) \<mapsto> \<lparr>ei_event = \<lparr>ev_events = 0x80000001, ev_data = 40\<rparr>, ei_nwait = 1, ei_pwqlist = [8], ei_ws = False\<rparr>],
     rdllist := [(4, 4)], wq := [1]\<rparr>"

definition busy_scan :: "nat \<Rightarrow> scan_env" where
  "busy_scan j = \<lparr>se_callbacks = (if j = 0 then [((3, 3), 7, 1)] else []), se_poll = Some (1, []), se_put_user = True\<rparr>"


text \<open>C16: level-triggered items are served round robin.  When all ready items are level-triggered
  and stay ready, a delivery of at most \<open>m\<close> events reports the first \<open>m\<close> and moves them behind
  the others, so no ready item starves.\<close>

theorem epoll_level_triggered_round_robin:
  assumes "ep_idle s" and "\<forall>j < length (rdllist s). level_ready (rbr s) (env j) (rdllist s ! j)"
    and "ep_send_events env (int m) s = (res, n, out, s')"
  shows "rdllist s' = drop m (rdllist s) @ take m (rdllist s) \<and> res = int (min m (length (rdllist s)))"
proof -
  let ?l = "rdllist s"
  let ?s = "s\<lparr>txlist := ?l, rdllist := [], ovflist := Some []\<rparr>"
  from level_ready_proc [of ?l ?s env 0 "[]" m] assms(2) obtain n' out' where
    "ep_send_events_proc env (int m) ?l 0 [] ?s = (int (min m (length ?l)), n', out',
       ?s\<lparr>rdllist := take m ?l, txlist := drop m ?l\<rparr>)" by auto
  with assms(3) show ?thesis
    by (auto simp: ep_send_events_def ep_scan_ready_list_def Let_def wake_up_def ep_poll_safewake_def
        split: if_splits)
qed

definition three_ready :: eventpoll where
  "three_ready = new_ep\<lparr>rbr := (\<lambda>k. Some \<lparr>ei_event = \<lparr>ev_events = 1, ev_data = 30\<rparr>, ei_nwait = 1, ei_pwqlist = [7], ei_ws = False\<rparr>),
     rdllist := [(3, 3), (4, 4), (5, 5)]\<rparr>"

theorem epoll_level_triggered_round_robin_witness:
  "case ep_send_events (\<lambda>j. \<lparr>se_callbacks = [], se_poll = None, se_put_user = True\<rparr>) (int 2) three_ready of
     (res, n, out, s') \<Rightarrow> rdllist s' = [(5, 5), (3, 3), (4, 4)] \<and> res = 2"
proof -
  let ?env = "\<lambda>j::nat. \<lparr>se_callbacks = [], se_poll = None, se_put_user = True\<rparr>"
  obtain res n out s' where run: "ep_send_events ?env (int 2) three_ready = (res, n, out, s')"
    by (metis prod_cases4)
  have "ep_idle three_ready"
    by (simp add: three_ready_def new_ep_def ep_idle_def ep_lists_def dom_def)
  moreover have "\<forall>j < length (rdllist three_ready). level_ready (rbr three_ready) (?env j) (rdllist three_ready ! j)"
    by (simp add: three_ready_def level_ready_def one_shot_item_def edge_item_def poll_mask_def)
  ultimately show ?thesis
    using epoll_level_triggered_round_robin [OF _ _ run] run by (simp add: three_ready_def new_ep_def)
qed


definition plain_ctl :: "poll_answer \<Rightarrow> ctl_env" where
  "plain_ctl ans = \<lparr>ce_lock1 = 0, ce_epmutex = 0, ce_lock2 = 0, ce_tep_lock = 0, ce_gen_equal = False,
     ce_loop_check = False, ce_insert = plain_env ans, ce_ep_find = rbr, ce_ep_remove = (\<lambda>k s. (0, s)),
     ce_ep_modify = (\<lambda>k e s. (0, s))\<rparr>"


text \<open>\<^verbatim>\<open>epoll_wait\<close> with a zero timeout returns whatever the rest of the kernel does, delivers
  at most \<^verbatim>\<open>maxevents\<close> events, and its result is the number of events delivered or a negative
  error with none delivered.\<close>

theorem epoll_wait_nonblocking:
  assumes "ep_idle s"
  shows "\<exists>res out s'. epoll_wait current env sl f access_ok maxevents 0 s = Some (res, out, s') \<and> ep_idle s'
    \<and> (res = int (length out) \<or> res < 0 \<and> out = []) \<and> int (length out) \<le> max 0 maxevents"
proof -
  obtain res n out s' where send: "ep_send_events (env 0) maxevents s = (res, n, out, s')"
    by (metis prod_cases4)
  note st = send_events_state [OF assms send]
  have loop: "ep_poll_loop current env sl maxevents False True 0 0 s
      = (if ep_events_available s then Some (res, out, s') else Some (0, [], s))"
    by (subst ep_poll_loop.simps) (simp add: send)
  show ?thesis
    using st assms
    by (auto simp: epoll_wait_def ep_poll_def loop split: option.splits)
qed

theorem epoll_wait_nonblocking_witness:
  "\<exists>res out s'. epoll_wait 1 (\<lambda>_. busy_scan) (\<lambda>_. \<lparr>sl_fatal = False, sl_signal = False, sl_callbacks = [], sl_expired = False\<rparr>)
      (Some \<lparr>kf_id = 1, kf_can_poll = True, kf_is_epoll = True, kf_ep_links_empty = True\<rparr>) True 5 0 two_items
      = Some (res, out, s') \<and> res = int (length out)"
proof -
  let ?run = "epoll_wait 1 (\<lambda>_. busy_scan) (\<lambda>_. \<lparr>sl_fatal = False, sl_signal = False, sl_callbacks = [], sl_expired = False\<rparr>)
      (Some \<lparr>kf_id = 1, kf_can_poll = True, kf_is_epoll = True, kf_ep_links_empty = True\<rparr>) True 5 0 two_items"
  have "ep_idle two_items"
    by (simp add: two_items_def new_ep_def ep_idle_def ep_lists_def)
  from epoll_wait_nonblocking [OF this, of 1 "\<lambda>_. busy_scan" "\<lambda>_. \<lparr>sl_fatal = False, sl_signal = False, sl_callbacks = [], sl_expired = False\<rparr>"
      "Some \<lparr>kf_id = 1, kf_can_poll = True, kf_is_epoll = True, kf_ep_links_empty = True\<rparr>" True 5]
  obtain res out s' where run: "?run = Some (res, out, s')" and r: "res = int (length out) \<or> res < 0 \<and> out = []"
    by blast
  have "\<not> res < 0"
    using run by (subst (asm) epoll_wait_def)
      (auto simp: ep_poll_def ep_poll_loop.simps [of _ _ _ _ False] ep_send_events_def ep_scan_ready_list_def Let_def two_items_def new_ep_def
        busy_scan_def scan_item_eq poll_mask_def after_delivery_def item_data_def ep_poll_callback_def ep_events_available_def)
  with r run show ?thesis by blast
qed

end
