(* ===== verification/LinuxBuddy.thy ===== *)
theory LinuxBuddy
  imports RTFSC_Prelude "HOL-Library.Multiset" "HOL-Library.Monad_Syntax"
begin

text \<open>
  The allocation side of the Linux buddy allocator (\<^verbatim>\<open>linux/mm/buddy\<close>): the free lists of a zone by order
  and migrate type, the splitting of blocks, the fallback to other migrate types, the per-CPU lists,
  and the hand-over of boot memory.  A page is its frame number.  Arrays indexed by order and migrate
  type are functions, a \<^verbatim>\<open>list_head\<close> the list of its members.  The assertions \<^verbatim>\<open>VM_BUG_ON\<close>, the locks and the
  tracing and event counters have no part in the model.
\<close>

section \<open>The zone\<close>

abbreviation MAX_ORDER :: nat where "MAX_ORDER \<equiv> 11"

datatype migratetype = UNMOVABLE | MOVABLE | RECLAIMABLE | HIGHATOMIC | CMA | ISOLATE

record free_area =
  free_list :: "migratetype \<Rightarrow> nat list"
  nr_free :: int

record per_cpu_pages =
  pcp_count :: int
  pcp_lists :: "migratetype \<Rightarrow> nat list"

text \<open>The calls that adjust the statistics of the zone, in order.\<close>

datatype stat_call = ModFreePages int | ModFreeCma int | ModFreepageState int migratetype

record zone =
  free_area :: "nat \<Rightarrow> free_area"
  page_order :: "nat \<Rightarrow> nat option"  \<comment> \<open>\<^verbatim>\<open>PageBuddy\<close> and the order kept in \<^verbatim>\<open>page->private\<close>\<close>
  pcppage_migratetype :: "nat \<Rightarrow> migratetype"  \<comment> \<open>\<^verbatim>\<open>page->index\<close>\<close>
  pageblock_migratetype :: "nat \<Rightarrow> migratetype"
  pcp :: per_cpu_pages
  stat_calls :: "stat_call list"

text \<open>What the code calls and the repository does not hold: the guard pages of a debugging build, the
  checks of new pages, and the mover of the free pages of a pageblock, which gives the numbers of free
  and of movable pages.\<close>

record buddy_env =
  set_page_guard :: "nat \<Rightarrow> nat \<Rightarrow> bool"
  check_new_pages :: "nat \<Rightarrow> nat \<Rightarrow> bool"
  check_pcp_refill :: "nat \<Rightarrow> bool"
  check_new_pcp :: "nat \<Rightarrow> bool"
  move_freepages_block :: "zone \<Rightarrow> nat \<Rightarrow> migratetype \<Rightarrow> nat \<times> nat \<times> zone"
  change_pageblock_range :: "nat \<Rightarrow> nat \<Rightarrow> migratetype \<Rightarrow> (nat \<Rightarrow> migratetype) \<Rightarrow> (nat \<Rightarrow> migratetype)"
  set_pageblock_migratetype :: "nat \<Rightarrow> migratetype \<Rightarrow> (nat \<Rightarrow> migratetype) \<Rightarrow> (nat \<Rightarrow> migratetype)"
  pageblock_order :: nat
  page_group_by_mobility_disabled :: bool
  config_cma :: bool

section \<open>Splitting\<close>

text \<open>One list of one area, and a change of it with the count of the area.\<close>

definition fl :: "zone \<Rightarrow> nat \<Rightarrow> migratetype \<Rightarrow> nat list" where
  "fl z k t = free_list (free_area z k) t"

definition set_fl :: "nat \<Rightarrow> migratetype \<Rightarrow> nat list \<Rightarrow> int \<Rightarrow> zone \<Rightarrow> zone" where
  "set_fl k t ps d z =
     z\<lparr>free_area := (free_area z)(k := (free_area z k)\<lparr>free_list := (free_list (free_area z k))(t := ps),
                                                        nr_free := nr_free (free_area z k) + d\<rparr>)\<rparr>"

definition set_page_order :: "nat \<Rightarrow> nat \<Rightarrow> zone \<Rightarrow> zone" where
  "set_page_order p k z = z\<lparr>page_order := (page_order z)(p := Some k)\<rparr>"

definition rmv_page_order :: "nat \<Rightarrow> zone \<Rightarrow> zone" where
  "rmv_page_order p z = z\<lparr>page_order := (page_order z)(p := None)\<rparr>"

fun expand :: "buddy_env \<Rightarrow> nat \<Rightarrow> nat \<Rightarrow> nat \<Rightarrow> migratetype \<Rightarrow> zone \<Rightarrow> zone" where
  "expand env page low 0 t z = z"
| "expand env page low (Suc high) t z =
     (if Suc high > low
      then
        let half = page + 2 ^ high in
        if set_page_guard env half high then expand env page low high t z
        else expand env page low high t (set_page_order half high (set_fl high t (half # fl z high t) 1 z))
      else z)"

text \<open>The loop over the orders from \<open>k\<close>; the first argument counts the orders that are left.\<close>

fun smallest_from :: "buddy_env \<Rightarrow> nat \<Rightarrow> nat \<Rightarrow> nat \<Rightarrow> migratetype \<Rightarrow> zone \<Rightarrow> nat option \<times> zone" where
  "smallest_from env 0 k order t z = (None, z)"
| "smallest_from env (Suc n) k order t z =
     (case fl z k t of
        [] \<Rightarrow> smallest_from env n (Suc k) order t z
      | page # rest \<Rightarrow>
          let z = expand env page order k t (rmv_page_order page (set_fl k t rest (- 1) z))
          in (Some page, z\<lparr>pcppage_migratetype := (pcppage_migratetype z)(page := t)\<rparr>))"

definition rmqueue_smallest :: "buddy_env \<Rightarrow> nat \<Rightarrow> migratetype \<Rightarrow> zone \<Rightarrow> nat option \<times> zone" where
  "rmqueue_smallest env order t z = smallest_from env (MAX_ORDER - order) order order t z"

section \<open>Fallback\<close>

text \<open>The rows of the table up to their end mark; the row of \<^verbatim>\<open>MIGRATE_HIGHATOMIC\<close> is not initialised, so it
  holds four times the type 0 and no end mark.\<close>

fun fallbacks :: "migratetype \<Rightarrow> migratetype list" where
  "fallbacks UNMOVABLE = [RECLAIMABLE, MOVABLE]"
| "fallbacks RECLAIMABLE = [UNMOVABLE, MOVABLE]"
| "fallbacks MOVABLE = [RECLAIMABLE, UNMOVABLE]"
| "fallbacks CMA = []"
| "fallbacks ISOLATE = []"
| "fallbacks HIGHATOMIC = [UNMOVABLE, UNMOVABLE, UNMOVABLE, UNMOVABLE]"

definition can_steal_fallback :: "buddy_env \<Rightarrow> nat \<Rightarrow> migratetype \<Rightarrow> bool" where
  "can_steal_fallback env order start_mt =
     (if order \<ge> pageblock_order env then True
      else if order \<ge> pageblock_order env div 2 \<or> start_mt = RECLAIMABLE \<or> start_mt = UNMOVABLE
         \<or> page_group_by_mobility_disabled env then True
      else False)"

text \<open>The walk along a row: the type found and \<^verbatim>\<open>*can_steal\<close>.\<close>

fun suitable_in :: "buddy_env \<Rightarrow> free_area \<Rightarrow> nat \<Rightarrow> migratetype \<Rightarrow> bool \<Rightarrow> bool \<Rightarrow> migratetype list \<Rightarrow> migratetype option \<times> bool" where
  "suitable_in env area order t only_stealable steal [] = (None, steal)"
| "suitable_in env area order t only_stealable steal (f # fs) =
     (if free_list area f = [] then suitable_in env area order t only_stealable steal fs
      else
        let steal = (steal \<or> can_steal_fallback env order t) in
        if \<not> only_stealable then (Some f, steal)
        else if steal then (Some f, steal)
        else suitable_in env area order t only_stealable steal fs)"

text \<open>\<^const>\<open>None\<close>: the walk runs past the end of a row without end mark.\<close>

definition find_suitable_fallback ::
  "buddy_env \<Rightarrow> free_area \<Rightarrow> nat \<Rightarrow> migratetype \<Rightarrow> bool \<Rightarrow> bool \<Rightarrow> (migratetype option \<times> bool) option" where
  "find_suitable_fallback env area order t only_stealable steal =
     (if nr_free area = 0 then Some (None, steal)
      else
        let found = suitable_in env area order t only_stealable False (fallbacks t) in
        if fst found = None \<and> t = HIGHATOMIC then None else Some found)"

text \<open>\<^verbatim>\<open>list_move\<close>: out of the list it is on, to the front of another one.  The counts of the area stay.\<close>

definition list_move_page :: "nat \<Rightarrow> nat \<Rightarrow> migratetype \<Rightarrow> zone \<Rightarrow> zone" where
  "list_move_page page k t z =
     (let area = free_area z k; lists = (\<lambda>u. remove1 page (free_list area u))
      in z\<lparr>free_area := (free_area z)(k := area\<lparr>free_list := lists(t := page # lists t)\<rparr>)\<rparr>)"

definition steal_suitable_fallback :: "buddy_env \<Rightarrow> nat \<Rightarrow> migratetype \<Rightarrow> bool \<Rightarrow> zone \<Rightarrow> zone" where
  "steal_suitable_fallback env page start_type whole_block z =
     (let current_order = the (page_order z page); old_block_type = pageblock_migratetype z page;
          single_page = list_move_page page current_order start_type
      in if old_block_type = HIGHATOMIC then single_page z
         else if current_order \<ge> pageblock_order env
         then single_page (z\<lparr>pageblock_migratetype := change_pageblock_range env page current_order start_type (pageblock_migratetype z)\<rparr>)
         else if \<not> whole_block then single_page z
         else
           let (free_pages, movable_pages, z) = move_freepages_block env z page start_type;
               alike_pages =
                 (if start_type = MOVABLE then int movable_pages
                  else if old_block_type = MOVABLE then 2 ^ pageblock_order env - (int free_pages + int movable_pages)
                  else 0)
           in if free_pages = 0 then single_page z
              else if int free_pages + alike_pages \<ge> 2 ^ (pageblock_order env - 1) \<or> page_group_by_mobility_disabled env
              then z\<lparr>pageblock_migratetype := set_pageblock_migratetype env page start_type (pageblock_migratetype z)\<rparr>
              else z)"

text \<open>The search from the largest order down to \<open>order\<close>: the order, the type found and \<^verbatim>\<open>can_steal\<close>.\<close>

fun largest_fallback :: "buddy_env \<Rightarrow> nat \<Rightarrow> nat \<Rightarrow> migratetype \<Rightarrow> zone \<Rightarrow> (nat \<times> migratetype \<times> bool) option option" where
  "largest_fallback env k order t z =
     (if k < order then Some None
      else do {
        (f, steal) \<leftarrow> find_suitable_fallback env (free_area z k) k t False False;
        case f of Some f \<Rightarrow> Some (Some (k, f, steal))
        | None \<Rightarrow> (case k of 0 \<Rightarrow> Some None | Suc k' \<Rightarrow> largest_fallback env k' order t z)
      })"

declare largest_fallback.simps [simp del]

fun smallest_fallback :: "buddy_env \<Rightarrow> nat \<Rightarrow> nat \<Rightarrow> migratetype \<Rightarrow> zone \<Rightarrow> (nat \<times> migratetype \<times> bool) option" where
  "smallest_fallback env 0 k t z = None"
| "smallest_fallback env (Suc n) k t z =
     do {
       (f, steal) \<leftarrow> find_suitable_fallback env (free_area z k) k t False False;
       case f of Some f \<Rightarrow> Some (k, f, steal) | None \<Rightarrow> smallest_fallback env n (Suc k) t z
     }"

text \<open>\<^const>\<open>None\<close>: the walk past the end of a row, or the empty list of \<^verbatim>\<open>list_first_entry\<close>.\<close>

definition rmqueue_fallback :: "buddy_env \<Rightarrow> nat \<Rightarrow> migratetype \<Rightarrow> zone \<Rightarrow> (bool \<times> zone) option" where
  "rmqueue_fallback env order t z =
     do {
       found \<leftarrow> largest_fallback env (MAX_ORDER - 1) order t z;
       case found of
         None \<Rightarrow> Some (False, z)
       | Some (k, f, steal) \<Rightarrow>
           do {
             (k, f, steal) \<leftarrow> (if \<not> steal \<and> t = MOVABLE \<and> k > order
                              then smallest_fallback env (MAX_ORDER - order) order t z else Some (k, f, steal));
             case fl z k f of [] \<Rightarrow> None
             | page # rest \<Rightarrow> Some (True, steal_suitable_fallback env page t steal z)
           }
     }"

partial_function (option) rmqueue_core :: "buddy_env \<Rightarrow> nat \<Rightarrow> migratetype \<Rightarrow> zone \<Rightarrow> (nat option \<times> zone) option" where
  "rmqueue_core env order t z =
     (case rmqueue_smallest env order t z of
        (Some page, z) \<Rightarrow> Some (Some page, z)
      | (None, z) \<Rightarrow>
          (case (if t = MOVABLE \<and> config_cma env then rmqueue_smallest env order CMA z else (None, z)) of
             (Some page, z) \<Rightarrow> Some (Some page, z)
           | (None, z) \<Rightarrow>
               Option.bind (rmqueue_fallback env order t z) (\<lambda>(found, z).
                 if found then rmqueue_core env order t z else Some (None, z))))"

section \<open>The callers\<close>

text \<open>The per-CPU lists are filled page by page; a page that fails its check is lost but counted.\<close>

definition add_stat :: "stat_call \<Rightarrow> zone \<Rightarrow> zone" where
  "add_stat c z = z\<lparr>stat_calls := stat_calls z @ [c]\<rparr>"

text \<open>The loop: the pages put on the list, how many, and the number \<open>i\<close> of blocks taken.\<close>

fun bulk_loop :: "buddy_env \<Rightarrow> nat \<Rightarrow> nat \<Rightarrow> migratetype \<Rightarrow> nat list \<Rightarrow> nat \<Rightarrow> nat \<Rightarrow> zone \<Rightarrow> (nat \<times> nat \<times> nat list \<times> zone) option" where
  "bulk_loop env order 0 t ps i alloced z = Some (i, alloced, ps, z)"
| "bulk_loop env order (Suc n) t ps i alloced z =
     Option.bind (rmqueue_core env order t z) (\<lambda>(page, z).
       case page of None \<Rightarrow> Some (i, alloced, ps, z)
       | Some page \<Rightarrow>
           if check_pcp_refill env page then bulk_loop env order n t ps (Suc i) alloced z
           else bulk_loop env order n t (ps @ [page]) (Suc i) (Suc alloced)
                  (if pcppage_migratetype z page = CMA then add_stat (ModFreeCma (- (2 ^ order))) z else z))"

definition rmqueue_bulk :: "buddy_env \<Rightarrow> nat \<Rightarrow> nat \<Rightarrow> nat list \<Rightarrow> migratetype \<Rightarrow> zone \<Rightarrow> (nat \<times> nat list \<times> zone) option" where
  "rmqueue_bulk env order n ps t z =
     map_option (\<lambda>(i, alloced, ps, z). (alloced, ps, add_stat (ModFreePages (- (int i * 2 ^ order))) z))
       (bulk_loop env order n t ps 0 0 z)"

definition set_pcp :: "migratetype \<Rightarrow> nat list \<Rightarrow> int \<Rightarrow> zone \<Rightarrow> zone" where
  "set_pcp t ps d z = z\<lparr>pcp := (pcp z)\<lparr>pcp_count := pcp_count (pcp z) + d, pcp_lists := (pcp_lists (pcp z))(t := ps)\<rparr>\<rparr>"

partial_function (option) rmqueue_pcplist :: "buddy_env \<Rightarrow> nat \<Rightarrow> migratetype \<Rightarrow> zone \<Rightarrow> (nat option \<times> zone) option" where
  "rmqueue_pcplist env batch t z =
     Option.bind (if pcp_lists (pcp z) t = []
                  then map_option (\<lambda>(n, ps, z). set_pcp t ps (int n) z) (rmqueue_bulk env 0 batch [] t z)
                  else Some z) (\<lambda>z.
       case pcp_lists (pcp z) t of
         [] \<Rightarrow> Some (None, z)
       | page # rest \<Rightarrow>
           let z = set_pcp t rest (- 1) z
           in if check_new_pcp env page then rmqueue_pcplist env batch t z else Some (Some page, z))"

text \<open>The loop over bad blocks of \<^verbatim>\<open>rmqueue\<close>; only the block that is returned is taken off the counter.\<close>

partial_function (option) rmqueue_loop :: "buddy_env \<Rightarrow> nat \<Rightarrow> bool \<Rightarrow> migratetype \<Rightarrow> zone \<Rightarrow> (nat option \<times> zone) option" where
  "rmqueue_loop env order harder t z =
     Option.bind (case (if harder then rmqueue_smallest env order HIGHATOMIC z else (None, z)) of
                    (Some page, z) \<Rightarrow> Some (Some page, z)
                  | (None, z) \<Rightarrow> rmqueue_core env order t z) (\<lambda>(page, z).
       case page of None \<Rightarrow> Some (None, z)
       | Some page \<Rightarrow> if check_new_pages env page order then rmqueue_loop env order harder t z else Some (Some page, z))"

definition rmqueue :: "buddy_env \<Rightarrow> nat \<Rightarrow> nat \<Rightarrow> bool \<Rightarrow> migratetype \<Rightarrow> zone \<Rightarrow> (nat option \<times> zone) option" where
  "rmqueue env batch order harder t z =
     (if order = 0 then rmqueue_pcplist env batch t z
      else
        map_option (\<lambda>(page, z).
          case page of None \<Rightarrow> (None, z)
          | Some page \<Rightarrow>
              (Some page, add_stat (ModFreepageState (- (2 ^ order)) (pcppage_migratetype z page)) z))
          (rmqueue_loop env order harder t z))"

section \<open>The free pages of a zone\<close>

instance migratetype :: finite
proof
  have "(UNIV :: migratetype set) = {UNMOVABLE, MOVABLE, RECLAIMABLE, HIGHATOMIC, CMA, ISOLATE}"
    using migratetype.exhaust by blast
  then show "finite (UNIV :: migratetype set)" by (metis finite.emptyI finite_insert)
qed

definition block :: "nat \<Rightarrow> nat \<Rightarrow> nat multiset" where
  "block p k = mset [p..<p + 2 ^ k]"

definition blocks :: "nat \<Rightarrow> nat list \<Rightarrow> nat multiset" where
  "blocks k ps = sum_list (map (\<lambda>p. block p k) ps)"

definition list_heads :: "(nat \<times> migratetype) set" where
  "list_heads = {k. k < MAX_ORDER} \<times> UNIV"

lemma list_heads [simp]: "finite list_heads" "(k, t) \<in> list_heads \<longleftrightarrow> k < MAX_ORDER"
  by (simp_all add: list_heads_def)

definition free_mset :: "zone \<Rightarrow> nat multiset" where
  "free_mset z = (\<Sum>(k, t)\<in>list_heads. blocks k (fl z k t))"

lemma blocks_simps [simp]: "blocks k [] = {#}" "blocks k (p # ps) = block p k + blocks k ps"
  by (simp_all add: blocks_def)

lemma blocks_remove1: "p \<in> set ps \<Longrightarrow> blocks k ps = block p k + blocks k (remove1 p ps)"
  by (induction ps) (auto simp: ac_simps)

lemma count_block: "count (block p k) x = (if p \<le> x \<and> x < p + 2 ^ k then 1 else 0)"
  by (simp add: block_def count_mset_set')

lemma fl_set_fl: "fl (set_fl k t ps d z) j u = (if j = k \<and> u = t then ps else fl z j u)"
  by (simp add: fl_def set_fl_def)

lemma free_mset_set_fl:
  assumes "k < MAX_ORDER"
  shows "free_mset (set_fl k t ps d z) + blocks k (fl z k t) = free_mset z + blocks k ps"
proof -
  let ?I = list_heads
  have i: "(k, t) \<in> ?I" "finite ?I" using assms by auto
  have "(\<Sum>(j, u)\<in>?I - {(k, t)}. blocks j (fl (set_fl k t ps d z) j u)) = (\<Sum>(j, u)\<in>?I - {(k, t)}. blocks j (fl z j u))"
    by (rule sum.cong) (auto simp: fl_set_fl split: if_splits)
  moreover have "free_mset (set_fl k t ps d z)
      = blocks k ps + (\<Sum>(j, u)\<in>?I - {(k, t)}. blocks j (fl (set_fl k t ps d z) j u))"
    unfolding free_mset_def sum.remove [OF i(2,1)] by (simp add: fl_set_fl)
  moreover have "free_mset z = blocks k (fl z k t) + (\<Sum>(j, u)\<in>?I - {(k, t)}. blocks j (fl z j u))"
    unfolding free_mset_def sum.remove [OF i(2,1)] by simp
  ultimately show ?thesis by simp
qed

lemma free_mset_member:
  assumes "k < MAX_ORDER" "p \<in> set (fl z k t)"
  shows "block p k \<subseteq># free_mset z"
proof -
  let ?I = list_heads
  have i: "(k, t) \<in> ?I" "finite ?I" using assms by auto
  have "block p k \<subseteq># blocks k (fl z k t)" using blocks_remove1 [OF assms(2)] by simp
  also have "\<dots> \<subseteq># free_mset z"
    using sum.remove [OF i(2,1), of "\<lambda>(j, u). blocks j (fl z j u)"] by (simp add: free_mset_def)
  finally show ?thesis .
qed

text \<open>The counts are right, every listed block is aligned and knows its order, and no page is in two blocks.\<close>

definition zone_ok :: "zone \<Rightarrow> bool" where
  "zone_ok z \<longleftrightarrow>
     (\<forall>k<MAX_ORDER. nr_free (free_area z k) = (\<Sum>t\<in>UNIV. int (length (fl z k t))))
   \<and> (\<forall>k<MAX_ORDER. \<forall>t. \<forall>p\<in>set (fl z k t). 2 ^ k dvd p \<and> page_order z p = Some k)
   \<and> (\<forall>x. count (free_mset z) x \<le> 1)"

lemma zone_okD:
  assumes "zone_ok z"
  shows "k < MAX_ORDER \<Longrightarrow> nr_free (free_area z k) = (\<Sum>t\<in>UNIV. int (length (fl z k t)))"
    and "k < MAX_ORDER \<Longrightarrow> p \<in> set (fl z k t) \<Longrightarrow> 2 ^ k dvd p \<and> page_order z p = Some k"
    and "count (free_mset z) x \<le> 1"
  using assms by (auto simp: zone_ok_def)

lemma nr_free_set_fl:
  assumes "k < MAX_ORDER" "nr_free (free_area z k) = (\<Sum>t\<in>UNIV. int (length (fl z k t)))"
    "int (length ps) = int (length (fl z k t)) + d"
  shows "nr_free (free_area (set_fl k t ps d z) k) = (\<Sum>u\<in>UNIV. int (length (fl (set_fl k t ps d z) k u)))"
proof -
  have "(\<Sum>u\<in>UNIV - {t}. int (length (fl (set_fl k t ps d z) k u))) = (\<Sum>u\<in>UNIV - {t}. int (length (fl z k u)))"
    by (rule sum.cong) (auto simp: fl_set_fl)
  then show ?thesis
    using sum.remove [of UNIV t "\<lambda>u. int (length (fl (set_fl k t ps d z) k u))"]
      sum.remove [of UNIV t "\<lambda>u. int (length (fl z k u))"] assms(2,3)
    by (simp add: fl_set_fl) (simp add: set_fl_def)
qed

text \<open>A block leaves its list, or joins one.\<close>

lemma take_block_ok:
  assumes ok: "zone_ok z" and k: "k < MAX_ORDER" and p: "p \<in> set (fl z k t)"
  defines "z' \<equiv> set_fl k t (remove1 p (fl z k t)) (- 1) z"
  shows "zone_ok z'" "free_mset z = free_mset z' + block p k" "2 ^ k dvd p" "\<And>j u. j < MAX_ORDER \<Longrightarrow> p \<notin> set (fl z' j u)"
proof -
  show m: "free_mset z = free_mset z' + block p k"
    using free_mset_set_fl [OF k, of t "remove1 p (fl z k t)" "- 1" z] blocks_remove1 [OF p, of k]
    by (simp add: z'_def)
  show "2 ^ k dvd p" using zone_okD(2) [OF ok k p] by simp
  have "count (free_mset z') x \<le> 1" for x
    using zone_okD(3) [OF ok, of x] unfolding m by simp
  moreover have "nr_free (free_area z' j) = (\<Sum>t\<in>UNIV. int (length (fl z' j t)))" if "j < MAX_ORDER" for j
  proof (cases "j = k")
    case True
    have "0 < length (fl z k t)" using p by (cases "fl z k t") auto
    then show ?thesis
      unfolding True z'_def using zone_okD(1) [OF ok k] p k by (intro nr_free_set_fl) (auto simp: length_remove1 of_nat_diff Suc_leI)
  next
    case False
    then show ?thesis using zone_okD(1) [OF ok that] by (simp add: z'_def fl_set_fl) (simp add: set_fl_def)
  qed
  moreover have "2 ^ j dvd q \<and> page_order z' q = Some j" if "j < MAX_ORDER" "q \<in> set (fl z' j u)" for j u q
  proof -
    have "q \<in> set (fl z j u)" using that(2) set_remove1_subset [of p "fl z k t"] by (auto simp: z'_def fl_set_fl split: if_splits)
    then show ?thesis using zone_okD(2) [OF ok that(1)] by (simp add: z'_def set_fl_def)
  qed
  ultimately show "zone_ok z'" by (auto simp: zone_ok_def)
  show "p \<notin> set (fl z' j u)" if "j < MAX_ORDER" for j u
  proof
    assume "p \<in> set (fl z' j u)"
    from free_mset_member [OF that this] have "count (block p j) p \<le> count (free_mset z') p"
      by (rule mset_subset_eq_count)
    then have "1 \<le> count (free_mset z') p" by (simp add: count_block)
    moreover have "count (free_mset z) p = count (free_mset z') p + 1" unfolding m by (simp add: count_block)
    ultimately show False using zone_okD(3) [OF ok, of p] by linarith
  qed
qed

lemma rmv_page_order_ok:
  assumes "zone_ok z" "\<And>j u. j < MAX_ORDER \<Longrightarrow> p \<notin> set (fl z j u)"
  shows "zone_ok (rmv_page_order p z)" "free_mset (rmv_page_order p z) = free_mset z"
proof -
  have f: "fl (rmv_page_order p z) = fl z" by (simp add: fun_eq_iff fl_def rmv_page_order_def)
  then show m: "free_mset (rmv_page_order p z) = free_mset z" by (simp add: free_mset_def)
  show "zone_ok (rmv_page_order p z)"
    using assms unfolding zone_ok_def m f by (fastforce simp: rmv_page_order_def)
qed

lemma put_block_ok:
  assumes ok: "zone_ok z" and k: "k < MAX_ORDER" and al: "2 ^ k dvd p"
    and new: "\<And>x. count (free_mset z) x + count (block p k) x \<le> 1"
    and z'_def: "z' = set_page_order p k (set_fl k t (p # fl z k t) 1 z)"
  shows "zone_ok z'" "free_mset z' = free_mset z + block p k"
proof -
  have f: "fl z' = fl (set_fl k t (p # fl z k t) 1 z)" by (simp add: fun_eq_iff fl_def z'_def set_page_order_def)
  then have "free_mset z' = free_mset (set_fl k t (p # fl z k t) 1 z)" by (simp add: free_mset_def)
  then show m: "free_mset z' = free_mset z + block p k"
    using free_mset_set_fl [OF k, of t "p # fl z k t" 1 z] by (simp add: add.assoc [symmetric])
  have "nr_free (free_area z' j) = (\<Sum>t\<in>UNIV. int (length (fl z' j t)))" if "j < MAX_ORDER" for j
  proof (cases "j = k")
    case True
    have "nr_free (free_area z' k) = nr_free (free_area (set_fl k t (p # fl z k t) 1 z) k)"
      by (simp add: z'_def set_page_order_def)
    then show ?thesis
      unfolding True f using nr_free_set_fl [OF k zone_okD(1) [OF ok k], of "p # fl z k t" t 1] by simp
  next
    case False
    then show ?thesis using zone_okD(1) [OF ok that]
      by (simp add: f fl_set_fl) (simp add: z'_def set_page_order_def set_fl_def)
  qed
  moreover have "2 ^ j dvd q \<and> page_order z' q = Some j" if j: "j < MAX_ORDER" and q: "q \<in> set (fl z' j u)" for j u q
  proof (cases "q \<in> set (fl z j u)")
    case True
    have "1 \<le> count (free_mset z) q"
      using mset_subset_eq_count [OF free_mset_member [OF j True], of q] by (simp add: count_block)
    then have "count (block p k) q = 0" using new [of q] by linarith
    then have "q \<noteq> p" by (auto simp: count_block)
    then show ?thesis using zone_okD(2) [OF ok j True] by (simp add: z'_def set_page_order_def set_fl_def)
  next
    case False
    then have "q = p" "j = k" using q by (auto simp: f fl_set_fl split: if_splits)
    then show ?thesis using al by (simp add: z'_def set_page_order_def)
  qed
  ultimately show "zone_ok z'" using new by (auto simp: zone_ok_def m)
qed

lemma block_split: "block p (Suc k) = block p k + block (p + 2 ^ k) k"
  by (rule multiset_eqI) (auto simp: count_block)

lemma expand_ok:
  "zone_ok z \<Longrightarrow> high < MAX_ORDER \<Longrightarrow> low \<le> high \<Longrightarrow> 2 ^ high dvd p \<Longrightarrow>
   (\<And>x. count (free_mset z) x + count (block p high) x \<le> 1) \<Longrightarrow> \<forall>q k. \<not> set_page_guard env q k \<Longrightarrow>
   zone_ok (expand env p low high t z)
   \<and> free_mset (expand env p low high t z) + block p low = free_mset z + block p high"
proof (induction env p low high t z rule: expand.induct)
  case (1 env page low t z)
  then show ?case by simp
next
  case (2 env page low high t z)
  show ?case
  proof (cases "Suc high > low")
    case False
    then show ?thesis using 2 by simp
  next
    case True
    let ?half = "page + 2 ^ high"
    define z1 where "z1 = set_page_order ?half high (set_fl high t (?half # fl z high t) 1 z)"
    have al: "2 ^ high dvd page" "2 ^ high dvd ?half" using "2.prems"(4) by (auto dest: power_le_dvd [where n = high])
    have sum: "count (free_mset z) x + (count (block page high) x + count (block ?half high) x) \<le> 1" for x
      using "2.prems"(5) [of x] unfolding block_split by simp
    have half: "count (free_mset z) x + count (block ?half high) x \<le> 1" for x using sum [of x] by linarith
    note ok1 = put_block_ok [OF "2.prems"(1) Suc_lessD [OF "2.prems"(2)] al(2) half z1_def]
    have new: "count (free_mset z1) x + count (block page high) x \<le> 1" for x
      using sum [of x] unfolding ok1(2) by simp
    have e: "expand env page low (Suc high) t z = expand env page low high t z1"
      using True "2.prems"(6) by (simp add: z1_def Let_def)
    from "2.IH"(2) [OF True refl _ ok1(1) [unfolded z1_def]] "2.prems" al True new
    show ?thesis unfolding e by (simp add: z1_def [symmetric] ok1(2) block_split ac_simps)
  qed
qed

text \<open>What does not touch the lists, the counts and the orders keeps the zone.\<close>

lemma zone_ok_cong:
  assumes "free_area z' = free_area z" "page_order z' = page_order z"
  shows "zone_ok z' = zone_ok z" "free_mset z' = free_mset z" "fl z' = fl z"
proof -
  show f: "fl z' = fl z" by (simp add: fun_eq_iff fl_def assms)
  then show "free_mset z' = free_mset z" by (simp add: free_mset_def)
  then show "zone_ok z' = zone_ok z" by (simp add: zone_ok_def f assms)
qed

text \<open>What an allocation that takes a block of the order leaves.\<close>

definition takes :: "nat \<Rightarrow> migratetype \<Rightarrow> zone \<Rightarrow> nat \<Rightarrow> zone \<Rightarrow> bool" where
  "takes order t z p z' \<longleftrightarrow>
     zone_ok z' \<and> free_mset z = free_mset z' + block p order \<and> 2 ^ order dvd p \<and> pcppage_migratetype z' p = t"

lemma take_and_expand:
  assumes ok: "zone_ok z" and guards: "\<forall>q k. \<not> set_page_guard env q k" and k: "k < MAX_ORDER" "order \<le> k"
    and l: "fl z k t = p # rest"
    and z'_def: "z' = expand env p order k t (rmv_page_order p (set_fl k t rest (- 1) z))"
  shows "takes order t z p (z'\<lparr>pcppage_migratetype := (pcppage_migratetype z')(p := t)\<rparr>)"
proof -
  let ?z1 = "set_fl k t rest (- 1) z" and ?z' = "z'\<lparr>pcppage_migratetype := (pcppage_migratetype z')(p := t)\<rparr>"
  have "p \<in> set (fl z k t)" using l by simp
  note take = take_block_ok [OF ok k(1) this, unfolded l remove1.simps(2) if_P [OF refl]]
  have rmv: "zone_ok (rmv_page_order p ?z1)" "free_mset (rmv_page_order p ?z1) = free_mset ?z1"
    using rmv_page_order_ok take(1,4) by blast+
  have "count (free_mset (rmv_page_order p ?z1)) x + count (block p k) x \<le> 1" for x
    using zone_okD(3) [OF ok, of x] unfolding rmv(2) take(2) by simp
  from expand_ok [OF rmv(1) k take(3) this guards]
  have "zone_ok z'" "free_mset z' + block p order = free_mset ?z1 + block p k"
    unfolding z'_def rmv(2) by blast+
  then show ?thesis
    using zone_ok_cong [of ?z' z'] take(2) power_le_dvd [OF take(3) k(2)] by (simp add: takes_def)
qed

lemma smallest_from_ok:
  assumes "zone_ok z" "\<forall>q k. \<not> set_page_guard env q k" "k + n = MAX_ORDER" "order \<le> k"
  shows "case smallest_from env n k order t z of
           (None, z') \<Rightarrow> z' = z \<and> (\<forall>j. k \<le> j \<and> j < MAX_ORDER \<longrightarrow> fl z j t = [])
         | (Some p, z') \<Rightarrow> takes order t z p z'"
  using assms(3,4)
proof (induction n arbitrary: k)
  case 0
  then show ?case by auto
next
  case (Suc n)
  show ?case
  proof (cases "fl z k t")
    case Nil
    have "k \<le> j \<Longrightarrow> j \<noteq> k \<Longrightarrow> Suc k \<le> j" for j by simp
    with Suc.IH [of "Suc k"] Suc.prems Nil show ?thesis
      by (auto split: prod.splits option.splits) (metis Suc_leI le_neq_implies_less)
  next
    case (Cons p rest)
    have "k < MAX_ORDER" using Suc.prems by simp
    from take_and_expand [OF assms(1,2) this Suc.prems(2) Cons refl] Cons show ?thesis by (simp add: Let_def)
  qed
qed

lemma rmqueue_smallest_ok:
  assumes "zone_ok z" "\<forall>q k. \<not> set_page_guard env q k" "order < MAX_ORDER"
  shows "rmqueue_smallest env order t z = (None, z') \<Longrightarrow>
           z' = z \<and> (\<forall>j. order \<le> j \<and> j < MAX_ORDER \<longrightarrow> fl z j t = [])"
    and "rmqueue_smallest env order t z = (Some p, z') \<Longrightarrow> takes order t z p z'"
  using smallest_from_ok [OF assms(1,2), of order "MAX_ORDER - order" order t] assms(3)
  by (simp_all add: rmqueue_smallest_def)

section \<open>The fallback keeps the zone and serves the type\<close>

lemma list_move_page_ok:
  assumes ok: "zone_ok z" and k: "k < MAX_ORDER" and p: "p \<in> set (fl z k u)"
  shows "zone_ok (list_move_page p k t z)" "free_mset (list_move_page p k t z) = free_mset z"
    "p \<in> set (fl (list_move_page p k t z) k t)"
proof -
  define z1 where "z1 = set_fl k u (remove1 p (fl z k u)) (- 1) z"
  note take = take_block_ok [OF ok k p, folded z1_def]
  have other: "remove1 p (fl z k w) = fl z k w" if "w \<noteq> u" for w
    using take(4) [OF k, of w] that by (simp add: z1_def fl_set_fl remove1_idem)
  have o: "(page_order z)(p := Some k) = page_order z" using zone_okD(2) [OF ok k p] by auto
  have "(\<lambda>w. remove1 p (free_list (free_area z k) w)) = (free_list (free_area z k))(u := remove1 p (fl z k u))"
    using other by (auto simp: fun_eq_iff fl_def)
  then have e: "list_move_page p k t z = set_page_order p k (set_fl k t (p # fl z1 k t) 1 z1)"
    using other [of t] by (cases "t = u") (simp_all add: list_move_page_def set_page_order_def set_fl_def z1_def fl_def Let_def o)
  have "count (free_mset z1) x + count (block p k) x \<le> 1" for x
    using zone_okD(3) [OF ok, of x] unfolding take(2) by simp
  note put = put_block_ok [OF take(1) k take(3) this e]
  show "zone_ok (list_move_page p k t z)" "free_mset (list_move_page p k t z) = free_mset z"
    using put take(2) by simp_all
  show "p \<in> set (fl (list_move_page p k t z) k t)" by (simp add: list_move_page_def fl_def Let_def)
qed

text \<open>What the mover of a pageblock documents: it moves the free blocks of the page's block to the list
  of the type and gives their pages, or gives 0 and does nothing.\<close>

definition mover_ok :: "buddy_env \<Rightarrow> bool" where
  "mover_ok env \<longleftrightarrow>
     (\<forall>z p k u t. zone_ok z \<and> k < MAX_ORDER \<and> p \<in> set (fl z k u) \<longrightarrow>
       (case move_freepages_block env z p t of (free, movable, z') \<Rightarrow>
          if free = 0 then z' = z
          else zone_ok z' \<and> free_mset z' = free_mset z \<and> p \<in> set (fl z' k t)))"

definition serves :: "nat \<Rightarrow> migratetype \<Rightarrow> zone \<Rightarrow> zone \<Rightarrow> bool" where
  "serves order t z z' \<longleftrightarrow>
     zone_ok z' \<and> free_mset z' = free_mset z \<and> (\<exists>k\<ge>order. k < MAX_ORDER \<and> fl z' k t \<noteq> [])"

lemma servesI:
  "zone_ok z' \<Longrightarrow> free_mset z' = free_mset z \<Longrightarrow> order \<le> k \<Longrightarrow> k < MAX_ORDER \<Longrightarrow> p \<in> set (fl z' k t) \<Longrightarrow> serves order t z z'"
  by (auto simp: serves_def)

lemma serves_pageblock: "serves order t z (z'\<lparr>pageblock_migratetype := m\<rparr>) = serves order t z z'"
  using zone_ok_cong [of "z'\<lparr>pageblock_migratetype := m\<rparr>" z'] by (simp add: serves_def)

lemma steal_serves:
  assumes ok: "zone_ok z" and k: "order \<le> k" "k < MAX_ORDER" and p: "p \<in> set (fl z k f)" and mover: "mover_ok env"
  shows "serves order t z (steal_suitable_fallback env p t whole z)"
proof -
  have single: "serves order t z (list_move_page p k t z)"
    using list_move_page_ok [OF ok k(2) p] by (intro servesI [OF _ _ k])
  have change: "serves order t z (list_move_page p k t (z\<lparr>pageblock_migratetype := m\<rparr>))" for m
  proof -
    have "list_move_page p k t (z\<lparr>pageblock_migratetype := m\<rparr>) = (list_move_page p k t z)\<lparr>pageblock_migratetype := m\<rparr>"
      by (simp add: list_move_page_def Let_def)
    with single show ?thesis by (simp add: serves_pageblock)
  qed
  obtain free movable z' where mv: "move_freepages_block env z p t = (free, movable, z')" by (metis prod_cases3)
  have "if free = 0 then z' = z else zone_ok z' \<and> free_mset z' = free_mset z \<and> p \<in> set (fl z' k t)"
    using mover [unfolded mover_ok_def, THEN spec [of _ z], THEN spec [of _ p], THEN spec [of _ k],
        THEN spec [of _ f], THEN spec [of _ t]] ok k(2) p mv
    by simp
  then have "free \<noteq> 0 \<Longrightarrow> serves order t z z'" "free = 0 \<Longrightarrow> z' = z"
    by (auto intro: servesI [OF _ _ k])
  then show ?thesis
    using single change zone_okD(2) [OF ok k(2) p] mv
    by (simp add: steal_suitable_fallback_def Let_def serves_pageblock)
qed

lemma suitable_in_Some:
  "suitable_in env a k t False steal fs = (Some f, s) \<Longrightarrow> f \<in> set fs \<and> free_list a f \<noteq> []"
  by (induction fs arbitrary: steal) (auto simp: Let_def split: if_splits)

lemma suitable_in_None:
  "suitable_in env a k t False steal fs = (None, s) \<Longrightarrow> f \<in> set fs \<Longrightarrow> free_list a f = []"
  by (induction fs arbitrary: steal) (auto simp: Let_def split: if_splits)

lemma find_suitable_cases:
  assumes ok: "zone_ok z" and k: "k < MAX_ORDER" and t: "t \<noteq> HIGHATOMIC"
  obtains s where "find_suitable_fallback env (free_area z k) k t False s0 = Some (None, s)"
      "\<And>f. f \<in> set (fallbacks t) \<Longrightarrow> fl z k f = []"
    | f s where "find_suitable_fallback env (free_area z k) k t False s0 = Some (Some f, s)"
      "f \<in> set (fallbacks t)" "fl z k f \<noteq> []"
proof -
  show thesis
  proof (cases "nr_free (free_area z k) = 0")
    case True
    then have "(\<Sum>t\<in>UNIV. int (length (fl z k t))) = 0" using zone_okD(1) [OF ok k] by simp
    then have "fl z k f = []" for f by (simp add: sum_nonneg_eq_0_iff)
    with that(1) True show thesis by (simp add: find_suitable_fallback_def)
  next
    case False
    obtain r s where rs: "suitable_in env (free_area z k) k t False False (fallbacks t) = (r, s)" by fastforce
    then have e: "find_suitable_fallback env (free_area z k) k t False s0 = Some (r, s)"
      using False t by (simp add: find_suitable_fallback_def)
    show thesis
    proof (cases r)
      case None
      with that(1) e rs suitable_in_None [of env _ k t False "fallbacks t" s] show thesis by (auto simp: fl_def)
    next
      case (Some f)
      with that(2) e rs suitable_in_Some [of env _ k t False "fallbacks t" f s] show thesis by (auto simp: fl_def)
    qed
  qed
qed

lemma largest_fallback_cases:
  assumes ok: "zone_ok z" and t: "t \<noteq> HIGHATOMIC"
  shows "k < MAX_ORDER \<Longrightarrow>
    (largest_fallback env k order t z = Some None
      \<and> (\<forall>j f. order \<le> j \<and> j \<le> k \<and> f \<in> set (fallbacks t) \<longrightarrow> fl z j f = []))
    \<or> (\<exists>j f s. largest_fallback env k order t z = Some (Some (j, f, s))
         \<and> order \<le> j \<and> j \<le> k \<and> f \<in> set (fallbacks t) \<and> fl z j f \<noteq> [])"
proof (induction k)
  case 0
  show ?case
    by (rule find_suitable_cases [OF ok 0 t, of env False]) (auto simp: largest_fallback.simps [of env 0])
next
  case (Suc k)
  show ?case
  proof (cases "Suc k < order")
    case True
    then show ?thesis by (auto simp: largest_fallback.simps [of env "Suc k"])
  next
    case False
    show ?thesis
    proof (rule find_suitable_cases [OF ok Suc.prems t, of env False])
      fix s assume n: "find_suitable_fallback env (free_area z (Suc k)) (Suc k) t False False = Some (None, s)"
        and e: "\<And>f. f \<in> set (fallbacks t) \<Longrightarrow> fl z (Suc k) f = []"
      have "largest_fallback env (Suc k) order t z = largest_fallback env k order t z" using False n by (simp add: largest_fallback.simps [of env "Suc k"])
      with Suc.IH [OF Suc_lessD [OF Suc.prems]] e show ?thesis by (metis le_Suc_eq)
    next
      fix f s assume "find_suitable_fallback env (free_area z (Suc k)) (Suc k) t False False = Some (Some f, s)"
        "f \<in> set (fallbacks t)" "fl z (Suc k) f \<noteq> []"
      then show ?thesis using False by (auto simp: largest_fallback.simps [of env "Suc k"])
    qed
  qed
qed

lemma smallest_fallback_finds:
  assumes ok: "zone_ok z" and t: "t \<noteq> HIGHATOMIC" and f: "f \<in> set (fallbacks t)" "fl z j f \<noteq> []"
  shows "k \<le> j \<Longrightarrow> j < k + n \<Longrightarrow> k + n \<le> MAX_ORDER \<Longrightarrow>
    \<exists>i g s. smallest_fallback env n k t z = Some (i, g, s) \<and> k \<le> i \<and> i \<le> j \<and> fl z i g \<noteq> []"
proof (induction n arbitrary: k)
  case 0
  then show ?case by simp
next
  case (Suc n)
  have k: "k < MAX_ORDER" using Suc.prems by simp
  show ?case
  proof (rule find_suitable_cases [OF ok k t, of env False])
    fix s assume n: "find_suitable_fallback env (free_area z k) k t False False = Some (None, s)"
      and e: "\<And>f. f \<in> set (fallbacks t) \<Longrightarrow> fl z k f = []"
    have "k \<noteq> j" using e [OF f(1)] f(2) by auto
    then have "Suc k \<le> j" using Suc.prems by simp
    from Suc.IH [OF this] Suc.prems obtain i g s' where
      "smallest_fallback env n (Suc k) t z = Some (i, g, s')" "Suc k \<le> i" "i \<le> j" "fl z i g \<noteq> []" by auto
    with n show ?thesis by auto
  next
    fix g s assume "find_suitable_fallback env (free_area z k) k t False False = Some (Some g, s)" "fl z k g \<noteq> []"
    with Suc.prems show ?thesis by auto
  qed
qed

lemma rmqueue_fallback_ok:
  assumes ok: "zone_ok z" and t: "t \<noteq> HIGHATOMIC" and order: "order < MAX_ORDER" and mover: "mover_ok env"
  obtains "rmqueue_fallback env order t z = Some (False, z)"
      "\<And>j f. order \<le> j \<Longrightarrow> j < MAX_ORDER \<Longrightarrow> f \<in> set (fallbacks t) \<Longrightarrow> fl z j f = []"
    | z' where "rmqueue_fallback env order t z = Some (True, z')" "serves order t z z'"
proof -
  note largest = largest_fallback_cases [OF ok t, of "MAX_ORDER - 1" env order, simplified]
  consider "largest_fallback env 10 order t z = Some None"
      "\<forall>j f. order \<le> j \<and> j \<le> 10 \<and> f \<in> set (fallbacks t) \<longrightarrow> fl z j f = []"
    | j f s where "largest_fallback env 10 order t z = Some (Some (j, f, s))"
        "order \<le> j" "j \<le> 10" "f \<in> set (fallbacks t)" "fl z j f \<noteq> []"
    using largest by blast
  then show thesis
  proof cases
    case 1
    then show thesis by (intro that(1)) (simp_all add: rmqueue_fallback_def)
  next
    case (2 j f s)
    define choice where "choice =
      (if \<not> s \<and> t = MOVABLE \<and> j > order then smallest_fallback env (MAX_ORDER - order) order t z else Some (j, f, s))"
    have "\<exists>i g s'. choice = Some (i, g, s') \<and> order \<le> i \<and> i < MAX_ORDER \<and> fl z i g \<noteq> []"
    proof (cases "\<not> s \<and> t = MOVABLE \<and> j > order")
      case True
      then have "choice = smallest_fallback env (MAX_ORDER - order) order t z" unfolding choice_def by (rule if_P)
      moreover obtain i g s' where "smallest_fallback env (MAX_ORDER - order) order t z = Some (i, g, s')"
        "order \<le> i" "i \<le> j" "fl z i g \<noteq> []"
        using smallest_fallback_finds [OF ok t 2(4,5), of order "MAX_ORDER - order" env] 2(2,3) order by auto
      ultimately show ?thesis using 2(3) by auto
    next
      case False
      then have "choice = Some (j, f, s)" unfolding choice_def by (rule if_not_P)
      then show ?thesis using 2(2,3,5) by simp
    qed
    then obtain i g s' where c: "choice = Some (i, g, s')" "order \<le> i" "i < MAX_ORDER" "fl z i g \<noteq> []" by blast
    then obtain p rest where p: "fl z i g = p # rest" by (cases "fl z i g") auto
    then have "serves order t z (steal_suitable_fallback env p t s' z)"
      by (intro steal_serves [OF ok c(2,3) _ mover, of p g]) simp
    moreover have "rmqueue_fallback env order t z = Some (True, steal_suitable_fallback env p t s' z)"
      using 2(1) c(1) p by (simp add: rmqueue_fallback_def choice_def [symmetric])
    ultimately show thesis by (intro that(2))
  qed
qed

section \<open>An allocation\<close>

lemma rmqueue_core_served:
  assumes s: "serves order t z0 z" and guards: "\<forall>q k. \<not> set_page_guard env q k" and order: "order < MAX_ORDER"
  shows "\<exists>p z'. rmqueue_core env order t z = Some (Some p, z') \<and> takes order t z p z'"
proof -
  obtain r z' where e: "rmqueue_smallest env order t z = (r, z')" by fastforce
  have ok: "zone_ok z" using s by (simp add: serves_def)
  show ?thesis
  proof (cases r)
    case None
    with e rmqueue_smallest_ok(1) [OF ok guards order, of t z'] s show ?thesis by (auto simp: serves_def)
  next
    case (Some p)
    with e rmqueue_smallest_ok(2) [OF ok guards order, of t p z'] show ?thesis
      by (subst rmqueue_core.simps) simp
  qed
qed

text \<open>C7: an allocation from a zone returns, whether it finds a block in the list of its type, in the CMA
  list or in the list of another type after a fallback: it takes one aligned block of the order off the
  free pages, which stay disjoint and counted, or leaves the zone as it is when its list and those of its
  fallbacks have no block of the order or more.\<close>

theorem rmqueue_core_allocates:
  assumes ok: "zone_ok z" and guards: "\<forall>q k. \<not> set_page_guard env q k" and mover: "mover_ok env"
    and order: "order < MAX_ORDER" and t: "t \<noteq> HIGHATOMIC"
  shows "case rmqueue_core env order t z of
           None \<Rightarrow> False
         | Some (None, z') \<Rightarrow> z' = z \<and> (\<forall>k u. order \<le> k \<and> k < MAX_ORDER \<and> u \<in> insert t (set (fallbacks t)) \<longrightarrow> fl z k u = [])
         | Some (Some p, z') \<Rightarrow> zone_ok z' \<and> free_mset z = free_mset z' + block p order \<and> 2 ^ order dvd p"
proof -
  let ?cma = "t = MOVABLE \<and> config_cma env"
  obtain r z1 where e1: "rmqueue_smallest env order t z = (r, z1)" by fastforce
  obtain r2 z2 where e2: "rmqueue_smallest env order CMA z = (r2, z2)" by fastforce
  note small = rmqueue_smallest_ok [OF ok guards order]
  consider (found) p where "r = Some p" | (cma) p where "r = None" "?cma" "r2 = Some p"
    | (fallback) "r = None" "?cma \<longrightarrow> r2 = None" by (cases r; cases r2) auto
  then show ?thesis
  proof cases
    case found
    with e1 have "rmqueue_core env order t z = Some (Some p, z1)" by (subst rmqueue_core.simps) simp
    with small(2) e1 found show ?thesis by (auto simp: takes_def)
  next
    case cma
    with e1 small(1) [of t z1] have "z1 = z" by simp
    with e1 e2 cma have "rmqueue_core env order t z = Some (Some p, z2)" by (subst rmqueue_core.simps) simp
    with small(2) e2 cma show ?thesis by (auto simp: takes_def)
  next
    case fallback
    with e1 small(1) [of t z1] have z1: "z1 = z" "\<And>k. order \<le> k \<Longrightarrow> k < MAX_ORDER \<Longrightarrow> fl z k t = []" by auto
    have z2: "?cma \<Longrightarrow> (r2, z2) = (None, z)" using fallback(2) e2 small(1) [of CMA z2] by simp
    have e: "rmqueue_core env order t z = Option.bind (rmqueue_fallback env order t z) (\<lambda>(found, z).
        if found then rmqueue_core env order t z else Some (None, z))"
      using e1 e2 z1(1) z2 fallback(1) by (subst rmqueue_core.simps) auto
    show ?thesis
    proof (rule rmqueue_fallback_ok [OF ok t order mover])
      assume "rmqueue_fallback env order t z = Some (False, z)"
        "\<And>j f. order \<le> j \<Longrightarrow> j < MAX_ORDER \<Longrightarrow> f \<in> set (fallbacks t) \<Longrightarrow> fl z j f = []"
      with z1(2) show ?thesis unfolding e by auto
    next
      fix z' assume "rmqueue_fallback env order t z = Some (True, z')" "serves order t z z'"
      with rmqueue_core_served [OF this(2) guards order] show ?thesis
        unfolding e by (auto simp: takes_def serves_def)
    qed
  qed
qed

section \<open>Filling a per-CPU list\<close>

lemma blocks_append [simp]: "blocks k (ps @ qs) = blocks k ps + blocks k qs"
  by (simp add: blocks_def)

lemma size_blocks: "size (blocks k ps) = length ps * 2 ^ k"
  by (induction ps) (simp_all add: block_def)

lemma add_stat_simps [simp]:
  "zone_ok (add_stat c z) = zone_ok z" "free_mset (add_stat c z) = free_mset z" "stat_calls (add_stat c z) = stat_calls z @ [c]"
  using zone_ok_cong [of "add_stat c z" z] by (simp_all add: add_stat_def)

lemma bulk_loop_ok:
  assumes guards: "\<forall>q k. \<not> set_page_guard env q k" and mover: "mover_ok env" and order: "order < MAX_ORDER" and t: "t \<noteq> HIGHATOMIC"
  shows "zone_ok z \<Longrightarrow>
    \<exists>new lost z'. bulk_loop env order n t ps i alloced z = Some (i + length (new @ lost), alloced + length new, ps @ new, z')
      \<and> zone_ok z' \<and> free_mset z = free_mset z' + blocks order (new @ lost) \<and> length (new @ lost) \<le> n
      \<and> list_all (\<lambda>p. \<not> check_pcp_refill env p \<and> 2 ^ order dvd p) new \<and> list_all (check_pcp_refill env) lost"
proof (induction n arbitrary: ps i alloced z)
  case 0
  then show ?case by (intro exI [of _ "[]"] exI [of _ z]) simp
next
  case (Suc n)
  note alloc = rmqueue_core_allocates [OF Suc.prems guards mover order t]
  show ?case
  proof (cases "rmqueue_core env order t z")
    case None
    with alloc show ?thesis by simp
  next
    case (Some r)
    obtain page z1 where r: "r = (page, z1)" by fastforce
    show ?thesis
    proof (cases page)
      case None
      with alloc Some r have "z1 = z" by simp
      with None Some r Suc.prems show ?thesis by (intro exI [of _ "[]"] exI [of _ z]) simp
    next
      case (Some p)
      with alloc \<open>rmqueue_core env order t z = Some r\<close> r
      have z1: "rmqueue_core env order t z = Some (Some p, z1)" "zone_ok z1" "free_mset z = free_mset z1 + block p order"
        "2 ^ order dvd p" by auto
      show ?thesis
      proof (cases "check_pcp_refill env p")
        case True
        from Suc.IH [OF z1(2), of ps "Suc i" alloced] obtain new lost z' where
          ih: "bulk_loop env order n t ps (Suc i) alloced z1 = Some (Suc i + length (new @ lost), alloced + length new, ps @ new, z')"
            "zone_ok z'" "free_mset z1 = free_mset z' + blocks order (new @ lost)" "length (new @ lost) \<le> n"
            "list_all (\<lambda>p. \<not> check_pcp_refill env p \<and> 2 ^ order dvd p) new" "list_all (check_pcp_refill env) lost" by blast
        then show ?thesis using z1 True
          by (intro exI [of _ new] exI [of _ "p # lost"] exI [of _ z']) (simp add: ac_simps)
      next
        case False
        define z2 where "z2 = (if pcppage_migratetype z1 p = CMA then add_stat (ModFreeCma (- (2 ^ order))) z1 else z1)"
        have z2: "zone_ok z2" "free_mset z2 = free_mset z1" using z1(2) by (simp_all add: z2_def)
        from Suc.IH [OF z2(1), of "ps @ [p]" "Suc i" "Suc alloced"] obtain new lost z' where
          ih: "bulk_loop env order n t (ps @ [p]) (Suc i) (Suc alloced) z2
                 = Some (Suc i + length (new @ lost), Suc alloced + length new, (ps @ [p]) @ new, z')"
            "zone_ok z'" "free_mset z2 = free_mset z' + blocks order (new @ lost)" "length (new @ lost) \<le> n"
            "list_all (\<lambda>p. \<not> check_pcp_refill env p \<and> 2 ^ order dvd p) new" "list_all (check_pcp_refill env) lost" by blast
        then show ?thesis using z1 z2 False
          by (intro exI [of _ "p # new"] exI [of _ lost] exI [of _ z']) (simp add: z2_def [symmetric] ac_simps)
      qed
    qed
  qed
qed

text \<open>A refill takes at most the asked number of blocks off the free pages, puts those that pass their
  check on the list and loses the others, and takes all of them off the counter of free pages.\<close>

theorem rmqueue_bulk_accounts:
  assumes "zone_ok z" "\<forall>q k. \<not> set_page_guard env q k" "mover_ok env" "order < MAX_ORDER" "t \<noteq> HIGHATOMIC"
  shows "\<exists>new lost z'. rmqueue_bulk env order n ps t z = Some (length new, ps @ new, z')
    \<and> zone_ok z' \<and> free_mset z = free_mset z' + blocks order (new @ lost) \<and> length (new @ lost) \<le> n
    \<and> list_all (\<lambda>p. \<not> check_pcp_refill env p \<and> 2 ^ order dvd p) new \<and> list_all (check_pcp_refill env) lost
    \<and> last (stat_calls z') = ModFreePages (int (size (free_mset z')) - int (size (free_mset z)))"
proof -
  from bulk_loop_ok [OF assms(2-5,1), of n ps 0 0] obtain new lost z' where
    "bulk_loop env order n t ps 0 0 z = Some (length (new @ lost), length new, ps @ new, z')"
    "zone_ok z'" "free_mset z = free_mset z' + blocks order (new @ lost)" "length (new @ lost) \<le> n"
    "list_all (\<lambda>p. \<not> check_pcp_refill env p \<and> 2 ^ order dvd p) new" "list_all (check_pcp_refill env) lost" by auto
  then show ?thesis
    by (intro exI [of _ new] exI [of _ lost] exI [of _ "add_stat (ModFreePages (- (int (length (new @ lost)) * 2 ^ order))) z'"])
      (simp add: rmqueue_bulk_def size_blocks algebra_simps)
qed

section \<open>A zone with one block of four pages\<close>

definition empty_zone :: zone where
  "empty_zone = \<lparr>free_area = (\<lambda>_. \<lparr>free_list = (\<lambda>_. []), nr_free = 0\<rparr>), page_order = (\<lambda>_. None),
     pcppage_migratetype = (\<lambda>_. MOVABLE), pageblock_migratetype = (\<lambda>_. MOVABLE),
     pcp = \<lparr>pcp_count = 0, pcp_lists = (\<lambda>_. [])\<rparr>, stat_calls = []\<rparr>"

definition demo_zone :: zone where
  "demo_zone = set_page_order 4 2 (set_fl 2 MOVABLE (4 # fl empty_zone 2 MOVABLE) 1 empty_zone)"

text \<open>A mover that moves the one block it is asked about.\<close>

definition demo_buddy_env :: buddy_env where
  "demo_buddy_env = \<lparr>set_page_guard = (\<lambda>_ _. False), check_new_pages = (\<lambda>_ _. False), check_pcp_refill = (\<lambda>p. p = 4),
     check_new_pcp = (\<lambda>_. False),
     move_freepages_block = (\<lambda>z p t. case page_order z p of None \<Rightarrow> (0, 0, z) | Some k \<Rightarrow> (2 ^ k, 0, list_move_page p k t z)),
     change_pageblock_range = (\<lambda>_ _ t m. m), set_pageblock_migratetype = (\<lambda>p t m. m(p := t)), pageblock_order = 9,
     page_group_by_mobility_disabled = False, config_cma = False\<rparr>"

lemma demo_zone_ok: "zone_ok demo_zone" "free_mset demo_zone = block 4 2" "fl demo_zone 2 MOVABLE = [4]"
proof -
  have fl: "fl empty_zone k t = []" for k t by (simp add: fl_def empty_zone_def)
  then have free: "free_mset empty_zone = {#}" by (simp add: free_mset_def split: prod.splits)
  have "zone_ok empty_zone" unfolding zone_ok_def by (simp add: fl free) (simp add: empty_zone_def)
  from put_block_ok [OF this _ _ _ demo_zone_def] show "zone_ok demo_zone" "free_mset demo_zone = block 4 2"
    by (simp_all add: free count_block)
  show "fl demo_zone 2 MOVABLE = [4]" by (simp add: demo_zone_def fl_def set_page_order_def set_fl_def empty_zone_def)
qed

lemma demo_buddy_env_ok: "mover_ok demo_buddy_env" "\<not> set_page_guard demo_buddy_env q k"
proof -
  show "mover_ok demo_buddy_env"
    unfolding mover_ok_def
  proof (intro allI impI)
    fix z p k u t assume a: "zone_ok z \<and> k < MAX_ORDER \<and> p \<in> set (fl z k u)"
    then have "page_order z p = Some k" using zone_okD(2) by blast
    with list_move_page_ok [of z k p u t] a show "case move_freepages_block demo_buddy_env z p t of (free, movable, z') \<Rightarrow>
        if free = 0 then z' = z else zone_ok z' \<and> free_mset z' = free_mset z \<and> p \<in> set (fl z' k t)"
      by (simp add: demo_buddy_env_def)
  qed
qed (simp add: demo_buddy_env_def)

text \<open>An unmovable page comes out of the movable block.\<close>

theorem rmqueue_core_allocates_witness:
  "\<exists>p z'. rmqueue_core demo_buddy_env 0 UNMOVABLE demo_zone = Some (Some p, z') \<and> zone_ok z' \<and> size (free_mset z') = 3"
proof -
  note alloc = rmqueue_core_allocates [of demo_zone demo_buddy_env 0 UNMOVABLE, OF demo_zone_ok(1) _ demo_buddy_env_ok(1)]
  show ?thesis
  proof (cases "rmqueue_core demo_buddy_env 0 UNMOVABLE demo_zone")
    case None
    with alloc demo_buddy_env_ok(2) show ?thesis by simp
  next
    case (Some r)
    obtain page z' where r: "r = (page, z')" by fastforce
    show ?thesis
    proof (cases page)
      case None
      with alloc Some r demo_buddy_env_ok(2) have "fl demo_zone 2 MOVABLE = []" by simp
      then show ?thesis using demo_zone_ok(3) by simp
    next
      case (Some p)
      with alloc \<open>rmqueue_core _ _ _ _ = Some r\<close> r demo_buddy_env_ok(2)
      have "zone_ok z'" "block 4 2 = free_mset z' + block p 0" by (simp_all add: demo_zone_ok(2))
      moreover from arg_cong [OF this(2), of size] have "size (free_mset z') = 3" by (simp add: block_def)
      ultimately show ?thesis using Some \<open>rmqueue_core _ _ _ _ = Some r\<close> r by blast
    qed
  qed
qed

text \<open>A refill asks for three single pages.\<close>

theorem rmqueue_bulk_accounts_witness:
  "\<exists>new z'. rmqueue_bulk demo_buddy_env 0 3 [] MOVABLE demo_zone = Some (length new, new, z')
    \<and> zone_ok z' \<and> last (stat_calls z') = ModFreePages (int (size (free_mset z')) - 4)"
  using rmqueue_bulk_accounts [of demo_zone demo_buddy_env 0 MOVABLE 3 "[]", OF demo_zone_ok(1) _ demo_buddy_env_ok(1)]
    demo_buddy_env_ok(2) by (auto simp: demo_zone_ok(2) block_def)

end
