(* ===== verification/LinuxBootmem.thy ===== *)
theory LinuxBootmem
  imports RTFSC_Prelude "HOL-Library.Word"
begin

text \<open>
  The hand-over of boot memory to the buddy allocator (\<^verbatim>\<open>linux/mm/buddy/\<close>, the file of \<^verbatim>\<open>free_all_bootmem\<close>):
  the walk over the bitmap of the reserved pages of a node, a word of 64 bits at a time.
  A page is its frame number; the blocks given to \<^verbatim>\<open>__free_pages\<close> are kept in order.  A bitmap word
  outside the bitmap is read as the code reads it: the model gives it as a function of the index.
\<close>

unbundle bit_operations_syntax

section \<open>Freeing one block\<close>

record boot_pages =
  page_reserved :: "nat \<Rightarrow> bool"
  page_refcount :: "nat \<Rightarrow> int"
  managed_pages :: "nat \<Rightarrow> nat"  \<comment> \<open>by zone\<close>
  freed :: "(nat \<times> nat) list"  \<comment> \<open>the calls of \<^verbatim>\<open>__free_pages\<close>: page and order\<close>
  totalram_pages :: nat

text \<open>What the code calls and the repository does not hold.\<close>

record bootmem_env =
  early_page_uninitialised :: "nat \<Rightarrow> bool"
  page_zone :: "nat \<Rightarrow> nat"
  bootmem_bootmap_pages :: "nat \<Rightarrow> nat"

fun clear_pages :: "nat \<Rightarrow> nat \<Rightarrow> boot_pages \<Rightarrow> boot_pages" where
  "clear_pages p 0 s = s"
| "clear_pages p (Suc n) s =
     clear_pages (Suc p) n (s\<lparr>page_reserved := (page_reserved s)(p := False), page_refcount := (page_refcount s)(p := 0)\<rparr>)"

definition free_pages_boot_core :: "bootmem_env \<Rightarrow> nat \<Rightarrow> nat \<Rightarrow> boot_pages \<Rightarrow> boot_pages" where
  "free_pages_boot_core env page order s =
     (let nr_pages = 2 ^ order; z = page_zone env page; s = clear_pages page nr_pages s
      in s\<lparr>managed_pages := (managed_pages s)(z := managed_pages s z + nr_pages),
           page_refcount := (page_refcount s)(page := 1), freed := freed s @ [(page, order)]\<rparr>)"

definition free_pages_bootmem :: "bootmem_env \<Rightarrow> nat \<Rightarrow> nat \<Rightarrow> nat \<Rightarrow> boot_pages \<Rightarrow> boot_pages" where
  "free_pages_bootmem env page pfn order s =
     (if early_page_uninitialised env pfn then s else free_pages_boot_core env page order s)"

section \<open>The walk over a node\<close>

record bootmem_data =
  node_bootmem_map :: "(nat \<Rightarrow> 64 word) option"
  map_page :: nat  \<comment> \<open>the frame of the bitmap itself\<close>
  node_min_pfn :: nat
  node_low_pfn :: nat

definition align_up :: "nat \<Rightarrow> nat \<Rightarrow> nat" where
  "align_up x a = (x + a - 1) div a * a"

text \<open>The bits of the map from the page \<open>start\<close> on, set where a page is free.\<close>

definition free_vec :: "(nat \<Rightarrow> 64 word) \<Rightarrow> nat \<Rightarrow> nat \<Rightarrow> nat \<Rightarrow> 64 word" where
  "free_vec mp mn start en =
     (let idx = start - mn; shift = idx mod 64; vec = NOT (mp (idx div 64))
      in if shift \<noteq> 0
         then
           let vec = drop_bit shift vec
           in if en - start \<ge> 64 then vec OR push_bit (64 - shift) (NOT (mp (idx div 64 + 1))) else vec
         else vec)"

lemma unat_drop_bit_less: "v \<noteq> 0 \<Longrightarrow> unat (drop_bit (Suc 0) v) < unat (v :: 64 word)"
  by (simp add: drop_bit_Suc unat_div unat_gt_0)

function free_bits :: "bootmem_env \<Rightarrow> 64 word \<Rightarrow> nat \<Rightarrow> nat \<Rightarrow> nat \<Rightarrow> boot_pages \<Rightarrow> nat \<times> boot_pages" where
  "free_bits env vec cur stop n s =
     (if vec \<noteq> 0 \<and> cur \<noteq> stop
      then
        if vec AND 1 \<noteq> 0 then free_bits env (drop_bit 1 vec) (cur + 1) stop (n + 1) (free_pages_bootmem env cur cur 0 s)
        else free_bits env (drop_bit 1 vec) (cur + 1) stop n s
      else (n, s))"
  by pat_completeness auto
termination
  by (relation "measure (\<lambda>(env, vec, cur, stop, n, s). unat vec)") (simp_all add: unat_drop_bit_less)

declare free_bits.simps [simp del]

function free_map :: "bootmem_env \<Rightarrow> (nat \<Rightarrow> 64 word) \<Rightarrow> nat \<Rightarrow> nat \<Rightarrow> nat \<Rightarrow> nat \<Rightarrow> boot_pages \<Rightarrow> nat \<times> boot_pages" where
  "free_map env mp mn start en n s =
     (if start < en
      then
        let vec = free_vec mp mn start en in
        if start mod 64 = 0 \<and> vec = - 1
        then free_map env mp mn (start + 64) en (n + 64) (free_pages_bootmem env start start 6 s)
        else case free_bits env vec start (align_up (start + 1) 64) n s of
          (n, s) \<Rightarrow> free_map env mp mn (align_up (start + 1) 64) en n s
      else (n, s))"
  by pat_completeness auto

lemma align_up_Suc: "align_up (Suc x) 64 = (x div 64 + 1) * 64"
proof -
  have "(64 + x) div 64 = x div 64 + 1" by simp
  then show ?thesis by (simp only: align_up_def) simp
qed

lemma align_up_Suc_greater: "x < align_up (Suc x) 64"
  unfolding align_up_Suc by (metis add.commute dividend_less_times_div mult.commute mult_Suc_right plus_1_eq_Suc zero_less_numeral)

termination free_map
  using align_up_Suc_greater
  by (relation "measure (\<lambda>(env, mp, mn, start, en, n, s). en - start)") (auto simp: diff_less_mono2)

declare free_map.simps [simp del]

text \<open>The pages of the bitmap go last.\<close>

fun free_map_pages :: "bootmem_env \<Rightarrow> nat \<Rightarrow> nat \<Rightarrow> nat \<Rightarrow> boot_pages \<Rightarrow> boot_pages" where
  "free_map_pages env page cur 0 s = s"
| "free_map_pages env page cur (Suc pages) s =
     free_map_pages env (Suc page) (Suc cur) pages (free_pages_bootmem env page cur 0 s)"

definition free_all_bootmem_core :: "bootmem_env \<Rightarrow> bootmem_data \<Rightarrow> boot_pages \<Rightarrow> nat \<times> bootmem_data \<times> boot_pages" where
  "free_all_bootmem_core env b s =
     (case node_bootmem_map b of
        None \<Rightarrow> (0, b, s)
      | Some mp \<Rightarrow>
          let (count, s) = free_map env mp (node_min_pfn b) (node_min_pfn b) (node_low_pfn b) 0 s;
              pages = bootmem_bootmap_pages env (node_low_pfn b - node_min_pfn b);
              s = free_map_pages env (map_page b) (node_min_pfn b) pages s
          in (count + pages, b\<lparr>node_bootmem_map := None\<rparr>, s))"

fun free_all_nodes :: "bootmem_env \<Rightarrow> bootmem_data list \<Rightarrow> nat \<Rightarrow> boot_pages \<Rightarrow> nat \<times> bootmem_data list \<times> boot_pages" where
  "free_all_nodes env [] sum_pages s = (sum_pages, [], s)"
| "free_all_nodes env (b # bs) sum_pages s =
     (let (n, b, s) = free_all_bootmem_core env b s; (sum_pages, bs, s) = free_all_nodes env bs (sum_pages + n) s
      in (sum_pages, b # bs, s))"

definition free_all_bootmem :: "bootmem_env \<Rightarrow> bootmem_data list \<Rightarrow> boot_pages \<Rightarrow> nat \<times> bootmem_data list \<times> boot_pages" where
  "free_all_bootmem env bs s =
     (let (sum_pages, bs, s) = free_all_nodes env bs 0 (s\<lparr>managed_pages := (\<lambda>_. 0)\<rparr>)
      in (sum_pages, bs, s\<lparr>totalram_pages := totalram_pages s + sum_pages\<rparr>))"

section \<open>What is freed\<close>

definition freed_pages :: "boot_pages \<Rightarrow> nat list" where
  "freed_pages s = concat (map (\<lambda>(p, k). [p..<p + 2 ^ k]) (freed s))"

definition unreserved :: "(nat \<Rightarrow> 64 word) \<Rightarrow> nat \<Rightarrow> nat \<Rightarrow> bool" where
  "unreserved mp mn p \<longleftrightarrow> \<not> bit (mp ((p - mn) div 64)) ((p - mn) mod 64)"

lemma freed_clear_pages [simp]: "freed (clear_pages p n s) = freed s"
  by (induction p n s rule: clear_pages.induct) simp_all

lemma freed_pages_bootmem [simp]:
  "\<not> early_page_uninitialised env pfn \<Longrightarrow> freed_pages (free_pages_bootmem env p pfn k s) = freed_pages s @ [p..<p + 2 ^ k]"
  by (simp add: freed_pages_def free_pages_bootmem_def free_pages_boot_core_def Let_def)

lemma filter_vec_step:
  assumes "cur < stop"
  shows "filter (\<lambda>p. bit vec (p - cur)) [cur..<stop]
    = (if odd vec then [cur] else []) @ filter (\<lambda>p. bit (drop_bit 1 vec) (p - (cur + 1))) [cur + 1..<stop]"
proof -
  have "filter (\<lambda>p. bit vec (p - cur)) [cur + 1..<stop] = filter (\<lambda>p. bit (drop_bit 1 vec) (p - (cur + 1))) [cur + 1..<stop]"
    by (rule filter_cong) (auto simp: bit_drop_bit_eq Suc_diff_Suc)
  then show ?thesis using assms by (simp add: upt_conv_Cons bit_0)
qed

lemma free_bits_pages:
  "\<forall>p. \<not> early_page_uninitialised env p \<Longrightarrow> cur \<le> stop \<Longrightarrow> free_bits env vec cur stop n s = (n', s') \<Longrightarrow>
    freed_pages s' = freed_pages s @ filter (\<lambda>p. bit vec (p - cur)) [cur..<stop]
    \<and> n' + length (freed_pages s) = n + length (freed_pages s')"
proof (induction env vec cur stop n s rule: free_bits.induct)
  case (1 env vec cur stop n s)
  show ?case
  proof (cases "vec \<noteq> 0 \<and> cur \<noteq> stop")
    case False
    with "1.prems" show ?thesis by (auto simp: free_bits.simps [of env vec cur])
  next
    case True
    then have "cur < stop" using "1.prems"(2) by simp
    note f = filter_vec_step [OF this, of vec]
    show ?thesis
      using "1.IH" "1.prems" True \<open>cur < stop\<close>
      by (cases "odd vec") (simp_all add: free_bits.simps [of env vec cur] f and_one_eq odd_iff_mod_2_eq_one)
  qed
qed

lemma word_position:
  "j < 64 \<Longrightarrow> ((i::nat) + j) div 64 = (if i mod 64 + j < 64 then i div 64 else i div 64 + 1)
    \<and> (i + j) mod 64 = (if i mod 64 + j < 64 then i mod 64 + j else i mod 64 + j - 64)"
proof -
  assume j: "j < 64"
  define r where "r = i mod 64"
  have "i = 64 * (i div 64) + r" "r < 64" by (simp_all add: r_def)
  moreover have "(r + j) div 64 = (if r + j < 64 then 0 else 1)" "(r + j) mod 64 = (if r + j < 64 then r + j else r + j - 64)"
    using j \<open>r < 64\<close> by (simp_all add: le_div_geq le_mod_geq)
  moreover have "(64 * (i div 64) + r + j) div 64 = i div 64 + (r + j) div 64" "(64 * (i div 64) + r + j) mod 64 = (r + j) mod 64"
    by (simp_all add: add.assoc)
  ultimately show ?thesis by (simp add: r_def)
qed

text \<open>The vector has the bits of the free pages, as far as the words it reads go.\<close>

lemma bit_free_vec:
  assumes "mn \<le> start" "j < 64"
  shows "bit (free_vec mp mn start en) j \<longleftrightarrow>
    unreserved mp mn (start + j) \<and> ((start - mn) mod 64 + j < 64 \<or> 64 \<le> en - start)"
proof -
  let ?i = "start - mn"
  have "start + j - mn = ?i + j" using assms(1) by simp
  then have q: "(start + j - mn) div 64 = (if ?i mod 64 + j < 64 then ?i div 64 else ?i div 64 + 1)"
    "(start + j - mn) mod 64 = (if ?i mod 64 + j < 64 then ?i mod 64 + j else ?i mod 64 + j - 64)"
    using assms(2) word_position [of j ?i] by simp_all
  show ?thesis
    using assms(2) unfolding unreserved_def q free_vec_def Let_def
    by (auto simp: bit_simps add.commute)
qed

text \<open>A walk that starts at the first page or at a word of frames frees the free pages in order, when the
  bitmap marks everything from the end on as reserved and the last words of frames and of the bitmap lie
  right: the first page is aligned, or the end is not further into its word than the first page.\<close>

definition tail_fits :: "nat \<Rightarrow> nat \<Rightarrow> bool" where
  "tail_fits mn en \<longleftrightarrow> mn mod 64 = 0 \<or> en mod 64 \<le> mn mod 64"

lemma vec_reaches_end:
  assumes "tail_fits mn en" "mn \<le> start" "start = mn \<or> start mod 64 = 0" "start \<le> p" "p < en" "p < (start div 64 + 1) * 64"
  shows "(start - mn) mod 64 + (p - start) < 64 \<or> 64 \<le> en - start"
proof (cases "start = mn")
  case True
  have "(start div 64 + 1) * 64 \<le> start + 64" by simp
  then have "p - start < 64" using assms(4,6) by linarith
  then show ?thesis by (simp add: True)
next
  case False
  then have s: "start mod 64 = 0" "mn < start" using assms(2,3) by auto
  then obtain a where a: "start = 64 * a" by (auto simp: mod_eq_0_iff_dvd)
  have p: "p - start < 64" using assms(4,6) a by simp
  define m where "m = mn mod 64"
  show ?thesis
  proof (cases "m = 0")
    case True
    then have "(start - mn) mod 64 = 0" using s by (simp add: m_def mod_eq_0_iff_dvd)
    then show ?thesis using p by simp
  next
    case False
    then have "en mod 64 \<le> m" using assms(1) by (simp add: tail_fits_def m_def)
    show ?thesis
    proof (cases "64 \<le> en - start")
      case False
      then have "en mod 64 = en - start" using assms(4,5) a 
      proof -
        have "en = (en - start) + 64 * a" using assms(4,5) a by simp
        then have "en mod 64 = (en - start) mod 64" by (metis mod_mult_self2)
        then show ?thesis using False by simp
      qed
      then have "p - start < m" using \<open>en mod 64 \<le> m\<close> assms(4,5) by linarith
      moreover have "(start - mn) mod 64 \<le> 64 - m"
      proof -
        obtain b where b: "mn = 64 * b + m" by (metis m_def mult_div_mod_eq)
        then have "b < a" using s(2) a by linarith
        then obtain c where "a = Suc (b + c)" using less_iff_Suc_add by auto
        moreover have "m < 64" by (simp add: m_def)
        ultimately have "start - mn = 64 * c + (64 - m)" using a b by simp
        then have "(start - mn) mod 64 = (64 - m) mod 64" by (metis mod_mult_self4 mult.commute)
        then show ?thesis by (metis mod_less_eq_dividend)
      qed
      moreover have "m < 64" by (simp add: m_def)
      ultimately show ?thesis by linarith
    qed simp
  qed
qed

lemma upt_split: "i \<le> j \<Longrightarrow> j \<le> k \<Longrightarrow> [i..<k] = [i..<j] @ [j..<k]"
  using upt_add_eq_append [of i j "k - j"] by simp

lemma free_map_pages_exact:
  "\<forall>p. \<not> early_page_uninitialised env p \<Longrightarrow> tail_fits mn en \<Longrightarrow> \<forall>p\<ge>en. \<not> unreserved mp mn p \<Longrightarrow>
   mn \<le> start \<Longrightarrow> start = mn \<or> start mod 64 = 0 \<Longrightarrow> free_map env mp mn start en n s = (n', s') \<Longrightarrow>
   freed_pages s' = freed_pages s @ filter (unreserved mp mn) [start..<en]
   \<and> n' + length (freed_pages s) = n + length (freed_pages s')"
proof (induction env mp mn start en n s rule: free_map.induct)
  case (1 env mp mn start en n s)
  show ?case
  proof (cases "start < en")
    case False
    with "1.prems" show ?thesis by (simp add: free_map.simps [of env mp mn start])
  next
    case True
    let ?vec = "free_vec mp mn start en" and ?next = "align_up (Suc start) 64"
    have next_mod: "?next mod 64 = 0" "mn \<le> ?next" "start \<le> ?next" "?next \<le> start + 64"
      using "1.prems"(4) align_up_Suc_greater [of start] by (simp_all add: align_up_Suc)
    have bits: "bit ?vec (p - start) = unreserved mp mn p" if "start \<le> p" "p < ?next" for p
    proof (cases "p < en")
      case True
      with vec_reaches_end [OF "1.prems"(2,4,5) that(1) True] that next_mod(4) "1.prems"(4) show ?thesis
        by (subst bit_free_vec) (auto simp: align_up_Suc)
    next
      case False
      with "1.prems"(3,4) that next_mod(4) show ?thesis by (subst bit_free_vec) auto
    qed
    have rest: "filter (unreserved mp mn) [start..<en]
        = filter (\<lambda>p. bit ?vec (p - start)) [start..<?next] @ filter (unreserved mp mn) [?next..<en]"
    proof -
      have "filter (\<lambda>p. bit ?vec (p - start)) [start..<?next] = filter (unreserved mp mn) [start..<?next]"
        by (rule filter_cong) (simp_all add: bits)
      moreover have "filter (unreserved mp mn) [start..<en] = filter (unreserved mp mn) [start..<?next] @ filter (unreserved mp mn) [?next..<en]"
      proof (cases "?next \<le> en")
        case True
        have "[start..<en] = [start..<?next] @ [?next..<en]" using next_mod(3) True by (rule upt_split)
        then show ?thesis by simp
      next
        case False
        then have "[start..<?next] = [start..<en] @ [en..<?next]" using True by (intro upt_split) simp_all
        moreover have "filter (unreserved mp mn) [en..<?next] = []" using "1.prems"(3) by (simp add: filter_empty_conv)
        ultimately show ?thesis using False by simp
      qed
      ultimately show ?thesis by simp
    qed
    show ?thesis
    proof (cases "start mod 64 = 0 \<and> ?vec = - 1")
      case True
      then have n: "?next = start + 64" by (auto simp: align_up_Suc)
      have "filter (\<lambda>p. bit ?vec (p - start)) [start..<?next] = [start..<start + 64]"
        unfolding n using True by (auto simp: filter_id_conv)
      moreover have "free_map env mp mn start en n s
          = free_map env mp mn (start + 64) en (n + 64) (free_pages_bootmem env start start 6 s)"
        using True \<open>start < en\<close> by (simp add: free_map.simps [of env mp mn start] Let_def)
      ultimately show ?thesis
        using "1.IH"(1) [OF \<open>start < en\<close> refl True] "1.prems" next_mod unfolding rest n by simp
    next
      case False
      obtain n1 s1 where b: "free_bits env ?vec start ?next n s = (n1, s1)" by fastforce
      then have "free_map env mp mn start en n s = free_map env mp mn ?next en n1 s1"
        using False \<open>start < en\<close> by (auto simp: free_map.simps [of env mp mn start] Let_def)
      with "1.IH"(2) [OF \<open>start < en\<close> refl False] b "1.prems" next_mod
      have "freed_pages s' = freed_pages s1 @ filter (unreserved mp mn) [?next..<en]"
        "n' + length (freed_pages s1) = n1 + length (freed_pages s')" by simp_all
      moreover have "freed_pages s1 = freed_pages s @ filter (\<lambda>p. bit ?vec (p - start)) [start..<?next]"
        "n1 + length (freed_pages s) = n + length (freed_pages s1)"
        using free_bits_pages [OF "1.prems"(1) next_mod(3) b] by blast+
      ultimately have "freed_pages s' = freed_pages s @ filter (unreserved mp mn) [start..<en]"
        "n' + length (freed_pages s) = n + length (freed_pages s')"
        unfolding rest by (metis append.assoc, linarith)
      then show ?thesis by blast
    qed
  qed
qed

lemma free_map_pages_freed:
  "\<forall>p. \<not> early_page_uninitialised env p \<Longrightarrow>
   freed_pages (free_map_pages env page cur n s) = freed_pages s @ [page..<page + n]"
  by (induction env page cur n s rule: free_map_pages.induct) (simp_all add: upt_conv_Cons)


definition demo_bootmem_env :: bootmem_env where
  "demo_bootmem_env = \<lparr>early_page_uninitialised = (\<lambda>_. False), page_zone = (\<lambda>_. 0), bootmem_bootmap_pages = (\<lambda>_. 1)\<rparr>"

definition demo_boot_pages :: boot_pages where
  "demo_boot_pages = \<lparr>page_reserved = (\<lambda>_. True), page_refcount = (\<lambda>_. 0), managed_pages = (\<lambda>_. 0), freed = [], totalram_pages = 0\<rparr>"

text \<open>A node that starts inside a word of frames and has one free page.\<close>

definition demo_node :: "nat \<Rightarrow> nat \<Rightarrow> (nat \<Rightarrow> 64 word) \<Rightarrow> bootmem_data" where
  "demo_node mn en mp = \<lparr>node_bootmem_map = Some mp, map_page = 1, node_min_pfn = mn, node_low_pfn = en\<rparr>"

definition demo_map :: "nat \<Rightarrow> 64 word" where
  "demo_map i = (if i = 0 then NOT 1 else - 1)"


text \<open>The page 96 is free but lost: it lies in the second word of the bitmap and the rest of the node is
  shorter than a word.\<close>

lemma free_all_bootmem_loses_tail:
  "freed_pages (snd (snd (free_all_bootmem_core demo_bootmem_env
     (demo_node 32 112 (\<lambda>i. if i = 1 then NOT 1 else - 1)) demo_boot_pages))) = [1]
   \<and> unreserved (\<lambda>i. if i = 1 then NOT 1 else - 1) 32 96"
  by (simp add: free_all_bootmem_core_def demo_node_def demo_bootmem_env_def demo_boot_pages_def
      free_map.simps free_vec_def free_bits.simps align_up_def freed_pages_def free_pages_bootmem_def free_pages_boot_core_def Let_def
      unreserved_def)

end
