(* ===== verification/LinuxBlockTree.thy ===== *)
theory LinuxBlockTree
  imports RTFSC_Prelude "HOL-Library.Sublist"
begin

text \<open>
  The tree of block pointers of a file, as ext2 and minix keep it (\<^verbatim>\<open>linux/fs/ext2/get_block.c\<close>,
  \<^verbatim>\<open>linux/fs/minix/get_block.c\<close>): pointers in the inode and in indirect blocks, the chain of triples
  that follows a path of offsets, and the laws of a numbering of the paths.
\<close>

section \<open>Pointers\<close>

text \<open>The place of a pointer: in the inode, or in a block at an offset.\<close>

datatype slot = InInode nat | InBlock nat nat

record 'a fs =
  i_data :: "nat \<Rightarrow> nat"
  blks :: "nat \<Rightarrow> nat \<Rightarrow> nat"
  alloc_state :: 'a

fun rd :: "('a, 'b) fs_scheme \<Rightarrow> slot \<Rightarrow> nat" where
  "rd fs (InInode i) = i_data fs i"
| "rd fs (InBlock b i) = blks fs b i"

fun wr :: "slot \<Rightarrow> nat \<Rightarrow> ('a, 'b) fs_scheme \<Rightarrow> ('a, 'b) fs_scheme" where
  "wr (InInode i) v fs = fs\<lparr>i_data := (i_data fs)(i := v)\<rparr>"
| "wr (InBlock b i) v fs = fs\<lparr>blks := (blks fs)(b := (blks fs b)(i := v))\<rparr>"

record indirect =
  p :: slot
  key :: nat
  bh :: "nat option"

definition add_chain :: "('a, 'b) fs_scheme \<Rightarrow> nat option \<Rightarrow> slot \<Rightarrow> indirect" where
  "add_chain fs b s = \<lparr>p = s, key = rd fs s, bh = b\<rparr>"

text \<open>What the code calls and the repository does not hold: the read of a block (other processes may change
  the tree meanwhile), the test whether the pointers of a chain still have their values, the buffer of a
  block.\<close>

record 'a fs_env =
  sb_bread :: "nat \<Rightarrow> 'a fs \<Rightarrow> bool \<times> 'a fs"
  verify_chain :: "'a fs \<Rightarrow> indirect list \<Rightarrow> bool"
  sb_getblk :: "nat \<Rightarrow> 'a fs \<Rightarrow> bool"

datatype fs_error = EIO | EAGAIN | ENOSPC | ENOMEM

section \<open>The chain along a path\<close>

text \<open>The loop of \<^verbatim>\<open>get_branch\<close>: the chain, whether it is whole (a null pointer in the code), the error.\<close>

fun branch_from :: "('a, 'e) fs_env_scheme \<Rightarrow> nat list \<Rightarrow> indirect list \<Rightarrow> 'a fs
    \<Rightarrow> indirect list \<times> bool \<times> fs_error option \<times> 'a fs" where
  "branch_from env [] chain fs = (chain, True, None, fs)"
| "branch_from env (off # offs) chain fs =
     (let b = key (last chain); (ok, fs) = sb_bread env b fs in
      if \<not> ok then (chain, False, Some EIO, fs)
      else if \<not> verify_chain env fs chain then (chain, False, Some EAGAIN, fs)
      else
        let new = add_chain fs (Some b) (InBlock b off) in
        if key new = 0 then (chain @ [new], False, None, fs)
        else branch_from env offs (chain @ [new]) fs)"

definition get_branch :: "('a, 'e) fs_env_scheme \<Rightarrow> nat list \<Rightarrow> 'a fs
    \<Rightarrow> indirect list \<times> bool \<times> fs_error option \<times> 'a fs" where
  "get_branch env offsets fs =
     (let first = add_chain fs None (InInode (hd offsets)) in
      if key first = 0 then ([first], False, None, fs)
      else branch_from env (tl offsets) [first] fs)"

section \<open>The values along the paths\<close>

text \<open>The pointer at the end of a path, 0 where a pointer on the way is missing.\<close>

fun walk :: "('a, 'b) fs_scheme \<Rightarrow> nat \<Rightarrow> nat list \<Rightarrow> nat" where
  "walk fs v [] = v"
| "walk fs v (off # offs) = (if v = 0 then 0 else walk fs (blks fs v off) offs)"

fun val :: "('a, 'b) fs_scheme \<Rightarrow> nat list \<Rightarrow> nat" where
  "val fs [] = 0"
| "val fs (off # offs) = walk fs (i_data fs off) offs"

lemma walk_0 [simp]: "walk fs 0 offs = 0"
  by (induction offs) simp_all

lemma walk_append: "walk fs v (xs @ ys) = walk fs (walk fs v xs) ys"
  by (induction xs arbitrary: v) auto

lemma val_snoc: "val fs (xs @ [off]) = (if xs = [] then i_data fs off else if val fs xs = 0 then 0 else blks fs (val fs xs) off)"
  by (cases xs) (simp_all add: walk_append)

lemma val_append_0: "val fs xs = 0 \<Longrightarrow> xs \<noteq> [] \<Longrightarrow> val fs (xs @ ys) = 0"
  by (cases xs) (simp_all add: walk_append)

text \<open>No block hangs at two places of the tree, and every block of the tree is in use.\<close>

definition tree_ok :: "nat list set \<Rightarrow> nat set \<Rightarrow> ('a, 'b) fs_scheme \<Rightarrow> bool" where
  "tree_ok P used fs \<longleftrightarrow>
     (\<forall>\<pi>\<in>P. \<forall>\<rho>\<in>P. val fs \<pi> = val fs \<rho> \<and> val fs \<pi> \<noteq> 0 \<longrightarrow> \<pi> = \<rho>) \<and> (\<forall>\<pi>\<in>P. val fs \<pi> \<noteq> 0 \<longrightarrow> val fs \<pi> \<in> used)"

lemma tree_okD:
  assumes "tree_ok P used fs" "\<pi> \<in> P" "val fs \<pi> \<noteq> 0"
  shows "val fs \<pi> \<in> used" "\<rho> \<in> P \<Longrightarrow> val fs \<rho> = val fs \<pi> \<Longrightarrow> \<rho> = \<pi>"
  using assms unfolding tree_ok_def by metis+

text \<open>New blocks \<open>G\<close> grafted onto the tree at paths that were missing: they are reached, nothing else changes.\<close>

definition grafts :: "nat list set \<Rightarrow> nat set \<Rightarrow> (nat list \<rightharpoonup> nat) \<Rightarrow> ('a, 'b) fs_scheme \<Rightarrow> ('a, 'b) fs_scheme \<Rightarrow> bool" where
  "grafts P used G fs fs' \<longleftrightarrow>
     (\<forall>\<pi>\<in>dom G. \<pi> \<in> P \<and> val fs \<pi> = 0) \<and> inj_on G (dom G) \<and> ran G \<inter> used = {} \<and> 0 \<notin> ran G
   \<and> (\<forall>off. [off] \<in> P \<longrightarrow> i_data fs' off = (case G [off] of Some b \<Rightarrow> b | None \<Rightarrow> i_data fs off))
   \<and> (\<forall>\<pi> off b. \<pi> \<noteq> [] \<and> \<pi> @ [off] \<in> P \<and> G \<pi> = Some b \<longrightarrow> blks fs' b off = (case G (\<pi> @ [off]) of Some c \<Rightarrow> c | None \<Rightarrow> 0))
   \<and> (\<forall>\<pi> off. \<pi> \<noteq> [] \<and> \<pi> @ [off] \<in> P \<and> G \<pi> = None \<and> val fs \<pi> \<noteq> 0 \<longrightarrow>
        blks fs' (val fs \<pi>) off = (case G (\<pi> @ [off]) of Some c \<Rightarrow> c | None \<Rightarrow> blks fs (val fs \<pi>) off))
   \<and> (\<forall>\<pi> off. \<pi> \<noteq> [] \<and> \<pi> @ [off] \<in> dom G \<longrightarrow> \<pi> \<in> dom G \<or> val fs \<pi> \<noteq> 0)"

definition prefix_closed :: "nat list set \<Rightarrow> bool" where
  "prefix_closed P \<longleftrightarrow> (\<forall>\<pi> off. \<pi> \<noteq> [] \<and> \<pi> @ [off] \<in> P \<longrightarrow> \<pi> \<in> P)"

lemma prefix_closed_take:
  assumes "prefix_closed P" "\<pi> \<in> P"
  shows "0 < k \<Longrightarrow> k \<le> length \<pi> \<Longrightarrow> take k \<pi> \<in> P"
proof (induction "length \<pi> - k" arbitrary: k)
  case 0
  then show ?case using assms(2) by simp
next
  case (Suc m)
  then have k: "k < length \<pi>" by simp
  then have "take (Suc k) \<pi> \<in> P" using Suc.hyps(2) by (intro Suc.hyps(1)) auto
  moreover have "take (Suc k) \<pi> = take k \<pi> @ [\<pi> ! k]" using k by (rule take_Suc_conv_app_nth)
  moreover have "take k \<pi> \<noteq> []" using k Suc.prems(1) by auto
  ultimately show ?case using assms(1) unfolding prefix_closed_def by metis
qed

lemma grafts_val:
  assumes g: "grafts P used G fs fs'" and closed: "prefix_closed P"
  shows "\<pi> \<in> P \<Longrightarrow> \<pi> \<noteq> [] \<Longrightarrow> val fs' \<pi> = (case G \<pi> of Some b \<Rightarrow> b | None \<Rightarrow> val fs \<pi>)"
proof (induction \<pi> rule: rev_induct)
  case Nil
  then show ?case by simp
next
  case (snoc off \<pi>)
  note G = g [unfolded grafts_def]
  show ?case
  proof (cases "\<pi> = []")
    case True
    then show ?thesis using snoc.prems G by (simp add: val_snoc split: option.splits)
  next
    case False
    then have "\<pi> \<in> P" using closed snoc.prems(1) unfolding prefix_closed_def by blast
    note ih = snoc.IH [OF this False]
    show ?thesis
    proof (cases "G \<pi>")
      case None
      show ?thesis
      proof (cases "val fs \<pi> = 0")
        case True
        then have "G (\<pi> @ [off]) = None" using G False None by blast
        then show ?thesis using ih True None False by (simp add: val_snoc)
      next
        case nz: False
        then have "blks fs' (val fs \<pi>) off = (case G (\<pi> @ [off]) of Some c \<Rightarrow> c | None \<Rightarrow> blks fs (val fs \<pi>) off)"
          using G False None snoc.prems(1) by blast
        then show ?thesis using ih None nz False by (simp add: val_snoc split: option.splits)
      qed
    next
      case (Some b)
      then have "b \<noteq> 0" "val fs \<pi> = 0" using G by (auto simp: ran_def)
      moreover have "blks fs' b off = (case G (\<pi> @ [off]) of Some c \<Rightarrow> c | None \<Rightarrow> 0)"
        using G False Some snoc.prems(1) by blast
      ultimately show ?thesis using ih Some False by (simp add: val_snoc split: option.splits)
    qed
  qed
qed

lemma grafts_tree_ok:
  assumes ok: "tree_ok P used fs" and g: "grafts P used G fs fs'" and closed: "prefix_closed P" and ne: "[] \<notin> P"
    and u: "used \<union> ran G \<subseteq> used'"
  shows "tree_ok P used' fs'"
proof -
  have v: "val fs' \<pi> = (case G \<pi> of Some b \<Rightarrow> b | None \<Rightarrow> val fs \<pi>)" if "\<pi> \<in> P" for \<pi>
    using grafts_val [OF g closed that] ne that by blast
  have ran: "ran G \<inter> used = {}" "inj_on G (dom G)" using g by (simp_all add: grafts_def)
  have new: "b \<in> ran G" if "G \<pi> = Some b" for \<pi> b using that by (auto simp: ran_def)
  have "\<pi> = \<rho>" if "\<pi> \<in> P" "\<rho> \<in> P" "val fs' \<pi> = val fs' \<rho>" "val fs' \<pi> \<noteq> 0" for \<pi> \<rho>
  proof (cases "G \<pi>"; cases "G \<rho>")
    fix a b assume "G \<pi> = Some a" "G \<rho> = Some b"
    moreover from this have "a = b" using that(3) v [OF that(1)] v [OF that(2)] by simp
    ultimately show ?thesis using ran(2) by (auto simp: inj_on_def dom_def)
  next
    assume "G \<pi> = None" "G \<rho> = None"
    then have "val fs \<pi> = val fs \<rho>" "val fs \<pi> \<noteq> 0" using that(3,4) v [OF that(1)] v [OF that(2)] by auto
    then show ?thesis using tree_okD(2) [OF ok that(2), of \<pi>] that(1) by simp
  next
    fix b assume "G \<pi> = None" "G \<rho> = Some b"
    moreover from this have "val fs \<pi> = b" "b \<noteq> 0" using that(3,4) v [OF that(1)] v [OF that(2)] by auto
    ultimately show ?thesis using tree_okD(1) [OF ok that(1)] ran(1) new [of \<rho> b] by auto
  next
    fix a assume "G \<pi> = Some a" "G \<rho> = None"
    moreover from this have "val fs \<rho> = a" "a \<noteq> 0" using that(3,4) v [OF that(1)] v [OF that(2)] by auto
    ultimately show ?thesis using tree_okD(1) [OF ok that(2)] ran(1) new [of \<pi> a] by auto
  qed
  moreover have "val fs' \<pi> \<in> used'" if "\<pi> \<in> P" "val fs' \<pi> \<noteq> 0" for \<pi>
    using that v [OF that(1)] tree_okD(1) [OF ok that(1)] u new by (auto split: option.splits)
  ultimately show ?thesis unfolding tree_ok_def by blast
qed

section \<open>A new branch\<close>

text \<open>The new blocks of a branch below the first \<open>n0 - 1\<close> offsets: the indirect blocks \<open>ib\<close> along the path, and \<open>num\<close>
  data blocks from \<open>d\<close> on, at the last offset and those behind it.\<close>

definition branch_map :: "nat list \<Rightarrow> nat \<Rightarrow> nat list \<Rightarrow> nat \<Rightarrow> nat \<Rightarrow> (nat list \<rightharpoonup> nat)" where
  "branch_map offs n0 ib d num \<pi> =
     (if n0 \<le> length \<pi> \<and> length \<pi> < length offs \<and> \<pi> = take (length \<pi>) offs then Some (ib ! (length \<pi> - n0))
      else if \<pi> \<noteq> [] \<and> butlast \<pi> = butlast offs \<and> last offs \<le> last \<pi> \<and> last \<pi> < last offs + num
      then Some (d + (last \<pi> - last offs)) else None)"

lemma branch_map_level:
  assumes k: "0 < n0" "n0 \<le> Suc k" "k < length offs"
  shows "branch_map offs n0 ib d num (take k offs @ [off])
    = (if Suc k < length offs then if off = offs ! k then Some (ib ! (Suc k - n0)) else None
       else if last offs \<le> off \<and> off < last offs + num then Some (d + (off - last offs)) else None)"
proof -
  have t: "take (Suc k) offs = take k offs @ [offs ! k]" using k(3) by (rule take_Suc_conv_app_nth)
  have b: "butlast offs = take (length offs - 1) offs" by (simp add: butlast_conv_take)
  have "take k offs \<noteq> take (length offs - 1) offs" if "Suc k < length offs"
  proof
    assume "take k offs = take (length offs - 1) offs"
    then have "length (take k offs) = length (take (length offs - 1) offs)" by (rule arg_cong)
    then show False using that by simp
  qed
  moreover have "take k offs = take (length offs - 1) offs" if "\<not> Suc k < length offs"
    using that k(3) by (metis Suc_lessI diff_Suc_1)
  ultimately show ?thesis using k t b by (auto simp: branch_map_def)
qed

locale new_branch =
  fixes P :: "nat list set" and used :: "nat set" and fs fs' :: "('a, 'b) fs_scheme"
    and offs :: "nat list" and n0 :: nat and ib :: "nat list" and d :: nat and num :: nat
  assumes tree: "tree_ok P used fs"
    and closed: "prefix_closed P"
    and depth: "0 < n0" "n0 \<le> length offs" "length ib = length offs - n0"
    and siblings: "i < num \<Longrightarrow> butlast offs @ [last offs + i] \<in> P"
    and leaves: "i < num \<Longrightarrow> butlast offs @ [last offs + i, off] \<notin> P"
    and path: "offs \<in> P"
    and missing: "val fs (take n0 offs) = 0" "1 < n0 \<Longrightarrow> val fs (take (n0 - 1) offs) \<noteq> 0"
    and free_siblings: "n0 = length offs \<Longrightarrow> i < num \<Longrightarrow> val fs (butlast offs @ [last offs + i]) = 0"
    and fresh: "distinct (ib @ map ((+) d) [0..<num])" "set (ib @ map ((+) d) [0..<num]) \<inter> used = {}"
      "0 \<notin> set (ib @ map ((+) d) [0..<num])"
    and inode: "i_data fs' off = (case branch_map offs n0 ib d num [off] of Some b \<Rightarrow> b | None \<Rightarrow> i_data fs off)"
    and new_blocks: "i < length ib \<Longrightarrow> blks fs' (ib ! i) off
          = (case branch_map offs n0 ib d num (take (n0 + i) offs @ [off]) of Some b \<Rightarrow> b | None \<Rightarrow> 0)"
    and old_blocks: "v \<in> used \<Longrightarrow> blks fs' v off
          = (if 1 < n0 \<and> v = val fs (take (n0 - 1) offs)
             then (case branch_map offs n0 ib d num (take (n0 - 1) offs @ [off]) of Some b \<Rightarrow> b | None \<Rightarrow> blks fs v off)
             else blks fs v off)"
begin

abbreviation G :: "nat list \<rightharpoonup> nat" where
  "G \<equiv> branch_map offs n0 ib d num"

lemma G_cases:
  assumes "G \<pi> = Some b"
  obtains k where "\<pi> = take k offs" "n0 \<le> k" "k < length offs" "b = ib ! (k - n0)"
    | i where "\<pi> = butlast offs @ [last offs + i]" "i < num" "b = d + i"
proof -
  from assms consider "n0 \<le> length \<pi>" "length \<pi> < length offs" "\<pi> = take (length \<pi>) offs" "b = ib ! (length \<pi> - n0)"
    | "\<pi> \<noteq> []" "butlast \<pi> = butlast offs" "last offs \<le> last \<pi>" "last \<pi> < last offs + num" "b = d + (last \<pi> - last offs)"
    by (auto simp: branch_map_def split: if_splits)
  then show thesis
  proof cases
    case 1
    then show thesis using that(1) [of "length \<pi>"] by simp
  next
    case 2
    then show thesis using that(2) [of "last \<pi> - last offs"] by (metis append_butlast_last_id le_add_diff_inverse less_diff_conv2 add.commute)
  qed
qed

lemma G_take: "n0 \<le> k \<Longrightarrow> k < length offs \<Longrightarrow> G (take k offs) = Some (ib ! (k - n0))"
  by (simp add: branch_map_def)

lemma offs_ne: "offs \<noteq> []" "butlast offs = take (length offs - 1) offs"
  using depth by (auto simp: butlast_conv_take)

lemma take_in: "0 < k \<Longrightarrow> k \<le> length offs \<Longrightarrow> take k offs \<in> P"
  by (rule prefix_closed_take [OF closed path])

lemma missing_below: "n0 \<le> k \<Longrightarrow> k \<le> length offs \<Longrightarrow> val fs (take k offs) = 0"
  using val_append_0 [OF missing(1), of "drop n0 (take k offs)"] depth
  by (metis append_take_drop_id length_take min.absorb2 min_def not_less_zero take_eq_Nil take_take list.size(3))

lemma dom_G: "G \<pi> = Some b \<Longrightarrow> \<pi> \<in> P \<and> val fs \<pi> = 0"
proof (elim G_cases)
  fix k assume "\<pi> = take k offs" "n0 \<le> k" "k < length offs"
  then show ?thesis using take_in missing_below depth by simp
next
  fix i assume i: "\<pi> = butlast offs @ [last offs + i]" "i < num"
  have "val fs \<pi> = 0"
  proof (cases "n0 = length offs")
    case True
    then show ?thesis using free_siblings i by simp
  next
    case False
    then have "butlast offs \<noteq> []" "val fs (butlast offs) = 0" using depth missing_below [of "length offs - 1"] offs_ne by auto
    then show ?thesis unfolding i(1) by (rule val_append_0 [rotated])
  qed
  then show ?thesis using siblings i by simp
qed

lemma parent_of: 
  assumes "G (\<pi> @ [off]) = Some b" "\<pi> \<noteq> []"
  shows "(\<exists>k. \<pi> = take k offs \<and> n0 \<le> k \<and> k < length offs) \<or> \<pi> = take (n0 - 1) offs \<and> 1 < n0"
  using assms(1)
proof (rule G_cases)
  fix k assume k: "\<pi> @ [off] = take k offs" "n0 \<le> k" "k < length offs"
  then have "length (\<pi> @ [off]) = k" by simp
  then have l: "k = Suc (length \<pi>)" by simp
  then have "\<pi> = take (k - 1) offs" using k(1,3) by (simp add: take_Suc_conv_app_nth)
  then show ?thesis using assms(2) k l depth by (cases "k = n0") auto
next
  fix i assume "\<pi> @ [off] = butlast offs @ [last offs + i]"
  then have "\<pi> = take (length offs - 1) offs" using offs_ne by simp
  then show ?thesis using assms(2) depth by (cases "n0 = length offs") (auto intro: exI [of _ "length offs - 1"])
qed

lemma G_index:
  assumes "G \<pi> = Some b"
  shows "\<exists>j<length (ib @ map ((+) d) [0..<num]). b = (ib @ map ((+) d) [0..<num]) ! j
    \<and> \<pi> = (if j < length ib then take (n0 + j) offs else butlast offs @ [last offs + (j - length ib)])"
  using assms
proof (rule G_cases)
  fix k assume "\<pi> = take k offs" "n0 \<le> k" "k < length offs" "b = ib ! (k - n0)"
  moreover from this have "k - n0 < length offs - n0" by linarith
  ultimately show ?thesis using depth by (intro exI [of _ "k - n0"]) (simp add: nth_append)
next
  fix i assume "\<pi> = butlast offs @ [last offs + i]" "i < num" "b = d + i"
  then show ?thesis by (intro exI [of _ "length ib + i"]) (simp add: nth_append)
qed

lemma ran_G: "ran G \<subseteq> set (ib @ map ((+) d) [0..<num])"
proof
  fix b assume "b \<in> ran G"
  then obtain \<pi> where "G \<pi> = Some b" by (auto simp: ran_def)
  from G_index [OF this] show "b \<in> set (ib @ map ((+) d) [0..<num])" using nth_mem by blast
qed

lemma branch_grafts: "grafts P used G fs fs'"
  unfolding grafts_def
proof (intro conjI allI impI ballI; (elim conjE)?)
  show "\<pi> \<in> P" "val fs \<pi> = 0" if "\<pi> \<in> dom G" for \<pi> using that dom_G by auto
  show "i_data fs' off = (case G [off] of Some b \<Rightarrow> b | None \<Rightarrow> i_data fs off)" for off by (rule inode)
  show "ran G \<inter> used = {}" "0 \<notin> ran G" using fresh(2,3) ran_G by blast+
  show "inj_on G (dom G)"
  proof (rule inj_onI)
    fix \<pi> \<rho> assume "\<pi> \<in> dom G" "\<rho> \<in> dom G" "G \<pi> = G \<rho>"
    then obtain b where "G \<pi> = Some b" "G \<rho> = Some b" by auto
    from this [THEN G_index] show "\<pi> = \<rho>" using fresh(1) nth_eq_iff_index_eq by metis
  qed
  show "blks fs' b off = (case G (\<pi> @ [off]) of Some c \<Rightarrow> c | None \<Rightarrow> 0)"
    if "\<pi> \<noteq> []" "\<pi> @ [off] \<in> P" "G \<pi> = Some b" for \<pi> off b
    using that(3)
  proof (rule G_cases)
    fix k assume "\<pi> = take k offs" "n0 \<le> k" "k < length offs" "b = ib ! (k - n0)"
    then show ?thesis using new_blocks [of "k - n0" off] depth by simp
  next
    fix i assume "\<pi> = butlast offs @ [last offs + i]" "i < num"
    then show ?thesis using leaves that(2) by simp
  qed
  show "blks fs' (val fs \<pi>) off = (case G (\<pi> @ [off]) of Some c \<Rightarrow> c | None \<Rightarrow> blks fs (val fs \<pi>) off)"
    if "\<pi> \<noteq> []" "\<pi> @ [off] \<in> P" "G \<pi> = None" "val fs \<pi> \<noteq> 0" for \<pi> off
  proof -
    have p: "\<pi> \<in> P" using closed that(1,2) unfolding prefix_closed_def by blast
    note old = old_blocks [OF tree_okD(1) [OF tree p that(4)], of off]
    have q: "\<pi> = take (n0 - 1) offs" if "1 < n0" "val fs \<pi> = val fs (take (n0 - 1) offs)"
      using tree_okD(2) [OF tree p \<open>val fs \<pi> \<noteq> 0\<close>, of "take (n0 - 1) offs"] take_in [of "n0 - 1"] that depth by simp
    show ?thesis
    proof (cases "1 < n0 \<and> val fs \<pi> = val fs (take (n0 - 1) offs)")
      case True
      then show ?thesis using old q by simp
    next
      case False
      have "G (\<pi> @ [off]) = None"
      proof (rule ccontr)
        assume "G (\<pi> @ [off]) \<noteq> None"
        then obtain b where "G (\<pi> @ [off]) = Some b" by blast
        from parent_of [OF this that(1)] show False using G_take that(3) False by auto
      qed
      then show ?thesis unfolding old if_not_P [OF False] by simp
    qed
  qed
  show "\<pi> \<in> dom G \<or> val fs \<pi> \<noteq> 0" if a: "\<pi> \<noteq> []" "\<pi> @ [off] \<in> dom G" for \<pi> off
  proof -
    obtain b where "G (\<pi> @ [off]) = Some b" using a(2) by blast
    from parent_of [OF this a(1)] show ?thesis using G_take missing(2) by auto
  qed
qed

end

section \<open>Numberings of the paths\<close>

text \<open>The places of pointers: the beginnings of the paths.\<close>

definition places :: "(nat \<Rightarrow> nat list) \<Rightarrow> nat \<Rightarrow> nat list set" where
  "places path capacity = {\<pi>. \<pi> \<noteq> [] \<and> (\<exists>b<capacity. prefix \<pi> (path b))}"

text \<open>The numbering of the blocks of a file by paths: no path is the beginning of another one.\<close>

locale block_paths =
  fixes path :: "nat \<Rightarrow> nat list" and capacity :: nat
  assumes path_nonempty: "b < capacity \<Longrightarrow> path b \<noteq> []"
    and path_prefix: "b < capacity \<Longrightarrow> c < capacity \<Longrightarrow> prefix (path b) (path c) \<Longrightarrow> b = c"
begin

lemma places_closed: "prefix_closed (places path capacity)" "[] \<notin> places path capacity"
  unfolding prefix_closed_def places_def by (auto dest: append_prefixD)

lemma path_place: "b < capacity \<Longrightarrow> path b \<in> places path capacity"
  using path_nonempty by (auto simp: places_def)

lemma path_leaf: "b < capacity \<Longrightarrow> path b @ [off] \<notin> places path capacity"
proof
  assume b: "b < capacity" and "path b @ [off] \<in> places path capacity"
  then obtain c where c: "c < capacity" "prefix (path b @ [off]) (path c)" by (auto simp: places_def)
  then have "b = c" using path_prefix [OF b c(1)] append_prefixD by blast
  then show False using c(2) by (auto dest: prefix_length_le)
qed

lemma path_inj: "b < capacity \<Longrightarrow> c < capacity \<Longrightarrow> path b = path c \<longleftrightarrow> b = c"
  using path_prefix by auto

lemma values_kept:
  assumes "i_data fs' = i_data fs" "\<forall>v\<in>used. blks fs' v = blks fs v" "tree_ok (places path capacity) used fs"
  shows "\<pi> \<in> places path capacity \<Longrightarrow> val fs' \<pi> = val fs \<pi>"
proof (induction \<pi> rule: rev_induct)
  case (snoc off \<pi>)
  show ?case
  proof (cases "\<pi> = []")
    case False
    then have "\<pi> \<in> places path capacity" using places_closed(1) snoc.prems unfolding prefix_closed_def by blast
    then show ?thesis using snoc.IH False tree_okD(1) [OF assms(3)] assms(2) by (simp add: val_snoc)
  qed (simp add: val_snoc assms)
qed simp

end

section \<open>A chain on a tree at rest\<close>

definition quiet :: "('a, 'e) fs_env_scheme \<Rightarrow> bool" where
  "quiet env \<longleftrightarrow> (\<forall>b fs. snd (sb_bread env b fs) = fs)
     \<and> (\<forall>fs chain. verify_chain env fs chain = list_all (\<lambda>c. rd fs (p c) = key c) chain)"

text \<open>The triples of the first \<open>length chain\<close> offsets of a path.\<close>

definition chain_of :: "'a fs \<Rightarrow> nat list \<Rightarrow> indirect list \<Rightarrow> bool" where
  "chain_of fs offs chain \<longleftrightarrow>
     chain \<noteq> [] \<and> length chain \<le> length offs
   \<and> (\<forall>i<length chain. key (chain ! i) = val fs (take (Suc i) offs) \<and> rd fs (p (chain ! i)) = key (chain ! i)
        \<and> p (chain ! i) = (if i = 0 then InInode (offs ! 0) else InBlock (key (chain ! (i - 1))) (offs ! i)))
   \<and> (\<forall>i<length chain - 1. key (chain ! i) \<noteq> 0)"

lemma chain_ofD:
  assumes "chain_of fs offs chain"
  shows "chain \<noteq> []" "length chain \<le> length offs"
    "i < length chain \<Longrightarrow> key (chain ! i) = val fs (take (Suc i) offs)"
    "i < length chain \<Longrightarrow> rd fs (p (chain ! i)) = key (chain ! i)"
    "i < length chain \<Longrightarrow> p (chain ! i) = (if i = 0 then InInode (offs ! 0) else InBlock (key (chain ! (i - 1))) (offs ! i))"
    "i < length chain - 1 \<Longrightarrow> key (chain ! i) \<noteq> 0"
  using assms unfolding chain_of_def by blast+

lemma chain_of_last:
  assumes "chain_of fs offs chain"
  shows "key (last chain) = val fs (take (length chain) offs)"
    "1 < length chain \<Longrightarrow> val fs (take (length chain - 1) offs) \<noteq> 0"
    "p (last chain) = (if length chain = 1 then InInode (offs ! 0)
                       else InBlock (val fs (take (length chain - 1) offs)) (offs ! (length chain - 1)))"
proof -
  let ?n = "length chain"
  have l: "last chain = chain ! (?n - 1)" "0 < ?n" using assms by (auto simp: chain_of_def last_conv_nth)
  note c = chain_ofD [OF assms]
  show "key (last chain) = val fs (take ?n offs)" using c(3) [of "?n - 1"] l by simp
  show "val fs (take (?n - 1) offs) \<noteq> 0" if "1 < ?n"
    using c(3) [of "?n - 2"] c(6) [of "?n - 2"] that by (simp add: Suc_diff_Suc numeral_2_eq_2)
  show "p (last chain) = (if ?n = 1 then InInode (offs ! 0) else InBlock (val fs (take (?n - 1) offs)) (offs ! (?n - 1)))"
    using c(5) [of "?n - 1"] c(3) [of "?n - 2"] l
    by (cases "?n = 1") (auto simp: Suc_diff_Suc numeral_2_eq_2 Suc_lessI)
qed

lemma chain_of_snoc:
  assumes c: "chain_of fs offs chain" and k: "key (last chain) \<noteq> 0" and l: "length chain < length offs"
  shows "chain_of fs offs (chain @ [add_chain fs b (InBlock (key (last chain)) (offs ! length chain))])"
proof -
  let ?n = "length chain" and ?new = "add_chain fs b (InBlock (key (last chain)) (offs ! length chain))"
  have n: "chain \<noteq> []" "last chain = chain ! (?n - 1)" "0 < ?n" using c by (auto simp: chain_of_def last_conv_nth)
  have new: "key ?new = val fs (take (Suc ?n) offs)"
    using chain_of_last(1) [OF c] k l n by (cases "offs = []") (simp_all add: add_chain_def take_Suc_conv_app_nth val_snoc)
  have slot: "rd fs (p ?new) = key ?new" "p ?new = InBlock (key (chain ! (?n - 1))) (offs ! ?n)"
    by (simp_all add: add_chain_def n)
  have nth: "(chain @ [?new]) ! i = (if i = ?n then ?new else chain ! i)" if "i \<le> ?n" for i
    using that by (simp add: nth_append)
  have nz: "key (chain ! i) \<noteq> 0" if "i < ?n" for i
    using chain_ofD(6) [OF c, of i] k n(2) that by (cases "i = ?n - 1") auto
  show ?thesis
    unfolding chain_of_def
  proof (intro conjI allI impI)
    fix i assume "i < length (chain @ [?new])"
    then consider "i = ?n" | "i < ?n" by fastforce
    then have "key ((chain @ [?new]) ! i) = val fs (take (Suc i) offs)
      \<and> rd fs (p ((chain @ [?new]) ! i)) = key ((chain @ [?new]) ! i)
      \<and> p ((chain @ [?new]) ! i) = (if i = 0 then InInode (offs ! 0) else InBlock (key ((chain @ [?new]) ! (i - 1))) (offs ! i))"
    proof cases
      case 1
      moreover have "(chain @ [?new]) ! (?n - 1) = chain ! (?n - 1)" using n(3) by (simp add: nth_append)
      ultimately show ?thesis using new slot nth [of ?n] n(3) by simp
    next
      case 2
      then show ?thesis using chain_ofD(3-5) [OF c 2] nth [of i] nth [of "i - 1"] by auto
    qed
    then show "key ((chain @ [?new]) ! i) = val fs (take (Suc i) offs)"
      "rd fs (p ((chain @ [?new]) ! i)) = key ((chain @ [?new]) ! i)"
      "p ((chain @ [?new]) ! i) = (if i = 0 then InInode (offs ! 0) else InBlock (key ((chain @ [?new]) ! (i - 1))) (offs ! i))"
      by blast+
  next
    fix i assume "i < length (chain @ [?new]) - 1"
    then show "key ((chain @ [?new]) ! i) \<noteq> 0" using nth [of i] nz [of i] by simp
  qed (use l in simp_all)
qed

lemma branch_from_quiet:
  assumes q: "quiet env"
  shows "chain_of fs offs chain \<Longrightarrow> key (last chain) \<noteq> 0 \<Longrightarrow> rest = drop (length chain) offs \<Longrightarrow>
    branch_from env rest chain fs = (chain', full, err, fs') \<Longrightarrow>
    fs' = fs \<and> chain_of fs offs chain'
    \<and> (if full then length chain' = length offs \<and> key (last chain') \<noteq> 0 \<and> err = None
       else err = Some EIO \<or> err = None \<and> key (last chain') = 0)"
proof (induction rest arbitrary: chain)
  case Nil
  then have "length chain = length offs" by (simp add: chain_of_def)
  with Nil show ?case by simp
next
  case (Cons off rest)
  have l: "length chain < length offs" using Cons.prems(3) by (metis drop_eq_Nil list.distinct(1) not_le)
  then have off: "off = offs ! length chain" "rest = drop (Suc (length chain)) offs"
    using Cons.prems(3) Cons_nth_drop_Suc [OF l] by (metis list.inject)+
  let ?b = "key (last chain)"
  let ?new = "add_chain fs (Some ?b) (InBlock ?b off)"
  obtain ok where r: "sb_bread env ?b fs = (ok, fs)" using q by (metis quiet_def surjective_pairing)
  have v: "verify_chain env fs chain"
  proof -
    have "list_all (\<lambda>c. rd fs (p c) = key c) chain" unfolding list_all_length using chain_ofD(4) [OF Cons.prems(1)] by blast
    then show ?thesis using q unfolding quiet_def by blast
  qed
  have new: "chain_of fs offs (chain @ [?new])"
    using chain_of_snoc [OF Cons.prems(1,2) l] off by simp
  consider "\<not> ok" | "ok" "key ?new = 0" | "ok" "key ?new \<noteq> 0" by blast
  then show ?case
  proof cases
    case 1
    then show ?thesis using Cons.prems(1,4) r by (simp add: Let_def)
  next
    case 2
    then show ?thesis using Cons.prems(4) r v new by (auto simp: Let_def)
  next
    case 3
    then show ?thesis using Cons.prems(4) r v off by (intro Cons.IH [OF new]) (simp_all add: Let_def)
  qed
qed

lemma get_branch_quiet:
  assumes q: "quiet env" and offs: "offs \<noteq> []" and g: "get_branch env offs fs = (chain, full, err, fs')"
  shows "fs' = fs \<and> chain_of fs offs chain
    \<and> (if full then length chain = length offs \<and> key (last chain) \<noteq> 0 \<and> err = None
       else err = Some EIO \<or> err = None \<and> key (last chain) = 0)"
proof -
  let ?first = "add_chain fs None (InInode (hd offs))"
  have c: "chain_of fs offs [?first]"
    using offs by (cases offs) (simp_all add: chain_of_def add_chain_def Suc_leI)
  show ?thesis
  proof (cases "key ?first = 0")
    case True
    then show ?thesis using g c by (auto simp: get_branch_def)
  next
    case False
    then show ?thesis using g by (intro branch_from_quiet [OF q c]) (simp_all add: get_branch_def drop_Suc)
  qed
qed

text \<open>The pointers of a chain keep their values when the blocks in use do.\<close>

lemma chain_rd_kept:
  assumes tree: "tree_ok P used fs" and P: "prefix_closed P" "offs \<in> P" and c: "chain_of fs offs chain"
    and kept: "i_data fs' = i_data fs" "\<forall>v\<in>used. blks fs' v = blks fs v" and i: "i < length chain"
  shows "rd fs' (p (chain ! i)) = key (chain ! i)"
proof (cases "i = 0")
  case True
  then show ?thesis using chain_ofD(4,5) [OF c i] kept(1) by simp
next
  case False
  then have j: "i - 1 < length chain" "i - 1 < length chain - 1" "Suc (i - 1) = i" using i by auto
  have "take i offs \<in> P" using prefix_closed_take [OF P] False i chain_ofD(2) [OF c] by simp
  then have "key (chain ! (i - 1)) \<in> used"
    using tree_okD(1) [OF tree] chain_ofD(3) [OF c j(1)] chain_ofD(6) [OF c j(2)] j(3) by simp
  then show ?thesis using chain_ofD(4,5) [OF c i] kept(2) False by simp
qed

section \<open>Splicing a branch\<close>

text \<open>Consecutive numbers written at consecutive places.\<close>

fun slot_add :: "slot \<Rightarrow> nat \<Rightarrow> slot" where
  "slot_add (InInode i) n = InInode (i + n)"
| "slot_add (InBlock b i) n = InBlock b (i + n)"

definition write_run :: "slot \<Rightarrow> nat \<Rightarrow> nat \<Rightarrow> ('a, 'b) fs_scheme \<Rightarrow> ('a, 'b) fs_scheme" where
  "write_run s v n fs = fold (\<lambda>i. wr (slot_add s i) (v + i)) [0..<n] fs"

lemma write_run_Suc: "write_run s v (Suc n) fs = wr (slot_add s n) (v + n) (write_run s v n fs)"
  by (simp add: write_run_def)

lemma write_run_0 [simp]: "write_run s v 0 fs = fs"
  by (simp add: write_run_def)

lemma write_run_1: "write_run s v (Suc 0) fs = wr s v fs"
  by (cases s) (simp_all add: write_run_def)

lemma write_run_inode:
  "i_data (write_run (InInode i) v n fs) off = (if i \<le> off \<and> off < i + n then v + (off - i) else i_data fs off)"
  "blks (write_run (InInode i) v n fs) = blks fs" "alloc_state (write_run (InInode i) v n fs) = alloc_state fs"
  by (induction n) (auto simp: write_run_Suc)

lemma write_run_block:
  "i_data (write_run (InBlock b i) v n fs) = i_data fs"
  "blks (write_run (InBlock b i) v n fs) c off = (if c = b \<and> i \<le> off \<and> off < i + n then v + (off - i) else blks fs c off)"
  "alloc_state (write_run (InBlock b i) v n fs) = alloc_state fs"
  by (induction n) (auto simp: write_run_Suc)

lemma alloc_state_write_run [simp]: "alloc_state (write_run s v n fs) = alloc_state fs"
  by (cases s) (simp_all add: write_run_inode write_run_block)

text \<open>The new blocks are linked below each other, the data blocks at the end; the place of the chain that was
  missing then gets the first of them, or the data blocks.\<close>

lemma spliced_branch:
  assumes tree: "tree_ok P used fs" and P: "prefix_closed P" "offs \<in> P"
    and c: "chain_of fs offs chain" and missing: "key (last chain) = 0"
    and sib: "\<And>i. i < num \<Longrightarrow> butlast offs @ [last offs + i] \<in> P" "\<And>i off. i < num \<Longrightarrow> butlast offs @ [last offs + i, off] \<notin> P"
    and free: "\<And>i. length chain = length offs \<Longrightarrow> i < num \<Longrightarrow> val fs (butlast offs @ [last offs + i]) = 0"
    and ib: "length ib = length offs - length chain" "distinct (ib @ map ((+) d) [0..<num])"
      "set (ib @ map ((+) d) [0..<num]) \<inter> used = {}" "0 \<notin> set (ib @ map ((+) d) [0..<num])"
    and fs1: "i_data fs1 = i_data fs" "\<forall>v\<in>used. blks fs1 v = blks fs v"
      "\<And>i. i < length ib \<Longrightarrow> blks fs1 (ib ! i) =
         (if Suc i < length ib then (\<lambda>_. 0)(offs ! (length chain + i) := ib ! Suc i)
          else (\<lambda>off. if last offs \<le> off \<and> off < last offs + num then d + (off - last offs) else 0))"
  shows "new_branch P used fs (if ib = [] then write_run (p (last chain)) d num fs1 else wr (p (last chain)) (hd ib) fs1)
           offs (length chain) ib d num"
proof -
  let ?n = "length chain" and ?k = "length chain - 1"
  let ?fs' = "if ib = [] then write_run (p (last chain)) d num fs1 else wr (p (last chain)) (hd ib) fs1"
  note last = chain_of_last [OF c]
  have n: "0 < ?n" "?n \<le> length offs" using chain_ofD(1,2) [OF c] by auto
  then have k: "?k < length offs" "Suc ?k = ?n" by linarith+
  have level: "branch_map offs ?n ib d num (take j offs @ [off])
    = (if Suc j < length offs then if off = offs ! j then Some (ib ! (Suc j - ?n)) else None
       else if last offs \<le> off \<and> off < last offs + num then Some (d + (off - last offs)) else None)"
    if "?k \<le> j" "j < length offs" for j off
    by (rule branch_map_level) (use that n k in linarith)+
  have ib_empty: "ib = [] \<longleftrightarrow> \<not> ?n < length offs" using ib(1) by auto
  then have hd: "?n < length offs \<Longrightarrow> hd ib = ib ! 0" by (simp add: hd_conv_nth)
  have end_off: "\<not> ?n < length offs \<Longrightarrow> offs ! ?k = last offs"
    using n by (metis diff_Suc_1 last_conv_nth le_antisym not_le list.size(3) not_less_zero)
  have parent: "val fs (take ?k offs) \<in> used" if "?n \<noteq> 1"
  proof -
    have "1 < ?n" using n(1) that by linarith
    moreover from this have "take ?k offs \<in> P" using prefix_closed_take [OF P] k(1) by simp
    ultimately show ?thesis using tree_okD(1) [OF tree _ last(2)] by simp
  qed
  show ?thesis
  proof
    show "tree_ok P used fs" "prefix_closed P" "0 < ?n" "?n \<le> length offs" "offs \<in> P" "length ib = length offs - ?n" by fact+
    show "butlast offs @ [last offs + i] \<in> P" "butlast offs @ [last offs + i, off] \<notin> P" if "i < num" for i off
      using that by (rule sib)+
    show "val fs (take ?n offs) = 0" using last(1) missing by simp
    show "val fs (take (?n - 1) offs) \<noteq> 0" if "1 < ?n" using last(2) that .
    show "val fs (butlast offs @ [last offs + i]) = 0" if "?n = length offs" "i < num" for i using that by (rule free)
    show "distinct (ib @ map ((+) d) [0..<num])" "set (ib @ map ((+) d) [0..<num]) \<inter> used = {}" "0 \<notin> set (ib @ map ((+) d) [0..<num])"
      by fact+
    show "i_data ?fs' off = (case branch_map offs ?n ib d num [off] of Some b \<Rightarrow> b | None \<Rightarrow> i_data fs off)" for off
    proof (cases "?n = 1")
      case True
      have "0 < length offs" using n by linarith
      with True level [of 0 off] have lv: "branch_map offs ?n ib d num [off]
          = (if Suc 0 < length offs then if off = offs ! 0 then Some (ib ! 0) else None
             else if last offs \<le> off \<and> off < last offs + num then Some (d + (off - last offs)) else None)" by simp
      show ?thesis
        unfolding lv using True last(3) fs1(1) hd end_off ib_empty by (cases "Suc 0 < length offs") (auto simp: write_run_inode)
    next
      case False
      then have "1 < ?n" using n(1) by linarith
      then have "branch_map offs ?n ib d num [off] = None"
        using n(2) by (auto simp: branch_map_def butlast_conv_take)
      then show ?thesis using False last(3) fs1(1) by (simp add: write_run_block)
    qed
    show "blks ?fs' (ib ! i) off
        = (case branch_map offs ?n ib d num (take (?n + i) offs @ [off]) of Some b \<Rightarrow> b | None \<Rightarrow> 0)" if i: "i < length ib" for i off
    proof -
      have "ib ! i \<notin> used" using ib(3) nth_mem [OF i] by (auto simp: disjoint_iff)
      moreover have "ib \<noteq> []" using i by auto
      ultimately have "blks ?fs' (ib ! i) = blks fs1 (ib ! i)" using parent last(3) by (cases "?n = 1") auto
      moreover have "?n + i < length offs" using i ib(1) by linarith
      ultimately show ?thesis using level [of "?n + i" off] fs1(3) [OF i] i ib(1) by auto
    qed
    show "blks ?fs' v off
        = (if 1 < ?n \<and> v = val fs (take (?n - 1) offs)
           then (case branch_map offs ?n ib d num (take (?n - 1) offs @ [off]) of Some b \<Rightarrow> b | None \<Rightarrow> blks fs v off)
           else blks fs v off)" if "v \<in> used" for v off
    proof (cases "?n = 1")
      case True
      then show ?thesis using that last(3) fs1(2) by (simp add: write_run_inode)
    next
      case False
      then have "1 < ?n" using n(1) by linarith
      then show ?thesis using that level [of ?k off] k last(3) fs1(2) hd end_off ib_empty by (auto simp: write_run_block)
    qed
  qed
qed

end
