(* ===== verification/LinuxMinix.thy ===== *)
theory LinuxMinix
  imports LinuxBlockTree
begin

text \<open>
  The mapping of the blocks of a minix file (\<^verbatim>\<open>linux/fs/minix/get_block.c\<close>): the path of a block, the
  allocation of the missing part of its chain, the splice and the loop that rereads a chain that changed.
  \<^const>\<open>None\<close> stands for a null buffer of \<^verbatim>\<open>sb_getblk\<close>, which the code does not test, and for a loop that
  rereads for ever.
\<close>

section \<open>Paths\<close>

record minix_sb =
  s_blocksize :: nat
  s_blocksize_bits :: nat
  s_max_size :: nat

abbreviation DIRCOUNT :: nat where "DIRCOUNT \<equiv> 7"

definition INDIRCOUNT :: "minix_sb \<Rightarrow> nat" where
  "INDIRCOUNT sb = 2 ^ (s_blocksize_bits sb - 2)"

text \<open>The product of the test is that of unsigned 64 bit numbers.\<close>

definition block_to_path :: "minix_sb \<Rightarrow> int \<Rightarrow> nat list" where
  "block_to_path sb block =
     (if block < 0 then []
      else if (of_int block :: u64) * of_nat (s_blocksize sb) \<ge> of_nat (s_max_size sb) then []
      else
        let b = nat block in
        if b < DIRCOUNT then [b]
        else let b = b - DIRCOUNT in
        if b < INDIRCOUNT sb then [DIRCOUNT, b]
        else let b = b - INDIRCOUNT sb in
        if b < INDIRCOUNT sb * INDIRCOUNT sb then [DIRCOUNT + 1, b div INDIRCOUNT sb, b mod INDIRCOUNT sb]
        else let b = b - INDIRCOUNT sb * INDIRCOUNT sb in
        [DIRCOUNT + 2, (b div INDIRCOUNT sb) div INDIRCOUNT sb, (b div INDIRCOUNT sb) mod INDIRCOUNT sb, b mod INDIRCOUNT sb])"

section \<open>Allocation and splice\<close>

record 'a minix_env = "'a fs_env" +
  minix_new_block :: "'a fs \<Rightarrow> nat \<times> 'a fs"
  minix_free_block :: "nat \<Rightarrow> 'a fs \<Rightarrow> 'a fs"

text \<open>The loop for the blocks behind the first; the flag tells that all were allocated.\<close>

fun alloc_more :: "('a, 'e) minix_env_scheme \<Rightarrow> nat list \<Rightarrow> nat \<Rightarrow> indirect list \<Rightarrow> 'a fs
    \<Rightarrow> (bool \<times> indirect list \<times> 'a fs) option" where
  "alloc_more env [] parent branch fs = Some (True, branch, fs)"
| "alloc_more env (off # offs) parent branch fs =
     (let (nr, fs) = minix_new_block env fs in
      if nr = 0 then Some (False, branch, fs)
      else if \<not> sb_getblk env parent fs then None
      else
        let fs = fs\<lparr>blks := (blks fs)(parent := (\<lambda>_. 0)(off := nr))\<rparr>
        in alloc_more env offs nr (branch @ [\<lparr>p = InBlock parent off, key = nr, bh = Some parent\<rparr>]) fs)"

definition free_branch :: "('a, 'e) minix_env_scheme \<Rightarrow> indirect list \<Rightarrow> 'a fs \<Rightarrow> 'a fs" where
  "free_branch env branch fs = fold (minix_free_block env) (map key branch) fs"

definition alloc_branch :: "('a, 'e) minix_env_scheme \<Rightarrow> nat list \<Rightarrow> indirect \<Rightarrow> 'a fs
    \<Rightarrow> (fs_error option \<times> indirect list \<times> 'a fs) option" where
  "alloc_branch env offsets first fs =
     (let (parent, fs) = minix_new_block env fs; first = first\<lparr>key := parent\<rparr> in
      if parent = 0 then Some (Some ENOSPC, [], fs)
      else
        map_option (\<lambda>(all, branch, fs).
            if all then (None, branch, fs) else (Some ENOSPC, [], free_branch env branch fs))
          (alloc_more env (tl offsets) parent [first] fs))"

text \<open>The chain before the place, and the new branch, whose first triple is the place.\<close>

definition splice_branch :: "('a, 'e) minix_env_scheme \<Rightarrow> indirect list \<Rightarrow> indirect list \<Rightarrow> 'a fs
    \<Rightarrow> fs_error option \<times> 'a fs" where
  "splice_branch env chain branch fs =
     (let w = hd branch in
      if \<not> verify_chain env fs chain \<or> rd fs (p w) \<noteq> 0
      then (Some EAGAIN, free_branch env branch fs)
      else (None, wr (p w) (key w) fs))"

section \<open>The mapping\<close>

text \<open>The error, the block mapped to the buffer, and the mark of a new one.\<close>

partial_function (option) get_block_path :: "('a, 'e) minix_env_scheme \<Rightarrow> nat list \<Rightarrow> bool \<Rightarrow> 'a fs
    \<Rightarrow> (fs_error option \<times> nat option \<times> bool \<times> 'a fs) option" where
  "get_block_path env offsets create fs =
     (let (chain, full, err, fs) = get_branch env offsets fs in
      if full then Some (err, Some (key (last chain)), False, fs)
      else if \<not> create \<or> err = Some EIO then Some (err, None, False, fs)
      else if err = Some EAGAIN then get_block_path env offsets create fs
      else
        Option.bind (alloc_branch env (drop (length chain - 1) offsets) (last chain) fs) (\<lambda>(err, branch, fs).
          if err \<noteq> None then Some (err, None, False, fs)
          else
            let (err, fs) = splice_branch env (butlast chain) branch fs in
            if err \<noteq> None then get_block_path env offsets create fs
            else Some (None, Some (key (last branch)), True, fs)))"

definition get_block :: "('a, 'e) minix_env_scheme \<Rightarrow> minix_sb \<Rightarrow> int \<Rightarrow> bool \<Rightarrow> 'a fs
    \<Rightarrow> (fs_error option \<times> nat option \<times> bool \<times> 'a fs) option" where
  "get_block env sb block create fs =
     (let offsets = block_to_path sb block in
      if offsets = [] then Some (Some EIO, None, False, fs) else get_block_path env offsets create fs)"

section \<open>The paths are a numbering\<close>

text \<open>The blocks below the maximal size, which is a 32 bit number in the super block.\<close>

definition minix_capacity :: "minix_sb \<Rightarrow> nat" where
  "minix_capacity sb =
     (if s_blocksize sb = 0 \<or> s_max_size sb \<ge> 2 ^ 64 then 0 else (s_max_size sb + s_blocksize sb - 1) div s_blocksize sb)"

lemma minix_capacity_bound:
  assumes "b < minix_capacity sb"
  shows "b * s_blocksize sb < s_max_size sb" "s_max_size sb < 2 ^ 64"
proof -
  let ?s = "s_blocksize sb"
  have s: "0 < ?s" "s_max_size sb < 2 ^ 64" "Suc b \<le> (s_max_size sb + ?s - 1) div ?s"
    using assms by (auto simp: minix_capacity_def split: if_splits)
  have "Suc b * ?s \<le> (s_max_size sb + ?s - 1) div ?s * ?s" using s(3) by (rule mult_le_mono1)
  also have "\<dots> \<le> s_max_size sb + ?s - 1" by (rule div_times_less_eq_dividend)
  finally show "b * ?s < s_max_size sb" using s(1) by simp
  show "s_max_size sb < 2 ^ 64" by (rule s(2))
qed

lemma minix_accepts:
  assumes "b < minix_capacity sb"
  shows "\<not> (of_int (int b) :: u64) * of_nat (s_blocksize sb) \<ge> of_nat (s_max_size sb)"
proof -
  have "(of_int (int b) :: u64) * of_nat (s_blocksize sb) = of_nat (b * s_blocksize sb)" by simp
  moreover have "b * s_blocksize sb < 2 ^ 64" using minix_capacity_bound [OF assms] by (rule less_trans)
  ultimately show ?thesis
    using minix_capacity_bound [OF assms] by (simp add: word_le_nat_alt unat_of_nat del: of_nat_mult)
qed

text \<open>The block back from its path.\<close>

fun path_block :: "nat \<Rightarrow> nat list \<Rightarrow> nat" where
  "path_block n [x] = x"
| "path_block n [a, x] = DIRCOUNT + x"
| "path_block n [a, x, y] = DIRCOUNT + n + x * n + y"
| "path_block n [a, x, y, z] = DIRCOUNT + n + n * n + (x * n + y) * n + z"
| "path_block n _ = 0"

lemma path_shape:
  assumes "b < minix_capacity sb"
  shows "path_block (INDIRCOUNT sb) (block_to_path sb (int b)) = b"
    and "block_to_path sb (int b) \<noteq> []"
    and "length (block_to_path sb (int b)) = Suc (hd (block_to_path sb (int b)) - (DIRCOUNT - 1))"
proof -
  let ?n = "INDIRCOUNT sb" and ?p = "block_to_path sb (int b)"
  define q where "q = b - DIRCOUNT - ?n"
  define r where "r = q - ?n * ?n"
  have *: "?p = (if b < DIRCOUNT then [b] else if b - DIRCOUNT < ?n then [DIRCOUNT, b - DIRCOUNT]
      else if q < ?n * ?n then [DIRCOUNT + 1, q div ?n, q mod ?n]
      else [DIRCOUNT + 2, (r div ?n) div ?n, (r div ?n) mod ?n, r mod ?n])"
    using minix_accepts [OF assms] by (simp add: block_to_path_def Let_def q_def r_def)
  consider "b < DIRCOUNT" | "\<not> b < DIRCOUNT" "b - DIRCOUNT < ?n"
    | "\<not> b < DIRCOUNT" "\<not> b - DIRCOUNT < ?n" "q < ?n * ?n" | "\<not> b < DIRCOUNT" "\<not> b - DIRCOUNT < ?n" "\<not> q < ?n * ?n"
    by blast
  then have "path_block ?n ?p = b \<and> ?p \<noteq> [] \<and> length ?p = Suc (hd ?p - (DIRCOUNT - 1))"
  proof cases
    case 3
    then have "b = DIRCOUNT + ?n + q" by (simp add: q_def)
    with 3 show ?thesis unfolding * by (simp add: add.assoc)
  next
    case 4
    then have "b = DIRCOUNT + ?n + ?n * ?n + r" by (simp add: q_def r_def)
    with 4 show ?thesis unfolding * by (simp add: add.assoc)
  qed (simp_all add: *)
  then show "path_block ?n ?p = b" "?p \<noteq> []" "length ?p = Suc (hd ?p - (DIRCOUNT - 1))" by blast+
qed

interpretation minix: block_paths "\<lambda>b. block_to_path sb (int b)" "minix_capacity sb" for sb
proof
  fix b c assume b: "b < minix_capacity sb" and c: "c < minix_capacity sb"
    and p: "prefix (block_to_path sb (int b)) (block_to_path sb (int c))"
  obtain zs where zs: "block_to_path sb (int c) = block_to_path sb (int b) @ zs" using p by (auto elim: prefixE)
  then have "hd (block_to_path sb (int c)) = hd (block_to_path sb (int b))" using path_shape(2) [OF b] by simp
  then have "length (block_to_path sb (int c)) = length (block_to_path sb (int b))"
    using path_shape(3) [OF b] path_shape(3) [OF c] by simp
  then have "zs = []" using zs by simp
  then show "b = c" using zs path_shape(1) [OF b] path_shape(1) [OF c] by simp
qed (rule path_shape(2))

section \<open>The allocation of a branch\<close>

text \<open>What the allocator of the repository's callers documents: a new block is 0 or was not in use.\<close>

definition minix_alloc_ok :: "('a, 'e) minix_env_scheme \<Rightarrow> ('a \<Rightarrow> nat set) \<Rightarrow> bool" where
  "minix_alloc_ok env used \<longleftrightarrow>
     (\<forall>fs. case minix_new_block env fs of (nr, fs') \<Rightarrow>
        i_data fs' = i_data fs \<and> blks fs' = blks fs
        \<and> (if nr = 0 then used (alloc_state fs') = used (alloc_state fs)
           else nr \<notin> used (alloc_state fs) \<and> used (alloc_state fs') = insert nr (used (alloc_state fs))))
   \<and> (\<forall>b fs. let fs' = minix_free_block env b fs in
        i_data fs' = i_data fs \<and> blks fs' = blks fs \<and> used (alloc_state fs') = used (alloc_state fs) - {b})"

lemma minix_new_blockD:
  assumes "minix_alloc_ok env used" "minix_new_block env fs = (nr, fs')"
  shows "i_data fs' = i_data fs" "blks fs' = blks fs"
    "nr = 0 \<Longrightarrow> used (alloc_state fs') = used (alloc_state fs)"
    "nr \<noteq> 0 \<Longrightarrow> nr \<notin> used (alloc_state fs)" "nr \<noteq> 0 \<Longrightarrow> used (alloc_state fs') = insert nr (used (alloc_state fs))"
proof -
  have "case minix_new_block env fs of (nr, fs') \<Rightarrow>
      i_data fs' = i_data fs \<and> blks fs' = blks fs
      \<and> (if nr = 0 then used (alloc_state fs') = used (alloc_state fs)
         else nr \<notin> used (alloc_state fs) \<and> used (alloc_state fs') = insert nr (used (alloc_state fs)))"
    using conjunct1 [OF assms(1) [unfolded minix_alloc_ok_def]] by (rule spec)
  then show "i_data fs' = i_data fs" "blks fs' = blks fs" "nr = 0 \<Longrightarrow> used (alloc_state fs') = used (alloc_state fs)"
    "nr \<noteq> 0 \<Longrightarrow> nr \<notin> used (alloc_state fs)" "nr \<noteq> 0 \<Longrightarrow> used (alloc_state fs') = insert nr (used (alloc_state fs))"
    by (simp_all add: assms(2) split: if_splits)
qed

lemma free_branch_ok:
  assumes "minix_alloc_ok env used"
  shows "i_data (free_branch env branch fs) = i_data fs" "blks (free_branch env branch fs) = blks fs"
    "used (alloc_state (free_branch env branch fs)) = used (alloc_state fs) - key ` set branch"
proof -
  have f: "i_data (minix_free_block env b fs) = i_data fs \<and> blks (minix_free_block env b fs) = blks fs
      \<and> used (alloc_state (minix_free_block env b fs)) = used (alloc_state fs) - {b}" for b fs
    using assms unfolding minix_alloc_ok_def Let_def by blast
  have "i_data (free_branch env branch fs) = i_data fs \<and> blks (free_branch env branch fs) = blks fs
      \<and> used (alloc_state (free_branch env branch fs)) = used (alloc_state fs) - key ` set branch"
    unfolding free_branch_def by (induction branch arbitrary: fs) (use f in auto)
  then show "i_data (free_branch env branch fs) = i_data fs" "blks (free_branch env branch fs) = blks fs"
    "used (alloc_state (free_branch env branch fs)) = used (alloc_state fs) - key ` set branch" by blast+
qed

text \<open>The blocks \<open>ns\<close> of the chain below \<open>parent\<close>.\<close>

lemma alloc_more_ok:
  assumes a: "minix_alloc_ok env used" and buf: "\<forall>b fs. sb_getblk env b fs"
  shows "parent \<in> used (alloc_state fs) \<Longrightarrow>
    \<exists>all branch' fs' ns. alloc_more env offs parent branch fs = Some (all, branch @ branch', fs')
      \<and> map key branch' = ns \<and> length ns \<le> length offs \<and> (all \<longleftrightarrow> length ns = length offs)
      \<and> distinct ns \<and> set ns \<inter> used (alloc_state fs) = {} \<and> 0 \<notin> set ns
      \<and> used (alloc_state fs') = used (alloc_state fs) \<union> set ns \<and> i_data fs' = i_data fs
      \<and> (\<forall>v. v \<notin> set (butlast (parent # ns)) \<longrightarrow> blks fs' v = blks fs v)
      \<and> (\<forall>i<length ns. blks fs' ((parent # ns) ! i) = (\<lambda>_. 0)(offs ! i := ns ! i))"
proof (induction offs arbitrary: parent branch fs)
  case Nil
  then show ?case by (intro exI [of _ True] exI [of _ "[]"] exI [of _ fs]) simp
next
  case (Cons off offs)
  obtain nr fs1 where n: "minix_new_block env fs = (nr, fs1)" by fastforce
  note new = minix_new_blockD [OF a n]
  show ?case
  proof (cases "nr = 0")
    case True
    then show ?thesis using n new(1-3) by (intro exI [of _ False] exI [of _ "[]"] exI [of _ fs1]) simp
  next
    case False
    define fs2 where "fs2 = fs1\<lparr>blks := (blks fs1)(parent := (\<lambda>_. 0)(off := nr))\<rparr>"
    define t where "t = \<lparr>p = InBlock parent off, key = nr, bh = Some parent\<rparr>"
    have u2: "used (alloc_state fs2) = insert nr (used (alloc_state fs))" using new(5) False by (simp add: fs2_def)
    have "nr \<in> used (alloc_state fs2)" by (simp add: u2)
    from Cons.IH [OF this, of "branch @ [t]"] obtain all branch' fs' ns where
      ih: "alloc_more env offs nr (branch @ [t]) fs2 = Some (all, (branch @ [t]) @ branch', fs')"
        "map key branch' = ns" "length ns \<le> length offs" "all \<longleftrightarrow> length ns = length offs"
        "distinct ns" "set ns \<inter> used (alloc_state fs2) = {}" "0 \<notin> set ns"
        "used (alloc_state fs') = used (alloc_state fs2) \<union> set ns" "i_data fs' = i_data fs2"
        "\<forall>v. v \<notin> set (butlast (nr # ns)) \<longrightarrow> blks fs' v = blks fs2 v"
        "\<forall>i<length ns. blks fs' ((nr # ns) ! i) = (\<lambda>_. 0)(offs ! i := ns ! i)" by blast
    have e: "alloc_more env (off # offs) parent branch fs = Some (all, branch @ (t # branch'), fs')"
      using n False buf ih(1) by (simp add: fs2_def t_def)
    have par: "parent \<notin> set (nr # ns)" using Cons.prems new(4) False ih(6) u2 by auto
    have "blks fs' parent = (\<lambda>_. 0)(off := nr)" using ih(10) par in_set_butlastD by (fastforce simp: fs2_def)
    moreover have "blks fs' v = blks fs v" if "v \<notin> set (butlast (parent # nr # ns))" for v
      using ih(10) that new(2) by (auto simp: fs2_def)
    moreover have "blks fs' ((parent # nr # ns) ! i) = (\<lambda>_. 0)((off # offs) ! i := (nr # ns) ! i)" if "i < Suc (length ns)" for i
      using that ih(11) calculation(1) by (cases i) auto
    ultimately show ?thesis
      using e ih(2-9) False new(4) u2 new(1) Cons.prems
      by (intro exI [of _ all] exI [of _ "t # branch'"] exI [of _ fs'] exI [of _ "nr # ns"])
        (auto simp: t_def fs2_def)
  qed
qed

lemma alloc_branch_ok:
  assumes a: "minix_alloc_ok env used" and buf: "\<forall>b fs. sb_getblk env b fs" and offs: "offsets \<noteq> []"
  obtains (nospace) fs' where "alloc_branch env offsets first fs = Some (Some ENOSPC, [], fs')"
      "i_data fs' = i_data fs" "\<forall>v\<in>used (alloc_state fs). blks fs' v = blks fs v"
      "used (alloc_state fs') = used (alloc_state fs)"
    | (branch) branch fs' ns where "alloc_branch env offsets first fs = Some (None, branch, fs')"
      "map key branch = ns" "p (hd branch) = p first" "length ns = length offsets" "distinct ns"
      "set ns \<inter> used (alloc_state fs) = {}" "0 \<notin> set ns" "used (alloc_state fs') = used (alloc_state fs) \<union> set ns"
      "i_data fs' = i_data fs" "\<forall>v\<in>used (alloc_state fs). blks fs' v = blks fs v"
      "\<forall>i<length ns - 1. blks fs' (ns ! i) = (\<lambda>_. 0)(offsets ! Suc i := ns ! Suc i)"
proof -
  obtain parent fs1 where n: "minix_new_block env fs = (parent, fs1)" by fastforce
  note new = minix_new_blockD [OF a n]
  show thesis
  proof (cases "parent = 0")
    case True
    then show thesis using n new by (intro nospace [of fs1]) (simp_all add: alloc_branch_def)
  next
    case False
    let ?first = "first\<lparr>key := parent\<rparr>"
    have par: "parent \<in> used (alloc_state fs1)" using new(5) False by simp
    from alloc_more_ok [OF a buf par, of "tl offsets" "[?first]"] obtain all more fs2 ns where
      more: "alloc_more env (tl offsets) parent [?first] fs1 = Some (all, [?first] @ more, fs2)" "map key more = ns"
      "all \<longleftrightarrow> length ns = length (tl offsets)" "distinct ns" "set ns \<inter> used (alloc_state fs1) = {}" "0 \<notin> set ns"
      "used (alloc_state fs2) = used (alloc_state fs1) \<union> set ns" "i_data fs2 = i_data fs1"
      "\<forall>v. v \<notin> set (butlast (parent # ns)) \<longrightarrow> blks fs2 v = blks fs1 v"
      "\<forall>i<length ns. blks fs2 ((parent # ns) ! i) = (\<lambda>_. 0)(tl offsets ! i := ns ! i)" by blast
    have u: "used (alloc_state fs1) = insert parent (used (alloc_state fs))" using new(5) False by simp
    have old: "blks fs2 v = blks fs v" if "v \<in> used (alloc_state fs)" for v
    proof -
      have "v \<notin> set (parent # ns)" using that new(4) False more(5) u by auto
      then have "v \<notin> set (butlast (parent # ns))" using in_set_butlastD by fast
      then show ?thesis using more(9) new(2) by simp
    qed
    show thesis
    proof (cases all)
      case False
      let ?fs' = "free_branch env (?first # more) fs2"
      have e: "alloc_branch env offsets first fs = Some (Some ENOSPC, [], ?fs')"
        using n \<open>parent \<noteq> 0\<close> more(1) False by (simp add: alloc_branch_def)
      have "key ` set (?first # more) = insert parent (set ns)" using more(2) by auto
      then have "used (alloc_state ?fs') = used (alloc_state fs)"
        unfolding free_branch_ok(3) [OF a] more(7) u using new(4) \<open>parent \<noteq> 0\<close> more(5) u by auto
      then show thesis
        using e old new(1) more(8) by (intro nospace [of ?fs']) (simp_all add: free_branch_ok(1,2) [OF a])
    next
      case True
      have e: "alloc_branch env offsets first fs = Some (None, ?first # more, fs2)"
        using n \<open>parent \<noteq> 0\<close> more(1) True by (simp add: alloc_branch_def)
      have l: "length (parent # ns) = length offsets" using offs True more(3) by (cases offsets) auto
      have i: "\<forall>i<length (parent # ns) - 1. blks fs2 ((parent # ns) ! i) = (\<lambda>_. 0)(offsets ! Suc i := (parent # ns) ! Suc i)"
        using more(10) offs by (cases offsets) auto
      show thesis
        by (rule branch [OF e _ _ l _ _ _ _ _ _ i]) (use more(2,4-8) u new(1,4) old False \<open>parent \<noteq> 0\<close> in auto)
    qed
  qed
qed

section \<open>What the mapping does\<close>

text \<open>A new branch that was spliced in at the missing place.\<close>

lemma spliced_single:
  assumes tree: "tree_ok P used fs" and P: "prefix_closed P" "offs \<in> P" "offs \<noteq> []" "\<And>off. offs @ [off] \<notin> P"
    and c: "chain_of fs offs chain" and missing: "key (last chain) = 0"
    and ns: "length ns = length offs - (length chain - 1)" "distinct ns" "set ns \<inter> used = {}" "0 \<notin> set ns"
    and fs1: "i_data fs1 = i_data fs" "\<forall>v\<in>used. blks fs1 v = blks fs v"
      "\<forall>i<length ns - 1. blks fs1 (ns ! i) = (\<lambda>_. 0)(drop (length chain - 1) offs ! Suc i := ns ! Suc i)"
  shows "new_branch P used fs (wr (p (last chain)) (hd ns) fs1) offs (length chain) (butlast ns) (last ns) 1"
proof -
  let ?n = "length chain"
  have n: "0 < ?n" "?n \<le> length offs" using chain_ofD(1,2) [OF c] by auto
  then have "length chain - 1 < length offs" by linarith
  then have ne: "ns \<noteq> []" using ns(1) by auto
  have all: "butlast ns @ map ((+) (last ns)) [0..<1] = ns" using ne by simp
  have sib: "butlast offs @ [last offs] = offs" using P(3) by simp
  have fs': "wr (p (last chain)) (hd ns) fs1
      = (if butlast ns = [] then write_run (p (last chain)) (last ns) 1 fs1 else wr (p (last chain)) (hd (butlast ns)) fs1)"
    using ne by (cases ns rule: rev_cases) (simp_all add: write_run_1 hd_append)
  have "blks fs1 (butlast ns ! i) = (if Suc i < length (butlast ns) then (\<lambda>_. 0)(offs ! (?n + i) := butlast ns ! Suc i)
      else (\<lambda>off. if last offs \<le> off \<and> off < last offs + 1 then last ns + (off - last offs) else 0))"
    if i: "i < length (butlast ns)" for i
  proof -
    have "?n - 1 + Suc i = ?n + i" using n(1) by linarith
    moreover have "?n - 1 \<le> length offs" using n(2) by linarith
    ultimately have d: "drop (?n - 1) offs ! Suc i = offs ! (?n + i)" using nth_drop [of "?n - 1" offs "Suc i"] by (simp only:)
    have b: "blks fs1 (butlast ns ! i) = (\<lambda>_. 0)(offs ! (?n + i) := ns ! Suc i)" 
    proof -
      have "i < length ns - 1" "butlast ns ! i = ns ! i" using i by (simp_all add: nth_butlast)
      then show ?thesis using fs1(3) unfolding d [symmetric] by simp
    qed
    show ?thesis
    proof (cases "Suc i < length (butlast ns)")
      case True
      then show ?thesis using b by (simp add: nth_butlast)
    next
      case False
      then have "ns ! Suc i = last ns" "offs ! (?n + i) = last offs"
        using i ns(1) n ne P(3) by (simp_all add: last_conv_nth) (rule arg_cong [where f = "(!) _"]; linarith)+
      then show ?thesis unfolding b using False by (auto simp: fun_eq_iff)
    qed
  qed
  moreover have "butlast offs @ [last offs + i] \<in> P" "butlast offs @ [last offs + i, off] \<notin> P"
    "?n = length offs \<Longrightarrow> val fs (butlast offs @ [last offs + i]) = 0" if "i < 1" for i off
  proof -
    have "i = 0" using that by simp
    moreover have "offs @ [off] = butlast offs @ [last offs, off]" by (subst sib [symmetric]) simp
    moreover note P(4) [of off, unfolded this]
    ultimately show "butlast offs @ [last offs + i] \<in> P" "butlast offs @ [last offs + i, off] \<notin> P"
      "?n = length offs \<Longrightarrow> val fs (butlast offs @ [last offs + i]) = 0"
      using P(2) sib missing chain_of_last(1) [OF c] by simp_all
  qed
  moreover have "length (butlast ns) = length offs - ?n" using ns(1) n(1) by (simp only: length_butlast)
  moreover note fs1(2)
  ultimately show ?thesis
    unfolding fs' by (intro spliced_branch [OF tree P(1,2) c missing]) (simp_all only: all ns(2-4) fs1(1) not_False_eq_True)
qed

context block_paths
begin

lemma get_block_path_maps:
  assumes q: "quiet env" and a: "minix_alloc_ok env used" and buf: "\<forall>b fs. sb_getblk env b fs" and b: "b < capacity"
    and tree: "tree_ok (places path capacity) (used (alloc_state fs)) fs"
  shows "case get_block_path env (path b) create fs of None \<Rightarrow> False
    | Some (err, mapped, new, fs') \<Rightarrow>
        tree_ok (places path capacity) (used (alloc_state fs')) fs'
        \<and> (\<forall>c<capacity. c \<noteq> b \<longrightarrow> val fs' (path c) = val fs (path c))
        \<and> (case mapped of
             None \<Rightarrow> val fs' (path b) = val fs (path b) \<and> used (alloc_state fs') = used (alloc_state fs) \<and> (create \<longrightarrow> err \<noteq> None)
           | Some blk \<Rightarrow> err = None \<and> blk \<noteq> 0 \<and> val fs' (path b) = blk
               \<and> (if val fs (path b) = 0 then new \<and> create \<and> blk \<notin> used (alloc_state fs) else \<not> new \<and> fs' = fs))"
    (is "case ?res of None \<Rightarrow> False | Some (err, mapped, new, fs') \<Rightarrow> ?post err mapped new fs'")
proof -
  let ?offs = "path b" and ?P = "places path capacity"
  note ne = path_nonempty [OF b] and pl = path_place [OF b]
  obtain chain full err fs1 where g: "get_branch env ?offs fs = (chain, full, err, fs1)" by (metis prod_cases4)
  note gb = get_branch_quiet [OF q ne g]
  then have fs1: "fs1 = fs" and c: "chain_of fs ?offs chain" by blast+
  have kept: "?post e None False fs'" if "i_data fs' = i_data fs" "\<forall>v\<in>used (alloc_state fs). blks fs' v = blks fs v"
      "used (alloc_state fs') = used (alloc_state fs)" "create \<longrightarrow> e \<noteq> None" for e fs'
  proof -
    have v: "val fs' \<pi> = val fs \<pi>" if "\<pi> \<in> ?P" for \<pi> using values_kept [OF \<open>i_data fs' = _\<close> \<open>\<forall>v\<in>_. _\<close> tree that] .
    have "tree_ok ?P (used (alloc_state fs')) fs'" using tree v that(3) by (simp add: tree_ok_def)
    then show ?thesis using v path_place b that(3,4) by simp
  qed
  have unfold: "?res =
     (if full then Some (err, Some (key (last chain)), False, fs)
      else if \<not> create \<or> err = Some EIO then Some (err, None, False, fs)
      else if err = Some EAGAIN then get_block_path env ?offs create fs
      else
        Option.bind (alloc_branch env (drop (length chain - 1) ?offs) (last chain) fs) (\<lambda>(err, branch, fs).
          if err \<noteq> None then Some (err, None, False, fs)
          else
            let (err, fs) = splice_branch env (butlast chain) branch fs in
            if err \<noteq> None then get_block_path env ?offs create fs
            else Some (None, Some (key (last branch)), True, fs)))"
    by (subst get_block_path.simps) (simp add: g fs1)
  consider (full) "full" | (stop) "\<not> full" "\<not> create \<or> err = Some EIO" | (alloc) "\<not> full" "create" "err = None" "key (last chain) = 0"
    using gb by (cases full) auto
  then show ?thesis
  proof cases
    case full
    then have "?res = Some (None, Some (key (last chain)), False, fs)" "length chain = length ?offs" "key (last chain) \<noteq> 0"
      using gb fs1 by (subst unfold, simp_all)
    then show ?thesis using chain_of_last(1) [OF c] tree by simp
  next
    case stop
    then have "?res = Some (err, None, False, fs)" by (subst unfold) simp
    then show ?thesis using kept [of fs err] stop(2) by auto
  next
    case alloc
    let ?w = "last chain" and ?offsets = "drop (length chain - 1) ?offs"
    have offs: "?offsets \<noteq> []" using chain_ofD(1,2) [OF c] ne by (cases chain) auto
    show ?thesis
    proof (rule alloc_branch_ok [OF a buf offs, of ?w fs])
      fix fs' assume "alloc_branch env ?offsets ?w fs = Some (Some ENOSPC, [], fs')" and k: "i_data fs' = i_data fs"
        "\<forall>v\<in>used (alloc_state fs). blks fs' v = blks fs v" "used (alloc_state fs') = used (alloc_state fs)"
      then have "?res = Some (Some ENOSPC, None, False, fs')"
        using alloc by (subst unfold) simp
      then show ?thesis using kept [OF k, of "Some ENOSPC"] k(3) by simp
    next
      fix branch fs2 ns assume e: "alloc_branch env ?offsets ?w fs = Some (None, branch, fs2)"
        and br: "map key branch = ns" "p (hd branch) = p ?w"
        and ns: "length ns = length ?offsets" "distinct ns" "set ns \<inter> used (alloc_state fs) = {}" "0 \<notin> set ns"
        and u: "used (alloc_state fs2) = used (alloc_state fs) \<union> set ns"
        and k: "i_data fs2 = i_data fs" "\<forall>v\<in>used (alloc_state fs). blks fs2 v = blks fs v"
          "\<forall>i<length ns - 1. blks fs2 (ns ! i) = (\<lambda>_. 0)(?offsets ! Suc i := ns ! Suc i)"
      let ?fs' = "wr (p ?w) (hd ns) fs2"
      have ns_ne: "ns \<noteq> []" using ns(1) offs by auto
      have "length ns = length ?offs - (length chain - 1)" using ns(1) by simp
      note B = spliced_single [OF tree places_closed(1) pl ne path_leaf [OF b] c alloc(4) this ns(2-4) k]
      note G = new_branch.branch_grafts [OF B]
      have rd: "rd fs2 (p (chain ! i)) = key (chain ! i)" if "i < length chain" for i
        using chain_rd_kept [OF tree places_closed(1) pl c k(1,2) that] .
      have "list_all (\<lambda>c. rd fs2 (p c) = key c) (butlast chain)"
        unfolding list_all_length using rd by (simp add: nth_butlast)
      then have "verify_chain env fs2 (butlast chain)" using q unfolding quiet_def by blast
      moreover have "rd fs2 (p ?w) = 0" using rd [of "length chain - 1"] alloc(4) chain_ofD(1) [OF c] by (simp add: last_conv_nth)
      moreover have br_ne: "branch \<noteq> []" using br(1) ns_ne by auto
      moreover have "key (hd branch) = hd ns" "key (last branch) = last ns"
        using br(1) br_ne by (auto simp: hd_map last_map)
      ultimately have res: "?res = Some (None, Some (last ns), True, ?fs')"
        using alloc e br(2) by (subst unfold) (simp add: splice_branch_def Let_def)
      have st: "alloc_state ?fs' = alloc_state fs2" by (cases "p ?w") simp_all
      have "val fs ?offs = 0" using new_branch.missing_below [OF B, of "length ?offs"] chain_ofD(2) [OF c] by simp
      moreover have "last ns \<noteq> 0" "last ns \<notin> used (alloc_state fs)"
        using ns(3,4) last_in_set [OF ns_ne] by (metis, blast)
      moreover have "val ?fs' ?offs = last ns"
        unfolding grafts_val [OF G places_closed(1) pl ne] using ne by (simp add: branch_map_def)
      moreover have "tree_ok ?P (used (alloc_state ?fs')) ?fs'"
      proof (rule grafts_tree_ok [OF tree G places_closed])
        show "used (alloc_state fs) \<union> ran (branch_map ?offs (length chain) (butlast ns) (last ns) 1) \<subseteq> used (alloc_state ?fs')"
          using new_branch.ran_G [OF B] ns_ne by (simp add: st u) blast
      qed
      moreover have "val ?fs' (path c) = val fs (path c)" if "c < capacity" "c \<noteq> b" for c
      proof -
        have "branch_map ?offs (length chain) (butlast ns) (last ns) 1 (path c) = None"
        proof (rule ccontr)
          assume "branch_map ?offs (length chain) (butlast ns) (last ns) 1 (path c) \<noteq> None"
          then obtain x where "branch_map ?offs (length chain) (butlast ns) (last ns) 1 (path c) = Some x" by blast
          then have "prefix (path c) ?offs"
          proof (rule new_branch.G_cases [OF B])
            fix k assume "path c = take k ?offs"
            then show ?thesis by (simp add: take_is_prefix)
          next
            fix i assume "path c = butlast ?offs @ [last ?offs + i]" "i < 1"
            then show ?thesis using ne by simp
          qed
          then show False using path_prefix [OF that(1) b] that(2) by blast
        qed
        then show ?thesis
          unfolding grafts_val [OF G places_closed(1) path_place [OF that(1)] path_nonempty [OF that(1)]] by simp
      qed
      ultimately show ?thesis unfolding res using alloc(2) by simp
    qed
  qed
qed

end


section \<open>A small file system\<close>

definition demo_minix_env :: "nat list minix_env" where
  "demo_minix_env = \<lparr>sb_bread = (\<lambda>b fs. (True, fs)), verify_chain = (\<lambda>fs chain. list_all (\<lambda>c. rd fs (p c) = key c) chain),
     sb_getblk = (\<lambda>_ _. True),
     minix_new_block = (\<lambda>fs. let nr = Suc (sum_list (alloc_state fs)) in (nr, fs\<lparr>alloc_state := nr # alloc_state fs\<rparr>)),
     minix_free_block = (\<lambda>b fs. fs\<lparr>alloc_state := removeAll b (alloc_state fs)\<rparr>)\<rparr>"

definition demo_minix_sb :: minix_sb where
  "demo_minix_sb = \<lparr>s_blocksize = 1024, s_blocksize_bits = 10, s_max_size = 0x7FFFFFFF\<rparr>"

definition empty_fs :: "nat list fs" where
  "empty_fs = \<lparr>i_data = (\<lambda>_. 0), blks = (\<lambda>_ _. 0), alloc_state = []\<rparr>"

lemma demo_minix_env_ok: "quiet demo_minix_env" "minix_alloc_ok demo_minix_env set"
proof -
  have "x \<in> set xs \<Longrightarrow> x \<le> sum_list xs" for x :: nat and xs by (simp add: member_le_sum_list)
  then have "Suc (sum_list xs) \<notin> set xs" for xs :: "nat list" by (metis Suc_n_not_le_n)
  then show "minix_alloc_ok demo_minix_env set" by (simp add: minix_alloc_ok_def demo_minix_env_def Let_def)
qed (simp add: quiet_def demo_minix_env_def)

lemma empty_fs_ok: "tree_ok P used empty_fs"
proof -
  have "walk empty_fs 0 \<pi> = 0" for \<pi> by simp
  then have "val empty_fs \<pi> = 0" for \<pi> by (cases \<pi>) (simp_all add: empty_fs_def)
  then show ?thesis by (simp add: tree_ok_def)
qed


end
