(* ===== verification/LinuxExt2.thy ===== *)
theory LinuxExt2
  imports LinuxBlockTree
begin

text \<open>
  The mapping of the blocks of an ext2 file (\<^verbatim>\<open>linux/fs/ext2/get_block.c\<close>) and the allocation of the blocks of
  a branch (\<^verbatim>\<open>ext2_alloc_blocks\<close> in the file of the block allocator): paths of up to four offsets, runs of
  consecutive blocks mapped or allocated at once, and the reread of a chain under the truncate lock.
  \<^verbatim>\<open>EXT2_ADDR_PER_BLOCK\<close> is \<^verbatim>\<open>2 ^ EXT2_ADDR_PER_BLOCK_BITS\<close>.  \<^const>\<open>None\<close> stands for an allocator that never
  gives a data block.
\<close>

unbundle bit_operations_syntax

section \<open>Paths\<close>

text \<open>The path of a block, and the number of blocks up to the end of its pointer block.\<close>

definition ext2_block_to_path :: "nat \<Rightarrow> int \<Rightarrow> nat list \<times> int" where
  "ext2_block_to_path ptrs_bits i_block =
     (let ptrs = 2 ^ ptrs_bits; direct_blocks = 12; indirect_blocks = ptrs; double_blocks = 2 ^ (ptrs_bits * 2);
          boundary = (\<lambda>final i. final - 1 - (i AND (ptrs - 1)))
      in if i_block < 0 then ([], boundary 0 i_block)
         else if i_block < direct_blocks then ([nat i_block], boundary direct_blocks i_block)
         else let i = i_block - direct_blocks in
         if i < indirect_blocks then ([12, nat i], boundary ptrs i)
         else let i = i - indirect_blocks in
         if i < double_blocks then ([13, nat (drop_bit ptrs_bits i), nat (i AND (ptrs - 1))], boundary ptrs i)
         else let i = i - double_blocks in
         if drop_bit (ptrs_bits * 2) i < ptrs
         then ([14, nat (drop_bit (ptrs_bits * 2) i), nat (drop_bit ptrs_bits i AND (ptrs - 1)), nat (i AND (ptrs - 1))],
               boundary ptrs i)
         else ([], boundary 0 i))"

section \<open>Allocation of a branch\<close>

text \<open>Besides the tree, what the code calls: the allocator of runs of blocks with its error, the end of an
  allocation, the goal near a place, the splice, the flags of the inode.  The allocation info is the last
  logical and physical block allocated.\<close>

type_synonym alloc_info = "(nat \<times> nat) option"

record 'a ext2_env = "'a fs_env" +
  ext2_new_blocks :: "nat \<Rightarrow> nat \<Rightarrow> 'a fs \<Rightarrow> fs_error option \<times> nat \<times> nat \<times> 'a fs"
  ext2_free_blocks :: "nat \<Rightarrow> nat \<Rightarrow> 'a fs \<Rightarrow> 'a fs"
  ext2_find_near :: "'a fs \<Rightarrow> indirect list \<Rightarrow> nat"
  ext2_init_block_alloc_info :: "nat \<times> nat"
  ext2_splice_branch :: "int \<Rightarrow> indirect \<Rightarrow> nat \<Rightarrow> nat \<Rightarrow> alloc_info \<times> 'a fs \<Rightarrow> alloc_info \<times> 'a fs"
  is_reg :: bool
  is_dax :: bool
  sb_issue_zeroout :: "nat \<Rightarrow> nat \<Rightarrow> fs_error option"

definition ext2_find_goal :: "('a, 'e) ext2_env_scheme \<Rightarrow> alloc_info \<Rightarrow> int \<Rightarrow> 'a fs \<Rightarrow> indirect list \<Rightarrow> nat" where
  "ext2_find_goal env info block fs chain =
     (case info of
        Some (last_logical, last_physical) \<Rightarrow>
          if block = int ((last_logical + 1) mod 2 ^ 32) \<and> last_physical \<noteq> 0 then (last_physical + 1) mod 2 ^ 32
          else ext2_find_near env fs chain
      | None \<Rightarrow> ext2_find_near env fs chain)"

text \<open>The walk along the free pointers behind the place; the first argument is the number of blocks left.\<close>

fun free_run :: "'a fs \<Rightarrow> slot \<Rightarrow> int \<Rightarrow> nat \<Rightarrow> nat \<Rightarrow> nat" where
  "free_run fs s boundary 0 count = count"
| "free_run fs s boundary (Suc n) count =
     (if int count \<le> boundary \<and> rd fs (slot_add s count) = 0 then free_run fs s boundary n (count + 1) else count)"

definition ext2_blks_to_allocate :: "'a fs \<Rightarrow> slot \<Rightarrow> nat \<Rightarrow> nat \<Rightarrow> int \<Rightarrow> nat" where
  "ext2_blks_to_allocate fs s k n boundary =
     (if k > 0 then (if n < nat (boundary + 1) then n else nat (boundary + 1))
      else free_run fs s boundary (n - 1) 1)"

text \<open>The loop of \<^verbatim>\<open>ext2_alloc_blocks\<close>: blocks for the indirect blocks until a run is left for the data.\<close>

partial_function (option) ext2_alloc_loop :: "('a, 'e) ext2_env_scheme \<Rightarrow> nat \<Rightarrow> nat \<Rightarrow> nat \<Rightarrow> nat list \<Rightarrow> 'a fs
    \<Rightarrow> (fs_error option \<times> nat list \<times> nat \<times> nat \<times> 'a fs) option" where
  "ext2_alloc_loop env goal indirect_blks target new fs =
     (let (err, current, count, fs) = ext2_new_blocks env goal target fs in
      if err \<noteq> None then Some (err, new, 0, 0, fs)
      else
        let k = min (indirect_blks - length new) count; new = new @ [current..<current + k]
        in if count - k > 0 then Some (None, new, current + k, count - k, fs)
           else ext2_alloc_loop env goal indirect_blks (target - count) new fs)"

definition ext2_alloc_blocks :: "('a, 'e) ext2_env_scheme \<Rightarrow> nat \<Rightarrow> nat \<Rightarrow> nat \<Rightarrow> 'a fs
    \<Rightarrow> (fs_error option \<times> nat list \<times> nat \<times> nat \<times> 'a fs) option" where
  "ext2_alloc_blocks env goal indirect_blks n fs =
     map_option (\<lambda>(err, new, current, count, fs).
         if err \<noteq> None then (err, [], 0, 0, fold (\<lambda>b. ext2_free_blocks env b 1) new fs)
         else (None, new, current, count, fs))
       (ext2_alloc_loop env goal indirect_blks (n + indirect_blks) [] fs)"

text \<open>The indirect blocks are zeroed and linked, the last one to the data blocks \<open>d\<close>.  The result tells whether
  every buffer was got.\<close>

fun link_blocks :: "('a, 'e) ext2_env_scheme \<Rightarrow> nat list \<Rightarrow> nat list \<Rightarrow> nat \<Rightarrow> nat \<Rightarrow> 'a fs \<Rightarrow> bool \<times> 'a fs" where
  "link_blocks env (b # bs) (off # offs) d num fs =
     (if \<not> sb_getblk env b fs then (False, fs)
      else
        let fs = fs\<lparr>blks := (blks fs)(b := (\<lambda>_. 0))\<rparr>;
            fs = (case bs of [] \<Rightarrow> write_run (InBlock b off) d num fs | c # _ \<Rightarrow> wr (InBlock b off) c fs)
        in link_blocks env bs offs d num fs)"
| "link_blocks env _ _ d num fs = (True, fs)"

definition ext2_alloc_branch :: "('a, 'e) ext2_env_scheme \<Rightarrow> nat \<Rightarrow> nat \<Rightarrow> nat \<Rightarrow> nat list \<Rightarrow> 'a fs
    \<Rightarrow> (fs_error option \<times> nat list \<times> nat \<times> nat \<times> 'a fs) option" where
  "ext2_alloc_branch env indirect_blks n goal offsets fs =
     map_option (\<lambda>(err, new, d, num, fs).
         if err \<noteq> None then (err, [], 0, 0, fs)
         else
           let (ok, fs) = link_blocks env new (tl offsets) d num fs in
           if ok then (None, new, d, num, fs)
           else (Some ENOMEM, [], 0, 0, ext2_free_blocks env d num (fold (\<lambda>b. ext2_free_blocks env b 1) new fs)))
       (ext2_alloc_blocks env goal indirect_blks n fs)"

section \<open>The mapping\<close>

text \<open>More blocks behind a mapped one, as long as they are consecutive: whether the chain changed, and the count.\<close>

fun more_blocks :: "('a, 'e) ext2_env_scheme \<Rightarrow> indirect list \<Rightarrow> nat \<Rightarrow> int \<Rightarrow> nat \<Rightarrow> nat \<Rightarrow> 'a fs \<Rightarrow> bool \<times> nat" where
  "more_blocks env chain first_block boundary 0 count fs = (False, count)"
| "more_blocks env chain first_block boundary (Suc n) count fs =
     (if int count \<le> boundary then
        if \<not> verify_chain env fs chain then (True, 0)
        else if rd fs (slot_add (p (last chain)) count) = first_block + count
        then more_blocks env chain first_block boundary n (count + 1) fs
        else (False, count)
      else (False, count))"

text \<open>The outcome: the error or the number of blocks mapped, the first block, the marks of new blocks and of
  the boundary.\<close>

record mapping =
  ret :: "fs_error + nat"
  bno :: "nat option"
  new_mark :: bool
  boundary_mark :: bool

definition failed :: "fs_error option \<Rightarrow> mapping" where
  "failed err = \<lparr>ret = (case err of None \<Rightarrow> Inr 0 | Some e \<Rightarrow> Inl e), bno = None, new_mark = False, boundary_mark = False\<rparr>"

definition got_it :: "int \<Rightarrow> nat \<Rightarrow> nat \<Rightarrow> bool \<Rightarrow> mapping" where
  "got_it boundary count block new =
     \<lparr>ret = Inr count, bno = Some block, new_mark = new, boundary_mark = (int count > boundary)\<rparr>"

text \<open>The allocation, once the chain is final.\<close>

definition ext2_allocate :: "('a, 'e) ext2_env_scheme \<Rightarrow> nat list \<Rightarrow> int \<Rightarrow> int \<Rightarrow> nat \<Rightarrow> indirect list \<Rightarrow> alloc_info \<times> 'a fs
    \<Rightarrow> (mapping \<times> alloc_info \<times> 'a fs) option" where
  "ext2_allocate env offsets boundary iblock maxblocks chain st =
     (let (info, fs) = st; w = last chain;
          info = (if is_reg env \<and> info = None then Some (ext2_init_block_alloc_info env) else info);
          goal = ext2_find_goal env info iblock fs chain;
          indirect_blks = length offsets - length chain;
          count = ext2_blks_to_allocate fs (p w) indirect_blks maxblocks boundary
      in map_option (\<lambda>(err, new, d, num, fs).
             if err \<noteq> None then (failed err, info, fs)
             else
               let zeroed = (if is_dax env then sb_issue_zeroout env d num else None) in
               if zeroed \<noteq> None then (failed zeroed, info, fs)
               else
                 let w = w\<lparr>key := (case new of [] \<Rightarrow> d | b # _ \<Rightarrow> b)\<rparr>
                 in (got_it boundary num d True, ext2_splice_branch env iblock w indirect_blks num (info, fs)))
           (ext2_alloc_branch env indirect_blks count goal (drop (length chain - 1) offsets) fs))"

definition ext2_get_blocks :: "('a, 'e) ext2_env_scheme \<Rightarrow> nat \<Rightarrow> int \<Rightarrow> nat \<Rightarrow> bool \<Rightarrow> alloc_info \<times> 'a fs
    \<Rightarrow> (mapping \<times> alloc_info \<times> 'a fs) option" where
  "ext2_get_blocks env ptrs_bits iblock maxblocks create st =
     (let (info, fs) = st; (offsets, boundary) = ext2_block_to_path ptrs_bits iblock in
      if offsets = [] then Some (failed (Some EIO), info, fs)
      else
        let (chain, full, err, fs) = get_branch env offsets fs;
            (again, count) = (if full then more_blocks env chain (key (last chain)) boundary (maxblocks - 1) 1 fs else (False, 0));
            err = (if again then Some EAGAIN else err)
        in if full \<and> \<not> again then Some (got_it boundary count (key (last chain)) False, info, fs)
           else if \<not> create \<or> err = Some EIO then Some (failed err, info, fs)
           else if err = Some EAGAIN \<or> \<not> verify_chain env fs chain
           then
             let (chain, full, err, fs) = get_branch env offsets fs in
             if full
             then Some (if err = None then got_it boundary (count + 1) (key (last chain)) False else failed err, info, fs)
             else ext2_allocate env offsets boundary iblock maxblocks chain (info, fs)
           else ext2_allocate env offsets boundary iblock maxblocks chain (info, fs))"

text \<open>The buffer gets its block and the size of the run.\<close>

definition ext2_get_block :: "('a, 'e) ext2_env_scheme \<Rightarrow> nat \<Rightarrow> nat \<Rightarrow> int \<Rightarrow> nat \<Rightarrow> bool \<Rightarrow> alloc_info \<times> 'a fs
    \<Rightarrow> (fs_error option \<times> (nat \<times> nat \<times> bool \<times> bool) option \<times> alloc_info \<times> 'a fs) option" where
  "ext2_get_block env ptrs_bits i_blkbits iblock b_size create st =
     map_option (\<lambda>(m, st).
         case ret m of
           Inl e \<Rightarrow> (Some e, None, st)
         | Inr n \<Rightarrow> if n = 0 then (None, None, st)
                     else (None, Some (the (bno m), push_bit i_blkbits n, new_mark m, boundary_mark m), st))
       (ext2_get_blocks env ptrs_bits iblock (drop_bit i_blkbits b_size) create st)"

section \<open>The paths are a numbering\<close>

definition ext2_capacity :: "nat \<Rightarrow> nat" where
  "ext2_capacity bits = (let n = 2 ^ bits in 12 + n + n * n + n * n * n)"

abbreviation ext2_path :: "nat \<Rightarrow> nat \<Rightarrow> nat list" where
  "ext2_path bits b \<equiv> fst (ext2_block_to_path bits (int b))"

abbreviation ext2_boundary :: "nat \<Rightarrow> nat \<Rightarrow> int" where
  "ext2_boundary bits b \<equiv> snd (ext2_block_to_path bits (int b))"

lemma nat_and_drop:
  "int i AND (2 ^ bits - 1) = int (i mod 2 ^ bits)" "drop_bit bits (int i) = int (i div 2 ^ bits)"
  by (simp_all add: take_bit_eq_mod flip: take_bit_eq_mask mask_eq_exp_minus_1) (simp_all add: drop_bit_eq_div zdiv_int zmod_int)

text \<open>The path and the boundary in natural numbers: in the inode, and behind one, two or three pointers.\<close>

lemma ext2_paths:
  fixes bits b
  defines "n \<equiv> 2 ^ bits"
  shows "b < 12 \<Longrightarrow> ext2_block_to_path bits (int b) = ([b], 11 - int (b mod n))"
    "q < n \<Longrightarrow> ext2_block_to_path bits (int (12 + q)) = ([12, q], int n - 1 - int (q mod n))"
    "q < n * n \<Longrightarrow> ext2_block_to_path bits (int (12 + n + q)) = ([13, q div n, q mod n], int n - 1 - int (q mod n))"
    "q < n * n * n \<Longrightarrow> ext2_block_to_path bits (int (12 + n + n * n + q))
       = ([14, q div (n * n), q div n mod n, q mod n], int n - 1 - int (q mod n))"
proof -
  have n2: "2 ^ (bits * 2) = n * n" by (simp only: n_def power_mult power2_eq_square)
  have i2: "(2::int) ^ (bits * 2) = int (n * n)" by (simp flip: n2)
  have i1: "(2::int) ^ bits = int n" by (simp add: n_def)
  note bit = nat_and_drop [where bits = bits, folded n_def, unfolded i1] nat_and_drop(2) [where bits = "bits * 2", unfolded n2]
  show "ext2_block_to_path bits (int b) = ([b], 11 - int (b mod n))" if "b < 12"
    using that by (simp add: ext2_block_to_path_def Let_def i1 i2 bit)
  show "ext2_block_to_path bits (int (12 + q)) = ([12, q], int n - 1 - int (q mod n))" if "q < n"
    using that by (simp add: ext2_block_to_path_def Let_def i1 i2 bit)
  show "ext2_block_to_path bits (int (12 + n + q)) = ([13, q div n, q mod n], int n - 1 - int (q mod n))" if "q < n * n"
  proof -
    have "int (12 + n + q) - 12 - int n = int q" by simp
    then show ?thesis using that by (simp only: ext2_block_to_path_def Let_def i1 i2 bit) (simp del: of_nat_mult)
  qed
  show "ext2_block_to_path bits (int (12 + n + n * n + q))
       = ([14, q div (n * n), q div n mod n, q mod n], int n - 1 - int (q mod n))" if "q < n * n * n"
  proof -
    have "int (12 + n + n * n + q) - 12 - int n - int (n * n) = int q" by simp
    moreover have "q div (n * n) < n" using that by (simp add: n_def less_mult_imp_div_less mult.assoc)
    ultimately show ?thesis by (simp only: ext2_block_to_path_def Let_def i1 i2 bit) (simp del: of_nat_mult)
  qed
qed

lemma ext2_cases:
  fixes bits b
  defines "n \<equiv> 2 ^ bits"
  assumes "b < ext2_capacity bits"
  obtains "b < 12" | q where "b = 12 + q" "q < n" | q where "b = 12 + n + q" "q < n * n"
    | q where "b = 12 + n + n * n + q" "q < n * n * n"
proof -
  have b: "b < 12 + n + n * n + n * n * n" using assms(2) by (simp add: ext2_capacity_def n_def Let_def)
  consider "b < 12" | "12 \<le> b" "b < 12 + n" | "12 + n \<le> b" "b < 12 + n + n * n" | "12 + n + n * n \<le> b" by linarith
  then show thesis
  proof cases
    case 1
    then show thesis by (rule that(1))
  next
    case 2
    then show thesis by (intro that(2) [of "b - 12"]) simp_all
  next
    case 3
    then show thesis by (intro that(3) [of "b - 12 - n"]) simp_all
  next
    case 4
    then show thesis using b by (intro that(4) [of "b - 12 - n - n * n"]) simp_all
  qed
qed

text \<open>The block back from its path.\<close>

fun ext2_path_block :: "nat \<Rightarrow> nat list \<Rightarrow> nat" where
  "ext2_path_block n [x] = x"
| "ext2_path_block n [a, x] = 12 + x"
| "ext2_path_block n [a, x, y] = 12 + n + x * n + y"
| "ext2_path_block n [a, x, y, z] = 12 + n + n * n + (x * n + y) * n + z"
| "ext2_path_block n _ = 0"

lemma ext2_path_shape:
  assumes "b < ext2_capacity bits"
  shows "ext2_path_block (2 ^ bits) (ext2_path bits b) = b" "ext2_path bits b \<noteq> []"
    "length (ext2_path bits b) = Suc (hd (ext2_path bits b) - 11)"
    "hd (ext2_path bits b) < 15" "list_all (\<lambda>off. off < 2 ^ bits) (tl (ext2_path bits b))"
proof -
  let ?n = "2 ^ bits :: nat"
  have "ext2_path_block ?n (ext2_path bits b) = b \<and> length (ext2_path bits b) = Suc (hd (ext2_path bits b) - 11)
      \<and> hd (ext2_path bits b) < 15 \<and> list_all (\<lambda>off. off < ?n) (tl (ext2_path bits b))"
    using assms
  proof (cases rule: ext2_cases)
    case 1
    then show ?thesis by (simp add: ext2_paths(1))
  next
    case (2 q)
    then show ?thesis unfolding 2(1) ext2_paths(2) [OF 2(2)] by simp
  next
    case (3 q)
    then show ?thesis unfolding 3(1) ext2_paths(3) [OF 3(2)] by (simp add: less_mult_imp_div_less add.assoc div_mult_mod_eq)
  next
    case (4 q)
    have "q div ?n div ?n * ?n + q div ?n mod ?n = q div ?n" by (rule div_mult_mod_eq)
    moreover have "q div (?n * ?n) < ?n" using 4(2) by (simp add: less_mult_imp_div_less mult.assoc)
    ultimately show ?thesis
      unfolding 4(1) ext2_paths(4) [OF 4(2)] by (simp add: div_mult2_eq add.assoc div_mult_mod_eq)
  qed
  then show "ext2_path_block ?n (ext2_path bits b) = b" "length (ext2_path bits b) = Suc (hd (ext2_path bits b) - 11)"
    "hd (ext2_path bits b) < 15" "list_all (\<lambda>off. off < 2 ^ bits) (tl (ext2_path bits b))" by blast+
  then show "ext2_path bits b \<noteq> []" by auto
qed

interpretation ext2: block_paths "ext2_path bits" "ext2_capacity bits" for bits
proof
  fix b c assume b: "b < ext2_capacity bits" and c: "c < ext2_capacity bits" and p: "prefix (ext2_path bits b) (ext2_path bits c)"
  obtain zs where zs: "ext2_path bits c = ext2_path bits b @ zs" using p by (auto elim: prefixE)
  then have "hd (ext2_path bits c) = hd (ext2_path bits b)" using ext2_path_shape(2) [OF b] by simp
  then have "length (ext2_path bits c) = length (ext2_path bits b)"
    using ext2_path_shape(3) [OF b] ext2_path_shape(3) [OF c] by simp
  then have "zs = []" using zs by simp
  then show "b = c" using zs ext2_path_shape(1) [OF b] ext2_path_shape(1) [OF c] by simp
qed (rule ext2_path_shape(2))

lemma div_mod_add:
  fixes q i n :: nat
  assumes "q mod n + i < n"
  shows "(q + i) div n = q div n" "(q + i) mod n = q mod n + i"
proof -
  have "q + i = n * (q div n) + (q mod n + i)" by simp
  moreover have "(n * a + r) div n = a \<and> (n * a + r) mod n = r" if "r < n" for a r using that by simp
  ultimately show "(q + i) div n = q div n" "(q + i) mod n = q mod n + i" using assms by (simp_all only:)
qed

lemma add_below_multiple:
  fixes q i n m :: nat
  assumes "q mod n + i < n" "q < m * n"
  shows "q + i < m * n"
proof -
  have "q div n < m" using assms(2) by (rule less_mult_imp_div_less)
  moreover have "q + i = (q div n) * n + (q mod n + i)" by simp
  ultimately show ?thesis using assms(1) by (metis (no_types, lifting) add_less_cancel_left less_le_trans mult_Suc add.commute Suc_leI mult_le_mono1)
qed

text \<open>The blocks up to the boundary have the pointers behind the one of the block.\<close>

lemma ext2_siblings:
  assumes b: "b < ext2_capacity bits" and bits: "4 \<le> bits"
  shows "0 \<le> ext2_boundary bits b"
    and "int i \<le> ext2_boundary bits b \<Longrightarrow> b + i < ext2_capacity bits
           \<and> ext2_path bits (b + i) = butlast (ext2_path bits b) @ [last (ext2_path bits b) + i]"
    and "int i \<le> ext2_boundary bits b \<Longrightarrow> ext2_boundary bits (b + i) = ext2_boundary bits b - int i"
proof -
  let ?n = "2 ^ bits :: nat"
  have n: "16 \<le> ?n" using power_increasing [OF bits, of "2::nat"] by simp
  have cap: "ext2_capacity bits = 12 + ?n + ?n * ?n + ?n * ?n * ?n" by (simp add: ext2_capacity_def Let_def)
  have "0 \<le> ext2_boundary bits b \<and> (int i \<le> ext2_boundary bits b \<longrightarrow> b + i < ext2_capacity bits
      \<and> ext2_path bits (b + i) = butlast (ext2_path bits b) @ [last (ext2_path bits b) + i]
      \<and> ext2_boundary bits (b + i) = ext2_boundary bits b - int i)"
    using b
  proof (cases rule: ext2_cases)
    case 1
    then have "b mod ?n = b" using n by simp
    moreover have "b + i < 12 \<Longrightarrow> (b + i) mod ?n = b + i" using n by simp
    ultimately show ?thesis using 1 by (auto simp: ext2_paths(1) cap simp flip: of_nat_add)
  next
    case (2 q)
    have e: "12 + q + i = 12 + (q + i)" by simp
    show ?thesis
    proof (cases "q + i < ?n")
      case True
      show ?thesis unfolding 2(1) e ext2_paths(2) [OF 2(2)] ext2_paths(2) [OF True] using 2(2) True by (simp add: cap)
    next
      case False
      then have "int ?n \<le> int q + int i" by linarith
      then show ?thesis unfolding 2(1) ext2_paths(2) [OF 2(2)] using 2(2) by auto
    qed
  next
    case (3 q)
    have e: "12 + ?n + q + i = 12 + ?n + (q + i)" by simp
    show ?thesis
    proof (cases "q mod ?n + i < ?n")
      case True
      note s = add_below_multiple [OF True 3(2)] div_mod_add [OF True]
      show ?thesis unfolding 3(1) e ext2_paths(3) [OF 3(2)] ext2_paths(3) [OF s(1)] using s True by (simp add: cap)
    next
      case False
      then have "int ?n \<le> int (q mod ?n) + int i" by linarith
      then show ?thesis unfolding 3(1) ext2_paths(3) [OF 3(2)] by auto
    qed
  next
    case (4 q)
    have e: "12 + ?n + ?n * ?n + q + i = 12 + ?n + ?n * ?n + (q + i)" by simp
    show ?thesis
    proof (cases "q mod ?n + i < ?n")
      case True
      note s = add_below_multiple [OF True 4(2)] div_mod_add [OF True]
      show ?thesis unfolding 4(1) e ext2_paths(4) [OF 4(2)] ext2_paths(4) [OF s(1)] using s True by (simp add: cap div_mult2_eq)
    next
      case False
      then have "int ?n \<le> int (q mod ?n) + int i" by linarith
      then show ?thesis unfolding 4(1) ext2_paths(4) [OF 4(2)] by auto
    qed
  qed
  then show "0 \<le> ext2_boundary bits b"
    and "int i \<le> ext2_boundary bits b \<Longrightarrow> b + i < ext2_capacity bits
           \<and> ext2_path bits (b + i) = butlast (ext2_path bits b) @ [last (ext2_path bits b) + i]"
    and "int i \<le> ext2_boundary bits b \<Longrightarrow> ext2_boundary bits (b + i) = ext2_boundary bits b - int i" by blast+
qed

section \<open>The blocks of a branch\<close>

text \<open>What the block allocator documents: an error and nothing in use, or a run of up to the asked number of
  blocks that were not in use.\<close>

definition ext2_alloc_ok :: "('a, 'e) ext2_env_scheme \<Rightarrow> ('a \<Rightarrow> nat set) \<Rightarrow> bool" where
  "ext2_alloc_ok env used \<longleftrightarrow>
     (\<forall>goal n fs. 0 < n \<longrightarrow> (case ext2_new_blocks env goal n fs of (err, b, count, fs') \<Rightarrow>
        i_data fs' = i_data fs \<and> blks fs' = blks fs
        \<and> (if err \<noteq> None then used (alloc_state fs') = used (alloc_state fs)
           else 0 < count \<and> count \<le> n \<and> 0 < b \<and> {b..<b + count} \<inter> used (alloc_state fs) = {}
             \<and> used (alloc_state fs') = used (alloc_state fs) \<union> {b..<b + count})))
   \<and> (\<forall>b n fs. let fs' = ext2_free_blocks env b n fs in
        i_data fs' = i_data fs \<and> blks fs' = blks fs \<and> used (alloc_state fs') = used (alloc_state fs) - {b..<b + n})"

lemma ext2_new_blocksD:
  assumes "ext2_alloc_ok env used" "0 < n" "ext2_new_blocks env goal n fs = (err, b, count, fs')"
  shows "i_data fs' = i_data fs" "blks fs' = blks fs" "err \<noteq> None \<Longrightarrow> used (alloc_state fs') = used (alloc_state fs)"
    "err = None \<Longrightarrow> 0 < count \<and> count \<le> n \<and> 0 < b \<and> {b..<b + count} \<inter> used (alloc_state fs) = {}
             \<and> used (alloc_state fs') = used (alloc_state fs) \<union> {b..<b + count}"
proof -
  have "case ext2_new_blocks env goal n fs of (err, b, count, fs') \<Rightarrow>
        i_data fs' = i_data fs \<and> blks fs' = blks fs
        \<and> (if err \<noteq> None then used (alloc_state fs') = used (alloc_state fs)
           else 0 < count \<and> count \<le> n \<and> 0 < b \<and> {b..<b + count} \<inter> used (alloc_state fs) = {}
             \<and> used (alloc_state fs') = used (alloc_state fs) \<union> {b..<b + count})"
    using conjunct1 [OF assms(1) [unfolded ext2_alloc_ok_def], THEN spec, THEN spec, THEN spec, THEN mp, OF assms(2)] .
  then show "i_data fs' = i_data fs" "blks fs' = blks fs" "err \<noteq> None \<Longrightarrow> used (alloc_state fs') = used (alloc_state fs)"
    "err = None \<Longrightarrow> 0 < count \<and> count \<le> n \<and> 0 < b \<and> {b..<b + count} \<inter> used (alloc_state fs) = {}
             \<and> used (alloc_state fs') = used (alloc_state fs) \<union> {b..<b + count}"
    by (simp_all add: assms(3) split: if_splits)
qed

lemma ext2_free_blocksD:
  assumes "ext2_alloc_ok env used"
  shows "i_data (ext2_free_blocks env b n fs) = i_data fs" "blks (ext2_free_blocks env b n fs) = blks fs"
    "used (alloc_state (ext2_free_blocks env b n fs)) = used (alloc_state fs) - {b..<b + n}"
  using conjunct2 [OF assms [unfolded ext2_alloc_ok_def], THEN spec [of _ b], THEN spec [of _ n], THEN spec [of _ fs]]
  unfolding Let_def by blast+

lemma free_each:
  assumes "ext2_alloc_ok env used"
  shows "i_data (fold (\<lambda>b. ext2_free_blocks env b 1) bs fs) = i_data fs \<and> blks (fold (\<lambda>b. ext2_free_blocks env b 1) bs fs) = blks fs
    \<and> used (alloc_state (fold (\<lambda>b. ext2_free_blocks env b 1) bs fs)) = used (alloc_state fs) - set bs"
  by (induction bs arbitrary: fs) (auto simp: ext2_free_blocksD [OF assms])

lemma upt_run: "map ((+) a) [0..<n] = [a..<a + n]"
  by (induction n) simp_all

lemma ext2_alloc_loop_ok:
  assumes a: "ext2_alloc_ok env used"
  shows "length new \<le> k \<Longrightarrow> k - length new < target \<Longrightarrow>
    \<exists>err ns d num fs'. ext2_alloc_loop env goal k target new fs = Some (err, new @ ns, d, num, fs')
      \<and> i_data fs' = i_data fs \<and> blks fs' = blks fs
      \<and> distinct (ns @ map ((+) d) [0..<num]) \<and> set (ns @ map ((+) d) [0..<num]) \<inter> used (alloc_state fs) = {}
      \<and> 0 \<notin> set (ns @ map ((+) d) [0..<num])
      \<and> used (alloc_state fs') = used (alloc_state fs) \<union> set (ns @ map ((+) d) [0..<num])
      \<and> (if err = None then length (new @ ns) = k \<and> 0 < num \<and> num \<le> target - (k - length new) else num = 0)"
proof (induction target arbitrary: new fs rule: less_induct)
  case (less target)
  obtain err b count fs1 where n: "ext2_new_blocks env goal target fs = (err, b, count, fs1)" by (metis prod_cases4)
  have "0 < target" using less.prems(2) by simp
  note new = ext2_new_blocksD [OF a this n]
  show ?case
  proof (cases err)
    case (Some e)
    then have "ext2_alloc_loop env goal k target new fs = Some (Some e, new @ [], 0, 0, fs1)"
      using n by (subst ext2_alloc_loop.simps) simp
    then show ?thesis using new(1-3) Some
      by (intro exI [of _ "Some e"] exI [of _ "[]"] exI [of _ 0] exI [of _ 0] exI [of _ fs1]) simp
  next
    case None
    define m where "m = min (k - length new) count"
    have c: "0 < count" "count \<le> target" "0 < b" "{b..<b + count} \<inter> used (alloc_state fs) = {}"
      "used (alloc_state fs1) = used (alloc_state fs) \<union> {b..<b + count}" using new(4) None by auto
    have step: "ext2_alloc_loop env goal k target new fs =
      (if count - m > 0 then Some (None, new @ [b..<b + m], b + m, count - m, fs1)
       else ext2_alloc_loop env goal k (target - count) (new @ [b..<b + m]) fs1)"
      using n None by (subst ext2_alloc_loop.simps) (simp add: m_def Let_def)
    show ?thesis
    proof (cases "count - m > 0")
      case True
      then have m: "m = k - length new" "m < count" by (auto simp: m_def)
      have run: "[b..<b + m] @ map ((+) (b + m)) [0..<count - m] = [b..<b + count]"
        using upt_add_eq_append [of b "b + m" "count - m"] m(2) by (simp add: upt_run)
      have res: "ext2_alloc_loop env goal k target new fs = Some (None, new @ [b..<b + m], b + m, count - m, fs1)"
        using step True by simp
      have l: "length (new @ [b..<b + m]) = k" "count - m \<le> target - (k - length new)" using m c(2) less.prems(1) by auto
      have r: "distinct [b..<b + count]" "set [b..<b + count] \<inter> used (alloc_state fs) = {}" "0 \<notin> set [b..<b + count]"
        "used (alloc_state fs1) = used (alloc_state fs) \<union> set [b..<b + count]"
        using c(3-5) by simp_all
      show ?thesis
        using res l r True new(1,2)
        by (intro exI [of _ None] exI [of _ "[b..<b + m]"] exI [of _ "b + m"] exI [of _ "count - m"] exI [of _ fs1])
          (simp only: run, simp)
    next
      case False
      then have m: "m = count" "count \<le> k - length new" by (auto simp: m_def)
      let ?new = "new @ [b..<b + count]"
      have "target - count < target" "length ?new \<le> k" "k - length ?new < target - count"
        using c less.prems m by auto
      from less.IH [OF this, of fs1] obtain err' ns d num fs' where
        ih: "ext2_alloc_loop env goal k (target - count) ?new fs1 = Some (err', ?new @ ns, d, num, fs')"
          "i_data fs' = i_data fs1" "blks fs' = blks fs1" "distinct (ns @ map ((+) d) [0..<num])"
          "set (ns @ map ((+) d) [0..<num]) \<inter> used (alloc_state fs1) = {}" "0 \<notin> set (ns @ map ((+) d) [0..<num])"
          "used (alloc_state fs') = used (alloc_state fs1) \<union> set (ns @ map ((+) d) [0..<num])"
          "if err' = None then length (?new @ ns) = k \<and> 0 < num \<and> num \<le> target - count - (k - length ?new) else num = 0"
        by blast
      let ?all = "([b..<b + count] @ ns) @ map ((+) d) [0..<num]"
      have all: "set ?all = {b..<b + count} \<union> set (ns @ map ((+) d) [0..<num])" by auto
      have "distinct ?all" using ih(4,5) c(5) by (auto simp: disjoint_iff)
      moreover have "set ?all \<inter> used (alloc_state fs) = {}" unfolding all using c(4,5) ih(5) by blast
      moreover have "0 \<notin> set ?all" unfolding all using c(3) ih(6) by auto
      moreover have "used (alloc_state fs') = used (alloc_state fs) \<union> set ?all" unfolding all ih(7) c(5) by blast
      moreover have "ext2_alloc_loop env goal k target new fs = Some (err', new @ ([b..<b + count] @ ns), d, num, fs')"
        unfolding step using False ih(1) m(1) by simp
      moreover have "if err' = None then length (new @ ([b..<b + count] @ ns)) = k \<and> 0 < num \<and> num \<le> target - (k - length new) else num = 0"
        using ih(8) m(2) less.prems by (auto split: if_splits)
      ultimately show ?thesis using ih(2,3) new(1,2)
        by (intro exI [of _ err'] exI [of _ "[b..<b + count] @ ns"] exI [of _ d] exI [of _ num] exI [of _ fs']) (simp only: simp_thms)
    qed
  qed
qed

lemma link_blocks_ok:
  "distinct bs \<Longrightarrow> length offs = length bs \<Longrightarrow> link_blocks env bs offs d num fs = (ok, fs') \<Longrightarrow>
    i_data fs' = i_data fs \<and> alloc_state fs' = alloc_state fs \<and> (\<forall>v. v \<notin> set bs \<longrightarrow> blks fs' v = blks fs v)
    \<and> (ok \<longrightarrow> (\<forall>i<length bs. blks fs' (bs ! i) =
         (if Suc i < length bs then (\<lambda>_. 0)(offs ! i := bs ! Suc i)
          else (\<lambda>off. if offs ! i \<le> off \<and> off < offs ! i + num then d + (off - offs ! i) else 0))))"
proof (induction bs arbitrary: offs fs)
  case Nil
  then show ?case by simp
next
  case (Cons b bs)
  obtain off offs' where o: "offs = off # offs'" using Cons.prems(2) by (cases offs) auto
  show ?case
  proof (cases "sb_getblk env b fs")
    case False
    then show ?thesis using Cons.prems(3) o by auto
  next
    case True
    define fs1 where "fs1 = fs\<lparr>blks := (blks fs)(b := (\<lambda>_. 0))\<rparr>"
    define fs2 where "fs2 = (case bs of [] \<Rightarrow> write_run (InBlock b off) d num fs1 | c # _ \<Rightarrow> wr (InBlock b off) c fs1)"
    have e: "link_blocks env bs offs' d num fs2 = (ok, fs')"
      using Cons.prems(3) True unfolding o fs2_def fs1_def by (simp add: Let_def)
    have f2: "i_data fs2 = i_data fs" "alloc_state fs2 = alloc_state fs" "v \<noteq> b \<Longrightarrow> blks fs2 v = blks fs v"
      "blks fs2 b = (if bs \<noteq> [] then (\<lambda>_. 0)(off := bs ! 0)
         else (\<lambda>x. if off \<le> x \<and> x < off + num then d + (x - off) else 0))" for v
      by (cases bs; auto simp: fs1_def fs2_def write_run_block fun_eq_iff)+
    have "distinct bs" "length offs' = length bs" "b \<notin> set bs" using Cons.prems(1,2) o by simp_all
    note ih = Cons.IH [OF this(1,2) e]
    have b: "blks fs' b = blks fs2 b" using ih \<open>b \<notin> set bs\<close> by blast
    have "blks fs' ((b # bs) ! i) =
         (if Suc i < length (b # bs) then (\<lambda>_. 0)(offs ! i := (b # bs) ! Suc i)
          else (\<lambda>x. if offs ! i \<le> x \<and> x < offs ! i + num then d + (x - offs ! i) else 0))"
      if "ok" "i < length (b # bs)" for i
      using that ih b f2(4) o by (cases i) auto
    moreover have "blks fs' v = blks fs v" if "v \<notin> set (b # bs)" for v using that ih f2(3) [of v] by simp
    ultimately show ?thesis using ih f2(1,2) by simp
  qed
qed

lemma ext2_alloc_branch_ok:
  assumes a: "ext2_alloc_ok env used" and n: "0 < n" and l: "length offsets = Suc k"
  obtains (failed) e fs' where "ext2_alloc_branch env k n goal offsets fs = Some (Some e, [], 0, 0, fs')"
      "i_data fs' = i_data fs" "\<forall>v\<in>used (alloc_state fs). blks fs' v = blks fs v"
      "used (alloc_state fs') = used (alloc_state fs)"
    | (branch) ib d num fs' where "ext2_alloc_branch env k n goal offsets fs = Some (None, ib, d, num, fs')"
      "length ib = k" "0 < num" "num \<le> n" "distinct (ib @ map ((+) d) [0..<num])"
      "set (ib @ map ((+) d) [0..<num]) \<inter> used (alloc_state fs) = {}" "0 \<notin> set (ib @ map ((+) d) [0..<num])"
      "used (alloc_state fs') = used (alloc_state fs) \<union> set (ib @ map ((+) d) [0..<num])"
      "i_data fs' = i_data fs" "\<forall>v\<in>used (alloc_state fs). blks fs' v = blks fs v"
      "\<And>i. i < k \<Longrightarrow> blks fs' (ib ! i) = (if Suc i < k then (\<lambda>_. 0)(offsets ! Suc i := ib ! Suc i)
         else (\<lambda>off. if offsets ! Suc i \<le> off \<and> off < offsets ! Suc i + num then d + (off - offsets ! Suc i) else 0))"
proof -
  have "length ([] :: nat list) \<le> k" "k - length ([] :: nat list) < n + k" using n by simp_all
  from ext2_alloc_loop_ok [OF a this, of goal fs] obtain err ns d num fs1 where
    loop: "ext2_alloc_loop env goal k (n + k) [] fs = Some (err, [] @ ns, d, num, fs1)"
      "i_data fs1 = i_data fs" "blks fs1 = blks fs"
      "distinct (ns @ map ((+) d) [0..<num])" "set (ns @ map ((+) d) [0..<num]) \<inter> used (alloc_state fs) = {}"
      "0 \<notin> set (ns @ map ((+) d) [0..<num])" "used (alloc_state fs1) = used (alloc_state fs) \<union> set (ns @ map ((+) d) [0..<num])"
      "if err = None then length ([] @ ns) = k \<and> 0 < num \<and> num \<le> n + k - (k - length ([] :: nat list)) else num = 0"
    by (elim exE conjE) (rule that)
  show thesis
  proof (cases err)
    case (Some e)
    let ?fs' = "fold (\<lambda>b. ext2_free_blocks env b 1) ns fs1"
    have "ext2_alloc_branch env k n goal offsets fs = Some (Some e, [], 0, 0, ?fs')"
      using loop(1) Some by (simp add: ext2_alloc_branch_def ext2_alloc_blocks_def)
    moreover have "num = 0" using loop(8) Some by simp
    then have "used (alloc_state ?fs') = used (alloc_state fs)" using free_each [OF a, of ns fs1] loop(5,7) by auto
    ultimately show thesis using free_each [OF a, of ns fs1] loop(2,3) by (intro failed [of e ?fs']) simp_all
  next
    case None
    then have num: "length ns = k" "0 < num" "num \<le> n" using loop(8) by simp_all
    obtain ok fs2 where lk: "link_blocks env ns (tl offsets) d num fs1 = (ok, fs2)" by fastforce
    have "length (tl offsets) = length ns" using l num(1) by simp
    from link_blocks_ok [OF _ this lk] loop(4) have
      f2: "i_data fs2 = i_data fs1" "alloc_state fs2 = alloc_state fs1" "\<forall>v. v \<notin> set ns \<longrightarrow> blks fs2 v = blks fs1 v"
      "ok \<longrightarrow> (\<forall>i<length ns. blks fs2 (ns ! i) = (if Suc i < length ns then (\<lambda>_. 0)(tl offsets ! i := ns ! Suc i)
          else (\<lambda>off. if tl offsets ! i \<le> off \<and> off < tl offsets ! i + num then d + (off - tl offsets ! i) else 0)))" by auto
    have old: "\<forall>v\<in>used (alloc_state fs). blks fs2 v = blks fs v" using f2(3) loop(3,5) by (auto simp: disjoint_iff)
    have nth: "tl offsets ! i = offsets ! Suc i" if "i < k" for i using l that by (simp add: nth_tl)
    show thesis
    proof (cases ok)
      case False
      let ?fs3 = "fold (\<lambda>b. ext2_free_blocks env b 1) ns fs2"
      let ?fs' = "ext2_free_blocks env d num ?fs3"
      have "ext2_alloc_branch env k n goal offsets fs = Some (Some ENOMEM, [], 0, 0, ?fs')"
        using loop(1) None lk False by (simp add: ext2_alloc_branch_def ext2_alloc_blocks_def)
      moreover have "used (alloc_state ?fs') = used (alloc_state fs)"
        unfolding ext2_free_blocksD(3) [OF a] using free_each [OF a, of ns fs2] f2(2) loop(5,7)
        by (auto simp: upt_run)
      ultimately show thesis
        using free_each [OF a, of ns fs2] ext2_free_blocksD(1,2) [OF a] old f2(1) loop(2)
        by (intro failed [of ENOMEM ?fs']) simp_all
    next
      case True
      then have "ext2_alloc_branch env k n goal offsets fs = Some (None, ns, d, num, fs2)"
        using loop(1) None lk by (simp add: ext2_alloc_branch_def ext2_alloc_blocks_def)
      then show thesis
        by (rule branch [OF _ num loop(4-6)]) (use f2(1,2,4) True loop(2,7) old num(1) nth in auto)
    qed
  qed
qed

section \<open>What the mapping does\<close>

lemma chain_slot_sibling:
  assumes c: "chain_of fs offs chain" and l: "length chain = length offs"
  shows "rd fs (slot_add (p (last chain)) i) = val fs (butlast offs @ [last offs + i])"
proof -
  note last = chain_of_last [OF c]
  have ne: "offs \<noteq> []" using chain_ofD(1) [OF c] l by auto
  then have o: "last offs = offs ! (length offs - 1)" "butlast offs = take (length offs - 1) offs"
    by (simp_all add: last_conv_nth butlast_conv_take)
  show ?thesis
  proof (cases "length offs = 1")
    case True
    then show ?thesis using last(3) l o by (simp add: val_snoc)
  next
    case False
    then have "1 < length offs" using ne by (simp add: Suc_lessI)
    then show ?thesis using last(2,3) l o by (auto simp: val_snoc)
  qed
qed

lemma free_run_bounds:
  "c \<le> free_run fs s bd m c \<and> free_run fs s bd m c \<le> c + m
   \<and> (int c \<le> bd + 1 \<longrightarrow> int (free_run fs s bd m c) \<le> bd + 1)
   \<and> (\<forall>i. c \<le> i \<and> i < free_run fs s bd m c \<longrightarrow> rd fs (slot_add s i) = 0)"
proof (induction m arbitrary: c)
  case (Suc m)
  show ?case
  proof (cases "int c \<le> bd \<and> rd fs (slot_add s c) = 0")
    case True
    have "rd fs (slot_add s i) = 0" if "c \<le> i" "i < free_run fs s bd m (c + 1)" for i
      using that True Suc.IH [of "c + 1"] by (cases "i = c") auto
    then show ?thesis using True Suc.IH [of "c + 1"] by simp
  qed auto
qed simp

lemma slot_add_0 [simp]: "slot_add s 0 = s"
  by (cases s) simp_all

lemma blks_to_allocate_ok:
  assumes "0 < n" "0 \<le> bd" "rd fs s = 0"
  shows "0 < ext2_blks_to_allocate fs s k n bd" "ext2_blks_to_allocate fs s k n bd \<le> n"
    "int (ext2_blks_to_allocate fs s k n bd) \<le> bd + 1"
    "k = 0 \<Longrightarrow> i < ext2_blks_to_allocate fs s k n bd \<Longrightarrow> rd fs (slot_add s i) = 0"
proof -
  have run: "1 \<le> free_run fs s bd (n - 1) 1" "free_run fs s bd (n - 1) 1 \<le> 1 + (n - 1)"
    "int 1 \<le> bd + 1 \<Longrightarrow> int (free_run fs s bd (n - 1) 1) \<le> bd + 1"
    "1 \<le> i \<Longrightarrow> i < free_run fs s bd (n - 1) 1 \<Longrightarrow> rd fs (slot_add s i) = 0" for i
    using free_run_bounds [of 1 fs s bd "n - 1"] by blast+
  show "0 < ext2_blks_to_allocate fs s k n bd" "ext2_blks_to_allocate fs s k n bd \<le> n"
    "int (ext2_blks_to_allocate fs s k n bd) \<le> bd + 1"
    using assms run(1-3) by (auto simp: ext2_blks_to_allocate_def)
  show "rd fs (slot_add s i) = 0" if "k = 0" "i < ext2_blks_to_allocate fs s k n bd"
    using that run(4) [of i] assms(3) by (cases "i = 0") (auto simp: ext2_blks_to_allocate_def)
qed

definition ext2_splice_ok :: "('a, 'e) ext2_env_scheme \<Rightarrow> bool" where
  "ext2_splice_ok env \<longleftrightarrow> (\<forall>iblock w k n info fs.
     snd (ext2_splice_branch env iblock w k n (info, fs)) = (if k = 0 then write_run (p w) (key w) n fs else wr (p w) (key w) fs))"

text \<open>What a mapping promises of the tree: \<open>n\<close> consecutive blocks are mapped to consecutive disk blocks, nothing else
  moves, nothing is left in use after an error.\<close>

definition ext2_maps :: "nat \<Rightarrow> ('a \<Rightarrow> nat set) \<Rightarrow> nat \<Rightarrow> nat \<Rightarrow> 'a fs \<Rightarrow> mapping \<Rightarrow> 'a fs \<Rightarrow> bool" where
  "ext2_maps bits used b maxblocks fs m fs' \<longleftrightarrow>
     tree_ok (places (ext2_path bits) (ext2_capacity bits)) (used (alloc_state fs')) fs'
   \<and> (case ret m of
        Inl e \<Rightarrow> bno m = None \<and> (\<forall>c<ext2_capacity bits. val fs' (ext2_path bits c) = val fs (ext2_path bits c))
          \<and> used (alloc_state fs') = used (alloc_state fs)
      | Inr n \<Rightarrow> n \<le> maxblocks \<and> int n \<le> ext2_boundary bits b + 1
          \<and> (\<forall>c<ext2_capacity bits. c \<notin> {b..<b + n} \<longrightarrow> val fs' (ext2_path bits c) = val fs (ext2_path bits c))
          \<and> (case bno m of
               None \<Rightarrow> n = 0 \<and> val fs (ext2_path bits b) = 0 \<and> fs' = fs
             | Some d \<Rightarrow> 0 < n \<and> 0 < d \<and> (\<forall>i<n. val fs' (ext2_path bits (b + i)) = d + i)
                 \<and> (if new_mark m then \<forall>i<n. val fs (ext2_path bits (b + i)) = 0 \<and> d + i \<notin> used (alloc_state fs)
                    else fs' = fs)
                 \<and> (boundary_mark m \<longleftrightarrow> int n = ext2_boundary bits b + 1)))"

text \<open>A branch grafted for a run of free blocks maps the run.\<close>

lemma ext2_branch_maps:
  assumes B: "new_branch (places (ext2_path bits) (ext2_capacity bits)) (used (alloc_state fs)) fs fs' (ext2_path bits b) l ib d num"
    and b: "b < ext2_capacity bits" and bits: "4 \<le> bits" and num: "0 < num" "num \<le> maxblocks" "int num \<le> ext2_boundary bits b + 1"
    and tree: "tree_ok (places (ext2_path bits) (ext2_capacity bits)) (used (alloc_state fs)) fs"
    and new: "set (ib @ map ((+) d) [0..<num]) \<inter> used (alloc_state fs) = {}" "0 < d"
    and u: "used (alloc_state fs') = used (alloc_state fs) \<union> set (ib @ map ((+) d) [0..<num])"
  shows "ext2_maps bits used b maxblocks fs (got_it (ext2_boundary bits b) num d True) fs'"
proof -
  let ?offs = "ext2_path bits b" and ?P = "places (ext2_path bits) (ext2_capacity bits)"
  let ?G = "branch_map ?offs l ib d num"
  note ne = ext2.path_nonempty [OF b]
  note G = new_branch.branch_grafts [OF B]
  note val' = grafts_val [OF G ext2.places_closed(1)]
  have sib: "b + i < ext2_capacity bits" "ext2_path bits (b + i) = butlast ?offs @ [last ?offs + i]" if "i < num" for i
    using ext2_siblings(2) [OF b bits, of i] num(3) that by auto
  have hit: "?G (ext2_path bits (b + i)) = Some (d + i)" if "i < num" for i
    using sib(2) [OF that] that ne by (simp add: branch_map_def)
  have miss: "?G (ext2_path bits c) = None" if "c < ext2_capacity bits" "c \<notin> {b..<b + num}" for c
  proof (rule ccontr)
    assume "?G (ext2_path bits c) \<noteq> None"
    then obtain x where "?G (ext2_path bits c) = Some x" by blast
    then show False
    proof (rule new_branch.G_cases [OF B])
      fix j assume "ext2_path bits c = take j ?offs"
      then have "prefix (ext2_path bits c) ?offs" by (simp add: take_is_prefix)
      then show False using ext2.path_prefix [OF that(1) b] that(2) num(1) by auto
    next
      fix i assume e: "ext2_path bits c = butlast ?offs @ [last ?offs + i]" and i: "i < num"
      then have "c = b + i" using ext2.path_inj [OF that(1) sib(1) [OF i]] sib(2) [OF i] by simp
      then show False using that(2) i by simp
    qed
  qed
  have "tree_ok ?P (used (alloc_state fs')) fs'"
    by (rule grafts_tree_ok [OF tree G ext2.places_closed]) (use new_branch.ran_G [OF B] u in auto)
  moreover have "val fs' (ext2_path bits c) = val fs (ext2_path bits c)" if "c < ext2_capacity bits" "c \<notin> {b..<b + num}" for c
    using val' [OF ext2.path_place [OF that(1)] ext2.path_nonempty [OF that(1)]] miss [OF that] by simp
  moreover have "val fs' (ext2_path bits (b + i)) = d + i" if "i < num" for i
    using val' [OF ext2.path_place ext2.path_nonempty, OF sib(1) sib(1), OF that that] hit [OF that] by simp
  moreover have "val fs (ext2_path bits (b + i)) = 0" if "i < num" for i
    using new_branch.dom_G [OF B hit [OF that]] by auto
  moreover have "d + i \<notin> used (alloc_state fs)" if "i < num" for i
  proof -
    have "d + i \<in> set (ib @ map ((+) d) [0..<num])" using that by auto
    then show ?thesis using new(1) by blast
  qed
  ultimately show ?thesis
    using num new(2) by (simp add: ext2_maps_def got_it_def) linarith
qed

text \<open>The blocks that the allocation returns, spliced into the place that was free, are such a branch.\<close>

lemma ext2_spliced:
  assumes b: "b < ext2_capacity bits" and bits: "4 \<le> bits" and num: "int num \<le> ext2_boundary bits b + 1"
    and tree: "tree_ok (places (ext2_path bits) (ext2_capacity bits)) U fs"
    and c: "chain_of fs (ext2_path bits b) chain" and missing: "key (last chain) = 0"
    and ib: "length ib = length (ext2_path bits b) - length chain"
    and free: "\<And>i. length chain = length (ext2_path bits b) \<Longrightarrow> i < num \<Longrightarrow> rd fs (slot_add (p (last chain)) i) = 0"
    and new: "distinct (ib @ map ((+) d) [0..<num])" "set (ib @ map ((+) d) [0..<num]) \<inter> U = {}"
      "0 \<notin> set (ib @ map ((+) d) [0..<num])"
    and f: "i_data fs1 = i_data fs" "\<forall>v\<in>U. blks fs1 v = blks fs v"
    and links: "\<And>i. i < length ib \<Longrightarrow> blks fs1 (ib ! i) =
         (if Suc i < length ib then (\<lambda>_. 0)(drop (length chain - 1) (ext2_path bits b) ! Suc i := ib ! Suc i)
          else (\<lambda>off. if drop (length chain - 1) (ext2_path bits b) ! Suc i \<le> off
                        \<and> off < drop (length chain - 1) (ext2_path bits b) ! Suc i + num
                      then d + (off - drop (length chain - 1) (ext2_path bits b) ! Suc i) else 0))"
  shows "new_branch (places (ext2_path bits) (ext2_capacity bits)) U fs
    (if ib = [] then write_run (p (last chain)) d num fs1 else wr (p (last chain)) (hd ib) fs1) (ext2_path bits b) (length chain) ib d num"
proof -
  let ?offs = "ext2_path bits b" and ?P = "places (ext2_path bits) (ext2_capacity bits)"
  have ne: "?offs \<noteq> []" using ext2_path_shape(2) [OF b] .
  have len: "0 < length chain" "length chain \<le> length ?offs" using chain_ofD(1,2) [OF c] by auto
  have sib: "b + i < ext2_capacity bits" "ext2_path bits (b + i) = butlast ?offs @ [last ?offs + i]" if "i < num" for i
    using ext2_siblings(2) [OF b bits, of i] num that by auto
  have drop: "drop (length chain - 1) ?offs ! Suc i = ?offs ! (length chain + i)" for i
  proof -
    have "length chain - 1 + Suc i = length chain + i" "length chain - 1 \<le> length ?offs" using len by linarith+
    then show ?thesis using nth_drop [of "length chain - 1" ?offs "Suc i"] by (simp only:)
  qed
  have last_off: "?offs ! (length chain + i) = last ?offs" if "i < length ib" "\<not> Suc i < length ib" for i
  proof -
    have "length chain + i = length ?offs - 1" using that len ib by linarith
    then show ?thesis unfolding last_conv_nth [OF ne] by (rule arg_cong)
  qed
  have links': "blks fs1 (ib ! i) = (if Suc i < length ib then (\<lambda>_. 0)(?offs ! (length chain + i) := ib ! Suc i)
        else (\<lambda>off. if last ?offs \<le> off \<and> off < last ?offs + num then d + (off - last ?offs) else 0))" if i: "i < length ib" for i
  proof (cases "Suc i < length ib")
    case True
    show ?thesis unfolding links [OF i, unfolded drop] if_P [OF True] ..
  next
    case False
    show ?thesis unfolding links [OF i, unfolded drop] if_not_P [OF False] last_off [OF i False] ..
  qed
  show ?thesis
  proof (rule spliced_branch [OF tree ext2.places_closed(1) ext2.path_place [OF b] c missing _ _ _ ib new f links'])
    show "butlast ?offs @ [last ?offs + i] \<in> ?P" if "i < num" for i using ext2.path_place [OF sib(1) [OF that]] sib(2) [OF that] by simp
    show "butlast ?offs @ [last ?offs + i, off] \<notin> ?P" if "i < num" for i off
      using ext2.path_leaf [OF sib(1) [OF that], of off] sib(2) [OF that] by simp
    show "val fs (butlast ?offs @ [last ?offs + i]) = 0" if "length chain = length ?offs" "i < num" for i
      using free [OF that] chain_slot_sibling [OF c that(1), of i] by simp
  qed
qed

lemma ext2_allocate_ok:
  assumes q: "quiet env" and a: "ext2_alloc_ok env used" and sp: "ext2_splice_ok env"
    and dax: "is_dax env \<longrightarrow> (\<forall>d n. sb_issue_zeroout env d n = None)"
    and b: "b < ext2_capacity bits" and bits: "4 \<le> bits" and mx: "0 < maxblocks"
    and tree: "tree_ok (places (ext2_path bits) (ext2_capacity bits)) (used (alloc_state fs)) fs"
    and c: "chain_of fs (ext2_path bits b) chain" and missing: "key (last chain) = 0"
  shows "\<exists>m info' fs'. ext2_allocate env (ext2_path bits b) (ext2_boundary bits b) (int b) maxblocks chain (info, fs) = Some (m, info', fs')
    \<and> ext2_maps bits used b maxblocks fs m fs' \<and> ret m \<noteq> Inr 0"
proof -
  let ?offs = "ext2_path bits b" and ?bd = "ext2_boundary bits b" and ?P = "places (ext2_path bits) (ext2_capacity bits)"
  define k where "k = length ?offs - length chain"
  define n where "n = ext2_blks_to_allocate fs (p (last chain)) k maxblocks ?bd"
  define info1 where "info1 = (if is_reg env \<and> info = None then Some (ext2_init_block_alloc_info env) else info)"
  define goal where "goal = ext2_find_goal env info1 (int b) fs chain"
  note ne = ext2.path_nonempty [OF b] and pl = ext2.path_place [OF b]
  have len: "0 < length chain" "length chain \<le> length ?offs" using chain_ofD(1,2) [OF c] by auto
  have rd0: "rd fs (p (last chain)) = 0"
    using chain_ofD(4) [OF c, of "length chain - 1"] missing len(1) by (simp add: last_conv_nth)
  note n = blks_to_allocate_ok [OF mx ext2_siblings(1) [OF b bits] rd0, of k, folded n_def]
  have offsets: "length (drop (length chain - 1) ?offs) = Suc k" unfolding k_def length_drop using len by linarith
  have alloc: "ext2_allocate env ?offs ?bd (int b) maxblocks chain (info, fs) =
      map_option (\<lambda>(err, new, d, num, fs).
             if err \<noteq> None then (failed err, info1, fs)
             else
               let zeroed = (if is_dax env then sb_issue_zeroout env d num else None) in
               if zeroed \<noteq> None then (failed zeroed, info1, fs)
               else
                 let w = (last chain)\<lparr>key := (case new of [] \<Rightarrow> d | b # _ \<Rightarrow> b)\<rparr>
                 in (got_it ?bd num d True, ext2_splice_branch env (int b) w k num (info1, fs)))
           (ext2_alloc_branch env k n goal (drop (length chain - 1) ?offs) fs)"
    unfolding ext2_allocate_def Let_def prod.case info1_def goal_def n_def k_def by (rule refl)
  show ?thesis
  proof (rule ext2_alloc_branch_ok [OF a n(1) offsets, of goal fs])
    fix e fs' assume e: "ext2_alloc_branch env k n goal (drop (length chain - 1) ?offs) fs = Some (Some e, [], 0, 0, fs')"
      and f: "i_data fs' = i_data fs" "\<forall>v\<in>used (alloc_state fs). blks fs' v = blks fs v" "used (alloc_state fs') = used (alloc_state fs)"
    have v: "val fs' \<pi> = val fs \<pi>" if "\<pi> \<in> ?P" for \<pi> using ext2.values_kept [OF f(1,2) tree that] .
    then have "tree_ok ?P (used (alloc_state fs')) fs'" using tree f(3) by (simp add: tree_ok_def)
    then have "ext2_maps bits used b maxblocks fs (failed (Some e)) fs'"
      using v ext2.path_place f(3) by (simp add: ext2_maps_def failed_def)
    moreover have "ret (failed (Some e)) \<noteq> Inr 0" by (simp add: failed_def)
    ultimately show ?thesis unfolding alloc e by simp
  next
    fix ib d num fs1
    assume e: "ext2_alloc_branch env k n goal (drop (length chain - 1) ?offs) fs = Some (None, ib, d, num, fs1)"
      and ib: "length ib = k" and num: "0 < num" "num \<le> n"
      and new: "distinct (ib @ map ((+) d) [0..<num])" "set (ib @ map ((+) d) [0..<num]) \<inter> used (alloc_state fs) = {}"
        "0 \<notin> set (ib @ map ((+) d) [0..<num])"
      and u: "used (alloc_state fs1) = used (alloc_state fs) \<union> set (ib @ map ((+) d) [0..<num])"
      and f: "i_data fs1 = i_data fs" "\<forall>v\<in>used (alloc_state fs). blks fs1 v = blks fs v"
      and links: "\<And>i. i < k \<Longrightarrow> blks fs1 (ib ! i) =
         (if Suc i < k then (\<lambda>_. 0)(drop (length chain - 1) ?offs ! Suc i := ib ! Suc i)
          else (\<lambda>off. if drop (length chain - 1) ?offs ! Suc i \<le> off \<and> off < drop (length chain - 1) ?offs ! Suc i + num
                      then d + (off - drop (length chain - 1) ?offs ! Suc i) else 0))"
    define fs' where "fs' = (if ib = [] then write_run (p (last chain)) d num fs1 else wr (p (last chain)) (hd ib) fs1)"
    have B: "new_branch ?P (used (alloc_state fs)) fs fs' ?offs (length chain) ib d num"
      unfolding fs'_def
    proof (rule ext2_spliced [OF b bits _ tree c missing _ _ new f])
      show "int num \<le> ?bd + 1" using n(3) num(2) by linarith
      show "length ib = length ?offs - length chain" using ib by (simp only: k_def)
      show "rd fs (slot_add (p (last chain)) i) = 0" if "length chain = length ?offs" "i < num" for i
        using n(4) [of i] num(2) that by (simp add: k_def)
    qed (rule links [folded ib])
    let ?w = "(last chain)\<lparr>key := (case ib of [] \<Rightarrow> d | b # _ \<Rightarrow> b)\<rparr>"
    have snd_splice: "snd (ext2_splice_branch env (int b) ?w k num (info1, fs1)) = fs'"
      unfolding sp [unfolded ext2_splice_ok_def, THEN spec, THEN spec, THEN spec, THEN spec, THEN spec, THEN spec]
      by (cases ib) (use ib in \<open>simp_all add: fs'_def\<close>)
    obtain info' where spl: "ext2_splice_branch env (int b) ?w k num (info1, fs1) = (info', fs')"
      by (rule prod.exhaust [of "ext2_splice_branch env (int b) ?w k num (info1, fs1)"]) (use snd_splice in simp)
    have zero: "(if is_dax env then sb_issue_zeroout env d num else None) = None" using dax by simp
    have res: "ext2_allocate env ?offs ?bd (int b) maxblocks chain (info, fs) = Some (got_it ?bd num d True, info', fs')"
      unfolding alloc e option.map prod.case zero Let_def spl by simp
    have "0 < d" using new(3) num(1) by (cases d) auto
    moreover have "used (alloc_state fs') = used (alloc_state fs) \<union> set (ib @ map ((+) d) [0..<num])"
      unfolding u [symmetric] fs'_def by (cases "p (last chain)") simp_all
    ultimately have "ext2_maps bits used b maxblocks fs (got_it ?bd num d True) fs'"
      by (intro ext2_branch_maps [where used = used and fs = fs, OF B b bits num(1) _ _ tree new(2)]) (use num(2) n(2,3) in linarith)+
    moreover have "ret (got_it ?bd num d True) \<noteq> Inr 0" using num(1) by (simp add: got_it_def)
    ultimately show ?thesis unfolding res by blast
  qed
qed

text \<open>A chain that is whole: the blocks behind are counted while they are consecutive.\<close>

lemma more_blocks_ok:
  assumes v: "verify_chain env fs chain"
  shows "\<exists>n'. more_blocks env chain v0 bd n count fs = (False, n') \<and> count \<le> n' \<and> n' \<le> count + n
    \<and> (int count \<le> bd + 1 \<longrightarrow> int n' \<le> bd + 1)
    \<and> (\<forall>i. count \<le> i \<and> i < n' \<longrightarrow> rd fs (slot_add (p (last chain)) i) = v0 + i)"
proof (induction n arbitrary: count)
  case (Suc n)
  show ?case
  proof (cases "int count \<le> bd \<and> rd fs (slot_add (p (last chain)) count) = v0 + count")
    case True
    obtain n' where n': "more_blocks env chain v0 bd n (count + 1) fs = (False, n')" "count + 1 \<le> n'" "n' \<le> count + 1 + n"
      "int (count + 1) \<le> bd + 1 \<longrightarrow> int n' \<le> bd + 1"
      "\<forall>i. count + 1 \<le> i \<and> i < n' \<longrightarrow> rd fs (slot_add (p (last chain)) i) = v0 + i"
      using Suc.IH [of "count + 1"] by blast
    have "rd fs (slot_add (p (last chain)) i) = v0 + i" if "count \<le> i" "i < n'" for i
      using n'(5) that True by (cases "i = count") auto
    then show ?thesis using n' True v by auto
  next
    case False
    then have "more_blocks env chain v0 bd (Suc n) count fs = (False, count)" using v by auto
    then show ?thesis by auto
  qed
qed simp

lemma ext2_whole_maps:
  assumes c: "chain_of fs (ext2_path bits b) chain" "length chain = length (ext2_path bits b)" "key (last chain) \<noteq> 0"
    and b: "b < ext2_capacity bits" and bits: "4 \<le> bits"
    and tree: "tree_ok (places (ext2_path bits) (ext2_capacity bits)) (used (alloc_state fs)) fs"
    and n: "0 < n" "n \<le> maxblocks" "int n \<le> ext2_boundary bits b + 1"
      "\<And>i. i < n \<Longrightarrow> rd fs (slot_add (p (last chain)) i) = key (last chain) + i"
  shows "ext2_maps bits used b maxblocks fs (got_it (ext2_boundary bits b) n (key (last chain)) False) fs"
proof -
  have "val fs (ext2_path bits (b + i)) = key (last chain) + i" if "i < n" for i
    using n(4) [OF that] chain_slot_sibling [OF c(1,2), of i] ext2_siblings(2) [OF b bits, of i] n(3) that by simp
  then show ?thesis using tree n(1-3) c(3) by (auto simp: ext2_maps_def got_it_def)
qed



section \<open>A small file system\<close>

definition demo_ext2_env :: "nat list ext2_env" where
  "demo_ext2_env = \<lparr>sb_bread = (\<lambda>b fs. (True, fs)), verify_chain = (\<lambda>fs chain. list_all (\<lambda>c. rd fs (p c) = key c) chain),
     sb_getblk = (\<lambda>_ _. True),
     ext2_new_blocks = (\<lambda>goal n fs. let b = Suc (sum_list (alloc_state fs)); k = min n 2 in
       (None, b, k, fs\<lparr>alloc_state := [b..<b + k] @ alloc_state fs\<rparr>)),
     ext2_free_blocks = (\<lambda>b n fs. fs\<lparr>alloc_state := filter (\<lambda>x. x \<notin> {b..<b + n}) (alloc_state fs)\<rparr>),
     ext2_find_near = (\<lambda>_ _. 0), ext2_init_block_alloc_info = (0, 0),
     ext2_splice_branch = (\<lambda>iblock w k n (info, fs). (info, if k = 0 then write_run (p w) (key w) n fs else wr (p w) (key w) fs)),
     is_reg = True, is_dax = False, sb_issue_zeroout = (\<lambda>_ _. None)\<rparr>"

definition empty_ext2 :: "nat list fs" where
  "empty_ext2 = \<lparr>i_data = (\<lambda>_. 0), blks = (\<lambda>_ _. 0), alloc_state = []\<rparr>"

lemma demo_ext2_env_ok:
  "quiet demo_ext2_env" "ext2_alloc_ok demo_ext2_env set" "ext2_splice_ok demo_ext2_env"
  "is_dax demo_ext2_env \<longrightarrow> (\<forall>d n. sb_issue_zeroout demo_ext2_env d n = None)"
proof -
  have "x \<in> set xs \<Longrightarrow> x \<le> sum_list xs" for x :: nat and xs by (simp add: member_le_sum_list)
  then have "{Suc (sum_list xs)..<Suc (sum_list xs) + k} \<inter> set xs = {}" for xs :: "nat list" and k by fastforce
  then show "ext2_alloc_ok demo_ext2_env set"
    by (auto simp: ext2_alloc_ok_def demo_ext2_env_def Let_def)
qed (simp_all add: quiet_def ext2_splice_ok_def demo_ext2_env_def)

lemma empty_ext2_ok: "tree_ok P used empty_ext2"
proof -
  have "walk empty_ext2 0 \<pi> = 0" for \<pi> by simp
  then have "val empty_ext2 \<pi> = 0" for \<pi> by (cases \<pi>) (simp_all add: empty_ext2_def)
  then show ?thesis by (simp add: tree_ok_def)
qed



end
