(* ===== verification/LinuxLoadWeight.thy ===== *)
theory LinuxLoadWeight
  imports RTFSC_Prelude
begin

text \<open>
  The weights of the fair scheduler (\<^verbatim>\<open>linux/proc/sched/update_curr.c\<close>, \<^verbatim>\<open>linux/proc/sched/place_entity.c\<close>): the
  scaling of a time by the quotient of two weights with a multiplication and a shift, the virtual time of a running
  entity and the division of a period into slices.  The kernel's constants are those of a 64-bit machine:
  \<^verbatim>\<open>WMULT_CONST = ~0U\<close>, \<^verbatim>\<open>WMULT_SHIFT = 32\<close>, \<^verbatim>\<open>SCHED_FIXEDPOINT_SHIFT = 10\<close>, \<^verbatim>\<open>NICE_0_LOAD = 1 << 20\<close>.
  \<^verbatim>\<open>mul_u64_u32_shr\<close>, a multiplication with 128-bit result and a shift, is not in the repository and an argument.
\<close>

unbundle bit_operations_syntax

section \<open>Scaling\<close>

definition WMULT_CONST :: u64 where
  "WMULT_CONST = 0xFFFFFFFF"

definition NICE_0_LOAD :: u64 where
  "NICE_0_LOAD = 0x100000"

definition scale_load_down :: "u64 \<Rightarrow> u64" where
  "scale_load_down w = drop_bit 10 w"

record load_weight =
  weight :: u64
  inv_weight :: u32

definition update_load_add :: "load_weight \<Rightarrow> u64 \<Rightarrow> load_weight" where
  "update_load_add lw inc = lw\<lparr>weight := weight lw + inc, inv_weight := 0\<rparr>"

text \<open>The reciprocal of the weight, once.\<close>

definition update_inv_weight :: "load_weight \<Rightarrow> load_weight" where
  "update_inv_weight lw =
     (if inv_weight lw \<noteq> 0 then lw
      else
        let w = scale_load_down (weight lw)
        in if w \<ge> WMULT_CONST then lw\<lparr>inv_weight := 1\<rparr>
           else if w = 0 then lw\<lparr>inv_weight := ucast WMULT_CONST\<rparr>
           else lw\<lparr>inv_weight := ucast (WMULT_CONST div w)\<rparr>)"

text \<open>A factor is cut to 32 bits, the shift gets smaller by the bits dropped.\<close>

lemma shift_down_less: "unat (drop_bit 1 w) < unat w" if "drop_bit 32 w \<noteq> 0" for w :: u64
proof -
  have "w \<noteq> 0" using that by auto
  then have "0 < unat w" by (simp add: unat_gt_0)
  then show ?thesis by (simp add: wordarith)
qed

function shift_down :: "u64 \<Rightarrow> int \<Rightarrow> u64 \<times> int" where
  "shift_down fct shift = (if drop_bit 32 fct \<noteq> 0 then shift_down (drop_bit 1 fct) (shift - 1) else (fct, shift))"
  by pat_completeness auto
termination by (relation "measure (unat \<circ> fst)") (simp_all add: shift_down_less [simplified])

declare shift_down.simps [simp del]

text \<open>The type of \<^verbatim>\<open>mul_u64_u32_shr\<close>, and what it computes.\<close>

type_synonym mul_shr = "u64 \<Rightarrow> u32 \<Rightarrow> int \<Rightarrow> u64"

definition mul_shr_ok :: "mul_shr \<Rightarrow> bool" where
  "mul_shr_ok mul \<longleftrightarrow> (\<forall>a m s. 0 \<le> s \<and> s \<le> 32 \<longrightarrow> mul a m s = of_nat (unat a * unat m div 2 ^ nat s))"

definition calc_factor :: "u64 \<Rightarrow> load_weight \<Rightarrow> u32 \<times> int" where
  "calc_factor w lw =
     (let fct = scale_load_down w; (fct, shift) = shift_down fct 32;
          fct = ucast (ucast fct :: u32) * ucast (inv_weight lw); (fct, shift) = shift_down fct shift
      in (ucast fct, shift))"

text \<open>\<^verbatim>\<open>__calc_delta\<close> also leaves the reciprocal in the load.\<close>

definition calc_delta :: "mul_shr \<Rightarrow> u64 \<Rightarrow> u64 \<Rightarrow> load_weight \<Rightarrow> u64 \<times> load_weight" where
  "calc_delta mul delta_exec w lw =
     (let lw = update_inv_weight lw; (fct, shift) = calc_factor w lw in (mul delta_exec fct shift, lw))"

definition calc_delta_fair :: "mul_shr \<Rightarrow> u64 \<Rightarrow> load_weight \<Rightarrow> u64 \<times> load_weight" where
  "calc_delta_fair mul delta load =
     (if weight load \<noteq> NICE_0_LOAD then calc_delta mul delta NICE_0_LOAD load else (delta, load))"

section \<open>What the loop keeps\<close>

lemma drop_bit_32: "drop_bit 32 w \<noteq> 0 \<longleftrightarrow> 2 ^ 32 \<le> unat w" for w :: u64
proof -
  have "drop_bit 32 w = 0 \<longleftrightarrow> unat w div 2 ^ 32 = 0" by (metis unat_drop_bit_eq_div unat_eq_zero)
  then show ?thesis by (simp add: div_eq_0_iff) linarith
qed

text \<open>The 32 leading bits of a number: \<open>top x = x div 2 ^ n\<close> with the least \<open>n\<close> that makes it fit.\<close>

fun drops :: "nat \<Rightarrow> nat" where
  "drops x = (if 2 ^ 32 \<le> x then Suc (drops (x div 2)) else 0)"

declare drops.simps [simp del]

lemma shift_down_drops: "shift_down fct shift = (drop_bit (drops (unat fct)) fct, shift - int (drops (unat fct)))"
proof (induction fct shift rule: shift_down.induct)
  case (1 fct shift)
  show ?case
  proof (cases "drop_bit 32 fct \<noteq> 0")
    case True
    then have d: "drops (unat fct) = Suc (drops (unat (drop_bit 1 fct)))"
      using drops.simps [of "unat fct"] by (simp add: drop_bit_32 wordarith)
    show ?thesis using True 1 [OF True] unfolding d shift_down.simps [of fct shift] by (simp add: drop_bit_drop_bit)
  next
    case False
    then have "drops (unat fct) = 0" using drops.simps [of "unat fct"] by (simp add: drop_bit_32)
    then show ?thesis using False by (simp add: shift_down.simps [of fct shift])
  qed
qed

lemma drops_0: "x < 2 ^ 32 \<Longrightarrow> drops x = 0"
  by (subst drops.simps) simp

lemma drops_fits: "x div 2 ^ drops x < 2 ^ 32"
proof (induction x rule: drops.induct)
  case (1 x)
  show ?case
  proof (cases "2 ^ 32 \<le> x")
    case True
    then have "drops x = Suc (drops (x div 2))" using drops.simps [of x] by simp
    then show ?thesis using 1 [OF True] by (simp add: div_mult2_eq)
  next
    case False
    then have "drops x = 0" using drops.simps [of x] by simp
    then show ?thesis using False by simp
  qed
qed

lemma drops_tight: "0 < drops x \<Longrightarrow> 2 ^ 31 \<le> x div 2 ^ drops x"
proof (induction x rule: drops.induct)
  case (1 x)
  show ?case
  proof (cases "2 ^ 32 \<le> x")
    case True
    then have d: "drops x = Suc (drops (x div 2))" using drops.simps [of x] by simp
    show ?thesis
    proof (cases "0 < drops (x div 2)")
      case True
      then show ?thesis using 1(1) [OF \<open>2 ^ 32 \<le> x\<close>] d by (simp add: div_mult2_eq)
    next
      case False
      then show ?thesis using \<open>2 ^ 32 \<le> x\<close> d by simp
    qed
  next
    case False
    then have "drops x = 0" using drops.simps [of x] by simp
    then show ?thesis using 1(2) by simp
  qed
qed

lemma drops_bound: "x < 2 ^ (32 + n) \<Longrightarrow> drops x \<le> n"
proof (induction n arbitrary: x)
  case (Suc n)
  then have "x div 2 < 2 ^ (32 + n)" by (intro less_mult_imp_div_less) (simp only: add_Suc_right power_Suc mult.commute)
  then show ?case using Suc.IH drops.simps [of x] by auto
qed (simp add: drops.simps)

text \<open>The factor and the shift in natural numbers.\<close>

lemma calc_factor_nat:
  fixes w lw
  defines "F \<equiv> unat w div 1024" and "I \<equiv> unat (inv_weight lw)"
  shows "unat (fst (calc_factor w lw)) = F div 2 ^ drops F * I div 2 ^ drops (F div 2 ^ drops F * I)"
    and "snd (calc_factor w lw) = 32 - int (drops F) - int (drops (F div 2 ^ drops F * I))"
proof -
  let ?f = "F div 2 ^ drops F" and ?u = "drop_bit (drops F) (scale_load_down w)"
  have F: "unat (scale_load_down w) = F" by (simp add: scale_load_down_def F_def wordarith)
  have u: "unat ?u = ?f" by (simp add: F wordarith)
  have f: "?f < 2 ^ 32" by (rule drops_fits)
  have "unat (ucast ?u :: u32) = ?f" using u f by (simp add: unat_ucast_mod)
  moreover have "?f * I < 2 ^ 64"
  proof -
    have "I \<le> 2 ^ 32 - 1" unfolding I_def using unat_less_u32 [of "inv_weight lw"] by (simp del: unat_less_u32)
    moreover have "?f \<le> 2 ^ 32 - 1" using f by simp
    ultimately have "?f * I \<le> (2 ^ 32 - 1) * (2 ^ 32 - 1)" by (intro mult_le_mono)
    then show ?thesis by simp
  qed
  moreover have "I mod 18446744073709551616 = I"
    unfolding I_def by (rule mod_less, rule less_trans [OF unat_less_u32]) simp
  ultimately have x: "unat (ucast (ucast ?u :: u32) * ucast (inv_weight lw) :: u64) = ?f * I"
    by (simp add: unat_word_ariths unat_ucast_mod I_def)
  have cf: "calc_factor w lw = (ucast (drop_bit (drops (?f * I)) (ucast (ucast ?u :: u32) * ucast (inv_weight lw) :: u64)),
      32 - int (drops F) - int (drops (?f * I)))"
    unfolding calc_factor_def Let_def shift_down_drops prod.case F x ..
  show "snd (calc_factor w lw) = 32 - int (drops F) - int (drops (?f * I))" unfolding cf by simp
  show "unat (fst (calc_factor w lw)) = ?f * I div 2 ^ drops (?f * I)"
    unfolding cf fst_conv using drops_fits [of "?f * I"] by (simp add: unat_ucast_mod unat_drop_bit_eq_div x)
qed

section \<open>The reciprocal\<close>

text \<open>A load is consistent when its reciprocal is not computed yet or is the one of its weight.\<close>

definition recip :: "nat \<Rightarrow> nat" where
  "recip w = (if 2 ^ 32 - 1 \<le> w then 1 else if w = 0 then 2 ^ 32 - 1 else (2 ^ 32 - 1) div w)"

definition load_ok :: "load_weight \<Rightarrow> bool" where
  "load_ok lw \<longleftrightarrow> inv_weight lw \<noteq> 0 \<longrightarrow> unat (inv_weight lw) = recip (unat (weight lw) div 1024)"

lemma recip_pos: "0 < recip w" "recip w < 2 ^ 32"
proof -
  show "recip w < 2 ^ 32" using le_less_trans [OF div_le_dividend, of "2 ^ 32 - 1" "2 ^ 32" w] by (simp add: recip_def)
  show "0 < recip w" by (simp add: recip_def div_greater_zero_iff)
qed

lemma update_inv_weight:
  assumes "load_ok lw"
  shows "unat (inv_weight (update_inv_weight lw)) = recip (unat (weight lw) div 1024)"
    "weight (update_inv_weight lw) = weight lw"
proof -
  let ?w = "scale_load_down (weight lw)"
  have w: "unat ?w = unat (weight lw) div 1024" by (simp add: scale_load_down_def wordarith)
  have c: "unat WMULT_CONST = 2 ^ 32 - 1" by (simp add: WMULT_CONST_def)
  have le: "WMULT_CONST \<le> ?w \<longleftrightarrow> 2 ^ 32 - 1 \<le> unat (weight lw) div 1024" unfolding word_le_nat_alt c w ..
  have z: "?w = 0 \<longleftrightarrow> unat (weight lw) div 1024 = 0" by (metis w unat_eq_zero)
  have d: "unat (ucast (WMULT_CONST div ?w) :: u32) = (2 ^ 32 - 1) div (unat (weight lw) div 1024)"
  proof -
    have "(2 ^ 32 - 1) div (unat (weight lw) div 1024) < 2 ^ LENGTH(32)" by (rule le_less_trans [OF div_le_dividend]) simp
    then show ?thesis unfolding unat_ucast_mod unat_div c w by (rule mod_less)
  qed
  have u: "unat (ucast WMULT_CONST :: u32) = 2 ^ 32 - 1" unfolding unat_ucast_mod c by simp
  show "unat (inv_weight (update_inv_weight lw)) = recip (unat (weight lw) div 1024)"
    using assms d u unfolding update_inv_weight_def Let_def le z recip_def load_ok_def by simp
  show "weight (update_inv_weight lw) = weight lw" by (simp add: update_inv_weight_def Let_def)
qed

lemma update_inv_weight_ok: "load_ok lw \<Longrightarrow> load_ok (update_inv_weight lw)"
  using update_inv_weight [of lw] by (simp add: load_ok_def)

text \<open>The product of a weight with the reciprocal of a weight that is not smaller fits 32 bits.\<close>

lemma recip_upper: "w < 2 ^ 32 \<Longrightarrow> w * recip w \<le> 2 ^ 32 - 1"
  using times_div_less_eq_dividend [of w "2 ^ 32 - 1"] by (auto simp: recip_def)

lemma recip_lower: "0 < w \<Longrightarrow> 2 ^ 32 - w \<le> w * recip w"
proof (cases "2 ^ 32 - 1 \<le> w")
  case False
  assume "0 < w"
  have "2 ^ 32 - 1 = w * ((2 ^ 32 - 1) div w) + (2 ^ 32 - 1) mod w" by (simp only: mult_div_mod_eq)
  moreover have "(2 ^ 32 - 1) mod w < w" using \<open>0 < w\<close> by simp
  ultimately have "2 ^ 32 - w \<le> w * ((2 ^ 32 - 1) div w)" by linarith
  then show ?thesis using False \<open>0 < w\<close> by (simp only: recip_def if_False) simp
qed (simp add: recip_def)

lemma recip_antimono: "v \<le> w \<Longrightarrow> recip w \<le> recip v"
  unfolding recip_def by (auto simp: div_le_mono2 Suc_le_eq div_greater_zero_iff)

section \<open>The scaled time\<close>

text \<open>The factor with the loads scaled down: what the multiplication gets, and how it relates to the quotient.\<close>

abbreviation scaled :: "u64 \<Rightarrow> nat" where
  "scaled w \<equiv> unat w div 1024"

definition factor :: "nat \<Rightarrow> nat \<Rightarrow> nat \<times> nat" where
  "factor f w = (let f1 = f div 2 ^ drops f; x = f1 * recip w in (x div 2 ^ drops x, drops f + drops x))"

lemma calc_delta_nat:
  assumes ok: "load_ok lw"
  obtains m s where "calc_delta mul delta w lw = (mul delta m s, update_inv_weight lw)"
    "unat m = fst (factor (scaled w) (scaled (weight lw)))"
    "s = 32 - int (snd (factor (scaled w) (scaled (weight lw))))"
proof -
  let ?cf = "calc_factor w (update_inv_weight lw)"
  have "calc_delta mul delta w lw = (mul delta (fst ?cf) (snd ?cf), update_inv_weight lw)"
    by (simp add: calc_delta_def Let_def split_beta)
  then show thesis
    by (rule that) (simp_all add: calc_factor_nat update_inv_weight [OF ok] factor_def Let_def)
qed

lemma factor_below:
  assumes "w < 2 ^ 32" "fst (factor f w) = m" "snd (factor f w) = k"
  shows "m * 2 ^ k * w \<le> f * 2 ^ 32" "m < 2 ^ 32"
proof -
  let ?f1 = "f div 2 ^ drops f" and ?x = "f div 2 ^ drops f * recip w"
  have m: "m = ?x div 2 ^ drops ?x" and k: "k = drops f + drops ?x" using assms(2,3) by (simp_all add: factor_def Let_def)
  have "m * 2 ^ drops ?x \<le> ?x" unfolding m by (rule div_times_less_eq_dividend)
  then have "m * 2 ^ drops ?x * 2 ^ drops f * w \<le> ?f1 * recip w * 2 ^ drops f * w" by (intro mult_le_mono1)
  also have "\<dots> = (?f1 * 2 ^ drops f) * (w * recip w)" by (simp only: mult_ac)
  also have "\<dots> \<le> f * 2 ^ 32"
    using recip_upper [OF assms(1)] by (intro mult_le_mono div_times_less_eq_dividend) simp
  finally show "m * 2 ^ k * w \<le> f * 2 ^ 32" unfolding k by (simp only: power_add mult_ac)
  show "m < 2 ^ 32" unfolding m by (rule drops_fits)
qed

text \<open>The shift stays positive in the two uses that the code has: the weight is that of nice 0, or it is at most
  the weight of the load.\<close>

lemma factor_nice_0: "snd (factor 1024 w) \<le> 10"
proof -
  have "1024 * recip w < 1024 * 2 ^ 32" using recip_pos(2) [of w] by simp
  then have "drops (1024 * recip w) \<le> 10" by (intro drops_bound) simp
  moreover have "drops 1024 = 0" by (intro drops_0) simp
  ultimately show ?thesis by (simp add: factor_def Let_def)
qed

lemma factor_part:
  assumes "f \<le> w" "f < 2 ^ 54"
  shows "snd (factor f w) \<le> 22" "w < 2 ^ 32 \<Longrightarrow> factor f w = (f * recip w, 0)"
proof -
  have small: "factor f w = (f * recip w, 0)" if "w < 2 ^ 32"
  proof -
    have "f < 2 ^ 32" using that assms(1) by simp
    then have "drops f = 0" by (rule drops_0)
    moreover have "f * recip w < 2 ^ 32"
      by (rule le_less_trans [OF mult_le_mono1 [OF assms(1)]], rule le_less_trans [OF recip_upper [OF that]]) simp
    then have "drops (f * recip w) = 0" by (rule drops_0)
    ultimately show ?thesis by (simp add: factor_def Let_def)
  qed
  then show "w < 2 ^ 32 \<Longrightarrow> factor f w = (f * recip w, 0)" .
  show "snd (factor f w) \<le> 22"
  proof (cases "w < 2 ^ 32")
    case False
    then have "recip w = 1" by (simp add: recip_def)
    moreover have "drops f \<le> 22" using assms(2) by (intro drops_bound) simp
    moreover have "drops (f div 2 ^ drops f) = 0" by (rule drops_0 [OF drops_fits])
    ultimately show ?thesis by (simp add: factor_def Let_def)
  qed (use small in simp)
qed

lemma mul_shr_nat:
  assumes "mul_shr_ok mul" "k \<le> 32" "s = 32 - int k"
  shows "unat (mul a m s) = unat a * unat m * 2 ^ k div 2 ^ 32 mod 2 ^ 64"
proof -
  have "nat s = 32 - k" "0 \<le> s" "s \<le> 32" using assms(2,3) by simp_all
  then have "unat (mul a m s) = unat a * unat m div 2 ^ (32 - k) mod 2 ^ 64"
    using assms(1) by (simp add: mul_shr_ok_def unat_of_nat)
  also have "unat a * unat m div 2 ^ (32 - k) = unat a * unat m * 2 ^ k div (2 ^ (32 - k) * 2 ^ k)" by simp
  also have "(2::nat) ^ (32 - k) * 2 ^ k = 2 ^ 32" using assms(2) by (simp flip: power_add)
  finally show ?thesis .
qed

text \<open>The quotient is never exceeded.\<close>

lemma calc_delta_nat_part:
  assumes "mul_shr_ok mul" "load_ok lw" "scaled w \<le> scaled (weight lw)" "scaled (weight lw) < 2 ^ 32"
  shows "calc_delta mul delta w lw = (fst (calc_delta mul delta w lw), update_inv_weight lw)"
    "unat (fst (calc_delta mul delta w lw)) = unat delta * (scaled w * recip (scaled (weight lw))) div 2 ^ 32"
proof -
  let ?F = "scaled w" and ?W = "scaled (weight lw)"
  obtain m s where d: "calc_delta mul delta w lw = (mul delta m s, update_inv_weight lw)"
    and ms: "unat m = fst (factor ?F ?W)" "s = 32 - int (snd (factor ?F ?W))"
    using calc_delta_nat [OF assms(2)] .
  have F: "factor ?F ?W = (?F * recip ?W, 0)"
    by (intro factor_part(2) assms(3,4) less_mult_imp_div_less less_le_trans [OF unat_less_u64]) simp
  have "?F * recip ?W \<le> 2 ^ 32"
    using mult_le_mono1 [OF assms(3), of "recip ?W"] recip_upper [OF assms(4)] by linarith
  then have le: "unat delta * (?F * recip ?W) \<le> unat delta * 2 ^ 32" by (rule mult_le_mono2)
  have "unat (mul delta m s) = unat delta * (?F * recip ?W) div 2 ^ 32 mod 2 ^ 64"
    using mul_shr_nat [OF assms(1), of 0 s delta m] ms F by simp
  moreover have "unat delta * (?F * recip ?W) div 2 ^ 32 \<le> unat delta" using div_le_mono [OF le, of "2 ^ 32"] by simp
  then have "unat delta * (?F * recip ?W) div 2 ^ 32 < 2 ^ 64" by (rule le_less_trans) (simp add: less_le_trans [OF unat_less_u64])
  ultimately show "unat (fst (calc_delta mul delta w lw)) = unat delta * (?F * recip ?W) div 2 ^ 32" by (simp add: d)
  show "calc_delta mul delta w lw = (fst (calc_delta mul delta w lw), update_inv_weight lw)" by (simp add: d)
qed

lemma calc_delta_bound:
  assumes "mul_shr_ok mul" "load_ok lw" "scaled w \<le> scaled (weight lw)" "0 < scaled (weight lw)" "scaled (weight lw) < 2 ^ 32"
  shows "unat (fst (calc_delta mul delta w lw)) * scaled (weight lw) \<le> unat delta * scaled w"
proof -
  let ?F = "scaled w" and ?W = "scaled (weight lw)"
  note r = calc_delta_nat_part(2) [OF assms(1-3,5), of delta]
  have "unat (fst (calc_delta mul delta w lw)) * ?W * 2 ^ 32 \<le> unat delta * ?F * (?W * recip ?W)"
    using mult_le_mono1 [OF div_times_less_eq_dividend [of "unat delta * (?F * recip ?W)" "2 ^ 32"], of ?W] unfolding r
    by (simp only: mult_ac)
  also have "\<dots> \<le> unat delta * ?F * 2 ^ 32" using recip_upper [OF assms(5)] by (intro mult_le_mono2) simp
  finally show ?thesis by simp
qed

text \<open>A time scaled with a weight that is at most the one of the load is the exact quotient up to rounding
  down: the multiplication and the shift never give more than \<open>delta * weight / load\<close>, and they give less by at
  most one plus the share \<open>load / 2 ^ 32\<close> of it (weights scaled down by 1024).\<close>

theorem calc_delta_quotient:
  assumes "mul_shr_ok mul" "load_ok lw" "scaled w \<le> scaled (weight lw)" "0 < scaled (weight lw)" "scaled (weight lw) < 2 ^ 32"
  shows "case calc_delta mul delta w lw of (r, lw') \<Rightarrow>
      unat r * scaled (weight lw) \<le> unat delta * scaled w
      \<and> unat delta * scaled w * (2 ^ 32 - scaled (weight lw)) < (unat r + 1) * scaled (weight lw) * 2 ^ 32
      \<and> load_ok lw' \<and> weight lw' = weight lw"
proof -
  let ?F = "scaled w" and ?W = "scaled (weight lw)" and ?r = "fst (calc_delta mul delta w lw)"
  note r = calc_delta_nat_part [OF assms(1-3,5), of delta]
  have "unat delta * ?F * (2 ^ 32 - ?W) \<le> unat delta * ?F * (?W * recip ?W)"
    by (rule mult_le_mono2 [OF recip_lower [OF assms(4)]])
  also have "\<dots> = ?W * (unat delta * (?F * recip ?W))" by (simp only: mult_ac)
  also have "\<dots> < ?W * ((unat ?r + 1) * 2 ^ 32)"
  proof (rule mult_less_mono2 [OF _ assms(4)])
    show "unat delta * (?F * recip ?W) < (unat ?r + 1) * 2 ^ 32"
      using dividend_less_times_div [of "2 ^ 32" "unat delta * (?F * recip ?W)"] unfolding r(2) by simp
  qed
  also have "\<dots> = (unat ?r + 1) * ?W * 2 ^ 32" by (simp only: mult_ac)
  finally have "unat delta * ?F * (2 ^ 32 - ?W) < (unat ?r + 1) * ?W * 2 ^ 32" .
  then show ?thesis
    using calc_delta_bound [OF assms, of delta] update_inv_weight(2) [OF assms(2)] update_inv_weight_ok [OF assms(2)]
    by (subst r(1)) simp
qed

section \<open>Virtual time\<close>

definition leading :: "nat \<Rightarrow> nat" where
  "leading x = x div 2 ^ drops x * 2 ^ drops x"

lemma drops_mono: "x \<le> y \<Longrightarrow> drops x \<le> drops y"
proof (rule drops_bound)
  assume "x \<le> y"
  also have "y < 2 ^ drops y * 2 ^ 32"
    using drops_fits [of y] by (simp add: less_mult_imp_div_less div_less_iff_less_mult mult.commute)
  finally show "x < 2 ^ (32 + drops y)" by (simp add: power_add mult.commute)
qed

lemma leading_mono:
  assumes "x \<le> y"
  shows "leading x \<le> leading y"
proof (cases "drops x = drops y")
  case True
  then show ?thesis using assms by (simp add: leading_def div_le_mono)
next
  case False
  then have d: "drops x < drops y" using drops_mono [OF assms] by simp
  have "leading x \<le> x" by (simp add: leading_def div_times_less_eq_dividend)
  also have "x < 2 ^ 32 * 2 ^ drops x"
    using drops_fits [of x] by (simp add: div_less_iff_less_mult)
  also have "\<dots> = 2 ^ 31 * 2 ^ Suc (drops x)" by simp
  also have "\<dots> \<le> 2 ^ 31 * 2 ^ drops y" using d by (intro mult_le_mono2 power_increasing) simp_all
  also have "\<dots> \<le> y div 2 ^ drops y * 2 ^ drops y" using d by (intro mult_le_mono1 drops_tight) simp
  finally show ?thesis by (simp add: leading_def)
qed

text \<open>The virtual time in natural numbers.\<close>

definition vfactor :: "nat \<Rightarrow> nat" where
  "vfactor w = leading (1024 * recip w)"

lemma vfactor_antimono: "v \<le> w \<Longrightarrow> vfactor w \<le> vfactor v"
  unfolding vfactor_def by (intro leading_mono mult_le_mono2 recip_antimono)

lemma vfactor_bound: "vfactor w < 2 ^ 42"
proof -
  have "vfactor w \<le> 1024 * recip w" by (simp add: vfactor_def leading_def div_times_less_eq_dividend)
  then show ?thesis using recip_pos(2) [of w] by simp
qed

lemma calc_delta_fair_nat:
  assumes "mul_shr_ok mul" "load_ok lw" "unat delta < 2 ^ 54"
  shows "unat (fst (calc_delta_fair mul delta lw)) =
    (if weight lw = NICE_0_LOAD then unat delta else unat delta * vfactor (scaled (weight lw)) div 2 ^ 32)"
proof (cases "weight lw = NICE_0_LOAD")
  case False
  have n: "scaled NICE_0_LOAD = 1024" by (simp add: NICE_0_LOAD_def)
  obtain m s where d: "calc_delta mul delta NICE_0_LOAD lw = (mul delta m s, update_inv_weight lw)"
    and ms: "unat m = fst (factor 1024 (scaled (weight lw)))" "s = 32 - int (snd (factor 1024 (scaled (weight lw))))"
    using calc_delta_nat [OF assms(2), of mul delta NICE_0_LOAD] unfolding n by blast
  have "drops 1024 = 0" by (rule drops_0) simp
  then have v: "fst (factor 1024 w) * 2 ^ snd (factor 1024 w) = vfactor w" for w
    by (simp add: factor_def vfactor_def leading_def Let_def)
  have "unat (mul delta m s) = unat delta * vfactor (scaled (weight lw)) div 2 ^ 32 mod 2 ^ 64"
    using mul_shr_nat [OF assms(1) _ ms(2), of delta m] factor_nice_0 [of "scaled (weight lw)"] ms(1)
    by (simp add: mult.assoc v)
  moreover have "unat delta * vfactor (scaled (weight lw)) div 2 ^ 32 < 2 ^ 64"
  proof -
    have "unat delta * vfactor (scaled (weight lw)) < 2 ^ 54 * 2 ^ 42"
      using assms(3) vfactor_bound by (intro mult_strict_mono) simp_all
    then show ?thesis by (intro less_mult_imp_div_less) simp
  qed
  ultimately show ?thesis using False d by (simp add: calc_delta_fair_def)
qed (simp add: calc_delta_fair_def)

lemma vfactor_1024: "2 ^ 32 \<le> vfactor w" if "w \<le> 1023"
proof -
  have "drops (2 ^ 32) = 1" by (subst drops.simps) (simp add: drops_0)
  then have "leading (2 ^ 32) = 2 ^ 32" by (simp add: leading_def)
  moreover have "2 ^ 32 \<le> 1024 * recip 1023" by (simp add: recip_def)
  then have "leading (2 ^ 32) \<le> vfactor 1023" unfolding vfactor_def by (rule leading_mono)
  ultimately show ?thesis using vfactor_antimono [OF that] by linarith
qed

lemma vfactor_nice_0: "vfactor w \<le> 2 ^ 32" if "1024 \<le> w"
proof -
  have "vfactor 1024 \<le> 1024 * recip 1024" by (simp add: vfactor_def leading_def div_times_less_eq_dividend)
  then show ?thesis using vfactor_antimono [OF that] by (simp add: recip_def)
qed

text \<open>C18: Virtual time is fair to weights: of two entities that ran for the same time, the heavier one never gets more
  virtual time, whatever rounding the factor and the shift did (for a time below 2^54 ns, and loads whose
  reciprocals are consistent).  The entity with the weight of nice 0 gets exactly the time it ran.\<close>

theorem calc_delta_fair_antitone:
  assumes "mul_shr_ok mul" "load_ok light" "load_ok heavy" "weight light \<le> weight heavy" "unat delta < 2 ^ 54"
  shows "fst (calc_delta_fair mul delta heavy) \<le> fst (calc_delta_fair mul delta light)
    \<and> fst (calc_delta_fair mul delta \<lparr>weight = NICE_0_LOAD, inv_weight = i\<rparr>) = delta"
proof -
  let ?v = "\<lambda>w. unat delta * vfactor (scaled w) div 2 ^ 32"
  have le: "unat (weight light) \<le> unat (weight heavy)" using assms(4) by (simp add: word_le_nat_alt)
  have n: "unat NICE_0_LOAD = 1024 * 1024" by (simp add: NICE_0_LOAD_def)
  have below: "unat delta \<le> ?v (weight light)" if "weight heavy = NICE_0_LOAD" "weight light \<noteq> NICE_0_LOAD"
  proof -
    have "unat (weight light) \<noteq> 1024 * 1024" using that(2) n by (metis word_unat_eq_iff)
    then have "scaled (weight light) \<le> 1023" using le that(1) n by simp
    then have "unat delta * 2 ^ 32 \<le> unat delta * vfactor (scaled (weight light))" by (intro mult_le_mono2 vfactor_1024)
    from div_le_mono [OF this, of "2 ^ 32"] show ?thesis by simp
  qed
  have above: "?v (weight heavy) \<le> unat delta" if "weight light = NICE_0_LOAD"
  proof -
    have "1024 \<le> scaled (weight heavy)" using le that n by simp
    then have "unat delta * vfactor (scaled (weight heavy)) \<le> unat delta * 2 ^ 32" by (intro mult_le_mono2 vfactor_nice_0)
    from div_le_mono [OF this, of "2 ^ 32"] show ?thesis by simp
  qed
  have "?v (weight heavy) \<le> ?v (weight light)"
    using le by (intro div_le_mono mult_le_mono2 vfactor_antimono)
  then have "fst (calc_delta_fair mul delta heavy) \<le> fst (calc_delta_fair mul delta light)"
    unfolding word_le_nat_alt calc_delta_fair_nat [OF assms(1,2,5)] calc_delta_fair_nat [OF assms(1,3,5)]
    using below above by auto
  then show ?thesis by (simp add: calc_delta_fair_def)
qed

section \<open>What the scaling does to a load\<close>

text \<open>The client of the scaling relies on this: the weight stays, a consistent reciprocal stays consistent, and a
  load that was scaled with before gives the same time again.\<close>

locale load_scaling =
  fixes scale :: "u64 \<Rightarrow> load_weight \<Rightarrow> u64 \<times> load_weight"
  assumes weight_kept [simp]: "weight (snd (scale d lw)) = weight lw"
    and ok_kept: "load_ok lw \<Longrightarrow> load_ok (snd (scale d lw))"
    and again: "fst (scale e (snd (scale d lw))) = fst (scale e lw)"
begin

lemma scale_cases:
  obtains v load where "scale d lw = (v, load)" "weight load = weight lw" "load_ok lw \<Longrightarrow> load_ok load"
    "\<And>e. fst (scale e load) = fst (scale e lw)"
  by (metis prod.collapse weight_kept ok_kept again)

end

lemma update_inv_weight_again: "update_inv_weight (update_inv_weight lw) = update_inv_weight lw"
proof -
  have "inv_weight (update_inv_weight lw) \<noteq> 0"
  proof (cases "inv_weight lw = 0")
    case True
    have "load_ok lw" using True by (simp add: load_ok_def)
    then have "0 < unat (inv_weight (update_inv_weight lw))" using update_inv_weight(1) recip_pos(1) by metis
    then show ?thesis by auto
  qed (simp add: update_inv_weight_def)
  then show ?thesis by (subst update_inv_weight_def) simp
qed

lemma weight_update_inv_weight [simp]: "weight (update_inv_weight lw) = weight lw"
  by (simp add: update_inv_weight_def Let_def)

interpretation part: load_scaling "\<lambda>delta. calc_delta mul delta w" for mul w
  by unfold_locales (simp_all add: calc_delta_def Let_def split_beta update_inv_weight_ok update_inv_weight_again)

interpretation fair: load_scaling "calc_delta_fair mul" for mul
  by unfold_locales
    (simp_all add: calc_delta_fair_def calc_delta_def Let_def split_beta update_inv_weight_ok update_inv_weight_again)

section \<open>A multiplication\<close>

definition demo_mul :: mul_shr where
  "demo_mul a m s = of_nat (unat a * unat m div 2 ^ nat s)"

lemma demo_mul_ok: "mul_shr_ok demo_mul"
  by (simp add: mul_shr_ok_def demo_mul_def)

text \<open>3 ms of a period with 1/3 of the load: 1 ms less rounding; nice 5 and nice 0 after 1 ms.\<close>

theorem calc_delta_quotient_witness:
  "case calc_delta demo_mul 3000000 0x100000 \<lparr>weight = 0x300000, inv_weight = 0\<rparr> of (r, lw') \<Rightarrow>
    999999 \<le> unat r \<and> unat r \<le> 1000000"
proof -
  have "load_ok \<lparr>weight = 0x300000, inv_weight = 0\<rparr>" by (simp add: load_ok_def)
  from calc_delta_quotient [OF demo_mul_ok this, of "0x100000" 3000000] show ?thesis
    by (simp add: split_beta)
qed

theorem calc_delta_fair_antitone_witness:
  "fst (calc_delta_fair demo_mul 1000000 \<lparr>weight = 0x100000, inv_weight = 0\<rparr>) = 1000000
   \<and> fst (calc_delta_fair demo_mul 1000000 \<lparr>weight = 0x100000, inv_weight = 0\<rparr>)
     \<le> fst (calc_delta_fair demo_mul 1000000 \<lparr>weight = 0x53C00, inv_weight = 0\<rparr>)"
proof -
  have "load_ok \<lparr>weight = w, inv_weight = 0\<rparr>" for w by (simp add: load_ok_def)
  from calc_delta_fair_antitone [OF demo_mul_ok this this, of "0x53C00" "0x100000" 1000000 0]
  show ?thesis by (simp add: NICE_0_LOAD_def) (metis)
qed

end
