(* ===== verification/LinuxCfs.thy ===== *)
theory LinuxCfs
  imports LinuxLoadWeight "HOL-Library.Tree"
begin

text \<open>
  The queue of the fair scheduler (\<^verbatim>\<open>linux/proc/sched/\<close>: \<^verbatim>\<open>update_curr.c\<close>, \<^verbatim>\<open>place_entity.c\<close>, \<^verbatim>\<open>enqueue_task.c\<close>,
  \<^verbatim>\<open>dequeue_task.c\<close>, \<^verbatim>\<open>pick_next_task.c\<close>, \<^verbatim>\<open>scheduler_tick.c\<close>, \<^verbatim>\<open>sched_fork.c\<close>, \<^verbatim>\<open>wake_up_new_task.c\<close>), built
  without group scheduling and bandwidth control: every entity is a task, and the loop over the parents of an entity
  runs once.  Entities are numbers; the queue, the fields of the CPU's run queue that the code touches and the
  entities are one record.  The time line is the tree with the entities at its nodes and the cached leftmost entity.
\<close>

unbundle bit_operations_syntax

section \<open>State\<close>

record sched_entity =
  se_load :: load_weight
  on_rq :: bool
  exec_start :: u64
  sum_exec_runtime :: u64
  prev_sum_exec_runtime :: u64
  vruntime :: u64
  exec_max :: u64
  slice_max :: u64

record cfs_rq =
  rq_load :: load_weight
  nr_running :: u32
  h_nr_running :: u32
  min_vruntime :: u64
  exec_clock :: u64
  tasks_timeline :: "nat tree \<times> nat option"
  curr :: "nat option"
  next_buddy :: "nat option"
  last_buddy :: "nat option"
  skip_buddy :: "nat option"
  ents :: "nat \<Rightarrow> sched_entity"
  clock_task :: u64
  cpu_nr_running :: u32
  cpu_weight :: u64
  need_resched :: bool

datatype policy = SCHED_NORMAL | SCHED_BATCH | SCHED_IDLE

text \<open>What the code calls and reads that is not in the repository: the rebalancing of the red-black tree after a
  node was linked, its removal and its order, the accounting of an entity in the queue, the buddies, the clock of
  a new current entity, the balancer of an idle CPU (the number of tasks pulled), the multiplication, the tunables.\<close>

record cfs_env =
  rb_insert_color_cached :: "nat \<Rightarrow> bool \<Rightarrow> nat tree \<times> nat option \<Rightarrow> nat tree \<times> nat option"
  rb_erase_cached :: "nat \<Rightarrow> nat tree \<times> nat option \<Rightarrow> nat tree \<times> nat option"
  rb_next :: "nat \<Rightarrow> nat tree \<Rightarrow> nat option"
  account_entity_enqueue :: "nat \<Rightarrow> cfs_rq \<Rightarrow> cfs_rq"
  account_entity_dequeue :: "nat \<Rightarrow> cfs_rq \<Rightarrow> cfs_rq"
  clear_buddies :: "nat \<Rightarrow> cfs_rq \<Rightarrow> cfs_rq"
  set_next_buddy :: "nat \<Rightarrow> cfs_rq \<Rightarrow> cfs_rq"
  set_last_buddy :: "nat \<Rightarrow> cfs_rq \<Rightarrow> cfs_rq"
  update_stats_curr_start :: "nat \<Rightarrow> cfs_rq \<Rightarrow> cfs_rq"
  add_nr_running :: "cfs_rq \<Rightarrow> cfs_rq"
  sub_nr_running :: "cfs_rq \<Rightarrow> cfs_rq"
  idle_balance :: "cfs_rq \<Rightarrow> int \<times> cfs_rq"
  mul_u64_u32_shr :: mul_shr
  task_policy :: "nat \<Rightarrow> policy"
  schedstat_enabled :: bool
  sysctl_sched_latency :: u64
  sysctl_sched_min_granularity :: u64
  sysctl_sched_wakeup_granularity :: u64
  sched_nr_latency :: u32
  sysctl_sched_child_runs_first :: bool
  feat_START_DEBIT :: bool
  feat_GENTLE_FAIR_SLEEPERS :: bool
  feat_NEXT_BUDDY :: bool
  feat_LAST_BUDDY :: bool
  feat_WAKEUP_PREEMPTION :: bool

definition upd :: "nat \<Rightarrow> (sched_entity \<Rightarrow> sched_entity) \<Rightarrow> cfs_rq \<Rightarrow> cfs_rq" where
  "upd s f q = q\<lparr>ents := (ents q)(s := f (ents q s))\<rparr>"

section \<open>Virtual time\<close>

text \<open>Comparisons that survive the wrap-around of the virtual time.\<close>

definition min_vrt :: "u64 \<Rightarrow> u64 \<Rightarrow> u64" where
  "min_vrt m v = (if sint (v - m) < 0 then v else m)"

definition max_vrt :: "u64 \<Rightarrow> u64 \<Rightarrow> u64" where
  "max_vrt m v = (if sint (v - m) > 0 then v else m)"

definition entity_before :: "cfs_rq \<Rightarrow> nat \<Rightarrow> nat \<Rightarrow> bool" where
  "entity_before q a b \<longleftrightarrow> sint (vruntime (ents q a) - vruntime (ents q b)) < 0"

definition pick_first_entity :: "cfs_rq \<Rightarrow> nat option" where
  "pick_first_entity q = snd (tasks_timeline q)"

definition update_min_vruntime :: "cfs_rq \<Rightarrow> cfs_rq" where
  "update_min_vruntime q =
     (let cur = (case curr q of Some c \<Rightarrow> if on_rq (ents q c) then Some c else None | None \<Rightarrow> None);
          vrt = (case cur of Some c \<Rightarrow> vruntime (ents q c) | None \<Rightarrow> min_vruntime q);
          vrt = (case pick_first_entity q of
                        Some se \<Rightarrow> if cur = None then vruntime (ents q se) else min_vrt vrt (vruntime (ents q se))
                      | None \<Rightarrow> vrt)
      in q\<lparr>min_vruntime := max_vrt (min_vruntime q) vrt\<rparr>)"

definition update_curr :: "cfs_env \<Rightarrow> cfs_rq \<Rightarrow> cfs_rq" where
  "update_curr env q =
     (case curr q of
        None \<Rightarrow> q
      | Some c \<Rightarrow>
          let delta_exec = clock_task q - exec_start (ents q c) in
          if sint delta_exec \<le> 0 then q
          else
            let (v, load) = calc_delta_fair (mul_u64_u32_shr env) delta_exec (se_load (ents q c));
                q = upd c (\<lambda>se. se\<lparr>exec_start := clock_task q,
                        exec_max := (if schedstat_enabled env then max delta_exec (exec_max se) else exec_max se),
                        sum_exec_runtime := sum_exec_runtime se + delta_exec,
                        vruntime := vruntime se + v, se_load := load\<rparr>) q;
                q = (if schedstat_enabled env then q\<lparr>exec_clock := exec_clock q + delta_exec\<rparr> else q)
            in update_min_vruntime q)"

section \<open>Slices and places\<close>

definition sched_period :: "cfs_env \<Rightarrow> u64 \<Rightarrow> u64" where
  "sched_period env nr =
     (if nr > ucast (sched_nr_latency env) then nr * sysctl_sched_min_granularity env else sysctl_sched_latency env)"

definition sched_slice :: "cfs_env \<Rightarrow> nat \<Rightarrow> cfs_rq \<Rightarrow> u64 \<times> cfs_rq" where
  "sched_slice env s q =
     (let se = ents q s; slice = sched_period env (ucast (nr_running q + of_bool (\<not> on_rq se))) in
      if \<not> on_rq se
      then (fst (calc_delta (mul_u64_u32_shr env) slice (weight (se_load se)) (update_load_add (rq_load q) (weight (se_load se)))), q)
      else let (slice, load) = calc_delta (mul_u64_u32_shr env) slice (weight (se_load se)) (rq_load q)
           in (slice, q\<lparr>rq_load := load\<rparr>))"

definition calc_delta_se :: "cfs_env \<Rightarrow> u64 \<Rightarrow> nat \<Rightarrow> cfs_rq \<Rightarrow> u64 \<times> cfs_rq" where
  "calc_delta_se env delta s q =
     (let (v, load) = calc_delta_fair (mul_u64_u32_shr env) delta (se_load (ents q s)) in (v, upd s (\<lambda>se. se\<lparr>se_load := load\<rparr>) q))"

definition sched_vslice :: "cfs_env \<Rightarrow> nat \<Rightarrow> cfs_rq \<Rightarrow> u64 \<times> cfs_rq" where
  "sched_vslice env s q = (let (slice, q) = sched_slice env s q in calc_delta_se env slice s q)"

definition place_entity :: "cfs_env \<Rightarrow> nat \<Rightarrow> bool \<Rightarrow> cfs_rq \<Rightarrow> cfs_rq" where
  "place_entity env s initial q =
     (let (v, q) = (if initial \<and> feat_START_DEBIT env then let (vs, q') = sched_vslice env s q in (min_vruntime q + vs, q')
                    else (min_vruntime q, q));
          v = (if \<not> initial
               then v - (if feat_GENTLE_FAIR_SLEEPERS env then drop_bit 1 (sysctl_sched_latency env) else sysctl_sched_latency env)
               else v)
      in upd s (\<lambda>se. se\<lparr>vruntime := max_vrt (vruntime se) v\<rparr>) q)"

section \<open>The tree\<close>

text \<open>The descent to the place of a new node, and whether it only went left.\<close>

fun link_node :: "(nat \<Rightarrow> nat \<Rightarrow> bool) \<Rightarrow> nat \<Rightarrow> nat tree \<Rightarrow> bool \<Rightarrow> nat tree \<times> bool" where
  "link_node before se Leaf leftmost = (Node Leaf se Leaf, leftmost)"
| "link_node before se (Node l e r) leftmost =
     (if before se e then let (l', lm) = link_node before se l leftmost in (Node l' e r, lm)
      else let (r', lm) = link_node before se r False in (Node l e r', lm))"

definition enqueue_node :: "cfs_env \<Rightarrow> nat \<Rightarrow> cfs_rq \<Rightarrow> cfs_rq" where
  "enqueue_node env s q =
     (let (tr, lm) = tasks_timeline q; (tr, leftmost) = link_node (entity_before q) s tr True
      in q\<lparr>tasks_timeline := rb_insert_color_cached env s leftmost (tr, lm)\<rparr>)"

definition dequeue_node :: "cfs_env \<Rightarrow> nat \<Rightarrow> cfs_rq \<Rightarrow> cfs_rq" where
  "dequeue_node env s q = q\<lparr>tasks_timeline := rb_erase_cached env s (tasks_timeline q)\<rparr>"

section \<open>Enqueueing and dequeueing\<close>

datatype enqueue_flag = ENQUEUE_WAKEUP | ENQUEUE_MIGRATED | ENQUEUE_RESTORE | ENQUEUE_NOCLOCK
datatype dequeue_flag = DEQUEUE_SLEEP | DEQUEUE_SAVE | DEQUEUE_MOVE | DEQUEUE_NOCLOCK

definition enqueue_entity :: "cfs_env \<Rightarrow> nat \<Rightarrow> enqueue_flag set \<Rightarrow> cfs_rq \<Rightarrow> cfs_rq" where
  "enqueue_entity env s flags q =
     (let renorm = (ENQUEUE_WAKEUP \<notin> flags \<or> ENQUEUE_MIGRATED \<in> flags);
          is_curr = (curr q = Some s);
          q = (if renorm \<and> is_curr then upd s (\<lambda>se. se\<lparr>vruntime := vruntime se + min_vruntime q\<rparr>) q else q);
          q = update_curr env q;
          q = (if renorm \<and> \<not> is_curr then upd s (\<lambda>se. se\<lparr>vruntime := vruntime se + min_vruntime q\<rparr>) q else q);
          q = account_entity_enqueue env s q;
          q = (if ENQUEUE_WAKEUP \<in> flags then place_entity env s False q else q);
          q = (if \<not> is_curr then enqueue_node env s q else q)
      in upd s (\<lambda>se. se\<lparr>on_rq := True\<rparr>) q)"

text \<open>An entity that is queued already is only counted again.\<close>

definition enqueue_task_fair :: "cfs_env \<Rightarrow> nat \<Rightarrow> enqueue_flag set \<Rightarrow> cfs_rq \<Rightarrow> cfs_rq" where
  "enqueue_task_fair env p flags q =
     (let q = (if on_rq (ents q p) then q else enqueue_entity env p flags q)
      in add_nr_running env (q\<lparr>h_nr_running := h_nr_running q + 1\<rparr>))"

definition dequeue_entity :: "cfs_env \<Rightarrow> nat \<Rightarrow> dequeue_flag set \<Rightarrow> cfs_rq \<Rightarrow> cfs_rq" where
  "dequeue_entity env s flags q =
     (let q = update_curr env q;
          q = clear_buddies env s q;
          q = (if curr q \<noteq> Some s then dequeue_node env s q else q);
          q = upd s (\<lambda>se. se\<lparr>on_rq := False\<rparr>) q;
          q = account_entity_dequeue env s q;
          q = (if DEQUEUE_SLEEP \<notin> flags then upd s (\<lambda>se. se\<lparr>vruntime := vruntime se - min_vruntime q\<rparr>) q else q)
      in if \<not> (DEQUEUE_SAVE \<in> flags \<and> DEQUEUE_MOVE \<notin> flags) then update_min_vruntime q else q)"

definition dequeue_task_fair :: "cfs_env \<Rightarrow> nat \<Rightarrow> dequeue_flag set \<Rightarrow> cfs_rq \<Rightarrow> cfs_rq" where
  "dequeue_task_fair env p flags q =
     (let q = dequeue_entity env p flags q in sub_nr_running env (q\<lparr>h_nr_running := h_nr_running q - 1\<rparr>))"

section \<open>The next task\<close>

definition wakeup_gran :: "cfs_env \<Rightarrow> nat \<Rightarrow> cfs_rq \<Rightarrow> u64 \<times> cfs_rq" where
  "wakeup_gran env s q = calc_delta_se env (sysctl_sched_wakeup_granularity env) s q"

definition wakeup_preempt_entity :: "cfs_env \<Rightarrow> nat \<Rightarrow> nat \<Rightarrow> cfs_rq \<Rightarrow> int \<times> cfs_rq" where
  "wakeup_preempt_entity env cur s q =
     (let vdiff = sint (vruntime (ents q cur) - vruntime (ents q s)) in
      if vdiff \<le> 0 then (-1, q)
      else let (gran, q) = wakeup_gran env s q in (if vdiff > sint gran then 1 else 0, q))"

text \<open>A buddy is taken when that is not too unfair to the leftmost entity.\<close>

definition try_buddy :: "cfs_env \<Rightarrow> nat option \<Rightarrow> nat \<Rightarrow> nat \<times> cfs_rq \<Rightarrow> nat \<times> cfs_rq" where
  "try_buddy env buddy lft st =
     (let (se, q) = st in
      case buddy of
        None \<Rightarrow> (se, q)
      | Some b \<Rightarrow> let (w, q) = wakeup_preempt_entity env b lft q in (if w < 1 then b else se, q))"

text \<open>\<^const>\<open>None\<close> when there is no entity at all: the callers dereference the null pointer.\<close>

definition pick_next_entity :: "cfs_env \<Rightarrow> nat option \<Rightarrow> cfs_rq \<Rightarrow> (nat \<times> cfs_rq) option" where
  "pick_next_entity env cur q =
     (let lft = (case pick_first_entity q of
                    None \<Rightarrow> cur
                  | Some l \<Rightarrow> (case cur of Some c \<Rightarrow> if entity_before q c l then Some c else Some l | None \<Rightarrow> Some l))
      in case lft of
           None \<Rightarrow> None
         | Some l \<Rightarrow>
             let second = (if skip_buddy q = Some l
                           then if cur = Some l then pick_first_entity q
                                else (case rb_next env l (fst (tasks_timeline q)) of
                                        None \<Rightarrow> cur
                                      | Some x \<Rightarrow> (case cur of Some c \<Rightarrow> if entity_before q c x then Some c else Some x | None \<Rightarrow> Some x))
                           else None);
                 st = try_buddy env second l (l, q);
                 st = try_buddy env (last_buddy q) l st;
                 st = try_buddy env (next_buddy q) l st
             in Some (fst st, clear_buddies env (fst st) (snd st)))"

definition put_prev_entity :: "cfs_env \<Rightarrow> nat \<Rightarrow> cfs_rq \<Rightarrow> cfs_rq" where
  "put_prev_entity env prev q =
     (let q = (if on_rq (ents q prev) then update_curr env q else q);
          q = (if on_rq (ents q prev) then enqueue_node env prev q else q)
      in q\<lparr>curr := None\<rparr>)"

definition set_next_entity :: "cfs_env \<Rightarrow> nat \<Rightarrow> cfs_rq \<Rightarrow> cfs_rq" where
  "set_next_entity env s q =
     (let q = (if on_rq (ents q s) then dequeue_node env s q else q);
          q = (update_stats_curr_start env s q)\<lparr>curr := Some s\<rparr>;
          q = (if schedstat_enabled env \<and> cpu_weight q \<ge> 2 * weight (se_load (ents q s))
               then upd s (\<lambda>se. se\<lparr>slice_max := max (slice_max se) (sum_exec_runtime se - prev_sum_exec_runtime se)\<rparr>) q else q)
      in upd s (\<lambda>se. se\<lparr>prev_sum_exec_runtime := sum_exec_runtime se\<rparr>) q)"

datatype pick = Retry_task | No_task | Task nat

text \<open>The class \<open>prev\<close> comes from: a task of another class is not of the fair queue.  The outer \<^const>\<open>None\<close> is an
  idle balancer that pulls for ever, the inner one the null pointer.\<close>

partial_function (option) pick_next_task_fair :: "cfs_env \<Rightarrow> nat option \<Rightarrow> cfs_rq \<Rightarrow> (pick \<times> cfs_rq) option option" where
  "pick_next_task_fair env prev q =
     (if nr_running q = 0
      then
        let (new_tasks, q) = idle_balance env q in
        if new_tasks < 0 then Some (Some (Retry_task, q))
        else if new_tasks > 0 then pick_next_task_fair env prev q
        else Some (Some (No_task, q))
      else
        let q = (case prev of Some p \<Rightarrow> put_prev_entity env p q | None \<Rightarrow> q) in
        Some (map_option (\<lambda>(se, q). (Task se, set_next_entity env se q)) (pick_next_entity env None q)))"

section \<open>Ticks, forks and wake-ups\<close>

definition resched_curr :: "cfs_rq \<Rightarrow> cfs_rq" where
  "resched_curr q = (if need_resched q then q else q\<lparr>need_resched := True\<rparr>)"

text \<open>\<^const>\<open>None\<close> is the null pointer of an empty tree.\<close>

definition check_preempt_tick :: "cfs_env \<Rightarrow> nat \<Rightarrow> cfs_rq \<Rightarrow> cfs_rq option" where
  "check_preempt_tick env c q =
     (let (ideal_runtime, q) = sched_slice env c q;
          delta_exec = sum_exec_runtime (ents q c) - prev_sum_exec_runtime (ents q c)
      in if delta_exec > ideal_runtime then Some (clear_buddies env c (resched_curr q))
         else if delta_exec < sysctl_sched_min_granularity env then Some q
         else case pick_first_entity q of
                None \<Rightarrow> None
              | Some se \<Rightarrow>
                  let delta = vruntime (ents q c) - vruntime (ents q se) in
                  if sint delta < 0 then Some q
                  else if delta > ideal_runtime then Some (resched_curr q)
                  else Some q)"

definition entity_tick :: "cfs_env \<Rightarrow> nat \<Rightarrow> cfs_rq \<Rightarrow> cfs_rq option" where
  "entity_tick env c q =
     (let q = update_curr env q in if nr_running q > 1 then check_preempt_tick env c q else Some q)"

definition sched_fork_entity :: "nat \<Rightarrow> cfs_rq \<Rightarrow> cfs_rq" where
  "sched_fork_entity s q =
     upd s (\<lambda>se. se\<lparr>on_rq := False, exec_start := 0, sum_exec_runtime := 0, prev_sum_exec_runtime := 0, vruntime := 0,
                     exec_max := 0, slice_max := 0\<rparr>) q"

definition task_fork_fair :: "cfs_env \<Rightarrow> nat \<Rightarrow> cfs_rq \<Rightarrow> cfs_rq" where
  "task_fork_fair env s q =
     (let q = (case curr q of
                 Some c \<Rightarrow> let q = update_curr env q in upd s (\<lambda>se. se\<lparr>vruntime := vruntime (ents q c)\<rparr>) q
               | None \<Rightarrow> q);
          q = place_entity env s True q;
          q = (case curr q of
                 Some c \<Rightarrow>
                   if sysctl_sched_child_runs_first env \<and> entity_before q c s
                   then let vc = vruntime (ents q c); vs = vruntime (ents q s)
                        in resched_curr (upd s (\<lambda>se. se\<lparr>vruntime := vc\<rparr>) (upd c (\<lambda>se. se\<lparr>vruntime := vs\<rparr>) q))
                   else q
               | None \<Rightarrow> q)
      in upd s (\<lambda>se. se\<lparr>vruntime := vruntime se - min_vruntime q\<rparr>) q)"

text \<open>\<open>cur\<close> is the task that runs on the CPU (of this class), \<open>p\<close> the one that woke up.\<close>

definition check_preempt_wakeup :: "cfs_env \<Rightarrow> nat \<Rightarrow> bool \<Rightarrow> nat \<Rightarrow> bool \<Rightarrow> cfs_rq \<Rightarrow> cfs_rq" where
  "check_preempt_wakeup env cur cur_is_idle p is_fork q =
     (if cur = p then q
      else
        let scale = (nr_running q \<ge> sched_nr_latency env);
            marked = (feat_NEXT_BUDDY env \<and> scale \<and> \<not> is_fork);
            q = (if marked then set_next_buddy env p q else q);
            preempt = (\<lambda>q. let q = resched_curr q in
              if \<not> on_rq (ents q cur) \<or> cur_is_idle then q
              else if feat_LAST_BUDDY env \<and> scale then set_last_buddy env cur q else q)
        in if need_resched q then q
           else if task_policy env cur = SCHED_IDLE \<and> task_policy env p \<noteq> SCHED_IDLE then preempt q
           else if task_policy env p \<noteq> SCHED_NORMAL \<or> \<not> feat_WAKEUP_PREEMPTION env then q
           else
             let q = update_curr env q; (w, q) = wakeup_preempt_entity env cur p q in
             if w = 1 then preempt (if marked then q else set_next_buddy env p q) else q)"

end
