(* ===== verification/LinuxCfsQueue.thy ===== *)
theory LinuxCfsQueue
  imports LinuxCfs "HOL-Library.Multiset"
begin

text \<open>
  What the queue of the fair scheduler keeps: which entities it holds, in which order, and how the virtual time of
  the queue moves.  The facts are proved for every environment that keeps its contract (\<open>cfs_env_ok\<close>).
\<close>

unbundle bit_operations_syntax

section \<open>Contract of the environment\<close>

abbreviation first :: "nat list \<Rightarrow> nat option" where
  "first xs \<equiv> (case xs of [] \<Rightarrow> None | x # _ \<Rightarrow> Some x)"

text \<open>The entities that count as running: those of the tree and the current one while it is on the queue.\<close>

definition entities :: "cfs_rq \<Rightarrow> nat list" where
  "entities q = inorder (fst (tasks_timeline q))"

definition members :: "cfs_rq \<Rightarrow> nat list" where
  "members q = (case curr q of Some c \<Rightarrow> if on_rq (ents q c) then [c] else [] | None \<Rightarrow> []) @ entities q"

definition queue_ok :: "cfs_rq \<Rightarrow> bool" where
  "queue_ok q \<longleftrightarrow>
     distinct (members q) \<and> snd (tasks_timeline q) = first (entities q)
     \<and> (\<forall>s. on_rq (ents q s) \<longleftrightarrow> s \<in> set (members q)) \<and> (\<forall>c. curr q = Some c \<longrightarrow> c \<notin> set (entities q))
     \<and> nr_running q = of_nat (length (members q)) \<and> h_nr_running q = nr_running q
     \<and> weight (rq_load q) = sum_list (map (\<lambda>s. weight (se_load (ents q s))) (members q))
     \<and> (\<forall>b. next_buddy q = Some b \<or> last_buddy q = Some b \<or> skip_buddy q = Some b \<longrightarrow> on_rq (ents q b))"

definition in_order :: "cfs_rq \<Rightarrow> bool" where
  "in_order q \<longleftrightarrow> sorted_wrt (\<lambda>a b. \<not> entity_before q b a) (entities q)"

text \<open>What the library of the trees, the accounting and the balancer promise.\<close>

definition rb_ok :: "cfs_env \<Rightarrow> bool" where
  "rb_ok env \<longleftrightarrow>
     (\<forall>s lm tr l. inorder (fst (rb_insert_color_cached env s lm (tr, l))) = inorder tr
        \<and> snd (rb_insert_color_cached env s lm (tr, l)) = (if lm then Some s else l))
   \<and> (\<forall>s tr l. distinct (inorder tr) \<and> s \<in> set (inorder tr) \<longrightarrow>
        inorder (fst (rb_erase_cached env s (tr, l))) = remove1 s (inorder tr)
        \<and> snd (rb_erase_cached env s (tr, l)) = (if l = Some s then first (remove1 s (inorder tr)) else l))
   \<and> (\<forall>s tr xs ys. inorder tr = xs @ s # ys \<and> distinct (inorder tr) \<longrightarrow> rb_next env s tr = first ys)"

definition drop_buddies :: "nat \<Rightarrow> cfs_rq \<Rightarrow> cfs_rq" where
  "drop_buddies s q = q\<lparr>next_buddy := (if next_buddy q = Some s then None else next_buddy q),
     last_buddy := (if last_buddy q = Some s then None else last_buddy q),
     skip_buddy := (if skip_buddy q = Some s then None else skip_buddy q)\<rparr>"

definition accounts_ok :: "cfs_env \<Rightarrow> bool" where
  "accounts_ok env \<longleftrightarrow> (\<forall>s q.
     (\<exists>w. account_entity_enqueue env s q = q\<lparr>rq_load := update_load_add (rq_load q) (weight (se_load (ents q s))),
        nr_running := nr_running q + 1, cpu_weight := w\<rparr>)
   \<and> (\<exists>w. account_entity_dequeue env s q = q\<lparr>rq_load := \<lparr>weight = weight (rq_load q) - weight (se_load (ents q s)), inv_weight = 0\<rparr>,
        nr_running := nr_running q - 1, cpu_weight := w\<rparr>)
   \<and> clear_buddies env s q = drop_buddies s q
   \<and> (set_next_buddy env s q = q \<or> set_next_buddy env s q = q\<lparr>next_buddy := Some s\<rparr>)
   \<and> (set_last_buddy env s q = q \<or> set_last_buddy env s q = q\<lparr>last_buddy := Some s\<rparr>)
   \<and> update_stats_curr_start env s q = upd s (\<lambda>se. se\<lparr>exec_start := clock_task q\<rparr>) q
   \<and> (\<exists>n. add_nr_running env q = q\<lparr>cpu_nr_running := n\<rparr>) \<and> (\<exists>n. sub_nr_running env q = q\<lparr>cpu_nr_running := n\<rparr>))"

definition balance_ok :: "cfs_env \<Rightarrow> bool" where
  "balance_ok env \<longleftrightarrow> (\<forall>q. case idle_balance env q of (n, q') \<Rightarrow>
     (queue_ok q \<longrightarrow> queue_ok q') \<and> (in_order q \<longrightarrow> in_order q') \<and> curr q' = curr q \<and> (0 < n \<longrightarrow> nr_running q' \<noteq> 0))"

definition cfs_env_ok :: "cfs_env \<Rightarrow> bool" where
  "cfs_env_ok env \<longleftrightarrow> mul_shr_ok (mul_u64_u32_shr env) \<and> rb_ok env \<and> accounts_ok env \<and> balance_ok env"

section \<open>Operations that leave the queue alone\<close>

lemma ents_upd [simp]: "ents (upd s f q) t = (if t = s then f (ents q s) else ents q t)"
  by (simp add: upd_def)

lemma upd_simps [simp]:
  "tasks_timeline (upd s f q) = tasks_timeline q" "curr (upd s f q) = curr q" "nr_running (upd s f q) = nr_running q"
  "h_nr_running (upd s f q) = h_nr_running q" "rq_load (upd s f q) = rq_load q" "min_vruntime (upd s f q) = min_vruntime q"
  "next_buddy (upd s f q) = next_buddy q" "last_buddy (upd s f q) = last_buddy q" "skip_buddy (upd s f q) = skip_buddy q"
  "clock_task (upd s f q) = clock_task q" "need_resched (upd s f q) = need_resched q" "exec_clock (upd s f q) = exec_clock q"
  "cpu_weight (upd s f q) = cpu_weight q" "cpu_nr_running (upd s f q) = cpu_nr_running q"
  by (simp_all add: upd_def)

text \<open>The part of the state that the queue is made of.\<close>

definition skeleton where
  "skeleton q = (tasks_timeline q, curr q, (\<lambda>s. (on_rq (ents q s), weight (se_load (ents q s)))), nr_running q, h_nr_running q,
     weight (rq_load q), next_buddy q, last_buddy q, skip_buddy q)"

lemma skeletonD:
  assumes "skeleton q' = skeleton q"
  shows "tasks_timeline q' = tasks_timeline q" "curr q' = curr q" "on_rq (ents q' s) = on_rq (ents q s)"
    "weight (se_load (ents q' s)) = weight (se_load (ents q s))" "nr_running q' = nr_running q" "h_nr_running q' = h_nr_running q"
    "weight (rq_load q') = weight (rq_load q)" "next_buddy q' = next_buddy q" "last_buddy q' = last_buddy q"
    "skip_buddy q' = skip_buddy q" "entities q' = entities q" "members q' = members q"
proof -
  have e: "(\<lambda>s. (on_rq (ents q' s), weight (se_load (ents q' s)))) = (\<lambda>s. (on_rq (ents q s), weight (se_load (ents q s))))"
    and t: "tasks_timeline q' = tasks_timeline q" "curr q' = curr q" "nr_running q' = nr_running q" "h_nr_running q' = h_nr_running q"
    "weight (rq_load q') = weight (rq_load q)" "next_buddy q' = next_buddy q" "last_buddy q' = last_buddy q" "skip_buddy q' = skip_buddy q"
    using assms unfolding skeleton_def by simp_all
  have o: "on_rq (ents q' s) = on_rq (ents q s)" "weight (se_load (ents q' s)) = weight (se_load (ents q s))" for s
    using fun_cong [OF e, of s] by simp_all
  show "entities q' = entities q" "members q' = members q" using t o by (auto simp: entities_def members_def split: option.splits)
qed (use assms in \<open>auto simp: skeleton_def dest: fun_cong\<close>)

locale quiet_op =
  fixes f :: "cfs_rq \<Rightarrow> cfs_rq"
  assumes skeleton_kept: "skeleton (f q) = skeleton q"
begin

lemmas kept [simp] = skeletonD [OF skeleton_kept]

lemma queue_kept [simp]: "queue_ok (f q) = queue_ok q"
  by (simp add: queue_ok_def)

end

lemma update_min_vruntime_skeleton: "skeleton (update_min_vruntime q) = skeleton q"
  by (simp add: update_min_vruntime_def Let_def skeleton_def)

lemma calc_delta_se_skeleton: "skeleton (snd (calc_delta_se env delta s q)) = skeleton q"
  by (auto simp: calc_delta_se_def Let_def skeleton_def split_beta fun_eq_iff)

lemma sched_slice_skeleton: "skeleton (snd (sched_slice env s q)) = skeleton q"
  by (auto simp: sched_slice_def Let_def skeleton_def split_beta)

lemma wakeup_preempt_skeleton: "skeleton (snd (wakeup_preempt_entity env a b q)) = skeleton q"
  using calc_delta_se_skeleton by (auto simp: wakeup_preempt_entity_def wakeup_gran_def Let_def split_beta)

lemma update_curr_skeleton: "skeleton (update_curr env q) = skeleton q"
proof (cases "curr q")
  case (Some c)
  show ?thesis
    unfolding update_curr_def Some option.case Let_def
    by (auto simp: split_beta update_min_vruntime_skeleton) (auto simp: skeleton_def fun_eq_iff Let_def)
qed (simp add: update_curr_def)

lemma place_entity_skeleton: "skeleton (place_entity env s initial q) = skeleton q"
  using sched_slice_skeleton [of env s q] calc_delta_se_skeleton [of env "fst (sched_slice env s q)" s "snd (sched_slice env s q)"]
  by (auto simp: place_entity_def sched_vslice_def Let_def split_beta skeleton_def fun_eq_iff)

interpretation min_vrt: quiet_op update_min_vruntime by unfold_locales (rule update_min_vruntime_skeleton)
interpretation account: quiet_op "update_curr env" for env by unfold_locales (rule update_curr_skeleton)
interpretation place: quiet_op "place_entity env s initial" for env s initial by unfold_locales (rule place_entity_skeleton)
interpretation slice: quiet_op "\<lambda>q. snd (sched_slice env s q)" for env s by unfold_locales (rule sched_slice_skeleton)
interpretation wakeup: quiet_op "\<lambda>q. snd (wakeup_preempt_entity env a b q)" for env a b by unfold_locales (rule wakeup_preempt_skeleton)
interpretation resched: quiet_op resched_curr by unfold_locales (simp add: resched_curr_def skeleton_def)

section \<open>The tree\<close>

text \<open>A new node lands somewhere between the others, in front of all exactly when the descent only went left.\<close>

lemma link_node_inorder:
  "\<exists>xs ys. inorder t = xs @ ys \<and> inorder (fst (link_node before s t lm)) = xs @ s # ys
     \<and> snd (link_node before s t lm) = (lm \<and> xs = [])"
proof (induction t arbitrary: lm)
  case Leaf
  then show ?case by simp
next
  case (Node l e r)
  show ?case
  proof (cases "before s e")
    case True
    obtain xs ys where "inorder l = xs @ ys" "inorder (fst (link_node before s l lm)) = xs @ s # ys"
      "snd (link_node before s l lm) = (lm \<and> xs = [])" using Node.IH(1) by blast
    then show ?thesis using True
      by (intro exI [of _ xs] exI [of _ "ys @ e # inorder r"]) (simp add: split_beta Let_def)
  next
    case False
    obtain xs ys where "inorder r = xs @ ys" "inorder (fst (link_node before s r False)) = xs @ s # ys"
      "\<not> snd (link_node before s r False)" using Node.IH(2) by blast
    then show ?thesis using False
      by (intro exI [of _ "inorder l @ e # xs"] exI [of _ ys]) (simp add: split_beta Let_def)
  qed
qed

lemma rb_okD:
  assumes "rb_ok env"
  shows "inorder (fst (rb_insert_color_cached env s lm (tr, l))) = inorder tr"
    "snd (rb_insert_color_cached env s lm (tr, l)) = (if lm then Some s else l)"
    "distinct (inorder tr) \<Longrightarrow> s \<in> set (inorder tr) \<Longrightarrow> inorder (fst (rb_erase_cached env s (tr, l))) = remove1 s (inorder tr)"
    "distinct (inorder tr) \<Longrightarrow> s \<in> set (inorder tr) \<Longrightarrow>
      snd (rb_erase_cached env s (tr, l)) = (if l = Some s then first (remove1 s (inorder tr)) else l)"
    "inorder tr = xs @ s # ys \<Longrightarrow> distinct (inorder tr) \<Longrightarrow> rb_next env s tr = first ys"
  using assms unfolding rb_ok_def by blast+

lemma enqueue_node_cases:
  assumes "rb_ok env" "snd (tasks_timeline q) = first (entities q)"
  obtains xs ys where "entities q = xs @ ys" "entities (enqueue_node env s q) = xs @ s # ys"
    "snd (tasks_timeline (enqueue_node env s q)) = first (xs @ s # ys)"
    "enqueue_node env s q = q\<lparr>tasks_timeline := tasks_timeline (enqueue_node env s q)\<rparr>"
proof -
  obtain tr l where tl: "tasks_timeline q = (tr, l)" by fastforce
  let ?n = "link_node (entity_before q) s tr True"
  obtain xs ys where x: "inorder tr = xs @ ys" "inorder (fst ?n) = xs @ s # ys" "snd ?n = (xs = [])"
    using link_node_inorder [of tr "entity_before q" s True] by auto
  have e: "enqueue_node env s q = q\<lparr>tasks_timeline := rb_insert_color_cached env s (snd ?n) (fst ?n, l)\<rparr>"
    by (simp add: enqueue_node_def tl split_beta)
  have r: "inorder (fst (rb_insert_color_cached env s (snd ?n) (fst ?n, l))) = xs @ s # ys"
    "snd (rb_insert_color_cached env s (snd ?n) (fst ?n, l)) = (if xs = [] then Some s else l)"
    using rb_okD(1,2) [OF assms(1)] x(2,3) by simp_all
  have "l = first (xs @ ys)" using assms(2) tl x(1) by (simp add: entities_def)
  then show thesis
    using r tl x(1) by (intro that [of xs ys]; cases xs) (auto simp: e entities_def)
qed

lemma dequeue_node_cases:
  assumes "rb_ok env" "snd (tasks_timeline q) = first (entities q)" "distinct (entities q)" "s \<in> set (entities q)"
  shows "entities (dequeue_node env s q) = remove1 s (entities q)"
    "snd (tasks_timeline (dequeue_node env s q)) = first (remove1 s (entities q))"
    "dequeue_node env s q = q\<lparr>tasks_timeline := tasks_timeline (dequeue_node env s q)\<rparr>"
proof -
  obtain tr l where tl: "tasks_timeline q = (tr, l)" by fastforce
  have e: "dequeue_node env s q = q\<lparr>tasks_timeline := rb_erase_cached env s (tr, l)\<rparr>" by (simp add: dequeue_node_def tl)
  have r: "inorder (fst (rb_erase_cached env s (tr, l))) = remove1 s (inorder tr)"
    "snd (rb_erase_cached env s (tr, l)) = (if l = Some s then first (remove1 s (inorder tr)) else l)"
    using rb_okD(3,4) [OF assms(1), of tr s] assms(3,4) tl by (simp_all add: entities_def)
  then show "entities (dequeue_node env s q) = remove1 s (entities q)"
    "snd (tasks_timeline (dequeue_node env s q)) = first (remove1 s (entities q))"
    "dequeue_node env s q = q\<lparr>tasks_timeline := tasks_timeline (dequeue_node env s q)\<rparr>"
    using assms(2) tl by (auto simp: e entities_def split: list.splits)
qed

text \<open>The accounting in the form the proofs use.\<close>

lemma accountsD:
  assumes "accounts_ok env"
  shows "\<exists>w. account_entity_enqueue env s q = q\<lparr>rq_load := update_load_add (rq_load q) (weight (se_load (ents q s))),
        nr_running := nr_running q + 1, cpu_weight := w\<rparr>"
    "\<exists>w. account_entity_dequeue env s q = q\<lparr>rq_load := \<lparr>weight = weight (rq_load q) - weight (se_load (ents q s)), inv_weight = 0\<rparr>,
        nr_running := nr_running q - 1, cpu_weight := w\<rparr>"
    "clear_buddies env s q = drop_buddies s q"
    "set_next_buddy env s q = q \<or> set_next_buddy env s q = q\<lparr>next_buddy := Some s\<rparr>"
    "set_last_buddy env s q = q \<or> set_last_buddy env s q = q\<lparr>last_buddy := Some s\<rparr>"
    "update_stats_curr_start env s q = upd s (\<lambda>se. se\<lparr>exec_start := clock_task q\<rparr>) q"
    "\<exists>n. add_nr_running env q = q\<lparr>cpu_nr_running := n\<rparr>" "\<exists>n. sub_nr_running env q = q\<lparr>cpu_nr_running := n\<rparr>"
  using assms [unfolded accounts_ok_def, THEN spec, THEN spec, of s q] by blast+

section \<open>Each operation on the queue\<close>

lemma sum_list_permuted:
  fixes f :: "'a \<Rightarrow> 'b::comm_monoid_add"
  assumes "mset xs = mset ys"
  shows "sum_list (map f xs) = sum_list (map f ys)"
proof -
  have "sum_mset (mset (map f xs)) = sum_mset (mset (map f ys))" using assms by simp
  then show ?thesis unfolding sum_mset_sum_list .
qed

text \<open>Entities that only change their place.\<close>

lemma queue_ok_moved:
  assumes q: "queue_ok q" and m: "mset (members q') = mset (members q)"
    and fst: "snd (tasks_timeline q') = first (entities q')" and c: "\<And>c. curr q' = Some c \<Longrightarrow> c \<notin> set (entities q')"
    and e: "\<And>s. on_rq (ents q' s) = on_rq (ents q s)" "\<And>s. weight (se_load (ents q' s)) = weight (se_load (ents q s))"
    and r: "nr_running q' = nr_running q" "h_nr_running q' = h_nr_running q" "weight (rq_load q') = weight (rq_load q)"
    and b: "\<And>b. next_buddy q' = Some b \<or> last_buddy q' = Some b \<or> skip_buddy q' = Some b \<Longrightarrow> on_rq (ents q b)"
  shows "queue_ok q'"
proof -
  have "sum_list (map (\<lambda>s. weight (se_load (ents q s))) (members q')) = sum_list (map (\<lambda>s. weight (se_load (ents q s))) (members q))"
    using m by (rule sum_list_permuted)
  then show ?thesis
    using q fst c e r b mset_eq_setD [OF m] mset_eq_length [OF m] mset_eq_imp_distinct_iff [OF m]
    unfolding queue_ok_def by simp
qed

text \<open>The current entity goes back into the tree, or out of it.\<close>

lemma put_queue:
  assumes env: "cfs_env_ok env" and q: "queue_ok q" and c: "curr q = Some c"
  shows "queue_ok (put_prev_entity env c q) \<and> curr (put_prev_entity env c q) = None
    \<and> mset (members (put_prev_entity env c q)) = mset (members q)"
proof (cases "on_rq (ents q c)")
  case True
  let ?q = "update_curr env q"
  have rb: "rb_ok env" using env by (simp add: cfs_env_ok_def)
  have ok: "queue_ok ?q" using q by simp
  then have fst: "snd (tasks_timeline ?q) = first (entities ?q)" by (simp add: queue_ok_def)
  obtain xs ys where e: "entities ?q = xs @ ys" "entities (enqueue_node env c ?q) = xs @ c # ys"
    "snd (tasks_timeline (enqueue_node env c ?q)) = first (xs @ c # ys)"
    "enqueue_node env c ?q = ?q\<lparr>tasks_timeline := tasks_timeline (enqueue_node env c ?q)\<rparr>"
    using enqueue_node_cases [OF rb fst] .
  define tl where "tl = tasks_timeline (enqueue_node env c ?q)"
  have p: "put_prev_entity env c q = ?q\<lparr>tasks_timeline := tl, curr := None\<rparr>"
    using True by (simp add: put_prev_entity_def Let_def) (subst e(4), simp add: tl_def)
  have ent: "entities (put_prev_entity env c q) = xs @ c # ys" using e(2) by (simp add: p tl_def entities_def)
  then have mem: "members (put_prev_entity env c q) = xs @ c # ys" by (simp add: members_def p)
  have old: "members q = c # xs @ ys" using True c e(1) by (simp add: members_def)
  have "queue_ok (put_prev_entity env c q)"
    by (rule queue_ok_moved [OF q]) (use q e(3) in \<open>auto simp: p mem [unfolded p] ent [unfolded p] old queue_ok_def simp flip: tl_def\<close>)
  then show ?thesis using mem old by (simp add: p)
next
  case False
  then show ?thesis using q c by (auto simp: put_prev_entity_def queue_ok_def members_def entities_def)
qed

text \<open>A queued entity becomes the current one.\<close>

lemma erase_mset: "x \<in> set xs \<Longrightarrow> mset (x # remove1 x xs) = mset xs"
  by simp

lemma set_next_queue:
  assumes env: "cfs_env_ok env" and q: "queue_ok q" and c: "curr q = None" and s: "on_rq (ents q s)"
  shows "queue_ok (set_next_entity env s q) \<and> curr (set_next_entity env s q) = Some s
    \<and> entities (set_next_entity env s q) = remove1 s (entities q)
    \<and> mset (members (set_next_entity env s q)) = mset (members q)"
proof -
  have ent: "members q = entities q" "s \<in> set (entities q)" "distinct (entities q)"
    using q c s by (auto simp: queue_ok_def members_def)
  have rb: "rb_ok env" "accounts_ok env" using env by (simp_all add: cfs_env_ok_def)
  have fst: "snd (tasks_timeline q) = first (entities q)" using q by (simp add: queue_ok_def)
  note d = dequeue_node_cases [OF rb(1) fst ent(3,2)]
  define tl where "tl = tasks_timeline (dequeue_node env s q)"
  obtain g where g: "set_next_entity env s q = upd s g (q\<lparr>tasks_timeline := tl, curr := Some s\<rparr>)"
    "\<And>se. on_rq (g se) = on_rq se" "\<And>se. se_load (g se) = se_load se"
  proof (rule that)
    let ?g = "\<lambda>se. (if schedstat_enabled env \<and> cpu_weight q \<ge> 2 * weight (se_load (ents q s))
        then se\<lparr>exec_start := clock_task q, slice_max := max (slice_max se) (sum_exec_runtime se - prev_sum_exec_runtime se),
               prev_sum_exec_runtime := sum_exec_runtime se\<rparr>
        else se\<lparr>exec_start := clock_task q, prev_sum_exec_runtime := sum_exec_runtime se\<rparr>)"
    have q1: "dequeue_node env s q = q\<lparr>tasks_timeline := tl\<rparr>" unfolding tl_def by (rule d(3))
    have u: "upd s f (upd s h r) = upd s (f \<circ> h) r" "(upd s f r)\<lparr>curr := x\<rparr> = upd s f (r\<lparr>curr := x\<rparr>)" for f h r x
      by (simp_all add: upd_def)
    show "set_next_entity env s q = upd s ?g (q\<lparr>tasks_timeline := tl, curr := Some s\<rparr>)"
    proof (cases "schedstat_enabled env \<and> cpu_weight q \<ge> 2 * weight (se_load (ents q s))")
      case True
      then show ?thesis unfolding set_next_entity_def Let_def accountsD(6) [OF rb(2)] if_P [OF s] q1 by (simp add: u comp_def)
    next
      case False
      then show ?thesis unfolding set_next_entity_def Let_def accountsD(6) [OF rb(2)] if_P [OF s] q1 by (auto simp: u comp_def)
    qed
  qed simp_all
  have e': "entities (set_next_entity env s q) = remove1 s (entities q)" using d(1) by (simp add: g tl_def entities_def)
  have m': "members (set_next_entity env s q) = s # remove1 s (entities q)"
    using s e' by (simp add: members_def g)
  then have mm: "mset (members (set_next_entity env s q)) = mset (members q)" using ent by simp
  have "queue_ok (set_next_entity env s q)"
    by (rule queue_ok_moved [OF q mm])
      (use q d(2) e' ent(3) in \<open>auto simp: g e' [unfolded g] queue_ok_def simp flip: tl_def\<close>)
  then show ?thesis using e' mm by (simp add: g)
qed

text \<open>An entity joins the queue, or leaves it.\<close>

lemma queue_ok_joined:
  assumes q: "queue_ok q" and s: "\<not> on_rq (ents q s)" and m: "mset (members q') = add_mset s (mset (members q))"
    and fst: "snd (tasks_timeline q') = first (entities q')" and c: "\<And>c. curr q' = Some c \<Longrightarrow> c \<notin> set (entities q')"
    and e: "\<And>t. on_rq (ents q' t) = (t = s \<or> on_rq (ents q t))" "\<And>t. weight (se_load (ents q' t)) = weight (se_load (ents q t))"
    and r: "nr_running q' = nr_running q + 1" "h_nr_running q' = h_nr_running q + 1"
      "weight (rq_load q') = weight (rq_load q) + weight (se_load (ents q s))"
    and b: "\<And>b. next_buddy q' = Some b \<or> last_buddy q' = Some b \<or> skip_buddy q' = Some b \<Longrightarrow> on_rq (ents q b)"
  shows "queue_ok q'"
proof -
  have m': "mset (members q') = mset (s # members q)" using m by simp
  have "sum_list (map (\<lambda>s. weight (se_load (ents q s))) (members q')) = sum_list (map (\<lambda>s. weight (se_load (ents q s))) (s # members q))"
    using m' by (rule sum_list_permuted)
  then have w: "weight (rq_load q') = sum_list (map (\<lambda>s. weight (se_load (ents q' s))) (members q'))"
    using q r(3) e(2) by (simp add: queue_ok_def add.commute)
  have "s \<notin> set (members q)" using q s by (simp add: queue_ok_def)
  then have d: "distinct (members q')" using q mset_eq_imp_distinct_iff [OF m'] by (simp add: queue_ok_def)
  have "length (members q') = Suc (length (members q))" using mset_eq_length [OF m'] by simp
  then have n: "nr_running q' = of_nat (length (members q'))" "h_nr_running q' = nr_running q'"
    using q r(1,2) by (simp_all add: queue_ok_def)
  have o: "on_rq (ents q' t) \<longleftrightarrow> t \<in> set (members q')" for t
    using q e(1) mset_eq_setD [OF m'] by (simp add: queue_ok_def)
  have b': "next_buddy q' = Some b \<or> last_buddy q' = Some b \<or> skip_buddy q' = Some b \<longrightarrow> on_rq (ents q' b)" for b
    using b e(1) by blast
  show ?thesis unfolding queue_ok_def using d fst o c n w b' by blast
qed

lemma queue_ok_left:
  assumes q: "queue_ok q" and m: "mset (members q) = add_mset s (mset (members q'))"
    and fst: "snd (tasks_timeline q') = first (entities q')" and c: "\<And>c. curr q' = Some c \<Longrightarrow> c \<notin> set (entities q')"
    and e: "\<And>t. on_rq (ents q' t) = (t \<noteq> s \<and> on_rq (ents q t))" "\<And>t. weight (se_load (ents q' t)) = weight (se_load (ents q t))"
    and r: "nr_running q' = nr_running q - 1" "h_nr_running q' = h_nr_running q - 1"
      "weight (rq_load q') = weight (rq_load q) - weight (se_load (ents q s))"
    and b: "\<And>b. next_buddy q' = Some b \<or> last_buddy q' = Some b \<or> skip_buddy q' = Some b \<Longrightarrow> on_rq (ents q b) \<and> b \<noteq> s"
  shows "queue_ok q'"
proof -
  have m': "mset (members q) = mset (s # members q')" using m by simp
  have "sum_list (map (\<lambda>s. weight (se_load (ents q s))) (members q)) = sum_list (map (\<lambda>s. weight (se_load (ents q s))) (s # members q'))"
    using m' by (rule sum_list_permuted)
  then have w: "weight (rq_load q') = sum_list (map (\<lambda>s. weight (se_load (ents q' s))) (members q'))"
    using q r(3) e(2) by (simp add: queue_ok_def)
  have d: "distinct (s # members q')" using q mset_eq_imp_distinct_iff [OF m'] by (simp add: queue_ok_def)
  have "length (members q) = Suc (length (members q'))" using mset_eq_length [OF m'] by simp
  then have n: "nr_running q' = of_nat (length (members q'))" "h_nr_running q' = nr_running q'"
    using q r(1,2) by (simp_all add: queue_ok_def)
  have o: "on_rq (ents q' t) \<longleftrightarrow> t \<in> set (members q')" for t
    using q e(1) mset_eq_setD [OF m'] d by (auto simp: queue_ok_def)
  have b': "next_buddy q' = Some b \<or> last_buddy q' = Some b \<or> skip_buddy q' = Some b \<longrightarrow> on_rq (ents q' b)" for b
    using b e(1) by blast
  show ?thesis unfolding queue_ok_def using d fst o c n w b' by auto
qed

lemma vruntime_skeleton [simp]: "skeleton (upd s (\<lambda>se. se\<lparr>vruntime := f se\<rparr>) q) = skeleton q"
  by (auto simp: skeleton_def fun_eq_iff)

lemma enqueue_queue:
  assumes env: "cfs_env_ok env" and q: "queue_ok q" and s: "\<not> on_rq (ents q s)"
  shows "queue_ok (enqueue_task_fair env s flags q) \<and> curr (enqueue_task_fair env s flags q) = curr q
    \<and> mset (members (enqueue_task_fair env s flags q)) = add_mset s (mset (members q))"
proof -
  have rb: "rb_ok env" "accounts_ok env" using env by (simp_all add: cfs_env_ok_def)
  define renorm where "renorm = (ENQUEUE_WAKEUP \<notin> flags \<or> ENQUEUE_MIGRATED \<in> flags)"
  define q1 where "q1 = update_curr env (if renorm \<and> curr q = Some s then upd s (\<lambda>se. se\<lparr>vruntime := vruntime se + min_vruntime q\<rparr>) q else q)"
  define q2 where "q2 = (if renorm \<and> curr q \<noteq> Some s then upd s (\<lambda>se. se\<lparr>vruntime := vruntime se + min_vruntime q1\<rparr>) q1 else q1)"
  define q3 where "q3 = account_entity_enqueue env s q2"
  define q4 where "q4 = (if ENQUEUE_WAKEUP \<in> flags then place_entity env s False q3 else q3)"
  define q5 where "q5 = (if curr q \<noteq> Some s then enqueue_node env s q4 else q4)"
  obtain n where n: "add_nr_running env r = r\<lparr>cpu_nr_running := n r\<rparr>" for r using accountsD(7) [OF rb(2)] by metis
  have e: "enqueue_task_fair env s flags q =
      (upd s (\<lambda>se. se\<lparr>on_rq := True\<rparr>) q5)\<lparr>h_nr_running := h_nr_running q5 + 1,
         cpu_nr_running := n ((upd s (\<lambda>se. se\<lparr>on_rq := True\<rparr>) q5)\<lparr>h_nr_running := h_nr_running q5 + 1\<rparr>)\<rparr>"
    unfolding q5_def q4_def q3_def q2_def q1_def renorm_def using s
    by (simp add: enqueue_task_fair_def enqueue_entity_def Let_def n)
  have "skeleton q2 = skeleton q" by (simp add: q2_def q1_def update_curr_skeleton)
  note k2 = skeletonD [OF this]
  obtain w where q3: "q3 = q2\<lparr>rq_load := update_load_add (rq_load q2) (weight (se_load (ents q2 s))), nr_running := nr_running q2 + 1, cpu_weight := w\<rparr>"
    using accountsD(1) [OF rb(2)] q3_def by blast
  have "skeleton q4 = skeleton q3" by (simp add: q4_def place_entity_skeleton)
  note k4 = skeletonD [OF this]
  have k3: "entities q3 = entities q" "members q3 = members q"
    using k2(11,12) by (auto simp: q3 entities_def members_def split: option.splits)
  have f4: "snd (tasks_timeline q4) = first (entities q4)" using q unfolding k4 k3 by (simp add: q3 k2 queue_ok_def)
  have nots: "s \<notin> set (entities q)" using q s by (auto simp: queue_ok_def members_def)
  have tl: "\<exists>xs ys. entities q = xs @ ys \<and> entities q5 = (if curr q = Some s then xs @ ys else xs @ s # ys)
      \<and> snd (tasks_timeline q5) = first (entities q5) \<and> q5 = q4\<lparr>tasks_timeline := tasks_timeline q5\<rparr>"
  proof (cases "curr q = Some s")
    case True
    then show ?thesis using f4 by (auto simp: q5_def k4 k3)
  next
    case False
    obtain xs ys where "entities q4 = xs @ ys" "entities (enqueue_node env s q4) = xs @ s # ys"
      "snd (tasks_timeline (enqueue_node env s q4)) = first (xs @ s # ys)"
      "enqueue_node env s q4 = q4\<lparr>tasks_timeline := tasks_timeline (enqueue_node env s q4)\<rparr>"
      using enqueue_node_cases [OF rb(1) f4] .
    then show ?thesis using False by (intro exI [of _ xs] exI [of _ ys]) (simp add: q5_def k4 k3)
  qed
  obtain xs ys where xs: "entities q = xs @ ys" "entities q5 = (if curr q = Some s then xs @ ys else xs @ s # ys)"
      "snd (tasks_timeline q5) = first (entities q5)" "q5 = q4\<lparr>tasks_timeline := tasks_timeline q5\<rparr>" using tl by blast
  define t5 where "t5 = tasks_timeline q5"
  have q5: "q5 = q4\<lparr>tasks_timeline := t5\<rparr>" using xs(4) t5_def by simp
  let ?q' = "enqueue_task_fair env s flags q"
  have mem: "members ?q' = (if curr q = Some s then s # entities q else (case curr q of Some c \<Rightarrow> if on_rq (ents q c) then [c] else [] | None \<Rightarrow> []) @ xs @ s # ys)"
    and ent: "entities ?q' = entities q5"
    using xs(2,1) k2 k4 by (auto simp: e q5 q3 members_def entities_def split: option.splits)
  have mm: "mset (members ?q') = add_mset s (mset (members q))"
    using s xs(1) unfolding mem by (auto simp: members_def split: option.splits)
  have cu: "curr ?q' = curr q" by (simp add: e q5 k4 q3 k2)
  have "queue_ok ?q'"
  proof (rule queue_ok_joined [OF q s mm])
    show "snd (tasks_timeline ?q') = first (entities ?q')" using xs(3) unfolding ent by (simp add: e)
    show "c \<notin> set (entities ?q')" if "curr ?q' = Some c" for c
      using that xs(1,2) q by (auto simp: cu ent queue_ok_def split: if_splits)
    show "on_rq (ents ?q' t) = (t = s \<or> on_rq (ents q t))" "weight (se_load (ents ?q' t)) = weight (se_load (ents q t))" for t
      by (simp_all add: e q5 k4 q3 k2)
    show "nr_running ?q' = nr_running q + 1" "h_nr_running ?q' = h_nr_running q + 1"
      "weight (rq_load ?q') = weight (rq_load q) + weight (se_load (ents q s))"
      by (simp_all add: e q5 k4 q3 k2 update_load_add_def)
    show "on_rq (ents q b)" if "next_buddy ?q' = Some b \<or> last_buddy ?q' = Some b \<or> skip_buddy ?q' = Some b" for b
      using that q by (auto simp: e q5 k4 q3 k2 queue_ok_def)
  qed
  then show ?thesis using mm cu by simp
qed

lemma drop_buddies_simps [simp]:
  "tasks_timeline (drop_buddies s q) = tasks_timeline q" "curr (drop_buddies s q) = curr q" "ents (drop_buddies s q) = ents q"
  "nr_running (drop_buddies s q) = nr_running q" "h_nr_running (drop_buddies s q) = h_nr_running q"
  "rq_load (drop_buddies s q) = rq_load q" "min_vruntime (drop_buddies s q) = min_vruntime q"
  "entities (drop_buddies s q) = entities q"
  by (simp_all add: drop_buddies_def entities_def)

lemma members_drop_buddies [simp]: "members (drop_buddies s q) = members q"
  by (simp add: members_def split: option.splits)

lemma buddies_dropped:
  "next_buddy (drop_buddies s q) = Some b \<or> last_buddy (drop_buddies s q) = Some b \<or> skip_buddy (drop_buddies s q) = Some b
   \<Longrightarrow> (next_buddy q = Some b \<or> last_buddy q = Some b \<or> skip_buddy q = Some b) \<and> b \<noteq> s"
  by (auto simp: drop_buddies_def split: if_splits)

lemma drop_buddies_queue [simp]: "queue_ok q \<Longrightarrow> queue_ok (drop_buddies s q)"
  by (rule queue_ok_moved [of q]) (use buddies_dropped [of s q] in \<open>auto simp: queue_ok_def\<close>)

lemma dequeue_queue:
  assumes env: "cfs_env_ok env" and q: "queue_ok q" and s: "on_rq (ents q s)"
  shows "queue_ok (dequeue_task_fair env s flags q) \<and> curr (dequeue_task_fair env s flags q) = curr q
    \<and> mset (members q) = add_mset s (mset (members (dequeue_task_fair env s flags q)))"
proof -
  have rb: "rb_ok env" "accounts_ok env" using env by (simp_all add: cfs_env_ok_def)
  define q1 where "q1 = drop_buddies s (update_curr env q)"
  define q2 where "q2 = (if curr q1 \<noteq> Some s then dequeue_node env s q1 else q1)"
  define q3 where "q3 = account_entity_dequeue env s (upd s (\<lambda>se. se\<lparr>on_rq := False\<rparr>) q2)"
  define q4 where "q4 = (if DEQUEUE_SLEEP \<notin> flags then upd s (\<lambda>se. se\<lparr>vruntime := vruntime se - min_vruntime q3\<rparr>) q3 else q3)"
  define q5 where "q5 = (if \<not> (DEQUEUE_SAVE \<in> flags \<and> DEQUEUE_MOVE \<notin> flags) then update_min_vruntime q4 else q4)"
  obtain n where n: "sub_nr_running env r = r\<lparr>cpu_nr_running := n r\<rparr>" for r using accountsD(8) [OF rb(2)] by metis
  have e: "dequeue_task_fair env s flags q = q5\<lparr>h_nr_running := h_nr_running q5 - 1, cpu_nr_running := n (q5\<lparr>h_nr_running := h_nr_running q5 - 1\<rparr>)\<rparr>"
    unfolding q5_def q4_def q3_def q2_def q1_def
    by (simp add: dequeue_task_fair_def dequeue_entity_def Let_def n accountsD(3) [OF rb(2)])
  have q1: "queue_ok q1" "entities q1 = entities q" "members q1 = members q" "curr q1 = curr q"
    using q by (simp_all add: q1_def)
  have l1: "on_rq (ents q1 t) = on_rq (ents q t)" "weight (se_load (ents q1 t)) = weight (se_load (ents q t))"
    "nr_running q1 = nr_running q" "h_nr_running q1 = h_nr_running q" "weight (rq_load q1) = weight (rq_load q)" for t
    by (simp_all add: q1_def)
  have f1: "snd (tasks_timeline q1) = first (entities q1)" "distinct (entities q1)"
    using q1(1) by (simp_all add: queue_ok_def members_def)
  have elsewhere: "s \<in> set (entities q)" if "curr q \<noteq> Some s"
  proof -
    have "s \<in> set (members q)" using q s by (simp add: queue_ok_def)
    then show ?thesis using that by (auto simp: members_def split: option.splits if_splits)
  qed
  have tl: "entities q2 = (if curr q = Some s then entities q else remove1 s (entities q))
      \<and> snd (tasks_timeline q2) = first (entities q2) \<and> q2 = q1\<lparr>tasks_timeline := tasks_timeline q2\<rparr>"
  proof (cases "curr q = Some s")
    case True
    then show ?thesis using f1 q1 by (simp add: q2_def)
  next
    case False
    then have "s \<in> set (entities q1)" using elsewhere q1(2) by simp
    from dequeue_node_cases [OF rb(1) f1 this] show ?thesis using False q1(2,4) by (simp add: q2_def)
  qed
  define t2 where "t2 = tasks_timeline q2"
  have q2: "q2 = q1\<lparr>tasks_timeline := t2\<rparr>" using tl t2_def by simp
  obtain w where q3: "q3 = (upd s (\<lambda>se. se\<lparr>on_rq := False\<rparr>) q2)\<lparr>rq_load := \<lparr>weight = weight (rq_load q2) - weight (se_load (ents q2 s)), inv_weight = 0\<rparr>,
        nr_running := nr_running q2 - 1, cpu_weight := w\<rparr>"
    using accountsD(2) [OF rb(2), of s "upd s (\<lambda>se. se\<lparr>on_rq := False\<rparr>) q2"] q3_def by auto
  have "skeleton q5 = skeleton q3" by (simp add: q5_def q4_def update_min_vruntime_skeleton)
  note k5 = skeletonD [OF this]
  let ?q' = "dequeue_task_fair env s flags q"
  have ent: "entities ?q' = entities q2" by (simp add: e entities_def k5(1) q3)
  have nots: "s \<notin> set (remove1 s (entities q))" using f1(2) q1(2) by simp
  have mem: "members ?q' = (case curr q of Some c \<Rightarrow> if c \<noteq> s \<and> on_rq (ents q c) then [c] else [] | None \<Rightarrow> []) @ entities q2"
    using ent by (auto simp: members_def e k5 q3 q2 q1(4) l1 split: option.splits)
  have mm: "mset (members q) = add_mset s (mset (members ?q'))"
    using s tl elsewhere unfolding mem by (auto simp: members_def split: option.splits if_splits)
  have cu: "curr ?q' = curr q" by (simp add: e k5 q3 q2 q1(4))
  have "queue_ok ?q'"
  proof (rule queue_ok_left [OF q mm])
    show "snd (tasks_timeline ?q') = first (entities ?q')" using tl unfolding ent by (simp add: e k5(1) q3)
    show "c \<notin> set (entities ?q')" if "curr ?q' = Some c" for c
      using that tl q by (auto simp: cu ent queue_ok_def split: if_splits dest: notin_set_remove1)
    show "on_rq (ents ?q' t) = (t \<noteq> s \<and> on_rq (ents q t))" "weight (se_load (ents ?q' t)) = weight (se_load (ents q t))" for t
      by (simp_all add: e k5 q3 q2 l1)
    show "nr_running ?q' = nr_running q - 1" "h_nr_running ?q' = h_nr_running q - 1"
      "weight (rq_load ?q') = weight (rq_load q) - weight (se_load (ents q s))"
      by (simp_all add: e k5 q3 q2 l1)
    show "on_rq (ents q b) \<and> b \<noteq> s" if "next_buddy ?q' = Some b \<or> last_buddy ?q' = Some b \<or> skip_buddy ?q' = Some b" for b
      using that buddies_dropped [of s "update_curr env q" b] q by (auto simp: e k5 q3 q2 q1_def queue_ok_def)
  qed
  then show ?thesis using mm cu by simp
qed

section \<open>The order of the tree\<close>

text \<open>Virtual times wrap around.  As long as all of a queue lie within half of the numbers from some \<open>m\<close> on, the
  comparison orders them as their distance from \<open>m\<close>.\<close>

definition dist :: "u64 \<Rightarrow> cfs_rq \<Rightarrow> nat \<Rightarrow> nat" where
  "dist m q s = unat (vruntime (ents q s) - m)"

definition window :: "u64 \<Rightarrow> cfs_rq \<Rightarrow> bool" where
  "window m q \<longleftrightarrow> list_all (\<lambda>s. dist m q s < 2 ^ 63) (members q)"

lemma sint_diff:
  fixes x y :: u64
  assumes "unat x < 2 ^ 63" "unat y < 2 ^ 63"
  shows "sint (x - y) = int (unat x) - int (unat y)"
proof -
  let ?i = "int (unat x) - int (unat y)"
  have "int (unat x) < int (2 ^ 63)" "int (unat y) < int (2 ^ 63)" using assms by (simp_all only: of_nat_less_iff)
  then have xy: "int (unat x) < 2 ^ 63" "int (unat y) < 2 ^ 63" by simp_all
  have r: "0 \<le> a \<Longrightarrow> a < n \<Longrightarrow> 0 \<le> b \<Longrightarrow> b < n \<Longrightarrow> - n \<le> a - b \<and> a - b < n" for a b n :: int by linarith
  have "- (2 ^ 63) \<le> ?i \<and> ?i < 2 ^ 63" by (intro r of_nat_0_le_iff xy)
  then have "signed_take_bit 63 ?i = ?i" by (intro signed_take_bit_int_eq_self) simp_all
  moreover have "x - y = word_of_int ?i" by simp
  then have "sint (x - y) = signed_take_bit 63 ?i" by (simp only: signed_of_int) simp
  ultimately show ?thesis by (rule trans [rotated])
qed

lemma sint_dist:
  assumes "dist m q a < 2 ^ 63" "dist m q b < 2 ^ 63"
  shows "sint (vruntime (ents q a) - vruntime (ents q b)) = int (dist m q a) - int (dist m q b)"
proof -
  have "vruntime (ents q a) - vruntime (ents q b) = (vruntime (ents q a) - m) - (vruntime (ents q b) - m)" by simp
  then show ?thesis unfolding dist_def using sint_diff [OF assms [unfolded dist_def]] by simp
qed

lemma entity_before_dist:
  "dist m q a < 2 ^ 63 \<Longrightarrow> dist m q b < 2 ^ 63 \<Longrightarrow> entity_before q a b \<longleftrightarrow> dist m q a < dist m q b"
  by (simp add: entity_before_def sint_dist)

lemma sorted_wrt_same:
  assumes "\<And>x y. x \<in> set xs \<Longrightarrow> y \<in> set xs \<Longrightarrow> P x y \<longleftrightarrow> Q x y"
  shows "sorted_wrt P xs \<longleftrightarrow> sorted_wrt Q xs"
  using assms sorted_wrt_mono_rel [of xs P Q] sorted_wrt_mono_rel [of xs Q P] by blast

lemma in_order_entities:
  assumes w: "\<And>s. s \<in> set (entities q) \<Longrightarrow> dist m q s < 2 ^ 63"
  shows "in_order q \<longleftrightarrow> sorted (map (dist m q) (entities q))"
proof -
  have "\<not> entity_before q b a \<longleftrightarrow> dist m q a \<le> dist m q b" if "a \<in> set (entities q)" "b \<in> set (entities q)" for a b
    using entity_before_dist [OF w [OF that(2)] w [OF that(1)]] by auto
  then show ?thesis unfolding in_order_def sorted_wrt_map by (rule sorted_wrt_same)
qed

lemma in_order_dist:
  assumes "window m q"
  shows "in_order q \<longleftrightarrow> sorted (map (dist m q) (entities q))"
proof -
  have "dist m q s < 2 ^ 63" if "s \<in> set (entities q)" for s
    using assms that by (auto simp: window_def members_def list_all_iff)
  then show ?thesis by (rule in_order_entities)
qed

lemma link_node_sorted:
  assumes "\<And>e. e \<in> set_tree t \<Longrightarrow> before s e \<longleftrightarrow> key s < (key e :: nat)" "sorted (map key (inorder t))"
  shows "sorted (map key (inorder (fst (link_node before s t lm))))"
  using assms
proof (induction t arbitrary: lm)
  case (Node l e r)
  obtain xs ys where l: "inorder l = xs @ ys" "inorder (fst (link_node before s l lm)) = xs @ s # ys"
    using link_node_inorder [of l before s lm] by blast
  obtain us vs where r: "inorder r = us @ vs" "inorder (fst (link_node before s r False)) = us @ s # vs"
    using link_node_inorder [of r before s False] by blast
  have "sorted (map key (inorder (fst (link_node before s l lm))))" "sorted (map key (inorder (fst (link_node before s r False))))"
    using Node.prems by (intro Node.IH; simp add: sorted_append)+
  moreover have "before s e \<longleftrightarrow> key s < key e" using Node.prems(1) by simp
  ultimately show ?case
    using Node.prems(2) unfolding l(2) r(2)
    by (cases "before s e") (auto simp: l r sorted_append split_beta Let_def ball_Un intro: less_imp_le order.trans le_less_trans not_less [THEN iffD1])
qed simp

text \<open>The node of an entity is linked where the order wants it.\<close>

lemma enqueue_node_order:
  assumes rb: "rb_ok env" and o: "in_order q" and w: "\<And>t. t = s \<or> t \<in> set (entities q) \<Longrightarrow> dist m q t < 2 ^ 63"
  shows "sorted (map (dist m q) (entities (enqueue_node env s q)))"
proof -
  obtain tr l where tl: "tasks_timeline q = (tr, l)" by fastforce
  have before: "entity_before q s e \<longleftrightarrow> dist m q s < dist m q e" if "e \<in> set_tree tr" for e
    using that w [of s] w [of e] tl by (intro entity_before_dist) (auto simp: entities_def)
  have "sorted (map (dist m q) (inorder tr))" using o in_order_entities [of q m] w tl by (simp add: entities_def)
  from link_node_sorted [of tr "entity_before q" s "dist m q", OF before this, of True]
  show ?thesis using rb_okD(1) [OF rb] by (simp add: enqueue_node_def tl split_beta entities_def)
qed

section \<open>The choice of the next entity\<close>

text \<open>A state that differs only in cached reciprocals: no entity, time or result of the scaling is another one.\<close>

definition like :: "cfs_env \<Rightarrow> cfs_rq \<Rightarrow> cfs_rq \<Rightarrow> bool" where
  "like env q q' \<longleftrightarrow> skeleton q' = skeleton q
     \<and> (\<forall>s. vruntime (ents q' s) = vruntime (ents q s)
         \<and> (\<forall>d. fst (calc_delta_fair (mul_u64_u32_shr env) d (se_load (ents q' s)))
                = fst (calc_delta_fair (mul_u64_u32_shr env) d (se_load (ents q s)))))"

lemma like_refl [simp]: "like env q q"
  by (simp add: like_def)

lemma like_trans: "like env q q' \<Longrightarrow> like env q' q'' \<Longrightarrow> like env q q''"
  by (simp add: like_def)

lemma wakeup_like: "like env q (snd (wakeup_preempt_entity env b l q))"
proof -
  have "vruntime (ents (snd (calc_delta_se env d s q)) t) = vruntime (ents q t)
    \<and> fst (calc_delta_fair (mul_u64_u32_shr env) e (se_load (ents (snd (calc_delta_se env d s q)) t)))
      = fst (calc_delta_fair (mul_u64_u32_shr env) e (se_load (ents q t)))" for d s t e
    by (simp add: calc_delta_se_def split_beta fair.again)
  then show ?thesis
    unfolding like_def wakeup_preempt_skeleton by (simp add: wakeup_preempt_entity_def wakeup_gran_def Let_def split_beta)
qed

text \<open>An entity that is ahead of \<open>l\<close> by no more than the granularity in the virtual time of \<open>l\<close>.\<close>

definition gran :: "cfs_env \<Rightarrow> cfs_rq \<Rightarrow> nat \<Rightarrow> int" where
  "gran env q l = sint (fst (calc_delta_fair (mul_u64_u32_shr env) (sysctl_sched_wakeup_granularity env) (se_load (ents q l))))"

definition close :: "cfs_env \<Rightarrow> cfs_rq \<Rightarrow> nat \<Rightarrow> nat \<Rightarrow> bool" where
  "close env q b l \<longleftrightarrow> sint (vruntime (ents q b) - vruntime (ents q l)) \<le> max 0 (gran env q l)"

lemma wakeup_close: "fst (wakeup_preempt_entity env b l q) < 1 \<Longrightarrow> close env q b l"
  by (auto simp: wakeup_preempt_entity_def wakeup_gran_def calc_delta_se_def close_def gran_def Let_def split_beta split: if_splits)

lemma try_buddy:
  assumes "like env q q1" "se = l \<or> on_rq (ents q se) \<and> close env q se l" "\<And>b. buddy = Some b \<Longrightarrow> on_rq (ents q b)"
  obtains se' q' where "try_buddy env buddy l (se, q1) = (se', q')" "like env q q'"
    "se' = l \<or> on_rq (ents q se') \<and> close env q se' l"
proof (cases buddy)
  case None
  then show thesis using assms that by (simp add: try_buddy_def)
next
  case (Some b)
  obtain w q2 where w: "wakeup_preempt_entity env b l q1 = (w, q2)" by fastforce
  have l2: "like env q q2" using like_trans [OF assms(1) wakeup_like [of env q1 b l]] w by simp
  have "close env q1 b l = close env q b l" using assms(1) by (simp add: close_def gran_def like_def)
  then have "w < 1 \<Longrightarrow> close env q b l" using wakeup_close [of env b l q1] w by simp
  then show thesis
    using assms Some w l2 by (intro that [of "if w < 1 then b else se" q2]) (auto simp: try_buddy_def Let_def)
qed

lemma like_queue: "like env q q' \<Longrightarrow> queue_ok q' = queue_ok q"
  using skeletonD [of q' q] by (simp add: like_def queue_ok_def)

lemma queued_on_rq:
  assumes "queue_ok q" "e \<in> set (entities q)"
  shows "on_rq (ents q e)"
proof -
  have "e \<in> set (members q)" using assms(2) by (simp add: members_def)
  then show ?thesis using assms(1) by (simp add: queue_ok_def)
qed

lemma pick_next_entity_cases:
  assumes env: "cfs_env_ok env" and q: "queue_ok q" and cur: "\<And>c. cur = Some c \<Longrightarrow> on_rq (ents q c)"
  obtains (nobody) "pick_next_entity env cur q = None" "entities q = []" "cur = None"
    | (chosen) l s q' where "pick_next_entity env cur q = Some (s, drop_buddies s q')" "like env q q'"
        "s = l \<or> on_rq (ents q s) \<and> close env q s l" "on_rq (ents q l)"
        "cur = Some l \<and> (\<forall>x xs. entities q = x # xs \<longrightarrow> entity_before q l x)
         \<or> (\<exists>xs. entities q = l # xs) \<and> (\<forall>c. cur = Some c \<longrightarrow> \<not> entity_before q c l)"
proof -
  have fst: "pick_first_entity q = first (entities q)" using q by (simp add: queue_ok_def pick_first_entity_def)
  have rb: "rb_ok env" "accounts_ok env" using env by (simp_all add: cfs_env_ok_def)
  define lft where "lft = (case pick_first_entity q of None \<Rightarrow> cur
     | Some l \<Rightarrow> (case cur of Some c \<Rightarrow> if entity_before q c l then Some c else Some l | None \<Rightarrow> Some l))"
  have queued: "on_rq (ents q e)" if "e \<in> set (entities q)" for e using queued_on_rq [OF q that] .
  have bud: "next_buddy q = Some b \<or> last_buddy q = Some b \<or> skip_buddy q = Some b \<Longrightarrow> on_rq (ents q b)" for b
    using q unfolding queue_ok_def by blast
  show thesis
  proof (cases lft)
    case None
    then have "pick_next_entity env cur q = None" by (simp add: pick_next_entity_def lft_def)
    moreover have "entities q = []" "cur = None" using None fst by (auto simp: lft_def split: list.splits option.splits if_splits)
    ultimately show thesis by (rule nobody)
  next
    case (Some l)
    have min: "cur = Some l \<and> (\<forall>x xs. entities q = x # xs \<longrightarrow> entity_before q l x)
         \<or> (\<exists>xs. entities q = l # xs) \<and> (\<forall>c. cur = Some c \<longrightarrow> \<not> entity_before q c l)"
      using Some fst by (auto simp: lft_def split: list.splits option.splits if_splits)
    then have l: "on_rq (ents q l)" using queued cur by auto
    define second where "second = (if skip_buddy q = Some l
        then if cur = Some l then pick_first_entity q
             else (case rb_next env l (fst (tasks_timeline q)) of
                     None \<Rightarrow> cur
                   | Some x \<Rightarrow> (case cur of Some c \<Rightarrow> if entity_before q c x then Some c else Some x | None \<Rightarrow> Some x))
        else None)"
    have sec: "on_rq (ents q b)" if "second = Some b" for b
    proof (cases "cur = Some l")
      case True
      then show ?thesis using that queued fst by (auto simp: second_def split: if_splits list.splits)
    next
      case False
      then obtain xs where xs: "entities q = l # xs" using min by blast
      then have "inorder (fst (tasks_timeline q)) = [] @ l # xs" "distinct (inorder (fst (tasks_timeline q)))"
        using q by (simp_all add: entities_def queue_ok_def members_def)
      note nx = rb_okD(5) [OF rb(1) this]
      show ?thesis using that False queued cur xs unfolding second_def nx by (auto split: if_splits list.splits option.splits)
    qed
    obtain s1 q1 where 1: "try_buddy env second l (l, q) = (s1, q1)" "like env q q1" "s1 = l \<or> on_rq (ents q s1) \<and> close env q s1 l"
      using try_buddy [OF like_refl [of env q], of l l second] sec by blast
    obtain s2 q2 where 2: "try_buddy env (last_buddy q) l (s1, q1) = (s2, q2)" "like env q q2" "s2 = l \<or> on_rq (ents q s2) \<and> close env q s2 l"
      using try_buddy [OF 1(2,3), of "last_buddy q"] bud by blast
    obtain s3 q3 where 3: "try_buddy env (next_buddy q) l (s2, q2) = (s3, q3)" "like env q q3" "s3 = l \<or> on_rq (ents q s3) \<and> close env q s3 l"
      using try_buddy [OF 2(2,3), of "next_buddy q"] bud by blast
    have "pick_next_entity env cur q = Some (s3, drop_buddies s3 q3)"
      unfolding pick_next_entity_def lft_def [symmetric] Let_def
      unfolding Some option.case
      unfolding second_def [symmetric] 1(1) 2(1) 3(1) accountsD(3) [OF rb(2)] fst_conv snd_conv ..
    then show thesis using 3(2,3) l min by (rule chosen)
  qed
qed

text \<open>The current entity, while it is on the queue.\<close>

definition running :: "cfs_rq \<Rightarrow> nat option" where
  "running q = (case curr q of Some c \<Rightarrow> if on_rq (ents q c) then Some c else None | None \<Rightarrow> None)"

lemma members_running: "members q = (case running q of Some c \<Rightarrow> [c] | None \<Rightarrow> []) @ entities q"
  by (simp add: members_def running_def split: option.splits)

text \<open>C15: Choosing the next entity is fair up to the wake-up granularity.  On a queue in order whose virtual times lie
  within half of the numbers, an entity is chosen whenever there is one; it is on the queue, and its virtual time is
  at most the granularity (in the virtual time of the leftmost one) ahead of the smallest virtual time of all.
  Without buddies it has the smallest virtual time.  No time, load or queue changes, the chosen one is no buddy
  any more.\<close>

theorem pick_next_entity_fair:
  assumes "cfs_env_ok env" "queue_ok q" "in_order q" "window m q"
  shows "case pick_next_entity env (running q) q of
      None \<Rightarrow> members q = []
    | Some (s, q') \<Rightarrow> s \<in> set (members q)
        \<and> list_ex (\<lambda>l. list_all (\<lambda>e. \<not> entity_before q e l) (members q) \<and> (s = l \<or> close env q s l)) (members q)
        \<and> (next_buddy q = None \<and> last_buddy q = None \<and> skip_buddy q = None \<longrightarrow> list_all (\<lambda>e. \<not> entity_before q e s) (members q))
        \<and> queue_ok q' \<and> in_order q' \<and> members q' = members q
        \<and> next_buddy q' \<noteq> Some s \<and> last_buddy q' \<noteq> Some s \<and> skip_buddy q' \<noteq> Some s"
proof -
  have run: "\<And>c. running q = Some c \<Longrightarrow> on_rq (ents q c)" by (auto simp: running_def split: option.splits if_splits)
  have w: "dist m q e < 2 ^ 63" if "e \<in> set (members q)" for e using assms(4) that by (simp add: window_def list_all_iff)
  have before: "entity_before q a b \<longleftrightarrow> dist m q a < dist m q b" if "a \<in> set (members q)" "b \<in> set (members q)" for a b
    by (rule entity_before_dist [OF w [OF that(1)] w [OF that(2)]])
  have sorted: "sorted (map (dist m q) (entities q))" using assms(3) in_order_dist [OF assms(4)] by simp
  show ?thesis
  proof (rule pick_next_entity_cases [OF assms(1,2) run])
    assume "pick_next_entity env (running q) q = None" "entities q = []" "running q = None"
    then show ?thesis by (simp add: members_running)
  next
    fix l s q'
    assume p: "pick_next_entity env (running q) q = Some (s, drop_buddies s q')" and like: "like env q q'"
      and s: "s = l \<or> on_rq (ents q s) \<and> close env q s l" and l: "on_rq (ents q l)"
      and min: "running q = Some l \<and> (\<forall>x xs. entities q = x # xs \<longrightarrow> entity_before q l x)
         \<or> (\<exists>xs. entities q = l # xs) \<and> (\<forall>c. running q = Some c \<longrightarrow> \<not> entity_before q c l)"
    have mem: "on_rq (ents q e) \<Longrightarrow> e \<in> set (members q)" for e using assms(2) by (simp add: queue_ok_def)
    have least: "dist m q l \<le> dist m q e" if "e \<in> set (members q)" for e
      using min
    proof (elim disjE conjE exE)
      assume r: "running q = Some l" and x: "\<forall>x xs. entities q = x # xs \<longrightarrow> entity_before q l x"
      have "dist m q l \<le> dist m q e" if e: "e \<in> set (entities q)"
      proof (cases "entities q")
        case (Cons x xs)
        then have "x \<in> set (members q)" by (simp add: members_def)
        then have "dist m q l < dist m q x" using x Cons before [OF mem [OF l]] by simp
        then show ?thesis using sorted e Cons by auto
      qed (use e in simp)
      then show ?thesis using that r by (auto simp: members_running)
    next
      fix xs assume xs: "entities q = l # xs" and c: "\<forall>c. running q = Some c \<longrightarrow> \<not> entity_before q c l"
      have "dist m q l \<le> dist m q c" if "running q = Some c" for c
        using c that before [of c l] mem [OF run [OF that]] mem [OF l] by auto
      then show ?thesis using that sorted xs by (cases "running q") (auto simp: members_running)
    qed
    have least': "list_all (\<lambda>e. \<not> entity_before q e l) (members q)"
      unfolding list_all_iff using least before [OF _ mem [OF l]] by (auto simp: not_less)
    have s': "s \<in> set (members q)" using s l mem by auto
    have sk: "skeleton q' = skeleton q" and vr: "\<And>e. vruntime (ents q' e) = vruntime (ents q e)" using like by (auto simp: like_def)
    note k = skeletonD [OF sk]
    have "in_order q'" using assms(3) k(11) vr by (simp add: in_order_def entity_before_def)
    then have o: "in_order (drop_buddies s q')" by (simp add: in_order_def entity_before_def)
    have ok: "queue_ok (drop_buddies s q')" using like_queue [OF like] assms(2) by simp
    have nb: "s = l" if "next_buddy q = None" "last_buddy q = None" "skip_buddy q = None"
    proof -
      have "pick_next_entity env (running q) q = Some (x, q'') \<Longrightarrow> x = l" for x q''
        using that min
        by (auto simp: pick_next_entity_def try_buddy_def Let_def pick_first_entity_def assms(2) [unfolded queue_ok_def] split: option.splits list.splits if_splits)
      then show ?thesis using p by blast
    qed
    have ex: "list_ex (\<lambda>l. list_all (\<lambda>e. \<not> entity_before q e l) (members q) \<and> (s = l \<or> close env q s l)) (members q)"
      unfolding list_ex_iff using mem [OF l] least' s by blast
    have "next_buddy (drop_buddies s q') \<noteq> Some s \<and> last_buddy (drop_buddies s q') \<noteq> Some s \<and> skip_buddy (drop_buddies s q') \<noteq> Some s"
      by (auto simp: drop_buddies_def)
    then show ?thesis unfolding p using s' ex ok o k(12) nb least' by auto
  qed
qed

section \<open>Operations keep the order\<close>

text \<open>The virtual times that an operation may change: none but those of \<open>A\<close>.\<close>

definition moves :: "nat set \<Rightarrow> cfs_rq \<Rightarrow> cfs_rq \<Rightarrow> bool" where
  "moves A q q' \<longleftrightarrow> (\<forall>e. e \<notin> A \<longrightarrow> vruntime (ents q' e) = vruntime (ents q e))"

lemma moves_refl [simp]: "moves A q q"
  by (simp add: moves_def)

lemma moves_trans: "moves A q q' \<Longrightarrow> moves B q' q'' \<Longrightarrow> A \<subseteq> C \<Longrightarrow> B \<subseteq> C \<Longrightarrow> moves C q q''"
  unfolding moves_def by (metis subsetD)

lemma in_order_moves:
  assumes "in_order q" "moves A q q'" "entities q' = entities q" "A \<inter> set (entities q) = {}"
  shows "in_order q'"
proof -
  have "entity_before q' b a = entity_before q b a" if "a \<in> set (entities q)" "b \<in> set (entities q)" for a b
  proof -
    have "a \<notin> A" "b \<notin> A" using assms(4) that by auto
    then show ?thesis using assms(2) by (simp add: entity_before_def moves_def)
  qed
  then show ?thesis using assms(1) sorted_wrt_same [of "entities q" "\<lambda>a b. \<not> entity_before q' b a" "\<lambda>a b. \<not> entity_before q b a"]
    unfolding in_order_def assms(3) by simp
qed

lemma update_curr_moves: "moves (set_option (curr q)) q (update_curr env q)"
  by (auto simp: moves_def update_curr_def update_min_vruntime_def Let_def split_beta split: option.splits)

lemma sched_slice_moves: "moves {} q (snd (sched_slice env s q))"
  by (auto simp: moves_def sched_slice_def Let_def split_beta)

lemma calc_delta_se_moves: "moves {} q (snd (calc_delta_se env d s q))"
  by (auto simp: moves_def calc_delta_se_def Let_def split_beta)

lemma place_entity_moves: "moves {s} q (place_entity env s initial q)"
  using sched_slice_moves [of q env s] calc_delta_se_moves [of "snd (sched_slice env s q)" env "fst (sched_slice env s q)" s]
  by (auto simp: moves_def place_entity_def sched_vslice_def Let_def split_beta)

lemma update_min_vruntime_moves: "moves {} q (update_min_vruntime q)"
  by (simp add: moves_def update_min_vruntime_def Let_def)

lemma upd_moves: "moves {s} q (upd s f q)"
  by (simp add: moves_def)

text \<open>Linking and removing a node keep the order, when the times lie in a window.\<close>

lemma enqueue_node_in_order:
  assumes "rb_ok env" "snd (tasks_timeline q) = first (entities q)" "in_order q"
    and w: "\<And>t. t \<in> set (entities (enqueue_node env s q)) \<Longrightarrow> dist m q t < 2 ^ 63"
  shows "in_order (enqueue_node env s q)"
proof -
  obtain xs ys where e: "entities q = xs @ ys" "entities (enqueue_node env s q) = xs @ s # ys"
    "enqueue_node env s q = q\<lparr>tasks_timeline := tasks_timeline (enqueue_node env s q)\<rparr>"
    using enqueue_node_cases [OF assms(1,2)] .
  have d: "dist m (enqueue_node env s q) = dist m q"
    by (rule ext) (subst e(3), simp add: dist_def)
  have "sorted (map (dist m q) (entities (enqueue_node env s q)))"
    by (rule enqueue_node_order [OF assms(1,3)]) (rule w, use e in auto)
  then show ?thesis using in_order_entities [of "enqueue_node env s q" m] w d by simp
qed

lemma sorted_wrt_remove1: "sorted_wrt P xs \<Longrightarrow> sorted_wrt P (remove1 x xs)"
  by (induction xs) (auto dest: notin_set_remove1 [rotated])

lemma remove_in_order:
  assumes "in_order q" "moves A q q'" "entities q' = remove1 s (entities q)" "A \<inter> set (entities q') = {}"
  shows "in_order q'"
proof -
  let ?xs = "remove1 s (entities q)"
  have "entity_before q' b a = entity_before q b a" if "a \<in> set ?xs" "b \<in> set ?xs" for a b
  proof -
    have "a \<notin> A" "b \<notin> A" using assms(3,4) that by auto
    then show ?thesis using assms(2) by (simp add: entity_before_def moves_def)
  qed
  moreover have "sorted_wrt (\<lambda>a b. \<not> entity_before q b a) ?xs" using assms(1) unfolding in_order_def by (rule sorted_wrt_remove1)
  ultimately show ?thesis
    using sorted_wrt_same [of ?xs "\<lambda>a b. \<not> entity_before q' b a" "\<lambda>a b. \<not> entity_before q b a"]
    unfolding in_order_def assms(3) by simp
qed

lemma put_in_order:
  assumes env: "cfs_env_ok env" and q: "queue_ok q" "in_order q" and c: "curr q = Some c"
    and w: "window m (put_prev_entity env c q)"
  shows "in_order (put_prev_entity env c q)"
proof (cases "on_rq (ents q c)")
  case True
  let ?q = "update_curr env q"
  have rb: "rb_ok env" using env by (simp add: cfs_env_ok_def)
  have p: "put_prev_entity env c q = (enqueue_node env c ?q)\<lparr>curr := None\<rparr>"
    using True by (simp add: put_prev_entity_def Let_def)
  have fst: "snd (tasks_timeline ?q) = first (entities ?q)" using q(1) by (simp add: queue_ok_def)
  have "in_order ?q"
    by (rule in_order_moves [OF q(2) update_curr_moves]) (use q(1) c in \<open>auto simp: queue_ok_def\<close>)
  then have "in_order (enqueue_node env c ?q)"
  proof (rule enqueue_node_in_order [OF rb fst])
    fix t assume t: "t \<in> set (entities (enqueue_node env c ?q))"
    then have "t \<in> set (members (put_prev_entity env c q))" by (simp add: p members_def entities_def)
    then have "dist m (put_prev_entity env c q) t < 2 ^ 63" using w by (simp add: window_def list_all_iff)
    then show "dist m ?q t < 2 ^ 63" by (simp add: p dist_def enqueue_node_def split_beta)
  qed
  then show ?thesis by (simp add: p in_order_def entities_def entity_before_def)
next
  case False
  then show ?thesis using q by (simp add: put_prev_entity_def in_order_def entities_def entity_before_def)
qed

lemma set_next_in_order:
  assumes env: "cfs_env_ok env" and q: "queue_ok q" "in_order q" and c: "curr q = None" and s: "on_rq (ents q s)"
  shows "in_order (set_next_entity env s q)"
proof (rule remove_in_order [OF q(2), where A = "{}"])
  have acc: "accounts_ok env" using env by (simp add: cfs_env_ok_def)
  show "moves {} q (set_next_entity env s q)"
    by (auto simp: moves_def set_next_entity_def dequeue_node_def Let_def accountsD(6) [OF acc])
  show "entities (set_next_entity env s q) = remove1 s (entities q)" using set_next_queue [OF env q(1) c s] by blast
qed simp

lemma enqueue_in_order:
  assumes env: "cfs_env_ok env" and q: "queue_ok q" "in_order q" and s: "\<not> on_rq (ents q s)"
    and w: "window m (enqueue_task_fair env s flags q)"
  shows "in_order (enqueue_task_fair env s flags q)"
proof -
  have rb: "rb_ok env" "accounts_ok env" using env by (simp_all add: cfs_env_ok_def)
  define renorm where "renorm = (ENQUEUE_WAKEUP \<notin> flags \<or> ENQUEUE_MIGRATED \<in> flags)"
  define q0 where "q0 = (if renorm \<and> curr q = Some s then upd s (\<lambda>se. se\<lparr>vruntime := vruntime se + min_vruntime q\<rparr>) q else q)"
  define q1 where "q1 = update_curr env q0"
  define q2 where "q2 = (if renorm \<and> curr q \<noteq> Some s then upd s (\<lambda>se. se\<lparr>vruntime := vruntime se + min_vruntime q1\<rparr>) q1 else q1)"
  define q3 where "q3 = account_entity_enqueue env s q2"
  define q4 where "q4 = (if ENQUEUE_WAKEUP \<in> flags then place_entity env s False q3 else q3)"
  define q5 where "q5 = (if curr q \<noteq> Some s then enqueue_node env s q4 else q4)"
  let ?q' = "enqueue_task_fair env s flags q"
  obtain n where n: "add_nr_running env r = r\<lparr>cpu_nr_running := n r\<rparr>" for r using accountsD(7) [OF rb(2)] by metis
  have e: "?q' = (upd s (\<lambda>se. se\<lparr>on_rq := True\<rparr>) q5)\<lparr>h_nr_running := h_nr_running q5 + 1,
         cpu_nr_running := n ((upd s (\<lambda>se. se\<lparr>on_rq := True\<rparr>) q5)\<lparr>h_nr_running := h_nr_running q5 + 1\<rparr>)\<rparr>"
    unfolding q5_def q4_def q3_def q2_def q1_def q0_def renorm_def using s
    by (simp add: enqueue_task_fair_def enqueue_entity_def Let_def n)
  have v5: "vruntime (ents ?q' t) = vruntime (ents q5 t)" "entities ?q' = entities q5" for t
    by (simp_all add: e entities_def)
  obtain w3 where q3: "q3 = q2\<lparr>rq_load := update_load_add (rq_load q2) (weight (se_load (ents q2 s))), nr_running := nr_running q2 + 1, cpu_weight := w3\<rparr>"
    using accountsD(1) [OF rb(2)] q3_def by blast
  have "skeleton q2 = skeleton q" by (simp add: q2_def q1_def q0_def update_curr_skeleton)
  note k2 = skeletonD [OF this]
  have "skeleton q4 = skeleton q3" by (simp add: q4_def place_entity_skeleton)
  note k4 = skeletonD [OF this]
  have e4: "entities q4 = entities q" unfolding k4 using k2(11) by (simp add: q3 entities_def)
  let ?A = "insert s (set_option (curr q))"
  have "moves ?A q q0" by (simp add: q0_def moves_def)
  moreover have "moves ?A q0 q1" using update_curr_moves [of q0 env] by (auto simp: q1_def moves_def q0_def)
  moreover have "moves ?A q1 q2" by (simp add: q2_def moves_def)
  moreover have "moves ?A q2 q4"
    using place_entity_moves [of s q3 env False] by (auto simp: q4_def moves_def) (auto simp: q3)
  ultimately have mv: "moves ?A q q4" by (simp add: moves_def)
  have nots: "s \<notin> set (entities q)" using queued_on_rq [OF q(1)] s by blast
  have o4: "in_order q4"
    by (rule in_order_moves [OF q(2) mv e4]) (use q(1) nots in \<open>auto simp: queue_ok_def\<close>)
  have f4: "snd (tasks_timeline q4) = first (entities q4)" using q(1) unfolding e4 by (simp add: k4 q3 k2 queue_ok_def)
  have "in_order q5"
  proof (cases "curr q = Some s")
    case False
    have "in_order (enqueue_node env s q4)"
    proof (rule enqueue_node_in_order [OF rb(1) f4 o4])
      fix t assume "t \<in> set (entities (enqueue_node env s q4))"
      then have "t \<in> set (members ?q')" using False v5(2) by (simp add: members_def q5_def)
      then have "dist m ?q' t < 2 ^ 63" using w by (simp add: window_def list_all_iff)
      then show "dist m q4 t < 2 ^ 63" using False v5(1) [of t] by (simp add: dist_def q5_def enqueue_node_def split_beta)
    qed
    then show ?thesis using False by (simp add: q5_def)
  qed (use o4 q5_def in simp)
  then show ?thesis using v5 by (simp add: in_order_def entity_before_def)
qed

lemma dequeue_in_order:
  assumes env: "cfs_env_ok env" and q: "queue_ok q" "in_order q" and s: "on_rq (ents q s)"
  shows "in_order (dequeue_task_fair env s flags q)"
proof (rule remove_in_order [OF q(2)])
  have rb: "rb_ok env" "accounts_ok env" using env by (simp_all add: cfs_env_ok_def)
  let ?q' = "dequeue_task_fair env s flags q" and ?A = "insert s (set_option (curr q))"
  note dq = dequeue_queue [OF env q(1) s, of flags]
  obtain n where n: "sub_nr_running env r = r\<lparr>cpu_nr_running := n r\<rparr>" for r using accountsD(8) [OF rb(2)] by metis
  obtain w where w: "account_entity_dequeue env s r = r\<lparr>rq_load := \<lparr>weight = weight (rq_load r) - weight (se_load (ents r s)), inv_weight = 0\<rparr>,
        nr_running := nr_running r - 1, cpu_weight := w r\<rparr>" for r using accountsD(2) [OF rb(2)] by metis
  have uc: "vruntime (ents (update_curr env q) t) = vruntime (ents q t)" if "t \<notin> ?A" for t
    using update_curr_moves [of q env] that by (simp add: moves_def)
  show "moves ?A q ?q'"
    using uc by (auto simp: moves_def dequeue_task_fair_def dequeue_entity_def Let_def n w accountsD(3) [OF rb(2)]
        dequeue_node_def update_min_vruntime_def)
  show ent: "entities ?q' = remove1 s (entities q)"
  proof (cases "curr q = Some s")
    case True
    then have "s \<notin> set (entities q)" using q(1) by (simp add: queue_ok_def)
    moreover have "tasks_timeline ?q' = tasks_timeline q" using True
      by (simp add: dequeue_task_fair_def dequeue_entity_def Let_def n w accountsD(3) [OF rb(2)])
    ultimately show ?thesis by (simp add: entities_def remove1_idem)
  next
    case False
    let ?q1 = "drop_buddies s (update_curr env q)"
    have in1: "s \<in> set (entities ?q1)"
    proof -
      have "s \<in> set (members q)" using q(1) s by (simp add: queue_ok_def)
      then show ?thesis using False by (auto simp: members_def split: option.splits if_splits)
    qed
    have ok1: "queue_ok ?q1" using q(1) by simp
    then have "snd (tasks_timeline ?q1) = first (entities ?q1)" "distinct (entities ?q1)"
      by (simp_all add: queue_ok_def members_def)
    note dequeue_node_cases(1) [OF rb(1) this in1]
    moreover have "tasks_timeline ?q' = tasks_timeline (dequeue_node env s ?q1)" using False
      by (simp add: dequeue_task_fair_def dequeue_entity_def Let_def n w accountsD(3) [OF rb(2)])
    ultimately show ?thesis by (simp add: entities_def)
  qed
  show "?A \<inter> set (entities ?q') = {}"
  proof -
    have "distinct (entities q)" using q(1) by (simp add: queue_ok_def members_def)
    then have "s \<notin> set (entities ?q')" unfolding ent by simp
    moreover have "c \<notin> set (entities ?q')" if "curr q = Some c" for c
      using that dq q(1) by (auto simp: queue_ok_def)
    ultimately show ?thesis by auto
  qed
qed

section \<open>Runs of the scheduler\<close>

text \<open>Buddies that are nominated, and the rest of the state they leave.\<close>

lemma buddy_set:
  assumes "accounts_ok env" "queue_ok q" "on_rq (ents q s)"
  shows "queue_ok (set_next_buddy env s q)" "queue_ok (set_last_buddy env s q)"
    "moves {} q (set_next_buddy env s q)" "moves {} q (set_last_buddy env s q)"
    "entities (set_next_buddy env s q) = entities q" "entities (set_last_buddy env s q) = entities q"
    "on_rq (ents (set_next_buddy env s q) t) = on_rq (ents q t)"
proof -
  have bud: "next_buddy q = Some b \<or> last_buddy q = Some b \<or> skip_buddy q = Some b \<Longrightarrow> on_rq (ents q b)" for b
    using assms(2) unfolding queue_ok_def by blast
  have fst: "snd (tasks_timeline q) = first (entities q)" "\<And>c. curr q = Some c \<Longrightarrow> c \<notin> set (entities q)"
    using assms(2) unfolding queue_ok_def by blast+
  have ent: "entities (q\<lparr>next_buddy := b\<rparr>) = entities q" "entities (q\<lparr>last_buddy := b\<rparr>) = entities q"
    "members (q\<lparr>next_buddy := b\<rparr>) = members q" "members (q\<lparr>last_buddy := b\<rparr>) = members q" for b
    by (simp_all add: entities_def members_def split: option.split)
  have "queue_ok (q\<lparr>next_buddy := Some s\<rparr>)" "queue_ok (q\<lparr>last_buddy := Some s\<rparr>)"
    by (rule queue_ok_moved [OF assms(2)]; use fst bud assms(3) in \<open>auto simp: ent\<close>)+
  then show "queue_ok (set_next_buddy env s q)" "queue_ok (set_last_buddy env s q)"
    using accountsD(4,5) [OF assms(1), of s q] assms(2) by auto
  show "moves {} q (set_next_buddy env s q)" "moves {} q (set_last_buddy env s q)"
    "entities (set_next_buddy env s q) = entities q" "entities (set_last_buddy env s q) = entities q"
    "on_rq (ents (set_next_buddy env s q) t) = on_rq (ents q t)"
    using accountsD(4,5) [OF assms(1), of s q] by (auto simp: moves_def entities_def)
qed

lemma queue_order_kept:
  assumes "queue_ok q" "in_order q" "skeleton q' = skeleton q" "moves A q q'" "\<And>a. a \<in> A \<Longrightarrow> a \<notin> set (entities q)"
  shows "queue_ok q' \<and> in_order q'"
proof
  have "queue_ok q' = queue_ok q" by (simp add: queue_ok_def skeletonD [OF assms(3)])
  then show "queue_ok q'" using assms(1) by simp
  show "in_order q'" by (rule in_order_moves [OF assms(2,4)]) (use skeletonD [OF assms(3)] assms(5) in auto)
qed

lemma curr_not_queued: "queue_ok q \<Longrightarrow> a \<in> set_option (curr q) \<Longrightarrow> a \<notin> set (entities q)"
  by (auto simp: queue_ok_def)

lemma update_curr_queue: "queue_ok q \<Longrightarrow> in_order q \<Longrightarrow> queue_ok (update_curr env q) \<and> in_order (update_curr env q)"
  by (rule queue_order_kept [OF _ _ update_curr_skeleton update_curr_moves]) (auto dest: curr_not_queued)

lemma resched_moves: "moves {} q (resched_curr q)"
  by (simp add: moves_def resched_curr_def)

lemma resched_queue: "queue_ok q \<Longrightarrow> in_order q \<Longrightarrow> queue_ok (resched_curr q) \<and> in_order (resched_curr q)"
  by (rule queue_order_kept [OF _ _ resched.skeleton_kept resched_moves]) simp_all

lemma drop_buddies_order: "in_order q \<Longrightarrow> in_order (drop_buddies s q)"
  by (simp add: in_order_def entity_before_def)

text \<open>A tick never meets the null pointer: with two on the queue, there is one in the tree.\<close>

lemma tick_queue:
  assumes env: "cfs_env_ok env" and q: "queue_ok q" "in_order q" and c: "curr q = Some c"
  obtains q' where "entity_tick env c q = Some q'" "queue_ok q'" "in_order q'"
proof -
  have acc: "accounts_ok env" using env by (simp add: cfs_env_ok_def)
  let ?q = "update_curr env q"
  have ok: "queue_ok ?q" "in_order ?q" using update_curr_queue [OF q] by simp_all
  show thesis
  proof (cases "nr_running ?q > 1")
    case False
    then show thesis using ok by (intro that [of ?q]) (simp_all add: entity_tick_def Let_def)
  next
    case True
    obtain ideal q1 where s: "sched_slice env c ?q = (ideal, q1)" by fastforce
    have "queue_ok q1 \<and> in_order q1"
      by (rule queue_order_kept [OF ok, where A = "{}"]) (use sched_slice_skeleton [of env c ?q] sched_slice_moves [of ?q env c] s in simp_all)
    then have ok1: "queue_ok q1" "in_order q1" by simp_all
    have ent: "entities q1 = entities q" "pick_first_entity q1 = first (entities q)"
      using slice.kept(11) [of env c ?q] ok1(1) s by (simp_all add: pick_first_entity_def queue_ok_def)
    have "entities q \<noteq> []"
    proof
      assume "entities q = []"
      then have "length (members q) \<le> 1" using c by (simp add: members_def)
      moreover have "nr_running q = of_nat (length (members q))" using q(1) by (simp add: queue_ok_def)
      ultimately have "nr_running q = 0 \<or> nr_running q = 1" by (cases "members q") auto
      then show False using True by auto
    qed
    then obtain x xs where "entities q = x # xs" by (cases "entities q") auto
    then have first: "pick_first_entity q1 = Some x" using ent(2) by simp
    have r: "queue_ok (resched_curr q1)" "in_order (resched_curr q1)" using resched_queue [OF ok1] by simp_all
    have "\<exists>q'. check_preempt_tick env c ?q = Some q' \<and> queue_ok q' \<and> in_order q'"
      unfolding check_preempt_tick_def s Let_def prod.case first option.case accountsD(3) [OF acc]
      using ok1 r drop_buddies_order [OF r(2)] by (auto simp: drop_buddies_queue)
    then show thesis using True that by (auto simp: entity_tick_def Let_def)
  qed
qed

lemma skeleton_fork: "\<not> on_rq (ents q s) \<Longrightarrow> skeleton (sched_fork_entity s q) = skeleton q"
  by (auto simp: skeleton_def sched_fork_entity_def fun_eq_iff)

lemma fork_queue:
  assumes q: "queue_ok q" "in_order q" and s: "\<not> on_rq (ents q s)"
  shows "queue_ok (task_fork_fair env s (sched_fork_entity s q)) \<and> in_order (task_fork_fair env s (sched_fork_entity s q))"
proof (rule queue_order_kept [OF q])
  let ?q0 = "sched_fork_entity s q"
  define q1 where "q1 = (case curr ?q0 of
                 Some c \<Rightarrow> let q = update_curr env ?q0 in upd s (\<lambda>se. se\<lparr>vruntime := vruntime (ents q c)\<rparr>) q
               | None \<Rightarrow> ?q0)"
  define q2 where "q2 = place_entity env s True q1"
  define q3 where "q3 = (case curr q2 of
                 Some c \<Rightarrow>
                   if sysctl_sched_child_runs_first env \<and> entity_before q2 c s
                   then let vc = vruntime (ents q2 c); vs = vruntime (ents q2 s)
                        in resched_curr (upd s (\<lambda>se. se\<lparr>vruntime := vc\<rparr>) (upd c (\<lambda>se. se\<lparr>vruntime := vs\<rparr>) q2))
                   else q2
               | None \<Rightarrow> q2)"
  have e: "task_fork_fair env s ?q0 = upd s (\<lambda>se. se\<lparr>vruntime := vruntime se - min_vruntime q3\<rparr>) q3"
    unfolding task_fork_fair_def q3_def q2_def q1_def Let_def ..
  have c0: "curr ?q0 = curr q" by (simp add: sched_fork_entity_def)
  have s1: "skeleton q1 = skeleton q"
    by (simp add: q1_def Let_def update_curr_skeleton skeleton_fork [OF s] split: option.split)
  have s2: "skeleton q2 = skeleton q" by (simp add: q2_def place_entity_skeleton s1)
  note k2 = skeletonD [OF s2]
  have s3: "skeleton q3 = skeleton q"
    by (simp add: q3_def Let_def resched.skeleton_kept s2 split: option.split)
  show "skeleton (task_fork_fair env s ?q0) = skeleton q" unfolding e by (simp add: s3)
  let ?A = "insert s (set_option (curr q))"
  have "moves ?A q ?q0" by (simp add: moves_def sched_fork_entity_def)
  moreover have "moves ?A ?q0 q1"
    using update_curr_moves [of ?q0 env] by (auto simp: q1_def moves_def c0 Let_def split: option.split)
  moreover have "moves ?A q1 q2" using place_entity_moves [of s q1 env True] by (simp add: q2_def moves_def)
  moreover have "moves ?A q2 q3"
    by (auto simp: q3_def moves_def Let_def k2 resched_curr_def split: option.split)
  ultimately show "moves ?A q (task_fork_fair env s ?q0)" unfolding e by (simp add: moves_def)
  show "a \<notin> set (entities q)" if "a \<in> ?A" for a
    using that queued_on_rq [OF q(1)] s curr_not_queued [OF q(1)] by auto
qed

lemma wake_queue:
  assumes env: "cfs_env_ok env" and q: "queue_ok q" "in_order q" and p: "on_rq (ents q p)"
  shows "queue_ok (check_preempt_wakeup env cur idle p is_fork q) \<and> in_order (check_preempt_wakeup env cur idle p is_fork q)"
proof (cases "cur = p")
  case False
  have acc: "accounts_ok env" using env by (simp add: cfs_env_ok_def)
  define scale where "scale = (nr_running q \<ge> sched_nr_latency env)"
  define marked where "marked = (feat_NEXT_BUDDY env \<and> scale \<and> \<not> is_fork)"
  define preempt where "preempt = (\<lambda>q. let q = resched_curr q in
              if \<not> on_rq (ents q cur) \<or> idle then q
              else if feat_LAST_BUDDY env \<and> scale then set_last_buddy env cur q else q)"
  define q1 where "q1 = (if marked then set_next_buddy env p q else q)"
  define q2 where "q2 = update_curr env q1"
  obtain w q3 where w: "wakeup_preempt_entity env cur p q2 = (w, q3)" by fastforce
  have pre: "queue_ok (preempt r) \<and> in_order (preempt r)" if r: "queue_ok r" "in_order r" for r
  proof -
    have r': "queue_ok (resched_curr r)" "in_order (resched_curr r)" using resched_queue [OF r] by simp_all
    have "in_order (set_last_buddy env cur (resched_curr r))" if "on_rq (ents (resched_curr r) cur)"
      by (rule in_order_moves [OF r'(2) buddy_set(4,6) [OF acc r'(1) that]]) simp
    then show ?thesis using r' buddy_set(2) [OF acc r'(1)] by (simp add: preempt_def Let_def)
  qed
  have next_ok: "queue_ok (set_next_buddy env p r) \<and> in_order (set_next_buddy env p r)"
    if r: "queue_ok r" "in_order r" "on_rq (ents r p)" for r
    using buddy_set(1) [OF acc r(1,3)] in_order_moves [OF r(2) buddy_set(3,5) [OF acc r(1,3)]] by simp
  have ok1: "queue_ok q1" "in_order q1" using q next_ok [OF q p] by (simp_all add: q1_def)
  have p1: "on_rq (ents q1 p)" using p buddy_set(7) [OF acc q(1) p] by (simp add: q1_def)
  have ok2: "queue_ok q2" "in_order q2" using update_curr_queue [OF ok1] by (simp_all add: q2_def)
  have l: "like env q2 q3" using wakeup_like [of env q2 cur p] w by simp
  have "queue_ok q3 \<and> in_order q3"
    by (rule queue_order_kept [OF ok2, where A = "{}"]) (use l in \<open>simp_all add: like_def moves_def\<close>)
  then have ok3: "queue_ok q3" "in_order q3" by simp_all
  have p3: "on_rq (ents q3 p)" using p1 skeletonD(3) [of q3 q2 p] l by (simp add: like_def q2_def)
  have "queue_ok (if marked then q3 else set_next_buddy env p q3) \<and> in_order (if marked then q3 else set_next_buddy env p q3)"
    using ok3 next_ok [OF ok3 p3] by simp
  moreover have "check_preempt_wakeup env cur idle p is_fork q =
      (if need_resched q1 then q1
       else if task_policy env cur = SCHED_IDLE \<and> task_policy env p \<noteq> SCHED_IDLE then preempt q1
       else if task_policy env p \<noteq> SCHED_NORMAL \<or> \<not> feat_WAKEUP_PREEMPTION env then q1
       else if w = 1 then preempt (if marked then q3 else set_next_buddy env p q3) else q3)"
    using False w unfolding check_preempt_wakeup_def Let_def q2_def q1_def marked_def scale_def preempt_def by simp
  ultimately show ?thesis using ok1 ok3 pre [OF ok1] pre [of "if marked then q3 else set_next_buddy env p q3"] by simp
qed (use q in \<open>simp add: check_preempt_wakeup_def\<close>)

text \<open>The previous task goes back, the chosen one comes out of the tree.\<close>

lemma set_next_moves: "accounts_ok env \<Longrightarrow> moves {} q (set_next_entity env s q)"
  by (auto simp: moves_def set_next_entity_def dequeue_node_def Let_def accountsD(6))

lemma pick_some:
  assumes env: "cfs_env_ok env" and q: "queue_ok q" and n: "nr_running q \<noteq> 0"
  obtains s q' where "pick_next_task_fair env (curr q) q = Some (Some (Task s, q'))" "queue_ok q'" "curr q' = Some s"
    "s \<in> set (members q)" "mset (members q') = mset (members q)"
    "in_order q \<and> (\<exists>m. window m q') \<longrightarrow> in_order q'"
proof -
  have acc: "accounts_ok env" using env by (simp add: cfs_env_ok_def)
  define q1 where "q1 = (case curr q of Some p \<Rightarrow> put_prev_entity env p q | None \<Rightarrow> q)"
  have ok1: "queue_ok q1" "curr q1 = None" and m1: "mset (members q1) = mset (members q)"
    using put_queue [OF env q] q by (auto simp: q1_def split: option.split)
  have mem1: "members q1 = entities q1" using ok1(2) by (simp add: members_def)
  have "members q \<noteq> []" using n q by (auto simp: queue_ok_def)
  then have ne: "entities q1 \<noteq> []" using m1 mem1 by auto
  obtain l s q2 where p: "pick_next_entity env None q1 = Some (s, drop_buddies s q2)" and l: "like env q1 q2"
    and s: "s = l \<or> on_rq (ents q1 s) \<and> close env q1 s l" "on_rq (ents q1 l)"
    by (rule pick_next_entity_cases [OF env ok1(1), of None]) (use ne in auto)
  let ?q3 = "drop_buddies s q2" and ?q4 = "set_next_entity env s (drop_buddies s q2)"
  have sk: "skeleton q2 = skeleton q1" using l by (simp add: like_def)
  note k = skeletonD [OF sk]
  have on: "on_rq (ents q1 s)" using s by blast
  have ok3: "queue_ok ?q3" "curr ?q3 = None" "on_rq (ents ?q3 s)" "members ?q3 = members q1"
    using like_queue [OF l] ok1 on k by simp_all
  note sn = set_next_queue [OF env ok3(1-3)]
  have res: "pick_next_task_fair env (curr q) q = Some (Some (Task s, ?q4))"
    using n p by (subst pick_next_task_fair.simps) (simp add: Let_def flip: q1_def)
  have s_in: "s \<in> set (members q)" using on ok1(1) mset_eq_setD [OF m1] by (simp add: queue_ok_def)
  have m4: "mset (members ?q4) = mset (members q1)" using sn ok3(4) by simp
  have "in_order ?q4" if o: "in_order q" and w: "window m ?q4" for m
  proof -
    have v: "vruntime (ents ?q4 t) = vruntime (ents q1 t)" for t
      using set_next_moves [OF acc, of ?q3 s] l by (simp add: moves_def like_def)
    have "window m q1"
      using w mset_eq_setD [OF m4] by (simp add: window_def list_all_iff dist_def v)
    then have "in_order q1"
      using put_in_order [OF env q o] o by (auto simp: q1_def split: option.splits)
    moreover have "moves {} q1 q2" using l by (simp add: like_def moves_def)
    ultimately have "in_order q2" using k(11) by (rule in_order_moves) simp
    then have "in_order ?q3" by (rule drop_buddies_order)
    then show ?thesis by (rule set_next_in_order [OF env ok3(1) _ ok3(2,3)])
  qed
  then have "in_order q \<and> (\<exists>m. window m ?q4) \<longrightarrow> in_order ?q4" by blast
  then show thesis using that [OF res _ _ s_in] sn m4 m1 by simp
qed

text \<open>One step of the scheduler: the clock goes on, a task wakes up or is put on the queue, leaves it, is chosen to
  run, goes back into the tree for another class, is charged by a tick, forks, or is checked for preemption.\<close>

inductive cfs_step :: "cfs_env \<Rightarrow> cfs_rq \<Rightarrow> cfs_rq \<Rightarrow> bool" for env where
  clock: "cfs_step env q (q\<lparr>clock_task := t\<rparr>)"
| enqueue: "\<not> on_rq (ents q p) \<Longrightarrow> cfs_step env q (enqueue_task_fair env p eflags q)"
| dequeue: "on_rq (ents q p) \<Longrightarrow> cfs_step env q (dequeue_task_fair env p dflags q)"
| pick: "pick_next_task_fair env (curr q) q = Some (Some (t, q')) \<Longrightarrow> cfs_step env q q'"
| put: "curr q = Some p \<Longrightarrow> cfs_step env q (put_prev_entity env p q)"
| tick: "curr q = Some c \<Longrightarrow> entity_tick env c q = Some q' \<Longrightarrow> cfs_step env q q'"
| fork: "\<not> on_rq (ents q s) \<Longrightarrow> cfs_step env q (task_fork_fair env s (sched_fork_entity s q))"
| wake: "on_rq (ents q p) \<Longrightarrow> cfs_step env q (check_preempt_wakeup env c idle p is_fork q)"

inductive_cases cfs_stepE: "cfs_step env q q'"

text \<open>A run: after each step the virtual times of the queue lie within half of the numbers.\<close>

inductive cfs_run :: "cfs_env \<Rightarrow> cfs_rq \<Rightarrow> cfs_rq \<Rightarrow> bool" for env q0 where
  start: "cfs_run env q0 q0"
| step: "cfs_run env q0 q \<Longrightarrow> cfs_step env q q' \<Longrightarrow> window m q' \<Longrightarrow> cfs_run env q0 q'"

lemma idle_balanceD:
  assumes "cfs_env_ok env" "idle_balance env q = (n, q')"
  shows "queue_ok q \<Longrightarrow> queue_ok q'" "in_order q \<Longrightarrow> in_order q'" "curr q' = curr q" "0 < n \<Longrightarrow> nr_running q' \<noteq> 0"
proof -
  have "balance_ok env" using assms(1) by (simp add: cfs_env_ok_def)
  note this [unfolded balance_ok_def, THEN spec [of _ q], unfolded assms(2) prod.case]
  then show "queue_ok q \<Longrightarrow> queue_ok q'" "in_order q \<Longrightarrow> in_order q'" "curr q' = curr q" "0 < n \<Longrightarrow> nr_running q' \<noteq> 0"
    by simp_all
qed

lemma pick_cases:
  assumes env: "cfs_env_ok env" and q: "queue_ok q"
  obtains t q' where "pick_next_task_fair env (curr q) q = Some (Some (t, q'))" "queue_ok q'"
    "case t of Task s \<Rightarrow> curr q' = Some s \<and> on_rq (ents q' s) | _ \<Rightarrow> nr_running q = 0"
    "in_order q \<and> (\<exists>m. window m q') \<longrightarrow> in_order q'"
proof (cases "nr_running q = 0")
  case False
  obtain s q' where s: "pick_next_task_fair env (curr q) q = Some (Some (Task s, q'))" "queue_ok q'" "curr q' = Some s"
    "s \<in> set (members q)" "mset (members q') = mset (members q)" "in_order q \<and> (\<exists>m. window m q') \<longrightarrow> in_order q'"
    by (rule pick_some [OF env q False])
  moreover have "on_rq (ents q' s)" using s(2,4) mset_eq_setD [OF s(5)] by (simp add: queue_ok_def)
  ultimately show thesis by (intro that [of "Task s" q']) simp_all
next
  case True
  obtain n q1 where b: "idle_balance env q = (n, q1)" by fastforce
  note b' = idle_balanceD [OF env b]
  show thesis
  proof (cases "n > 0")
    case False
    then have "pick_next_task_fair env (curr q) q = Some (Some (if n < 0 then Retry_task else No_task, q1))"
      using True b by (subst pick_next_task_fair.simps) simp
    then show thesis using b' q True by (intro that [of "if n < 0 then Retry_task else No_task" q1]) auto
  next
    case more: True
    then have "pick_next_task_fair env (curr q) q = pick_next_task_fair env (curr q1) q1"
      using True b b'(3) by (subst pick_next_task_fair.simps) simp
    moreover obtain s q' where s: "pick_next_task_fair env (curr q1) q1 = Some (Some (Task s, q'))" "queue_ok q'" "curr q' = Some s"
      "s \<in> set (members q1)" "mset (members q') = mset (members q1)" "in_order q1 \<and> (\<exists>m. window m q') \<longrightarrow> in_order q'"
      by (rule pick_some [OF env b'(1) [OF q] b'(4) [OF more]])
    moreover have "on_rq (ents q' s)" using s(2,4) mset_eq_setD [OF s(5)] by (simp add: queue_ok_def)
    ultimately show thesis using b'(2) by (intro that [of "Task s" q']) simp_all
  qed
qed

lemma cfs_step_queue:
  assumes env: "cfs_env_ok env" and q: "queue_ok q" "in_order q" and s: "cfs_step env q q'" and w: "window m q'"
  shows "queue_ok q' \<and> in_order q'"
  using s
proof (cases rule: cfs_step.cases)
  case (clock t)
  have "skeleton q' = skeleton q" "moves {} q q'" by (simp_all add: clock skeleton_def moves_def)
  then show ?thesis by (rule queue_order_kept [OF q]) simp
next
  case (enqueue p eflags)
  then show ?thesis using enqueue_queue [OF env q(1)] enqueue_in_order [OF env q] w by blast
next
  case (dequeue p dflags)
  then show ?thesis using dequeue_queue [OF env q(1)] dequeue_in_order [OF env q] by blast
next
  case (pick t)
  obtain t' q'' where "pick_next_task_fair env (curr q) q = Some (Some (t', q''))" "queue_ok q''"
    "in_order q \<and> (\<exists>m. window m q'') \<longrightarrow> in_order q''"
    by (rule pick_cases [OF env q(1)])
  then show ?thesis using pick q(2) w by auto
next
  case (put p)
  then show ?thesis using put_queue [OF env q(1)] put_in_order [OF env q] w by blast
next
  case (tick c)
  obtain q'' where "entity_tick env c q = Some q''" "queue_ok q''" "in_order q''"
    by (rule tick_queue [OF env q tick(1)])
  then show ?thesis using tick(2) by simp
next
  case (fork s)
  then show ?thesis using fork_queue [OF q] by simp
next
  case (wake p c idle is_fork)
  then show ?thesis using wake_queue [OF env q] by simp
qed

text \<open>C3: Through any sequence of wake-ups, dequeues, choices, ticks, forks and preemption checks the queue stays what it
  claims to be: every entity that is on the queue is in the tree exactly once or is the current one, the current
  one is not in the tree, the cached leftmost entity is the first of the tree, the counts and the load are those of
  the entities on the queue, every buddy is on the queue, and the tree is sorted by virtual time (the virtual times
  staying within half of the numbers).\<close>

theorem cfs_run_invariant:
  assumes "cfs_env_ok env" "queue_ok q0" "in_order q0" "cfs_run env q0 q"
  shows "queue_ok q \<and> in_order q"
  using assms(4)
proof (induction rule: cfs_run.induct)
  case start
  then show ?case using assms(2,3) by simp
next
  case (step q q' m)
  then show ?case using cfs_step_queue [OF assms(1)] by blast
qed

text \<open>C36: The choice of the next task always returns, whatever the idle balancer does, and never follows the null
  pointer.  When an entity is on the queue, one of them is chosen and becomes the current one, out of the tree;
  the entities on the queue stay the same.  No task (or a retry) is only returned for a queue that was empty.\<close>

theorem pick_next_task_fair_picks:
  assumes "cfs_env_ok env" "queue_ok q"
  shows "case pick_next_task_fair env (curr q) q of
      Some (Some (t, q')) \<Rightarrow> queue_ok q'
        \<and> (case t of Task s \<Rightarrow> curr q' = Some s \<and> s \<in> set (members q') \<and> s \<notin> set (entities q') | _ \<Rightarrow> members q = [] \<or> nr_running q = 0)
        \<and> (nr_running q \<noteq> 0 \<longrightarrow> mset (members q') = mset (members q))
    | _ \<Rightarrow> False"
proof -
  obtain t q' where p: "pick_next_task_fair env (curr q) q = Some (Some (t, q'))" "queue_ok q'"
    "case t of Task s \<Rightarrow> curr q' = Some s \<and> on_rq (ents q' s) | _ \<Rightarrow> nr_running q = 0"
    by (rule pick_cases [OF assms])
  have m: "mset (members q') = mset (members q)" if n: "nr_running q \<noteq> 0"
  proof (rule pick_some [OF assms n])
    fix s q'' assume "pick_next_task_fair env (curr q) q = Some (Some (Task s, q''))" "mset (members q'') = mset (members q)"
    then show ?thesis using p(1) by simp
  qed
  have "case t of Task s \<Rightarrow> curr q' = Some s \<and> s \<in> set (members q') \<and> s \<notin> set (entities q') | _ \<Rightarrow> members q = [] \<or> nr_running q = 0"
    using p(2,3) curr_not_queued [OF p(2)] by (auto simp: queue_ok_def split: pick.splits)
  then show ?thesis using p(1,2) m by simp
qed

text \<open>The virtual time of the queue follows the smallest virtual time on it and never goes back: after the update
  it is the larger one of what it was and of the smallest virtual time of the entities on the queue, the current
  one included (distances from the start \<open>m\<close> of the window).\<close>

theorem update_min_vruntime_exact:
  assumes "queue_ok q" "in_order q" "window m q" "unat (min_vruntime q - m) < 2 ^ 63"
  shows "unat (min_vruntime (update_min_vruntime q) - m)
    = fold max (case map (dist m q) (members q) of [] \<Rightarrow> [] | d # ds \<Rightarrow> [fold min ds d]) (unat (min_vruntime q - m))"
proof -
  have sorted: "sorted (map (dist m q) (entities q))" using assms(2) in_order_dist [OF assms(3)] by simp
  have w: "dist m q e < 2 ^ 63" if "e \<in> set (members q)" for e using assms(3) that by (simp add: window_def list_all_iff)
  have first: "pick_first_entity q = first (entities q)" using assms(1) by (simp add: queue_ok_def pick_first_entity_def)
  have cmp: "sint (a - b) = int (unat (a - m)) - int (unat (b - m))"
    if "unat (a - m) < 2 ^ 63" "unat (b - m) < 2 ^ 63" for a b :: u64
    using sint_diff [OF that] by simp
  have mx: "unat (max_vrt a b - m) = max (unat (a - m)) (unat (b - m))"
    and mn: "unat (min_vrt a b - m) = min (unat (a - m)) (unat (b - m))"
    if "unat (a - m) < 2 ^ 63" "unat (b - m) < 2 ^ 63" for a b
  proof -
    have "0 < sint (b - a) \<longleftrightarrow> unat (a - m) < unat (b - m)" "sint (b - a) < 0 \<longleftrightarrow> unat (b - m) < unat (a - m)"
      unfolding cmp [OF that(2,1)] by linarith+
    then show "unat (max_vrt a b - m) = max (unat (a - m)) (unat (b - m))" "unat (min_vrt a b - m) = min (unat (a - m)) (unat (b - m))"
      by (simp_all add: max_vrt_def min_vrt_def max_def min_def)
  qed
  have fm: "fold min ds d = d" if "\<forall>x\<in>set ds. d \<le> x" for d :: nat and ds
    using that by (induction ds) (auto simp: min.absorb2)
  have fe: "fold min (map (dist m q) xs) (dist m q x) = dist m q x" if "entities q = x # xs" for x xs
    using sorted that by (intro fm) auto
  show ?thesis
  proof (cases "running q")
    case None
    then have r: "(case curr q of Some c \<Rightarrow> if on_rq (ents q c) then Some c else None | None \<Rightarrow> None) = None"
      by (simp add: running_def)
    show ?thesis
    proof (cases "entities q")
      case Nil
      then show ?thesis using None first by (simp add: update_min_vruntime_def r members_running max_vrt_def)
    next
      case (Cons x xs)
      then have "x \<in> set (members q)" by (simp add: members_def)
      then show ?thesis using None first Cons mx [OF assms(4) w [unfolded dist_def]] fe [OF Cons]
        by (simp add: update_min_vruntime_def r members_running dist_def max.commute)
    qed
  next
    case (Some c)
    then have r: "(case curr q of Some c \<Rightarrow> if on_rq (ents q c) then Some c else None | None \<Rightarrow> None) = Some c"
      by (simp add: running_def)
    have c: "c \<in> set (members q)" using Some by (simp add: members_running)
    show ?thesis
    proof (cases "entities q")
      case Nil
      then show ?thesis using Some first mx [OF assms(4) w [OF c, unfolded dist_def]]
        by (simp add: update_min_vruntime_def r members_running dist_def max.commute)
    next
      case (Cons x xs)
      then have x: "x \<in> set (members q)" by (simp add: members_def)
      have mn': "unat (min_vrt (vruntime (ents q c)) (vruntime (ents q x)) - m) = min (dist m q c) (dist m q x)"
        using mn [OF w [OF c, unfolded dist_def] w [OF x, unfolded dist_def]] by (simp add: dist_def)
      have lt: "unat (min_vrt (vruntime (ents q c)) (vruntime (ents q x)) - m) < 2 ^ 63"
        unfolding mn' using w [OF c] by simp
      have fold: "fold min (map (dist m q) (x # xs)) (dist m q c) = min (dist m q c) (dist m q x)"
      proof -
        have "\<forall>y\<in>set (map (dist m q) xs). min (dist m q c) (dist m q x) \<le> y" using sorted Cons by (auto intro: min.coboundedI2)
        then show ?thesis using fm [of "map (dist m q) xs" "min (dist m q c) (dist m q x)"] by (simp add: min.commute)
      qed
      show ?thesis using Some first Cons mx [OF assms(4) lt] mn' fold
        by (simp add: update_min_vruntime_def r members_running max.commute)
    qed
  qed
qed

text \<open>The slices that the entities on the queue get fit into one period: each slice is the part of the period that the
  weight of the entity has in the load of the queue, rounded down, and the sum of all of them is at most the period.\<close>

theorem slices_fit_period:
  assumes "cfs_env_ok env" "queue_ok q" "load_ok (rq_load q)"
    and "sum_list (map (\<lambda>s. unat (weight (se_load (ents q s)))) (members q)) < 2 ^ 42"
    and "1024 \<le> sum_list (map (\<lambda>s. unat (weight (se_load (ents q s)))) (members q))"
  shows "sum_list (map (\<lambda>s. unat (fst (sched_slice env s q))) (members q)) \<le> unat (sched_period env (ucast (nr_running q)))"
proof -
  let ?w = "\<lambda>s. weight (se_load (ents q s))" and ?p = "sched_period env (ucast (nr_running q))"
  let ?W = "scaled (weight (rq_load q))" and ?r = "\<lambda>s. unat (fst (sched_slice env s q))"
  have mul: "mul_shr_ok (mul_u64_u32_shr env)" using assms(1) by (simp add: cfs_env_ok_def)
  have "unat (sum_list (map ?w xs)) = sum_list (map (unat \<circ> ?w) xs)" if "sum_list (map (unat \<circ> ?w) xs) < 2 ^ 42" for xs
    using that
  proof (induction xs)
    case (Cons x xs)
    then show ?case by (simp add: unat_word_ariths)
  qed simp
  then have W: "unat (weight (rq_load q)) = sum_list (map (unat \<circ> ?w) (members q))"
    using assms(2,4) by (simp add: queue_ok_def comp_def)
  have Wb: "0 < ?W" "?W < 2 ^ 32" unfolding W using assms(4,5) by (simp_all add: comp_def)
  have part: "?r s * ?W \<le> unat ?p * scaled (?w s)" if s: "s \<in> set (members q)" for s
  proof -
    have on: "on_rq (ents q s)" using assms(2) s by (simp add: queue_ok_def)
    have "(unat \<circ> ?w) s \<le> sum_list (map (unat \<circ> ?w) (members q))" using s by (simp add: member_le_sum_list)
    then have le: "scaled (?w s) \<le> ?W" unfolding W by (simp add: div_le_mono)
    have "sched_slice env s q = (case calc_delta (mul_u64_u32_shr env) ?p (?w s) (rq_load q) of (v, load) \<Rightarrow> (v, q\<lparr>rq_load := load\<rparr>))"
      using on by (simp add: sched_slice_def Let_def)
    then have r: "fst (sched_slice env s q) = fst (calc_delta (mul_u64_u32_shr env) ?p (?w s) (rq_load q))"
      by (simp add: split_beta)
    have "case calc_delta (mul_u64_u32_shr env) ?p (?w s) (rq_load q) of (v, _) \<Rightarrow> unat v * ?W \<le> unat ?p * scaled (?w s)"
      using calc_delta_bound [OF mul assms(3) le Wb, of ?p] by (simp add: split_beta)
    then show ?thesis unfolding r by (simp add: split_beta)
  qed
  have sum: "sum_list (map scaled (map ?w xs)) * 1024 \<le> sum_list (map (unat \<circ> ?w) xs)" for xs
    by (induction xs) (auto simp: algebra_simps intro: add_mono)
  have "sum_list (map ?r (members q)) * ?W \<le> unat ?p * sum_list (map scaled (map ?w (members q)))"
  proof -
    have "sum_list (map ?r xs) * ?W \<le> unat ?p * sum_list (map scaled (map ?w xs))" if "set xs \<subseteq> set (members q)" for xs
      using that part by (induction xs) (auto simp: algebra_simps intro: add_mono)
    then show ?thesis by blast
  qed
  also have "\<dots> \<le> unat ?p * ?W"
  proof (rule mult_le_mono2)
    have "sum_list (map scaled (map ?w (members q))) * 1024 div 1024 \<le> sum_list (map (unat \<circ> ?w) (members q)) div 1024"
      by (rule div_le_mono [OF sum])
    then show "sum_list (map scaled (map ?w (members q))) \<le> ?W" unfolding W by simp
  qed
  finally show ?thesis using Wb(1) by simp
qed

text \<open>A tick asks for another task exactly when the current one used up its slice, or when it ran for the smallest
  granularity and is ahead of the leftmost entity by more than its slice.  It never meets the null pointer, and the
  queue keeps its order.\<close>

theorem entity_tick_resched:
  assumes "cfs_env_ok env" "queue_ok q" "in_order q" "curr q = Some c"
  shows "case entity_tick env c q of
      None \<Rightarrow> False
    | Some q' \<Rightarrow>
        queue_ok q' \<and> in_order q'
        \<and> (let q1 = update_curr env q; slice = fst (sched_slice env c q1);
               ran = sum_exec_runtime (ents q1 c) - prev_sum_exec_runtime (ents q1 c)
            in need_resched q' \<longleftrightarrow> need_resched q \<or> nr_running q > 1
                 \<and> (ran > slice \<or> ran \<ge> sysctl_sched_min_granularity env
                      \<and> (case pick_first_entity q1 of None \<Rightarrow> False
                          | Some l \<Rightarrow> let lead = vruntime (ents q1 c) - vruntime (ents q1 l) in 0 \<le> sint lead \<and> lead > slice)))"
proof -
  have acc: "accounts_ok env" using assms(1) by (simp add: cfs_env_ok_def)
  let ?q = "update_curr env q"
  obtain q' where t: "entity_tick env c q = Some q'" "queue_ok q'" "in_order q'" by (rule tick_queue [OF assms])
  obtain slice q1 where s: "sched_slice env c ?q = (slice, q1)" by fastforce
  have same: "sum_exec_runtime (ents q1 e) = sum_exec_runtime (ents ?q e)" "prev_sum_exec_runtime (ents q1 e) = prev_sum_exec_runtime (ents ?q e)"
    "vruntime (ents q1 e) = vruntime (ents ?q e)" "tasks_timeline q1 = tasks_timeline ?q" "need_resched q1 = need_resched ?q" for e
    using s by (auto simp: sched_slice_def Let_def split_beta split: if_splits)
  have nr: "need_resched ?q = need_resched q"
    by (auto simp: update_curr_def update_min_vruntime_def Let_def split_beta split: option.splits)
  have rs: "need_resched (resched_curr r)" "need_resched (drop_buddies c r) = need_resched r" for r
    by (simp_all add: resched_curr_def drop_buddies_def)
  have "need_resched q' \<longleftrightarrow> need_resched q \<or> nr_running q > 1
      \<and> (sum_exec_runtime (ents ?q c) - prev_sum_exec_runtime (ents ?q c) > slice
          \<or> sum_exec_runtime (ents ?q c) - prev_sum_exec_runtime (ents ?q c) \<ge> sysctl_sched_min_granularity env
            \<and> (case pick_first_entity ?q of None \<Rightarrow> False
                | Some l \<Rightarrow> 0 \<le> sint (vruntime (ents ?q c) - vruntime (ents ?q l)) \<and> vruntime (ents ?q c) - vruntime (ents ?q l) > slice))"
    using t(1) same(5) [unfolded nr] unfolding entity_tick_def check_preempt_tick_def s Let_def prod.case pick_first_entity_def same(1-4) accountsD(3) [OF acc]
    by (auto simp: rs nr not_less split: if_splits option.splits)
  then show ?thesis unfolding t(1) option.case(2) Let_def s fst_conv using t(2,3) by blast
qed

section \<open>A small queue\<close>

fun spine :: "nat list \<Rightarrow> nat tree" where
  "spine [] = Leaf"
| "spine (x # xs) = Node Leaf x (spine xs)"

lemma inorder_spine [simp]: "inorder (spine xs) = xs"
  by (induction xs) simp_all

fun behind :: "nat \<Rightarrow> nat list \<Rightarrow> nat option" where
  "behind s (x # xs) = (if x = s then first xs else behind s xs)"
| "behind s [] = None"

lemma behind_append: "s \<notin> set xs \<Longrightarrow> behind s (xs @ s # ys) = first ys"
  by (induction xs) auto

definition demo_cfs_env :: cfs_env where
  "demo_cfs_env = \<lparr>rb_insert_color_cached = (\<lambda>s lm (tr, l). (tr, if lm then Some s else l)),
     rb_erase_cached = (\<lambda>s (tr, l). let xs = remove1 s (inorder tr) in (spine xs, if l = Some s then first xs else l)),
     rb_next = (\<lambda>s tr. behind s (inorder tr)),
     account_entity_enqueue = (\<lambda>s q. q\<lparr>rq_load := update_load_add (rq_load q) (weight (se_load (ents q s))), nr_running := nr_running q + 1\<rparr>),
     account_entity_dequeue = (\<lambda>s q. q\<lparr>rq_load := \<lparr>weight = weight (rq_load q) - weight (se_load (ents q s)), inv_weight = 0\<rparr>,
        nr_running := nr_running q - 1\<rparr>),
     clear_buddies = drop_buddies, set_next_buddy = (\<lambda>s q. q\<lparr>next_buddy := Some s\<rparr>), set_last_buddy = (\<lambda>s q. q\<lparr>last_buddy := Some s\<rparr>),
     update_stats_curr_start = (\<lambda>s q. upd s (\<lambda>se. se\<lparr>exec_start := clock_task q\<rparr>) q),
     add_nr_running = (\<lambda>q. q\<lparr>cpu_nr_running := cpu_nr_running q + 1\<rparr>), sub_nr_running = (\<lambda>q. q\<lparr>cpu_nr_running := cpu_nr_running q - 1\<rparr>),
     idle_balance = (\<lambda>q. (0, q)), mul_u64_u32_shr = demo_mul, task_policy = (\<lambda>_. SCHED_NORMAL), schedstat_enabled = False,
     sysctl_sched_latency = 6000000, sysctl_sched_min_granularity = 750000, sysctl_sched_wakeup_granularity = 1000000,
     sched_nr_latency = 8, sysctl_sched_child_runs_first = False, feat_START_DEBIT = True, feat_GENTLE_FAIR_SLEEPERS = True,
     feat_NEXT_BUDDY = False, feat_LAST_BUDDY = True, feat_WAKEUP_PREEMPTION = True\<rparr>"

lemma demo_cfs_env_ok: "cfs_env_ok demo_cfs_env"
proof -
  have "rb_ok demo_cfs_env" unfolding rb_ok_def
    by (auto simp: demo_cfs_env_def Let_def intro: behind_append)
  moreover have "accounts_ok demo_cfs_env"
  proof -
    have "\<exists>w. r = r\<lparr>cpu_weight := w\<rparr>" for r :: cfs_rq by (rule exI [of _ "cpu_weight r"]) simp
    then show ?thesis by (auto simp: accounts_ok_def demo_cfs_env_def)
  qed
  ultimately show ?thesis by (simp add: cfs_env_ok_def balance_ok_def demo_cfs_env_def demo_mul_ok)
qed

text \<open>Three entities of equal weight: the first one runs, the others wait; a fourth one sleeps.\<close>

definition demo_cfs :: cfs_rq where
  "demo_cfs = \<lparr>rq_load = \<lparr>weight = 0x300000, inv_weight = 0\<rparr>, nr_running = 3, h_nr_running = 3, min_vruntime = 100, exec_clock = 0,
     tasks_timeline = (spine [1, 2], Some 1), curr = Some 0, next_buddy = None, last_buddy = Some 2, skip_buddy = None,
     ents = (\<lambda>s. \<lparr>se_load = \<lparr>weight = 0x100000, inv_weight = 0\<rparr>, on_rq = (s < 3), exec_start = 0, sum_exec_runtime = 0,
                  prev_sum_exec_runtime = 0, vruntime = of_nat (100 * (if s = 0 then 3 else s)), exec_max = 0, slice_max = 0\<rparr>),
     clock_task = 4000000, cpu_nr_running = 3, cpu_weight = 0x300000, need_resched = False\<rparr>"

lemma demo_cfs_members: "members demo_cfs = [0, 1, 2]" "entities demo_cfs = [1, 2]" "running demo_cfs = Some 0"
  by (simp_all add: members_def entities_def running_def demo_cfs_def)

lemma demo_cfs_ok: "queue_ok demo_cfs" "in_order demo_cfs" "window 0 demo_cfs"
  unfolding queue_ok_def in_order_def window_def demo_cfs_members
  by (auto simp: demo_cfs_def entity_before_def dist_def)

theorem cfs_run_invariant_witness:
  "queue_ok (enqueue_task_fair demo_cfs_env 3 {ENQUEUE_WAKEUP} demo_cfs) \<and> in_order (enqueue_task_fair demo_cfs_env 3 {ENQUEUE_WAKEUP} demo_cfs)"
proof (rule cfs_run_invariant [OF demo_cfs_env_ok demo_cfs_ok(1,2)])
  have "cfs_step demo_cfs_env demo_cfs (enqueue_task_fair demo_cfs_env 3 {ENQUEUE_WAKEUP} demo_cfs)"
    by (rule cfs_step.enqueue) (simp add: demo_cfs_def)
  moreover have "window 0 (enqueue_task_fair demo_cfs_env 3 {ENQUEUE_WAKEUP} demo_cfs)"
    by (simp add: window_def members_def entities_def enqueue_task_fair_def enqueue_entity_def demo_cfs_env_def demo_cfs_def Let_def
        update_curr_def calc_delta_fair_def NICE_0_LOAD_def place_entity_def enqueue_node_def entity_before_def max_vrt_def min_vrt_def
        dist_def upd_def update_min_vruntime_def pick_first_entity_def update_load_add_def)
  ultimately show "cfs_run demo_cfs_env demo_cfs (enqueue_task_fair demo_cfs_env 3 {ENQUEUE_WAKEUP} demo_cfs)"
    by (rule cfs_run.step [OF cfs_run.start])
qed

theorem pick_next_task_fair_picks_witness:
  "members demo_cfs = [0, 1, 2]
   \<and> (case pick_next_task_fair demo_cfs_env (Some 0) demo_cfs of Some (Some (t, q')) \<Rightarrow> queue_ok q' | _ \<Rightarrow> False)"
  using pick_next_task_fair_picks [OF demo_cfs_env_ok demo_cfs_ok(1)]
  by (auto simp: demo_cfs_members split: option.splits) (auto simp: demo_cfs_def)

theorem pick_next_entity_fair_witness:
  "case pick_next_entity demo_cfs_env (Some 0) demo_cfs of None \<Rightarrow> False | Some (s, q') \<Rightarrow> s \<in> {0, 1, 2} \<and> queue_ok q' \<and> in_order q'"
  using pick_next_entity_fair [OF demo_cfs_env_ok demo_cfs_ok] unfolding demo_cfs_members
  by (auto split: option.splits)

theorem update_min_vruntime_exact_witness:
  "unat (min_vruntime (update_min_vruntime demo_cfs) - 0) = 100"
proof -
  have "unat (min_vruntime demo_cfs - 0) < 2 ^ 63" by (simp add: demo_cfs_def)
  from update_min_vruntime_exact [OF demo_cfs_ok this] show ?thesis
    unfolding demo_cfs_members by (simp add: demo_cfs_def dist_def)
qed

theorem slices_fit_period_witness:
  "unat (fst (sched_slice demo_cfs_env 0 demo_cfs)) + unat (fst (sched_slice demo_cfs_env 1 demo_cfs))
     + unat (fst (sched_slice demo_cfs_env 2 demo_cfs)) \<le> 6000000"
proof -
  have "load_ok (rq_load demo_cfs)" by (simp add: demo_cfs_def load_ok_def)
  note fit = slices_fit_period [OF demo_cfs_env_ok demo_cfs_ok(1) this, unfolded demo_cfs_members]
  have "sched_period demo_cfs_env (ucast (nr_running demo_cfs)) = 6000000"
    by (simp add: sched_period_def demo_cfs_env_def demo_cfs_def)
  then show ?thesis using fit by (simp add: demo_cfs_def)
qed

theorem entity_tick_resched_witness:
  "case entity_tick demo_cfs_env 0 demo_cfs of None \<Rightarrow> False | Some q' \<Rightarrow> queue_ok q' \<and> in_order q'"
proof -
  have "curr demo_cfs = Some 0" by (simp add: demo_cfs_def)
  from entity_tick_resched [OF demo_cfs_env_ok demo_cfs_ok(1,2) this] show ?thesis
    by (auto split: option.splits)
qed

end
