(* ===== verification/FioChecksum.thy ===== *)
theory FioChecksum
  imports RTFSC_Prelude
begin

text \<open>
  The checksums of fio: the hash of \<^verbatim>\<open>hash.h\<close>, the table-driven CRC of \<^verbatim>\<open>crc32.c\<close> and the MD5
  update of \<^verbatim>\<open>md5.c\<close>, for a 64-bit little-endian target (\<^verbatim>\<open>unsigned long\<close> has 64 bits).  A buffer
  is a list of bytes.  Each optimised routine is proved equal to a reference: the hash to the
  multiplication by the golden ratio prime, the CRC to the division by the polynomial bit by bit,
  the buffered MD5 update to the compression of the byte stream cut into blocks.
\<close>

section \<open>Multiplicative hashing (hash.h)\<close>

definition GOLDEN_RATIO_PRIME :: u64 where
  "GOLDEN_RATIO_PRIME = 0x9e37fffffffc0001"

definition hash_long :: "u64 \<Rightarrow> u32 \<Rightarrow> u64" where
  "hash_long val bits =
     (let hash = val;
          n = hash;
          n = push_bit 18 n; hash = hash - n;
          n = push_bit 33 n; hash = hash - n;
          n = push_bit 3 n; hash = hash + n;
          n = push_bit 3 n; hash = hash - n;
          n = push_bit 4 n; hash = hash + n;
          n = push_bit 2 n; hash = hash + n
      in drop_bit (unat (64 - bits)) hash)"

section \<open>Cyclic redundancy check (crc32.c)\<close>

definition crctab :: "u64 list" where
  "crctab = [
     0, 0x4c11db7, 0x9823b6e, 0xd4326d9, 0x130476dc, 0x17c56b6b, 0x1a864db2, 0x1e475005,
     0x2608edb8, 0x22c9f00f, 0x2f8ad6d6, 0x2b4bcb61, 0x350c9b64, 0x31cd86d3, 0x3c8ea00a, 0x384fbdbd,
     0x4c11db70, 0x48d0c6c7, 0x4593e01e, 0x4152fda9, 0x5f15adac, 0x5bd4b01b, 0x569796c2, 0x52568b75,
     0x6a1936c8, 0x6ed82b7f, 0x639b0da6, 0x675a1011, 0x791d4014, 0x7ddc5da3, 0x709f7b7a, 0x745e66cd,
     0x9823b6e0, 0x9ce2ab57, 0x91a18d8e, 0x95609039, 0x8b27c03c, 0x8fe6dd8b, 0x82a5fb52, 0x8664e6e5,
     0xbe2b5b58, 0xbaea46ef, 0xb7a96036, 0xb3687d81, 0xad2f2d84, 0xa9ee3033, 0xa4ad16ea, 0xa06c0b5d,
     0xd4326d90, 0xd0f37027, 0xddb056fe, 0xd9714b49, 0xc7361b4c, 0xc3f706fb, 0xceb42022, 0xca753d95,
     0xf23a8028, 0xf6fb9d9f, 0xfbb8bb46, 0xff79a6f1, 0xe13ef6f4, 0xe5ffeb43, 0xe8bccd9a, 0xec7dd02d,
     0x34867077, 0x30476dc0, 0x3d044b19, 0x39c556ae, 0x278206ab, 0x23431b1c, 0x2e003dc5, 0x2ac12072,
     0x128e9dcf, 0x164f8078, 0x1b0ca6a1, 0x1fcdbb16, 0x18aeb13, 0x54bf6a4, 0x808d07d, 0xcc9cdca,
     0x7897ab07, 0x7c56b6b0, 0x71159069, 0x75d48dde, 0x6b93dddb, 0x6f52c06c, 0x6211e6b5, 0x66d0fb02,
     0x5e9f46bf, 0x5a5e5b08, 0x571d7dd1, 0x53dc6066, 0x4d9b3063, 0x495a2dd4, 0x44190b0d, 0x40d816ba,
     0xaca5c697, 0xa864db20, 0xa527fdf9, 0xa1e6e04e, 0xbfa1b04b, 0xbb60adfc, 0xb6238b25, 0xb2e29692,
     0x8aad2b2f, 0x8e6c3698, 0x832f1041, 0x87ee0df6, 0x99a95df3, 0x9d684044, 0x902b669d, 0x94ea7b2a,
     0xe0b41de7, 0xe4750050, 0xe9362689, 0xedf73b3e, 0xf3b06b3b, 0xf771768c, 0xfa325055, 0xfef34de2,
     0xc6bcf05f, 0xc27dede8, 0xcf3ecb31, 0xcbffd686, 0xd5b88683, 0xd1799b34, 0xdc3abded, 0xd8fba05a,
     0x690ce0ee, 0x6dcdfd59, 0x608edb80, 0x644fc637, 0x7a089632, 0x7ec98b85, 0x738aad5c, 0x774bb0eb,
     0x4f040d56, 0x4bc510e1, 0x46863638, 0x42472b8f, 0x5c007b8a, 0x58c1663d, 0x558240e4, 0x51435d53,
     0x251d3b9e, 0x21dc2629, 0x2c9f00f0, 0x285e1d47, 0x36194d42, 0x32d850f5, 0x3f9b762c, 0x3b5a6b9b,
     0x315d626, 0x7d4cb91, 0xa97ed48, 0xe56f0ff, 0x1011a0fa, 0x14d0bd4d, 0x19939b94, 0x1d528623,
     0xf12f560e, 0xf5ee4bb9, 0xf8ad6d60, 0xfc6c70d7, 0xe22b20d2, 0xe6ea3d65, 0xeba91bbc, 0xef68060b,
     0xd727bbb6, 0xd3e6a601, 0xdea580d8, 0xda649d6f, 0xc423cd6a, 0xc0e2d0dd, 0xcda1f604, 0xc960ebb3,
     0xbd3e8d7e, 0xb9ff90c9, 0xb4bcb610, 0xb07daba7, 0xae3afba2, 0xaafbe615, 0xa7b8c0cc, 0xa379dd7b,
     0x9b3660c6, 0x9ff77d71, 0x92b45ba8, 0x9675461f, 0x8832161a, 0x8cf30bad, 0x81b02d74, 0x857130c3,
     0x5d8a9099, 0x594b8d2e, 0x5408abf7, 0x50c9b640, 0x4e8ee645, 0x4a4ffbf2, 0x470cdd2b, 0x43cdc09c,
     0x7b827d21, 0x7f436096, 0x7200464f, 0x76c15bf8, 0x68860bfd, 0x6c47164a, 0x61043093, 0x65c52d24,
     0x119b4be9, 0x155a565e, 0x18197087, 0x1cd86d30, 0x29f3d35, 0x65e2082, 0xb1d065b, 0xfdc1bec,
     0x3793a651, 0x3352bbe6, 0x3e119d3f, 0x3ad08088, 0x2497d08d, 0x2056cd3a, 0x2d15ebe3, 0x29d4f654,
     0xc5a92679, 0xc1683bce, 0xcc2b1d17, 0xc8ea00a0, 0xd6ad50a5, 0xd26c4d12, 0xdf2f6bcb, 0xdbee767c,
     0xe3a1cbc1, 0xe760d676, 0xea23f0af, 0xeee2ed18, 0xf0a5bd1d, 0xf464a0aa, 0xf9278673, 0xfde69bc4,
     0x89b8fd09, 0x8d79e0be, 0x803ac667, 0x84fbdbd0, 0x9abc8bd5, 0x9e7d9662, 0x933eb0bb, 0x97ffad0c,
     0xafb010b1, 0xab710d06, 0xa6322bdf, 0xa2f33668, 0xbcb4666d, 0xb8757bda, 0xb5365d03, 0xb1f740b4]"

definition crc32 :: "u8 list \<Rightarrow> u64" where
  "crc32 buffer =
     foldl (\<lambda>crc b. push_bit 8 crc XOR crctab ! unat ((drop_bit 24 crc XOR ucast b) AND 0xFF)) 0 buffer"

section \<open>MD5 (md5.c, md5.h)\<close>

record md5_ctx =
  md5_hash :: "u32 \<times> u32 \<times> u32 \<times> u32"
  md5_block :: "u8 list"
  byte_count :: u64

definition F1 :: "u32 \<Rightarrow> u32 \<Rightarrow> u32 \<Rightarrow> u32" where "F1 x y z = z XOR (x AND (y XOR z))"
definition F2 :: "u32 \<Rightarrow> u32 \<Rightarrow> u32 \<Rightarrow> u32" where "F2 x y z = F1 z x y"
definition F3 :: "u32 \<Rightarrow> u32 \<Rightarrow> u32 \<Rightarrow> u32" where "F3 x y z = x XOR y XOR z"
definition F4 :: "u32 \<Rightarrow> u32 \<Rightarrow> u32 \<Rightarrow> u32" where "F4 x y z = y XOR (x OR NOT z)"

definition MD5STEP :: "(u32 \<Rightarrow> u32 \<Rightarrow> u32 \<Rightarrow> u32) \<Rightarrow> u32 \<Rightarrow> u32 \<Rightarrow> u32 \<Rightarrow> u32 \<Rightarrow> u32 \<Rightarrow> nat \<Rightarrow> u32" where
  "MD5STEP f w x y z i s = (let w = w + (f x y z + i) in (push_bit s w OR drop_bit (32 - s) w) + x)"

text \<open>The block read as sixteen little-endian words.\<close>

definition le_word :: "u8 list \<Rightarrow> u32" where
  "le_word bs = ucast (bs ! 0) OR push_bit 8 (ucast (bs ! 1)) OR push_bit 16 (ucast (bs ! 2))
     OR push_bit 24 (ucast (bs ! 3))"

definition block_words :: "u8 list \<Rightarrow> u32 list" where
  "block_words blk = map (\<lambda>i. le_word (drop (4 * i) blk)) [0..<16]"

definition md5_transform :: "u32 \<times> u32 \<times> u32 \<times> u32 \<Rightarrow> u32 list \<Rightarrow> u32 \<times> u32 \<times> u32 \<times> u32" where
  "md5_transform hash inw =
     (case hash of (h0, h1, h2, h3) \<Rightarrow>
      let a = h0; b = h1; c = h2; d = h3;
         a = MD5STEP F1 a b c d (inw ! 0 + 0xd76aa478) 7;
         d = MD5STEP F1 d a b c (inw ! 1 + 0xe8c7b756) 12;
         c = MD5STEP F1 c d a b (inw ! 2 + 0x242070db) 17;
         b = MD5STEP F1 b c d a (inw ! 3 + 0xc1bdceee) 22;
         a = MD5STEP F1 a b c d (inw ! 4 + 0xf57c0faf) 7;
         d = MD5STEP F1 d a b c (inw ! 5 + 0x4787c62a) 12;
         c = MD5STEP F1 c d a b (inw ! 6 + 0xa8304613) 17;
         b = MD5STEP F1 b c d a (inw ! 7 + 0xfd469501) 22;
         a = MD5STEP F1 a b c d (inw ! 8 + 0x698098d8) 7;
         d = MD5STEP F1 d a b c (inw ! 9 + 0x8b44f7af) 12;
         c = MD5STEP F1 c d a b (inw ! 10 + 0xffff5bb1) 17;
         b = MD5STEP F1 b c d a (inw ! 11 + 0x895cd7be) 22;
         a = MD5STEP F1 a b c d (inw ! 12 + 0x6b901122) 7;
         d = MD5STEP F1 d a b c (inw ! 13 + 0xfd987193) 12;
         c = MD5STEP F1 c d a b (inw ! 14 + 0xa679438e) 17;
         b = MD5STEP F1 b c d a (inw ! 15 + 0x49b40821) 22;
         a = MD5STEP F2 a b c d (inw ! 1 + 0xf61e2562) 5;
         d = MD5STEP F2 d a b c (inw ! 6 + 0xc040b340) 9;
         c = MD5STEP F2 c d a b (inw ! 11 + 0x265e5a51) 14;
         b = MD5STEP F2 b c d a (inw ! 0 + 0xe9b6c7aa) 20;
         a = MD5STEP F2 a b c d (inw ! 5 + 0xd62f105d) 5;
         d = MD5STEP F2 d a b c (inw ! 10 + 0x02441453) 9;
         c = MD5STEP F2 c d a b (inw ! 15 + 0xd8a1e681) 14;
         b = MD5STEP F2 b c d a (inw ! 4 + 0xe7d3fbc8) 20;
         a = MD5STEP F2 a b c d (inw ! 9 + 0x21e1cde6) 5;
         d = MD5STEP F2 d a b c (inw ! 14 + 0xc33707d6) 9;
         c = MD5STEP F2 c d a b (inw ! 3 + 0xf4d50d87) 14;
         b = MD5STEP F2 b c d a (inw ! 8 + 0x455a14ed) 20;
         a = MD5STEP F2 a b c d (inw ! 13 + 0xa9e3e905) 5;
         d = MD5STEP F2 d a b c (inw ! 2 + 0xfcefa3f8) 9;
         c = MD5STEP F2 c d a b (inw ! 7 + 0x676f02d9) 14;
         b = MD5STEP F2 b c d a (inw ! 12 + 0x8d2a4c8a) 20;
         a = MD5STEP F3 a b c d (inw ! 5 + 0xfffa3942) 4;
         d = MD5STEP F3 d a b c (inw ! 8 + 0x8771f681) 11;
         c = MD5STEP F3 c d a b (inw ! 11 + 0x6d9d6122) 16;
         b = MD5STEP F3 b c d a (inw ! 14 + 0xfde5380c) 23;
         a = MD5STEP F3 a b c d (inw ! 1 + 0xa4beea44) 4;
         d = MD5STEP F3 d a b c (inw ! 4 + 0x4bdecfa9) 11;
         c = MD5STEP F3 c d a b (inw ! 7 + 0xf6bb4b60) 16;
         b = MD5STEP F3 b c d a (inw ! 10 + 0xbebfbc70) 23;
         a = MD5STEP F3 a b c d (inw ! 13 + 0x289b7ec6) 4;
         d = MD5STEP F3 d a b c (inw ! 0 + 0xeaa127fa) 11;
         c = MD5STEP F3 c d a b (inw ! 3 + 0xd4ef3085) 16;
         b = MD5STEP F3 b c d a (inw ! 6 + 0x04881d05) 23;
         a = MD5STEP F3 a b c d (inw ! 9 + 0xd9d4d039) 4;
         d = MD5STEP F3 d a b c (inw ! 12 + 0xe6db99e5) 11;
         c = MD5STEP F3 c d a b (inw ! 15 + 0x1fa27cf8) 16;
         b = MD5STEP F3 b c d a (inw ! 2 + 0xc4ac5665) 23;
         a = MD5STEP F4 a b c d (inw ! 0 + 0xf4292244) 6;
         d = MD5STEP F4 d a b c (inw ! 7 + 0x432aff97) 10;
         c = MD5STEP F4 c d a b (inw ! 14 + 0xab9423a7) 15;
         b = MD5STEP F4 b c d a (inw ! 5 + 0xfc93a039) 21;
         a = MD5STEP F4 a b c d (inw ! 12 + 0x655b59c3) 6;
         d = MD5STEP F4 d a b c (inw ! 3 + 0x8f0ccc92) 10;
         c = MD5STEP F4 c d a b (inw ! 10 + 0xffeff47d) 15;
         b = MD5STEP F4 b c d a (inw ! 1 + 0x85845dd1) 21;
         a = MD5STEP F4 a b c d (inw ! 8 + 0x6fa87e4f) 6;
         d = MD5STEP F4 d a b c (inw ! 15 + 0xfe2ce6e0) 10;
         c = MD5STEP F4 c d a b (inw ! 6 + 0xa3014314) 15;
         b = MD5STEP F4 b c d a (inw ! 13 + 0x4e0811a1) 21;
         a = MD5STEP F4 a b c d (inw ! 4 + 0xf7537e82) 6;
         d = MD5STEP F4 d a b c (inw ! 11 + 0xbd3af235) 10;
         c = MD5STEP F4 c d a b (inw ! 2 + 0x2ad7d2bb) 15;
         b = MD5STEP F4 b c d a (inw ! 9 + 0xeb86d391) 21
      in (h0 + a, h1 + b, h2 + c, h3 + d))"

text \<open>\<^verbatim>\<open>memcpy\<close> into the block at an offset.\<close>

definition memcpy_at :: "nat \<Rightarrow> u8 list \<Rightarrow> u8 list \<Rightarrow> u8 list" where
  "memcpy_at n xs blk = take n blk @ xs @ drop (n + length xs) blk"

text \<open>The loop over whole blocks and the final copy of the rest.\<close>

function md5_blocks :: "md5_ctx \<Rightarrow> u8 list \<Rightarrow> md5_ctx" where
  "md5_blocks ctx data =
     (if length data \<ge> 64
      then md5_blocks (ctx\<lparr>md5_block := take 64 data,
                           md5_hash := md5_transform (md5_hash ctx) (block_words (take 64 data))\<rparr>) (drop 64 data)
      else ctx\<lparr>md5_block := memcpy_at 0 data (md5_block ctx)\<rparr>)"
  by pat_completeness auto

termination
  by (relation "measure (\<lambda>(ctx, data). length data)") auto

definition md5_update :: "md5_ctx \<Rightarrow> u8 list \<Rightarrow> md5_ctx" where
  "md5_update mctx data =
     (let avail = 64 - unat (byte_count mctx AND 0x3f);
          mctx = mctx\<lparr>byte_count := byte_count mctx + of_nat (length data)\<rparr>
      in if avail > length data
         then mctx\<lparr>md5_block := memcpy_at (64 - avail) data (md5_block mctx)\<rparr>
         else
           let mctx = mctx\<lparr>md5_block := memcpy_at (64 - avail) (take avail data) (md5_block mctx)\<rparr>;
               mctx = mctx\<lparr>md5_hash := md5_transform (md5_hash mctx) (block_words (md5_block mctx))\<rparr>
           in md5_blocks mctx (drop avail data))"

section \<open>The hash is a multiplication\<close>

lemma golden_ratio_sparse:
  "GOLDEN_RATIO_PRIME = 1 - 2 ^ 18 - 2 ^ 51 + 2 ^ 54 - 2 ^ 57 + 2 ^ 61 + 2 ^ 63"
  by (simp add: GOLDEN_RATIO_PRIME_def)

lemma hash_long_mult: "hash_long val bits = drop_bit (unat (64 - bits)) (val * GOLDEN_RATIO_PRIME)"
  unfolding hash_long_def Let_def golden_ratio_sparse
  by (simp add: push_bit_push_bit push_bit_eq_mult right_diff_distrib distrib_left mult.commute)

lemma drop_bit_less: "unat (drop_bit (64 - n) (w :: u64)) < 2 ^ n" if "n \<le> 64"
proof -
  have "unat w < 2 ^ 64" using unat_less_u64 [of w] by simp
  also have "\<dots> = 2 ^ n * 2 ^ (64 - n)" using that by (simp flip: power_add)
  finally show ?thesis
    by (simp add: unat_drop_bit_eq_div div_less_iff_less_mult)
qed

section \<open>The CRC is the polynomial division\<close>

text \<open>The reference: one bit of the message at a time, most significant first, modulo the
  polynomial \<^verbatim>\<open>0x04C11DB7\<close>.\<close>

definition crc_bit :: "u32 \<Rightarrow> u32" where
  "crc_bit c = push_bit 1 c XOR (if bit c 31 then 0x04C11DB7 else 0)"

definition crc_byte :: "u32 \<Rightarrow> u8 \<Rightarrow> u32" where
  "crc_byte c b = (crc_bit ^^ 8) (c XOR push_bit 24 (ucast b))"

lemma crc_bit_xor: "crc_bit (a XOR b) = crc_bit a XOR crc_bit b"
  by (auto simp: crc_bit_def push_bit_xor bit_xor_iff ac_simps)

lemma crc_bits_xor: "(crc_bit ^^ n) (a XOR b) = (crc_bit ^^ n) a XOR (crc_bit ^^ n) b"
  by (induction n) (simp_all add: crc_bit_xor)

text \<open>The low 24 bits only move up.\<close>

lemma crc_bits_low: "n \<le> 8 \<Longrightarrow> (\<And>i. 24 \<le> i \<Longrightarrow> \<not> bit x i) \<Longrightarrow> (crc_bit ^^ n) x = push_bit n x"
proof (induction n)
  case 0
  then show ?case by simp
next
  case (Suc n)
  then have "(crc_bit ^^ n) x = push_bit n x" by simp
  moreover have "\<not> bit (push_bit n x) 31"
    using Suc.prems by (simp add: bit_push_bit_iff)
  then have "crc_bit (push_bit n x) = push_bit (Suc n) x"
    unfolding crc_bit_def by (simp only: if_False xor.right_neutral push_bit_push_bit) simp
  ultimately show ?case by simp
qed

text \<open>The table holds the eight steps of every top byte.\<close>

definition top_byte :: "nat \<Rightarrow> u32" where
  "top_byte i = push_bit 24 (word_of_nat i)"

text \<open>Checked by doubling: entry \<open>2 i\<close> is one more step of entry \<open>i\<close>, and entry \<open>2 i + 1\<close> differs
  from it by the polynomial.\<close>

fun doubled :: "u32 list \<Rightarrow> u32 list \<Rightarrow> bool" where
  "doubled (h # hs) (a # b # rest) = (a = crc_bit h \<and> b = a XOR 0x04C11DB7 \<and> doubled hs rest)"
| "doubled [] [] = True"
| "doubled _ _ = False"

definition crctab32 :: "u32 list" where
  "crctab32 = map ucast crctab"

lemma doubled_crctab: "doubled (take 128 crctab32) crctab32"
  by (simp add: crctab32_def crctab_def crc_bit_def)

lemma doubled_nth:
  "doubled hs xs \<Longrightarrow> i < length hs \<Longrightarrow> xs ! (2 * i) = crc_bit (hs ! i) \<and> xs ! Suc (2 * i) = xs ! (2 * i) XOR 0x04C11DB7"
proof (induction hs xs arbitrary: i rule: doubled.induct)
  case (1 h hs a b rest)
  then show ?case by (cases i) auto
qed simp_all

lemma top_byte_double: "j < 128 \<Longrightarrow> top_byte (2 * j) = crc_bit (top_byte j)"
proof -
  assume j: "j < 128"
  have "\<not> bit (top_byte j) 31"
  proof -
    have "\<not> bit j 7" using j by (simp add: bit_iff_odd)
    then show ?thesis by (simp add: top_byte_def bit_push_bit_iff bit_of_nat_iff)
  qed
  then have "crc_bit (top_byte j) = push_bit 1 (top_byte j)"
    unfolding crc_bit_def by (simp only: if_False xor.right_neutral)
  then show ?thesis
    by (simp add: top_byte_def push_bit_eq_mult)
qed

lemma top_byte_odd: "top_byte (Suc (2 * j)) = top_byte (2 * j) XOR top_byte 1"
proof -
  have "even (word_of_nat (2 * j) :: u32)" by simp
  then have "word_of_nat (2 * j) AND (1 :: u32) = 0"
    by (simp add: and_one_eq mod_2_eq_odd)
  from disjunctive_add_eq_xor [OF this]
  have "word_of_nat (Suc (2 * j)) = (word_of_nat (2 * j) XOR 1 :: u32)"
    by (simp add: add.commute)
  then show ?thesis
    unfolding top_byte_def by (simp only: push_bit_xor of_nat_1)
qed

lemma eight_bits: "(crc_bit ^^ 8) x
    = crc_bit (crc_bit (crc_bit (crc_bit (crc_bit (crc_bit (crc_bit (crc_bit x)))))))"
  by (simp add: eval_nat_numeral)

lemma crctab32_start: "crctab32 ! 0 = 0" "length crctab32 = 256"
  by (simp_all add: crctab32_def crctab_def)

lemma crc_top_byte: "(crc_bit ^^ 8) (top_byte 0) = 0" "(crc_bit ^^ 8) (top_byte 1) = 0x04C11DB7"
  unfolding eight_bits top_byte_def crc_bit_def by simp_all

lemma crctab32_entry: "i < 256 \<Longrightarrow> crctab32 ! i = (crc_bit ^^ 8) (top_byte i)"
proof (induction i rule: less_induct)
  case (less i)
  define j where "j = i div 2"
  have j: "j < 128" using less.prems by (simp add: j_def)
  then have d: "crctab32 ! (2 * j) = crc_bit (crctab32 ! j)"
    "crctab32 ! Suc (2 * j) = crctab32 ! (2 * j) XOR 0x04C11DB7"
    using doubled_nth [OF doubled_crctab, of j] crctab32_start(2) by simp_all
  have low: "crctab32 ! (2 * j) = (crc_bit ^^ 8) (top_byte (2 * j))"
  proof (cases "j = 0")
    case True
    then show ?thesis using crctab32_start(1) crc_top_byte(1) by simp
  next
    case False
    then have "crctab32 ! j = (crc_bit ^^ 8) (top_byte j)"
      using less.IH [of j] j by (auto simp: j_def)
    then show ?thesis
      unfolding d(1) top_byte_double [OF j] by (simp only: funpow_swap1)
  qed
  show ?case
  proof (cases "even i")
    case True
    then have "i = 2 * j" by (simp add: j_def)
    with low show ?thesis by simp
  next
    case False
    then have i: "i = Suc (2 * j)" by (simp add: j_def odd_two_times_div_two_succ)
    show ?thesis
      unfolding i top_byte_odd crc_bits_xor crc_top_byte(2) d(2) low ..
  qed
qed

text \<open>One table step on the 64-bit accumulator is one byte of the reference on its low half.\<close>

definition crc_step :: "u64 \<Rightarrow> u8 \<Rightarrow> u64" where
  "crc_step crc b = push_bit 8 crc XOR crctab ! unat ((drop_bit 24 crc XOR ucast b) AND 0xFF)"

lemma crc32_step: "crc32 buf = foldl crc_step 0 buf"
  unfolding crc32_def crc_step_def ..

lemma bit_small: "unat (w :: u64) < 2 ^ k \<Longrightarrow> k \<le> n \<Longrightarrow> \<not> bit w n"
proof -
  assume w: "unat w < 2 ^ k" "k \<le> n"
  then have "(2::nat) ^ k \<le> 2 ^ n" by simp
  with w(1) have "unat w < 2 ^ n" by linarith
  then have "\<not> bit (unat w) n" by (simp add: bit_iff_odd)
  then show "\<not> bit w n" by (simp add: bit_unsigned_iff)
qed

lemma ucast_crc_step: "ucast (crc_step crc b) = crc_byte (ucast crc) b"
proof -
  define t where "t = (drop_bit 24 crc XOR ucast b) AND (0xFF :: u64)"
  define c where "c = (ucast crc :: u32)"
  have t: "unat t < 256"
  proof -
    have "t = take_bit 8 (drop_bit 24 crc XOR ucast b)"
      by (simp add: t_def take_bit_eq_mask mask_eq_exp_minus_1)
    then have "unat t = take_bit 8 (unat (drop_bit 24 crc XOR ucast b))"
      by (simp only: unsigned_take_bit_eq)
    then show ?thesis by (simp add: take_bit_eq_mod)
  qed
  have split: "c XOR push_bit 24 (ucast b) = take_bit 24 c XOR top_byte (unat t)"
  proof (rule bit_word_eqI)
    fix n
    assume n: "n < LENGTH(32)"
    show "bit (c XOR push_bit 24 (ucast b)) n \<longleftrightarrow> bit (take_bit 24 c XOR top_byte (unat t)) n"
    proof (cases "n < 24")
      case True
      then show ?thesis by (simp add: top_byte_def bit_simps)
    next
      case False
      have b8: "bit (0xFF :: u64) m \<longleftrightarrow> m < 8" "bit (0xFF :: int) m \<longleftrightarrow> m < 8" for m
      proof -
        have "(0xFF :: u64) = mask 8" "(0xFF :: int) = mask 8" by (simp_all add: mask_eq_exp_minus_1)
        then show "bit (0xFF :: u64) m \<longleftrightarrow> m < 8" "bit (0xFF :: int) m \<longleftrightarrow> m < 8"
          by (simp_all only: bit_mask_iff possible_bit_def) auto
      qed
      show ?thesis
        using False n by (auto simp: top_byte_def t_def c_def bit_simps b8)
    qed
  qed
  have low: "(crc_bit ^^ 8) (take_bit 24 c) = push_bit 8 c"
  proof -
    have "(crc_bit ^^ 8) (take_bit 24 c) = push_bit 8 (take_bit 24 c)"
      by (rule crc_bits_low) (auto simp: bit_take_bit_iff)
    also have "\<dots> = push_bit 8 c"
      by (rule bit_word_eqI) (auto simp: bit_simps)
    finally show ?thesis .
  qed
  have "ucast (crctab ! unat t) = crctab32 ! unat t"
    using t crctab32_start(2) by (simp add: crctab32_def)
  then have tab: "ucast (crctab ! unat t) = (crc_bit ^^ 8) (top_byte (unat t))"
    using t by (simp add: crctab32_entry)
  have "ucast (crc_step crc b) = push_bit 8 c XOR (ucast (crctab ! unat t) :: u32)"
    by (rule bit_word_eqI) (auto simp: crc_step_def t_def c_def bit_simps)
  then show ?thesis
    unfolding tab crc_byte_def c_def [symmetric] split crc_bits_xor low .
qed

lemma crc32_low_half: "ucast (crc32 buf) = foldl crc_byte 0 buf"
proof -
  have "ucast (foldl crc_step crc buf) = foldl crc_byte (ucast crc) buf" for crc
    by (induction buf arbitrary: crc) (simp_all add: ucast_crc_step)
  from this [of 0] show ?thesis by (simp add: crc32_step)
qed

text \<open>A step loses nothing, so a changed byte changes the sum.\<close>

lemma crc_bit_zero: "crc_bit x = 0 \<Longrightarrow> x = 0"
proof -
  assume z: "crc_bit x = 0"
  have "\<not> bit x 31"
  proof
    assume "bit x 31"
    with z have "push_bit 1 x XOR 0x04C11DB7 = 0" unfolding crc_bit_def by (simp only: if_True)
    moreover have "bit (push_bit 1 x XOR 0x04C11DB7) 0"
      unfolding bit_xor_iff bit_push_bit_iff by simp
    ultimately show False by (metis bit_0_eq bot_apply bot_bool_def)
  qed
  with z have p: "push_bit 1 x = 0" by (simp add: crc_bit_def)
  show "x = 0"
  proof (rule bit_word_eqI)
    fix n
    assume n: "n < LENGTH(32)"
    have "bit (push_bit 1 x) (Suc n) \<longleftrightarrow> Suc n < 32 \<and> bit x n"
      by (simp only: bit_push_bit_iff) simp
    then show "bit x n = bit (0 :: u32) n"
      unfolding p using \<open>\<not> bit x 31\<close> n by (cases "n = 31") auto
  qed
qed

lemma crc_bit_inj: "crc_bit a = crc_bit b \<Longrightarrow> a = b"
  using crc_bit_zero [of "a XOR b"] by (simp add: crc_bit_xor xor_eq_0_iff)

lemma crc_bits_inj: "(crc_bit ^^ n) a = (crc_bit ^^ n) b \<Longrightarrow> a = b"
  by (induction n) (auto dest: crc_bit_inj)

lemma crc_byte_inj: "crc_byte c x = crc_byte d x \<Longrightarrow> c = d"
  unfolding crc_byte_def by (drule crc_bits_inj) simp

lemma crc_bytes_inj: "foldl crc_byte c xs = foldl crc_byte d xs \<Longrightarrow> c = d"
  by (induction xs arbitrary: c d) (auto dest: crc_byte_inj)

lemma crc_byte_detects: "x \<noteq> y \<Longrightarrow> crc_byte c x \<noteq> crc_byte c y"
proof
  assume ne: "x \<noteq> y" and eq: "crc_byte c x = crc_byte c y"
  then have p: "push_bit 24 (ucast x) = (push_bit 24 (ucast y) :: u32)"
    using crc_bits_inj [of 8 "c XOR push_bit 24 (ucast x)" "c XOR push_bit 24 (ucast y)"]
    unfolding crc_byte_def by simp
  have "x = y"
  proof (rule bit_word_eqI)
    fix n
    assume "n < LENGTH(8)"
    then have "bit (push_bit 24 (ucast w) :: u32) (n + 24) = bit w n" for w :: u8
      by (simp add: bit_simps)
    then show "bit x n = bit y n" using p by metis
  qed
  with ne show False by simp
qed

lemma crc32_changed_byte:
  assumes "x \<noteq> y"
  shows "crc32 (p @ x # q) \<noteq> crc32 (p @ y # q)"
proof
  assume "crc32 (p @ x # q) = crc32 (p @ y # q)"
  then have "foldl crc_byte 0 (p @ x # q) = foldl crc_byte 0 (p @ y # q)"
    by (metis crc32_low_half)
  then have "crc_byte (foldl crc_byte 0 p) x = crc_byte (foldl crc_byte 0 p) y"
    using crc_bytes_inj by simp
  with crc_byte_detects [OF assms] show False by blast
qed

section \<open>MD5 of a byte stream\<close>

text \<open>The reference: the compression function over the stream cut into blocks of 64 bytes, with
  what is left over.\<close>

definition compress :: "u32 \<times> u32 \<times> u32 \<times> u32 \<Rightarrow> u8 list \<Rightarrow> u32 \<times> u32 \<times> u32 \<times> u32" where
  "compress h blk = md5_transform h (block_words blk)"

function absorb :: "u32 \<times> u32 \<times> u32 \<times> u32 \<Rightarrow> u8 list \<Rightarrow> (u32 \<times> u32 \<times> u32 \<times> u32) \<times> u8 list" where
  "absorb h bytes = (if length bytes \<ge> 64 then absorb (compress h (take 64 bytes)) (drop 64 bytes) else (h, bytes))"
  by pat_completeness auto

termination
  by (relation "measure (\<lambda>(h, bytes). length bytes)") auto

declare absorb.simps [simp del] md5_blocks.simps [simp del]

text \<open>What a context stands for: the state of the hash and the bytes not hashed yet.\<close>

definition pending_len :: "md5_ctx \<Rightarrow> nat" where
  "pending_len ctx = unat (byte_count ctx) mod 64"

definition md5_abs :: "md5_ctx \<Rightarrow> (u32 \<times> u32 \<times> u32 \<times> u32) \<times> u8 list" where
  "md5_abs ctx = (md5_hash ctx, take (pending_len ctx) (md5_block ctx))"

definition md5_ok :: "md5_ctx \<Rightarrow> bool" where
  "md5_ok ctx \<longleftrightarrow> length (md5_block ctx) = 64"

lemma absorb_short: "length bytes < 64 \<Longrightarrow> absorb h bytes = (h, bytes)"
  by (simp add: absorb.simps)

lemma absorb_long: "64 \<le> length bytes \<Longrightarrow> absorb h bytes = absorb (compress h (take 64 bytes)) (drop 64 bytes)"
  by (subst absorb.simps) simp

lemma absorb_block: "length blk = 64 \<Longrightarrow> absorb h (blk @ rest) = absorb (compress h blk) rest"
  by (simp add: absorb_long)

lemma absorb_append:
  "absorb h (a @ b) = (case absorb h a of (h', r) \<Rightarrow> absorb h' (r @ b))"
proof (induction h a rule: absorb.induct)
  case (1 h a)
  show ?case
  proof (cases "64 \<le> length a")
    case True
    then have "absorb h (a @ b) = absorb (compress h (take 64 a)) (drop 64 a @ b)"
      by (subst absorb_long) simp_all
    with 1 True show ?thesis by (simp add: absorb_long)
  next
    case False
    then show ?thesis by (simp add: absorb_short)
  qed
qed

lemma md5_blocks_abs:
  "length (md5_block ctx) = 64 \<Longrightarrow> length data mod 64 = n \<Longrightarrow>
     (md5_hash (md5_blocks ctx data), take n (md5_block (md5_blocks ctx data))) = absorb (md5_hash ctx) data
     \<and> length (md5_block (md5_blocks ctx data)) = 64 \<and> byte_count (md5_blocks ctx data) = byte_count ctx"
proof (induction ctx data rule: md5_blocks.induct)
  case (1 ctx data)
  show ?case
  proof (cases "64 \<le> length data")
    case True
    let ?ctx = "ctx\<lparr>md5_block := take 64 data, md5_hash := md5_transform (md5_hash ctx) (block_words (take 64 data))\<rparr>"
    have "length (drop 64 data) mod 64 = n"
      using 1(3) True by (simp add: le_mod_geq)
    with 1(1) [OF True] True have "(md5_hash (md5_blocks ?ctx (drop 64 data)),
        take n (md5_block (md5_blocks ?ctx (drop 64 data)))) = absorb (md5_hash ?ctx) (drop 64 data)
      \<and> length (md5_block (md5_blocks ?ctx (drop 64 data))) = 64 \<and> byte_count (md5_blocks ?ctx (drop 64 data)) = byte_count ctx"
      by simp
    moreover have "md5_blocks ctx data = md5_blocks ?ctx (drop 64 data)"
      using True by (subst md5_blocks.simps) simp
    moreover have "absorb (md5_hash ?ctx) (drop 64 data) = absorb (md5_hash ctx) data"
      using True by (simp add: absorb_long compress_def)
    ultimately show ?thesis by simp
  next
    case False
    then have "md5_blocks ctx data = ctx\<lparr>md5_block := memcpy_at 0 data (md5_block ctx)\<rparr>"
      by (subst md5_blocks.simps) simp
    then show ?thesis
      using False 1(2,3) by (simp add: absorb_short memcpy_at_def)
  qed
qed

lemma and_63: "unat (w AND (0x3f :: u64)) = unat w mod 64"
proof -
  have "w AND 0x3f = take_bit 6 w"
    by (simp add: take_bit_eq_mask mask_eq_exp_minus_1)
  then have "unat (w AND 0x3f) = take_bit 6 (unat w)"
    by (simp only: unsigned_take_bit_eq)
  then show ?thesis by (simp add: take_bit_eq_mod)
qed

lemma unat_add_mod_64: "unat (w + of_nat n :: u64) mod 64 = (unat w + n) mod 64"
proof -
  have "unat (w + of_nat n :: u64) = (unat w + n) mod 2 ^ 64"
    by (simp add: unat_word_ariths unat_of_nat mod_simps)
  also have "\<dots> mod 64 = (unat w + n) mod 64"
    by (rule mod_mod_cancel) simp
  finally show ?thesis .
qed

text \<open>The buffered update refines the reference.\<close>

lemma md5_update_refines:
  assumes ok: "md5_ok ctx" and fits: "length data < 2 ^ 32"
  shows "md5_ok (md5_update ctx data)"
    and "md5_abs (md5_update ctx data) = absorb (md5_hash ctx) (take (pending_len ctx) (md5_block ctx) @ data)"
    and "byte_count (md5_update ctx data) = byte_count ctx + of_nat (length data)"
proof -
  define p where "p = pending_len ctx"
  have p: "p < 64" by (simp add: p_def pending_len_def)
  have blk: "length (md5_block ctx) = 64" using ok by (simp add: md5_ok_def)
  have avail: "64 - unat (byte_count ctx AND 0x3f) = 64 - p" "64 - (64 - p) = p"
    using p by (simp_all add: and_63 p_def pending_len_def)
  let ?c = "ctx\<lparr>byte_count := byte_count ctx + of_nat (length data)\<rparr>"
  have plen: "unat (byte_count ctx + of_nat (length data)) mod 64 = (p + length data) mod 64"
    unfolding unat_add_mod_64 by (simp add: p_def pending_len_def mod_simps)
  show "md5_ok (md5_update ctx data)"
    and "md5_abs (md5_update ctx data) = absorb (md5_hash ctx) (take (pending_len ctx) (md5_block ctx) @ data)"
    and "byte_count (md5_update ctx data) = byte_count ctx + of_nat (length data)"
  proof (atomize (full), cases "64 - p > length data")
    case True
    then have u: "md5_update ctx data = ?c\<lparr>md5_block := memcpy_at p data (md5_block ctx)\<rparr>"
      by (simp only: md5_update_def Let_def avail) simp
    have "(p + length data) mod 64 = p + length data" using True by simp
    then show "md5_ok (md5_update ctx data)
      \<and> md5_abs (md5_update ctx data) = absorb (md5_hash ctx) (take (pending_len ctx) (md5_block ctx) @ data)
      \<and> byte_count (md5_update ctx data) = byte_count ctx + of_nat (length data)"
      using True blk p plen
      by (simp add: u md5_ok_def md5_abs_def pending_len_def memcpy_at_def absorb_short p_def [symmetric, unfolded pending_len_def])
  next
    case False
    let ?full = "take p (md5_block ctx) @ take (64 - p) data"
    let ?c1 = "?c\<lparr>md5_block := ?full, md5_hash := md5_transform (md5_hash ctx) (block_words ?full)\<rparr>"
    have full: "memcpy_at p (take (64 - p) data) (md5_block ctx) = ?full" "length ?full = 64"
      using False blk p by (simp_all add: memcpy_at_def)
    have u: "md5_update ctx data = md5_blocks ?c1 (drop (64 - p) data)"
      using False by (simp only: md5_update_def Let_def avail) (simp add: full(1))
    have len: "length (drop (64 - p) data) mod 64 = (p + length data) mod 64"
    proof -
      have eq: "p + length data = 64 + length (drop (64 - p) data)" using False p by simp
      show ?thesis unfolding eq by (simp only: mod_add_self1)
    qed
    from md5_blocks_abs [of ?c1, OF _ len] full(2)
    have b: "(md5_hash (md5_update ctx data), take ((p + length data) mod 64) (md5_block (md5_update ctx data)))
        = absorb (md5_hash ?c1) (drop (64 - p) data)"
      "length (md5_block (md5_update ctx data)) = 64"
      "byte_count (md5_update ctx data) = byte_count ctx + of_nat (length data)"
      unfolding u by simp_all
    have "absorb (md5_hash ctx) (take p (md5_block ctx) @ data) = absorb (md5_hash ?c1) (drop (64 - p) data)"
    proof -
      have sp: "take p (md5_block ctx) @ data = ?full @ drop (64 - p) data" by simp
      show ?thesis
        unfolding sp absorb_block [OF full(2)] by (simp add: compress_def)
    qed
    then show "md5_ok (md5_update ctx data)
      \<and> md5_abs (md5_update ctx data) = absorb (md5_hash ctx) (take (pending_len ctx) (md5_block ctx) @ data)
      \<and> byte_count (md5_update ctx data) = byte_count ctx + of_nat (length data)"
      using b plen by (simp add: md5_ok_def md5_abs_def pending_len_def p_def [symmetric, unfolded pending_len_def])
  qed
qed

section \<open>Properties\<close>

text \<open>The shifts and additions of \<^verbatim>\<open>hash_long\<close> are the multiplication by the golden ratio prime, modulo
  \<^verbatim>\<open>2^64\<close>, and a hash of \<open>bits\<close> bits is less than \<^verbatim>\<open>2^bits\<close>.\<close>

theorem hash_long_golden_ratio:
  assumes "unat bits \<le> 64"
  shows "hash_long val bits = drop_bit (64 - unat bits) (val * GOLDEN_RATIO_PRIME)
    \<and> unat (hash_long val bits) < 2 ^ unat bits"
proof -
  have "unat (64 - bits) = 64 - unat bits"
    using assms unat_sub [of bits 64] by (simp add: word_le_nat_alt)
  then show ?thesis
    using drop_bit_less [OF assms] by (simp add: hash_long_mult)
qed

theorem hash_long_golden_ratio_witness: "unat (hash_long 0xdeadbeef 10) < 1024"
proof -
  have "unat (10 :: u32) \<le> 64" by simp
  from conjunct2 [OF hash_long_golden_ratio [OF this, of "0xdeadbeef"]] show ?thesis by simp
qed

text \<open>C29: the low 32 bits of the table-driven CRC of any buffer are its remainder computed one bit at a
  time with the polynomial \<^verbatim>\<open>0x04C11DB7\<close>.\<close>

theorem crc32_is_polynomial_division: "ucast (crc32 buf) = foldl crc_byte 0 buf"
  by (rule crc32_low_half)

text \<open>Buffers that differ in exactly one byte have different CRCs.\<close>

theorem crc32_detects_changed_byte:
  assumes "x \<noteq> y"
  shows "crc32 (p @ x # q) \<noteq> crc32 (p @ y # q)"
  using crc32_changed_byte [OF assms] .

theorem crc32_detects_changed_byte_witness: "crc32 ([1, 2] @ 3 # [4]) \<noteq> crc32 ([1, 2] @ 9 # [4])"
  by (rule crc32_detects_changed_byte) simp

text \<open>C11: the buffered \<^verbatim>\<open>md5_update\<close> compresses the stream of all bytes ever passed cut into blocks of 64
  bytes, so data may be passed in pieces of any lengths: the hash, the bytes still pending and the
  byte count are those of a single call with the concatenation.\<close>

theorem md5_update_streams:
  assumes "md5_ok ctx" "length a < 2 ^ 32" "length b < 2 ^ 32" "length (a @ b) < 2 ^ 32"
  shows "md5_abs (md5_update (md5_update ctx a) b) = md5_abs (md5_update ctx (a @ b))
    \<and> byte_count (md5_update (md5_update ctx a) b) = byte_count (md5_update ctx (a @ b))"
proof -
  note ua = md5_update_refines [OF assms(1,2)] and ub = md5_update_refines [OF _ assms(3)]
    and uab = md5_update_refines [OF assms(1,4)]
  let ?p = "take (pending_len ctx) (md5_block ctx)" and ?c = "md5_update ctx a"
  have "md5_abs (md5_update ?c b) = absorb (fst (md5_abs ?c)) (snd (md5_abs ?c) @ b)"
    using ub(2) [OF ua(1)] by (simp add: md5_abs_def)
  also have "\<dots> = absorb (md5_hash ctx) ((?p @ a) @ b)"
    unfolding absorb_append [of _ "?p @ a"] ua(2) by (simp add: case_prod_beta)
  finally show ?thesis
    using uab(2,3) ub(3) [OF ua(1)] ua(3) by simp
qed

theorem md5_update_streams_witness:
  "md5_abs (md5_update (md5_update \<lparr>md5_hash = (0, 0, 0, 0), md5_block = replicate 64 0, byte_count = 0\<rparr> (replicate 40 1)) (replicate 70 2))
     = md5_abs (md5_update \<lparr>md5_hash = (0, 0, 0, 0), md5_block = replicate 64 0, byte_count = 0\<rparr> (replicate 40 1 @ replicate 70 2))"
  using md5_update_streams [of "\<lparr>md5_hash = (0, 0, 0, 0), md5_block = replicate 64 0, byte_count = 0\<rparr>" "replicate 40 1" "replicate 70 2"]
  by (simp add: md5_ok_def)

end
