(* ===== verification/FioTime.thy ===== *)
theory FioTime
  imports FioChecksum
begin

text \<open>
  Clocks and pacing in fio (\<^verbatim>\<open>gettime.c\<close>, \<^verbatim>\<open>time.c\<close>).  What the system calls answer is the environment
  \<open>time_env\<close>: the \<open>n\<close>-th call of each of them gives the \<open>n\<close>-th answer.  The state counts the calls and
  keeps the requests made to \<^verbatim>\<open>nanosleep\<close> and \<^verbatim>\<open>usec_sleep\<close>; the record of a job extends it.

  The code multiplies and divides through \<^verbatim>\<open>double\<close>: \<open>rnd53\<close> is the rounding of an integer to the
  nearest double, ties to even.  The division of a microsecond count by \<^verbatim>\<open>(double) 1000\<close> and the
  conversion back agree with the truncating integer division for every count below 2^40, and a count
  of \<^verbatim>\<open>tv_usec\<close> is below a million.
\<close>

section \<open>Doubles that hold integers\<close>

fun excess_bits :: "nat \<Rightarrow> nat \<Rightarrow> nat" where
  "excess_bits 0 a = 0"
| "excess_bits (Suc fuel) a = (if a < 2 ^ 53 then 0 else Suc (excess_bits fuel (a div 2)))"

definition rnd53_nat :: "nat \<Rightarrow> nat" where
  "rnd53_nat a =
     (let k = excess_bits a a; q = a div 2 ^ k; r = a mod 2 ^ k
      in (if 2 * r > 2 ^ k \<or> (2 * r = 2 ^ k \<and> odd q \<and> k > 0) then q + 1 else q) * 2 ^ k)"

definition rnd53 :: "int \<Rightarrow> int" where
  "rnd53 n = sgn n * int (rnd53_nat (nat \<bar>n\<bar>))"

section \<open>Reading the clock\<close>

record timeval =
  tv_sec :: int
  tv_usec :: int

record timespec =
  ts_sec :: int
  ts_nsec :: int

record time_env =
  env_clock_gettime :: "nat \<Rightarrow> timespec option"  \<comment> \<open>\<^const>\<open>None\<close>: it failed\<close>
  env_clock_getres :: bool  \<comment> \<open>the monotonic clock has a resolution\<close>
  env_gettimeofday :: "nat \<Rightarrow> timeval"
  env_nanosleep :: "nat \<Rightarrow> timespec \<Rightarrow> int \<times> timespec option"  \<comment> \<open>the result, and \<^verbatim>\<open>rem\<close> when it is written\<close>
  env_terminate :: "nat \<Rightarrow> bool"  \<comment> \<open>\<^verbatim>\<open>td->terminate\<close> after that many sleeps\<close>

record time_state =
  clock_gettime_works :: bool
  clock_reads :: nat
  nanosleeps :: "(timespec \<times> int) list"
  usec_sleeps :: "u64 list"

definition fio_gettime :: "time_env \<Rightarrow> 'a time_state_scheme \<Rightarrow> timeval \<times> 'a time_state_scheme" where
  "fio_gettime env st =
     (let n = clock_reads st; st = st\<lparr>clock_reads := Suc n\<rparr> in
      if \<not> clock_gettime_works st then (env_gettimeofday env n, st)
      else case env_clock_gettime env n of
        None \<Rightarrow> (env_gettimeofday env n, st\<lparr>clock_gettime_works := False\<rparr>)
      | Some ts \<Rightarrow> (\<lparr>tv_sec = ts_sec ts, tv_usec = cdiv (ts_nsec ts) 1000\<rparr>, st))"

definition check_clock :: "time_env \<Rightarrow> 'a time_state_scheme \<Rightarrow> 'a time_state_scheme" where
  "check_clock env st = (if \<not> env_clock_getres env then st\<lparr>clock_gettime_works := False\<rparr> else st)"

section \<open>Counting the callers of the clock\<close>

text \<open>The build with \<^verbatim>\<open>FIO_DEBUG_TIME\<close> counts in a hash table who asks for the time: per bucket the
  chain of callers and their counts.\<close>

abbreviation HASH_BITS :: u32 where "HASH_BITS \<equiv> 8"
abbreviation HASH_SIZE :: nat where "HASH_SIZE \<equiv> 256"

record gtod_log =
  caller :: u64
  calls :: u64

record gtod_table =
  gtod_hash :: "gtod_log list list"
  gtod_inited :: bool

definition hash_ptr :: "u64 \<Rightarrow> u32 \<Rightarrow> u64" where
  "hash_ptr ptr bits = hash_long ptr bits"

definition gtod_bucket :: "u64 \<Rightarrow> nat" where
  "gtod_bucket c = unat (hash_ptr c HASH_BITS)"

text \<open>The position of the caller's entry in its chain.\<close>

fun find_chain :: "u64 \<Rightarrow> gtod_log list \<Rightarrow> nat option" where
  "find_chain c [] = None"
| "find_chain c (log # chain) = (if caller log = c then Some 0 else map_option Suc (find_chain c chain))"

definition find_hash :: "gtod_table \<Rightarrow> u64 \<Rightarrow> nat option" where
  "find_hash t c = find_chain c (gtod_hash t ! gtod_bucket c)"

definition find_log :: "gtod_table \<Rightarrow> u64 \<Rightarrow> nat \<times> gtod_table" where
  "find_log t c =
     (case find_hash t c of
        Some i \<Rightarrow> (i, t)
      | None \<Rightarrow>
          let h = gtod_bucket c; chain = gtod_hash t ! h
          in (length chain, t\<lparr>gtod_hash := (gtod_hash t)[h := chain @ [\<lparr>caller = c, calls = 0\<rparr>]]\<rparr>))"

definition gtod_log_caller :: "u64 \<Rightarrow> gtod_table \<Rightarrow> gtod_table" where
  "gtod_log_caller c t =
     (if gtod_inited t
      then let (i, t) = find_log t c; h = gtod_bucket c; chain = gtod_hash t ! h
           in t\<lparr>gtod_hash := (gtod_hash t)[h := chain[i := (chain ! i)\<lparr>calls := calls (chain ! i) + 1\<rparr>]]\<rparr>
      else t)"

definition gtod_init :: gtod_table where
  "gtod_init = \<lparr>gtod_hash = replicate HASH_SIZE [], gtod_inited = True\<rparr>"

text \<open>The lines printed at exit and the total.\<close>

definition fio_dump_gtod :: "gtod_table \<Rightarrow> (u64 \<times> u64) list \<times> u64" where
  "fio_dump_gtod t =
     (let logs = concat (gtod_hash t)
      in (map (\<lambda>l. (caller l, calls l)) logs, foldl (\<lambda>n l. n + calls l) 0 logs))"

section \<open>Differences of times\<close>

text \<open>The borrow both differences make.\<close>

definition tv_diff :: "timeval \<Rightarrow> timeval \<Rightarrow> int \<times> int" where
  "tv_diff s e =
     (let sec = tv_sec e - tv_sec s; usec = tv_usec e - tv_usec s
      in if sec > 0 \<and> usec < 0 then (sec - 1, usec + 1000000) else (sec, usec))"

definition utime_since :: "timeval \<Rightarrow> timeval \<Rightarrow> u64" where
  "utime_since s e =
     (let (sec, usec) = tv_diff s e; sec = rnd53 (rnd53 sec * 1000000)
      in word_of_int (sec + usec))"

definition mtime_since :: "timeval \<Rightarrow> timeval \<Rightarrow> u64" where
  "mtime_since s e =
     (let (sec, usec) = tv_diff s e; sec = rnd53 (rnd53 sec * 1000); usec = cdiv usec 1000
      in word_of_int (sec + usec))"

definition utime_since_now :: "time_env \<Rightarrow> timeval \<Rightarrow> 'a time_state_scheme \<Rightarrow> u64 \<times> 'a time_state_scheme" where
  "utime_since_now env s st = (let (t, st) = fio_gettime env st in (utime_since s t, st))"

definition mtime_since_now :: "time_env \<Rightarrow> timeval \<Rightarrow> 'a time_state_scheme \<Rightarrow> u64 \<times> 'a time_state_scheme" where
  "mtime_since_now env s st = (let (t, st) = fio_gettime env st in (mtime_since s t, st))"

definition time_since_now :: "time_env \<Rightarrow> timeval \<Rightarrow> 'a time_state_scheme \<Rightarrow> u64 \<times> 'a time_state_scheme" where
  "time_since_now env s st = (let (d, st) = mtime_since_now env s st in (d div 1000, st))"

text \<open>The start of the program: \<open>genesis\<close> is set by the constructor \<^verbatim>\<open>time_init\<close>.\<close>

definition time_init :: "time_env \<Rightarrow> 'a time_state_scheme \<Rightarrow> timeval \<times> 'a time_state_scheme" where
  "time_init env st = fio_gettime env st"

definition mtime_since_genesis :: "time_env \<Rightarrow> timeval \<Rightarrow> 'a time_state_scheme \<Rightarrow> u64 \<times> 'a time_state_scheme" where
  "mtime_since_genesis env genesis st = mtime_since_now env genesis st"

section \<open>Sleeping\<close>

text \<open>The busy loop ends when the clock has moved on; it is \<^const>\<open>None\<close> when it never does.\<close>

partial_function (option) busy_wait ::
  "time_env \<Rightarrow> timeval \<Rightarrow> u32 \<Rightarrow> 'a time_state_scheme \<Rightarrow> 'a time_state_scheme option" where
  "busy_wait env start usec st =
     (let (d, st) = utime_since_now env start st
      in if d < ucast usec then busy_wait env start usec st else Some st)"

definition usec_sleep_busy :: "time_env \<Rightarrow> u32 \<Rightarrow> 'a time_state_scheme \<Rightarrow> 'a time_state_scheme option" where
  "usec_sleep_busy env usec st = (let (start, st) = fio_gettime env st in busy_wait env start usec st)"

partial_function (option) sleep_loop ::
  "time_env \<Rightarrow> u64 \<Rightarrow> timespec \<Rightarrow> 'a time_state_scheme \<Rightarrow> 'a time_state_scheme option" where
  "sleep_loop env usec req st =
     (if usec < 5000 then usec_sleep_busy env (ucast usec) st
      else
        let (ret, written) = env_nanosleep env (length (nanosleeps st)) req;
            rem = (case written of None \<Rightarrow> \<lparr>ts_sec = 0, ts_nsec = 0\<rparr> | Some r \<Rightarrow> r);
            st = st\<lparr>nanosleeps := nanosleeps st @ [(req, ret)]\<rparr>
        in if ret < 0 then Some st
           else if ts_sec rem + ts_nsec rem = 0 then Some st
           else
             let usec = word_of_int (ts_sec rem * 1000000 + cdiv (ts_nsec rem) 1000)
             in if \<not> env_terminate env (length (nanosleeps st)) then sleep_loop env usec rem st else Some st)"

definition usec_sleep :: "time_env \<Rightarrow> u64 \<Rightarrow> 'a time_state_scheme \<Rightarrow> 'a time_state_scheme option" where
  "usec_sleep env usec st =
     (let sec = usec div 1000000; nsec = usec * 1000 - sec * 1000000
      in sleep_loop env usec \<lparr>ts_sec = sint sec, ts_nsec = sint nsec\<rparr> (st\<lparr>usec_sleeps := usec_sleeps st @ [usec]\<rparr>))"

section \<open>Pacing a job\<close>

text \<open>The rate state of a job (\<^verbatim>\<open>struct thread_data\<close>); \<open>rate_pending_usleep\<close> is a \<^verbatim>\<open>long\<close>, read with
  \<^const>\<open>sint\<close>.\<close>

record rate_state = time_state +
  rate :: u32
  ratemin :: u32
  ratecycle :: u32
  rate_usec_cycle :: u64
  rate_pending_usleep :: u64
  min_bs :: "u32 list"

text \<open>The microseconds \<open>bytes\<close> may take, and the throttle; \<^const>\<open>None\<close> also stands for the division by a
  zero block size.\<close>

definition usec_cycle :: "'a rate_state_scheme \<Rightarrow> u32 \<Rightarrow> nat \<Rightarrow> u64" where
  "usec_cycle td bytes ddir = rate_usec_cycle td * ucast (bytes div (min_bs td ! ddir))"

definition rate_throttle ::
  "time_env \<Rightarrow> u64 \<Rightarrow> u32 \<Rightarrow> nat \<Rightarrow> 'a rate_state_scheme \<Rightarrow> 'a rate_state_scheme option" where
  "rate_throttle env time_spent bytes ddir td =
     (if rate td = 0 then Some td
      else if min_bs td ! ddir = 0 then None
      else
        let cycle = usec_cycle td bytes ddir in
        if time_spent < cycle
        then let s = cycle - time_spent; td = td\<lparr>rate_pending_usleep := rate_pending_usleep td + s\<rparr>
             in if sint (rate_pending_usleep td) \<ge> 100000
                then map_option (\<lambda>td. td\<lparr>rate_pending_usleep := 0\<rparr>) (usec_sleep env (rate_pending_usleep td) td)
                else Some td
        else Some (td\<lparr>rate_pending_usleep := rate_pending_usleep td - (time_spent - cycle)\<rparr>))"

text \<open>\<^verbatim>\<open>setup_rate\<close> of \<^verbatim>\<open>log.c\<close>: an error of its own, or \<^const>\<open>None\<close> for a division by zero.  The number of
  blocks per second is an \<^verbatim>\<open>int\<close>, computed from an unsigned product that wraps around.\<close>

definition setup_rate :: "'a rate_state_scheme \<Rightarrow> (int \<times> 'a rate_state_scheme) option" where
  "setup_rate td =
     (if rate td = 0 then Some (0, td)
      else if rate td < ratemin td then Some (-1, td)
      else if min_bs td ! 0 = 0 then None
      else
        let nr_reads_per_sec = (rate td * 1024) div (min_bs td ! 0)
        in if nr_reads_per_sec = 0 then None
           else Some (0, td\<lparr>rate_usec_cycle := word_of_int (cdiv 1000000 (sint nr_reads_per_sec)),
                            rate_pending_usleep := 0\<rparr>))"

section \<open>Rounding\<close>

lemma excess_bits_small: "a < 2 ^ 53 \<Longrightarrow> excess_bits f a = 0"
  by (cases f) simp_all

lemma rnd53_nat_exact: "a < 2 ^ 53 \<Longrightarrow> rnd53_nat a = a"
  by (simp add: rnd53_nat_def excess_bits_small)

lemma rnd53_exact: "\<bar>n\<bar> < 2 ^ 53 \<Longrightarrow> rnd53 n = n"
proof -
  assume "\<bar>n\<bar> < 2 ^ 53"
  then have "nat \<bar>n\<bar> < nat (2 ^ 53)"
    by (subst nat_less_eq_zless) simp_all
  then have "nat \<bar>n\<bar> < 2 ^ 53" by (simp add: nat_power_eq)
  then have "rnd53 n = sgn n * int (nat \<bar>n\<bar>)" by (simp only: rnd53_def rnd53_nat_exact)
  then show ?thesis by (simp add: sgn_mult_abs)
qed

section \<open>The differences are the elapsed time\<close>

text \<open>A time in microseconds.\<close>

definition usecs :: "timeval \<Rightarrow> int" where
  "usecs t = tv_sec t * 1000000 + tv_usec t"

definition tv_ok :: "timeval \<Rightarrow> bool" where
  "tv_ok t \<longleftrightarrow> 0 \<le> tv_usec t \<and> tv_usec t < 1000000"

lemma tv_diff_later:
  assumes "tv_ok s" "tv_ok e" "usecs s \<le> usecs e" "tv_diff s e = (sec, usec)"
  shows "0 \<le> sec" "0 \<le> usec" "usec < 1000000" "sec * 1000000 + usec = usecs e - usecs s"
  using assms by (auto simp: tv_diff_def Let_def tv_ok_def usecs_def split: if_splits)

lemma utime_since_elapsed:
  assumes s: "tv_ok s" and e: "tv_ok e" and le: "usecs s \<le> usecs e" and small: "usecs e - usecs s < 2 ^ 53"
  shows "uint (utime_since s e) = usecs e - usecs s"
proof -
  obtain sec usec where d: "tv_diff s e = (sec, usec)" by fastforce
  note f = tv_diff_later [OF s e le d]
  have b: "sec * 1000000 < 2 ^ 53" "sec < 2 ^ 53" using f small by simp_all
  have a: "\<bar>sec\<bar> < 2 ^ 53" "\<bar>sec * 1000000\<bar> < 2 ^ 53"
    using b f(1) by (simp_all add: abs_mult)
  define D where "D = usecs e - usecs s"
  have "utime_since s e = word_of_int D"
    unfolding utime_since_def d D_def by (simp only: Let_def prod.case rnd53_exact [OF a(1)] rnd53_exact [OF a(2)] f(4))
  moreover have "0 \<le> D" "D < 2 ^ 64" using le small by (simp_all add: D_def)
  ultimately show ?thesis by (simp add: uint_word_of_int D_def [symmetric])
qed

lemma mtime_since_elapsed:
  assumes s: "tv_ok s" and e: "tv_ok e" and le: "usecs s \<le> usecs e" and small: "usecs e - usecs s < 2 ^ 53"
  shows "uint (mtime_since s e) = (usecs e - usecs s) div 1000"
proof -
  obtain sec usec where d: "tv_diff s e = (sec, usec)" by fastforce
  note f = tv_diff_later [OF s e le d]
  have b: "sec * 1000 < 2 ^ 53" "sec < 2 ^ 53" using f small by simp_all
  have a: "\<bar>sec\<bar> < 2 ^ 53" "\<bar>sec * 1000\<bar> < 2 ^ 53"
    using b f(1) by (simp_all add: abs_mult)
  have "mtime_since s e = word_of_int (sec * 1000 + usec div 1000)"
    unfolding mtime_since_def d
    using f(2) by (simp add: Let_def rnd53_exact [OF a(1)] rnd53_exact [OF a(2)])
  also have "sec * 1000 + usec div 1000 = (usecs e - usecs s) div 1000"
    by (simp flip: f(4))
  finally have w: "mtime_since s e = word_of_int ((usecs e - usecs s) div 1000)" .
  define D where "D = (usecs e - usecs s) div 1000"
  have "0 \<le> D" "D < 2 ^ 64" using le small by (simp_all add: D_def)
  then show ?thesis unfolding w by (simp add: uint_word_of_int D_def [symmetric])
qed

section \<open>The table of callers counts\<close>

definition gtod_calls :: "gtod_table \<Rightarrow> u64 \<Rightarrow> u64" where
  "gtod_calls t c = (case find_hash t c of None \<Rightarrow> 0 | Some i \<Rightarrow> calls (gtod_hash t ! gtod_bucket c ! i))"

definition gtod_ok :: "gtod_table \<Rightarrow> bool" where
  "gtod_ok t \<longleftrightarrow> gtod_inited t \<and> length (gtod_hash t) = HASH_SIZE"

lemma gtod_bucket_less: "gtod_bucket c < HASH_SIZE"
  using drop_bit_less [of 8 "c * GOLDEN_RATIO_PRIME"]
  by (simp add: gtod_bucket_def hash_ptr_def hash_long_mult)

lemma find_chain_callers: "map caller xs = map caller ys \<Longrightarrow> find_chain c xs = find_chain c ys"
proof (induction xs arbitrary: ys)
  case (Cons x xs)
  then show ?case by (cases ys) auto
qed simp

lemma find_chain_Some: "find_chain c xs = Some i \<Longrightarrow> i < length xs \<and> caller (xs ! i) = c"
  by (induction xs arbitrary: i) (auto split: if_splits)

lemma find_chain_None: "find_chain c xs = None \<Longrightarrow> find_chain c (xs @ [y]) = (if caller y = c then Some (length xs) else None)"
  by (induction xs) (auto split: if_splits)

lemma find_chain_Some_append: "find_chain c xs = Some i \<Longrightarrow> find_chain c (xs @ ys) = Some i"
  by (induction xs arbitrary: i) (auto split: if_splits)

text \<open>One call is one more on the caller's own count.\<close>

lemma gtod_calls_step:
  assumes ok: "gtod_ok t"
  shows "gtod_calls (gtod_log_caller c t) d = gtod_calls t d + (if c = d then 1 else 0)"
proof -
  let ?h = "gtod_bucket c"
  have h: "?h < length (gtod_hash t)" and i: "gtod_inited t"
    using ok gtod_bucket_less by (auto simp: gtod_ok_def)
  define chain where "chain = gtod_hash t ! ?h"
  define chain' where "chain' = (case find_chain c chain of Some i \<Rightarrow> chain | None \<Rightarrow> chain @ [\<lparr>caller = c, calls = 0\<rparr>])"
  define k where "k = (case find_chain c chain of Some i \<Rightarrow> i | None \<Rightarrow> length chain)"
  define new where "new = chain'[k := (chain' ! k)\<lparr>calls := calls (chain' ! k) + 1\<rparr>]"
  have step: "gtod_hash (gtod_log_caller c t) = (gtod_hash t)[?h := new]"
    using h i by (auto simp: gtod_log_caller_def find_log_def find_hash_def Let_def new_def chain'_def k_def chain_def
        split: option.splits)
  show ?thesis
  proof (cases "gtod_bucket d = ?h")
    case False
    then show ?thesis by (auto simp: gtod_calls_def find_hash_def step split: option.splits)
  next
    case True
    have k: "k < length chain'" "caller (chain' ! k) = c" "find_chain c chain' = Some k"
      by (auto simp: k_def chain'_def find_chain_None split: option.splits dest: find_chain_Some)
    have same: "find_chain e new = find_chain e chain'" for e
      by (rule find_chain_callers) (simp add: new_def map_update k list_update_same_conv)
    show ?thesis
    proof (cases "c = d")
      case True
      have "calls (chain' ! k) = gtod_calls t c"
        by (auto simp: gtod_calls_def find_hash_def chain'_def k_def chain_def [symmetric] split: option.splits dest: find_chain_Some)
      moreover have "gtod_calls (gtod_log_caller c t) c = calls (new ! k)"
        using h k same [of c] by (simp add: gtod_calls_def find_hash_def step)
      moreover have "calls (new ! k) = calls (chain' ! k) + 1" using k by (simp add: new_def)
      ultimately show ?thesis using True by simp
    next
      case False
      have "find_chain d chain' = find_chain d chain"
        by (cases "find_chain d chain")
          (use False in \<open>auto simp: chain'_def find_chain_None find_chain_Some_append split: option.splits\<close>)
      moreover have "j \<noteq> k" if "find_chain d chain = Some j" for j
        using find_chain_Some [OF that] k False
        by (auto simp: k_def chain'_def split: option.splits dest!: find_chain_Some)
      ultimately show ?thesis using False h True k same [of d]
        by (auto simp: gtod_calls_def find_hash_def step chain_def [symmetric] new_def chain'_def nth_append
            split: option.splits dest: find_chain_Some)
    qed
  qed
qed

lemma foldl_calls: "foldl (\<lambda>n l. n + calls l) a ls = a + sum_list (map calls ls)"
  by (induction ls arbitrary: a) (simp_all add: add.assoc)

lemma sum_list_update_word: "i < length xs \<Longrightarrow> sum_list (xs[i := v]) = sum_list xs - xs ! i + (v :: 'a::len word)"
  by (induction xs arbitrary: i) (auto split: nat.splits simp: nth_Cons algebra_simps)

lemma sum_list_concat_word: "sum_list (concat xss) = sum_list (map sum_list (xss :: 'a::len word list list))"
  by (induction xss) simp_all

lemma gtod_total_step:
  assumes ok: "gtod_ok t"
  shows "snd (fio_dump_gtod (gtod_log_caller c t)) = snd (fio_dump_gtod t) + 1"
proof -
  let ?h = "gtod_bucket c"
  have h: "?h < length (gtod_hash t)" and i: "gtod_inited t"
    using ok gtod_bucket_less by (auto simp: gtod_ok_def)
  have total: "snd (fio_dump_gtod u) = sum_list (map (\<lambda>ch. sum_list (map calls ch)) (gtod_hash u))" for u
    by (simp add: fio_dump_gtod_def Let_def foldl_calls map_concat sum_list_concat_word comp_def)
  show ?thesis
  proof (cases "find_chain c (gtod_hash t ! ?h)")
    case None
    then show ?thesis using h i
      by (simp add: total gtod_log_caller_def find_log_def find_hash_def Let_def map_update sum_list_update_word)
  next
    case (Some j)
    with find_chain_Some [OF this] show ?thesis using h i
      by (simp add: total gtod_log_caller_def find_log_def find_hash_def Let_def map_update sum_list_update_word)
  qed
qed

lemma gtod_ok_step: "gtod_ok t \<Longrightarrow> gtod_ok (gtod_log_caller c t)"
  by (auto simp: gtod_ok_def gtod_log_caller_def find_log_def Let_def split: option.splits)

lemma gtod_run:
  "gtod_ok t \<Longrightarrow> gtod_calls (fold gtod_log_caller cs t) d = gtod_calls t d + of_nat (count_list cs d)
     \<and> snd (fio_dump_gtod (fold gtod_log_caller cs t)) = snd (fio_dump_gtod t) + of_nat (length cs)"
  by (induction cs arbitrary: t) (simp_all add: gtod_calls_step gtod_total_step gtod_ok_step)

lemma gtod_init_empty: "gtod_ok gtod_init" "gtod_calls gtod_init d = 0" "snd (fio_dump_gtod gtod_init) = 0"
  using gtod_bucket_less [of d]
  by (simp_all add: gtod_ok_def gtod_init_def gtod_calls_def find_hash_def fio_dump_gtod_def)

section \<open>Sleeping and pacing\<close>

text \<open>What POSIX says of \<^verbatim>\<open>nanosleep\<close> when no signal arrives: a nanosecond count outside a second is
  refused, any other request is slept.\<close>

definition posix_nanosleep :: "time_env \<Rightarrow> bool" where
  "posix_nanosleep env \<longleftrightarrow>
     (\<forall>n req. env_nanosleep env n req = (if 0 \<le> ts_nsec req \<and> ts_nsec req < 1000000000 then (0, None) else (-1, None)))"

lemma usec_sleep_once:
  assumes posix: "posix_nanosleep env" and long: "5000 \<le> usec"
  shows "\<exists>req ret. usec_sleep env usec st
      = Some (st\<lparr>usec_sleeps := usec_sleeps st @ [usec], nanosleeps := nanosleeps st @ [(req, ret)]\<rparr>)
    \<and> req = \<lparr>ts_sec = sint (usec div 1000000), ts_nsec = sint (usec * 1000 - usec div 1000000 * 1000000)\<rparr>
    \<and> ret = (if 0 \<le> ts_nsec req \<and> ts_nsec req < 1000000000 then 0 else -1)"
proof -
  have "\<not> usec < 5000" using long by (simp add: not_less)
  then show ?thesis
    using posix by (simp add: usec_sleep_def posix_nanosleep_def Let_def sleep_loop.simps split: prod.splits)
qed

text \<open>The request as numbers.\<close>

lemma usec_request:
  fixes usec :: u64
  assumes small: "unat usec < 2 ^ 53"
  shows "sint (usec div 1000000) = int (unat usec div 1000000)"
    and "sint (usec * 1000 - usec div 1000000 * 1000000) = int (unat usec * 1000 - unat usec div 1000000 * 1000000)"
proof -
  define q where "q = usec div 1000000"
  have q: "unat q = unat usec div 1000000" by (simp add: q_def unat_div)
  have qs: "unat q * 1000000 \<le> unat usec" by (simp add: q)
  have "unat q < 2 ^ 63" using small by (simp add: q)
  then show "sint (usec div 1000000) = int (unat usec div 1000000)"
    using sint_small [of q] q by (simp flip: q_def)
  have m: "unat (usec * 1000) = unat usec * 1000" using small by (simp add: unat_word_ariths)
  have n: "unat (q * 1000000) = unat q * 1000000" using qs small by (simp add: unat_word_ariths)
  have d: "unat (usec * 1000 - q * 1000000) = unat usec * 1000 - unat q * 1000000"
    using m n qs by (subst unat_sub) (simp_all add: word_le_nat_alt)
  then show "sint (usec * 1000 - usec div 1000000 * 1000000) = int (unat usec * 1000 - unat usec div 1000000 * 1000000)"
    using small q unfolding q_def [symmetric] by (subst sint_small) simp_all
qed

text \<open>A throttled job: what it slept and what is still pending.\<close>

definition keeps_rate :: "'a rate_state_scheme \<Rightarrow> 'a rate_state_scheme \<Rightarrow> bool" where
  "keeps_rate st st' \<longleftrightarrow> usec_sleeps st' = usec_sleeps st \<and> rate_pending_usleep st' = rate_pending_usleep st
     \<and> rate_usec_cycle st' = rate_usec_cycle st \<and> min_bs st' = min_bs st \<and> rate st' = rate st
     \<and> rate_state.more st' = rate_state.more st"

lemma gettime_keeps_rate: "fio_gettime env st = (t, st') \<Longrightarrow> keeps_rate st st'"
  by (auto simp: fio_gettime_def keeps_rate_def Let_def split: if_splits option.splits)

lemma keeps_rate_trans: "keeps_rate a b \<Longrightarrow> keeps_rate b c \<Longrightarrow> keeps_rate a c"
  by (simp add: keeps_rate_def)

lemma busy_wait_keeps_rate: "busy_wait env start usec st = Some st' \<Longrightarrow> keeps_rate st st'"
  for st :: "'a rate_state_scheme"
proof (rule busy_wait.raw_induct [where P = "\<lambda>_ _ _ (st :: 'a rate_state_scheme) st'. keeps_rate st st'", rotated])
  fix self env start usec and st st' :: "'a rate_state_scheme"
  assume IH: "\<And>start usec st b y. self start usec st b = Some y \<Longrightarrow> keeps_rate b y"
    and body: "(let (d, st) = utime_since_now env start st
      in if d < ucast usec then self env start usec st else Some st) = Some st'"
  obtain t st1 where g: "fio_gettime env st = (t, st1)" by fastforce
  from body IH gettime_keeps_rate [OF g] show "keeps_rate st st'"
    by (auto simp: utime_since_now_def g Let_def intro: keeps_rate_trans split: if_splits)
qed

lemma sleep_loop_keeps_rate: "sleep_loop env usec req st = Some st' \<Longrightarrow> keeps_rate st st'"
  for st :: "'a rate_state_scheme"
proof (rule sleep_loop.raw_induct [where P = "\<lambda>_ _ _ (st :: 'a rate_state_scheme) st'. keeps_rate st st'", rotated], assumption, goal_cases)
  case (1 self env usec req st st')
  show ?case
  proof (cases "usec < 5000")
    case True
    obtain t st1 where g: "fio_gettime env st = (t, st1)" by fastforce
    from True 1 gettime_keeps_rate [OF g] show ?thesis
      by (auto simp: usec_sleep_busy_def g Let_def dest!: busy_wait_keeps_rate intro: keeps_rate_trans)
  next
    case False
    have k: "keeps_rate st (st\<lparr>nanosleeps := x\<rparr>)" for x by (simp add: keeps_rate_def)
    from k [THEN keeps_rate_trans] k False 1 show ?thesis
      by (auto simp: Let_def split: if_splits option.splits prod.splits) blast
  qed
qed

lemma usec_sleep_rate:
  assumes "usec_sleep env usec st = Some st'"
  shows "usec_sleeps st' = usec_sleeps st @ [usec]" "rate_usec_cycle st' = rate_usec_cycle st"
    "min_bs st' = min_bs st" "rate st' = rate st" "rate_pending_usleep st' = rate_pending_usleep st"
    "rate_state.more st' = rate_state.more st"
  using sleep_loop_keeps_rate [of env usec _ "st\<lparr>usec_sleeps := usec_sleeps st @ [usec]\<rparr>" st'] assms
  by (auto simp: usec_sleep_def Let_def keeps_rate_def)

text \<open>One call moves its balance, the cycle less the time spent, into the pending sleep or a sleep.\<close>

lemma rate_throttle_step:
  assumes "rate_throttle env t b d td = Some td'" "rate td \<noteq> 0"
  shows "sum_list (usec_sleeps td') + rate_pending_usleep td'
      = sum_list (usec_sleeps td) + rate_pending_usleep td + (usec_cycle td b d - t)"
    and "rate td' = rate td" "rate_usec_cycle td' = rate_usec_cycle td" "min_bs td' = min_bs td"
  using assms by (auto simp: rate_throttle_def Let_def usec_sleep_rate algebra_simps split: if_splits)

fun throttle_all :: "time_env \<Rightarrow> (u64 \<times> u32 \<times> nat) list \<Rightarrow> 'a rate_state_scheme \<Rightarrow> 'a rate_state_scheme option" where
  "throttle_all env [] td = Some td"
| "throttle_all env ((t, b, d) # ios) td = Option.bind (rate_throttle env t b d td) (throttle_all env ios)"

lemma throttle_all_balance:
  "throttle_all env ios td = Some td' \<Longrightarrow> rate td \<noteq> 0 \<Longrightarrow>
     sum_list (usec_sleeps td') + rate_pending_usleep td'
   = sum_list (usec_sleeps td) + rate_pending_usleep td + sum_list (map (\<lambda>(t, b, d). usec_cycle td b d - t) ios)"
proof (induction ios arbitrary: td)
  case (Cons io ios)
  obtain t b d where io: "io = (t, b, d)" by (cases io)
  from Cons.prems io obtain td1 where td1: "rate_throttle env t b d td = Some td1" "throttle_all env ios td1 = Some td'"
    by (auto split: bind_splits)
  note step = rate_throttle_step [OF td1(1) Cons.prems(2)]
  have "usec_cycle td1 = usec_cycle td"
    by (rule ext)+ (simp add: usec_cycle_def step)
  then show ?case
    using Cons.IH [OF td1(2)] Cons.prems(2) step(1,2) io by (simp add: algebra_simps)
qed simp

section \<open>Properties\<close>

text \<open>For well-formed times in order, \<^verbatim>\<open>utime_since\<close> is the elapsed time in microseconds and
  \<^verbatim>\<open>mtime_since\<close> in whole milliseconds, although the code goes through floating point and a borrow.\<close>

theorem time_since_elapsed:
  assumes "tv_ok s" "tv_ok e" "usecs s \<le> usecs e" "usecs e - usecs s < 2 ^ 53"
  shows "uint (utime_since s e) = usecs e - usecs s" "uint (mtime_since s e) = (usecs e - usecs s) div 1000"
  using utime_since_elapsed [OF assms] mtime_since_elapsed [OF assms] by blast+

theorem time_since_elapsed_witness:
  "uint (utime_since \<lparr>tv_sec = 1, tv_usec = 900000\<rparr> \<lparr>tv_sec = 3, tv_usec = 100500\<rparr>) = 1200500"
  "uint (mtime_since \<lparr>tv_sec = 1, tv_usec = 900000\<rparr> \<lparr>tv_sec = 3, tv_usec = 100500\<rparr>) = 1200"
  using time_since_elapsed [of "\<lparr>tv_sec = 1, tv_usec = 900000\<rparr>" "\<lparr>tv_sec = 3, tv_usec = 100500\<rparr>"]
  by (simp_all add: tv_ok_def usecs_def)

text \<open>For every sequence of callers the table of clock callers counts each of them, whatever their
  addresses hash to, and the total printed at exit is the number of calls.\<close>

theorem gtod_table_counts:
  "gtod_calls (fold gtod_log_caller cs gtod_init) c = of_nat (count_list cs c)
   \<and> snd (fio_dump_gtod (fold gtod_log_caller cs gtod_init)) = of_nat (length cs)"
  using gtod_run [of gtod_init cs c] by (simp add: gtod_init_empty)

text \<open>Pacing loses nothing.  Over any sequence of throttled I/Os the sleeps requested and the pending
  sleep together are the time the blocks should have taken less the time spent (as unsigned 64-bit
  numbers).\<close>

theorem rate_throttle_balance:
  assumes "throttle_all env ios td = Some td'" "rate td \<noteq> 0"
  shows "sum_list (usec_sleeps td') + rate_pending_usleep td'
       = sum_list (usec_sleeps td) + rate_pending_usleep td + sum_list (map (\<lambda>(t, b, d). usec_cycle td b d - t) ios)"
  by (rule throttle_all_balance [OF assms])

text \<open>The environment and the job the witnesses use.\<close>

definition posix_env :: time_env where
  "posix_env = \<lparr>env_clock_gettime = (\<lambda>n. Some \<lparr>ts_sec = int n, ts_nsec = 0\<rparr>), env_clock_getres = True,
     env_gettimeofday = (\<lambda>n. \<lparr>tv_sec = int n, tv_usec = 0\<rparr>),
     env_nanosleep = (\<lambda>n req. if 0 \<le> ts_nsec req \<and> ts_nsec req < 1000000000 then (0, None) else (-1, None)),
     env_terminate = (\<lambda>n. False)\<rparr>"

definition paced_job :: rate_state where
  "paced_job = \<lparr>clock_gettime_works = True, clock_reads = 0, nanosleeps = [], usec_sleeps = [],
     rate = 4000, ratemin = 0, ratecycle = 1000, rate_usec_cycle = 1000, rate_pending_usleep = 99500, min_bs = [4096, 4096]\<rparr>"

theorem rate_throttle_balance_witness:
  "\<exists>td'. throttle_all posix_env [(200, 4096, 0), (1500, 4096, 0)] paced_job = Some td'
     \<and> sum_list (usec_sleeps td') + rate_pending_usleep td' = 99500 + (1000 - 200) + (1000 - 1500)"
proof -
  have run: "\<exists>td'. throttle_all posix_env [(200, 4096, 0), (1500, 4096, 0)] paced_job = Some td'"
    by (simp add: paced_job_def posix_env_def rate_throttle_def usec_cycle_def usec_sleep_def Let_def sleep_loop.simps)
  then obtain td' where td': "throttle_all posix_env [(200, 4096, 0), (1500, 4096, 0)] paced_job = Some td'" by blast
  moreover have "rate paced_job \<noteq> 0" by (simp add: paced_job_def)
  ultimately show ?thesis
    using rate_throttle_balance [OF td'] by (simp add: paced_job_def usec_cycle_def)
qed

text \<open>With a POSIX \<^verbatim>\<open>nanosleep\<close> a sleep of five milliseconds to a second is one request of exactly
  that long, but the nanoseconds of a longer one are computed with a factor of 10^6 instead of 10^9
  for the seconds already counted: from 1.001 seconds the request is refused and nothing is slept.\<close>

theorem usec_sleep_over_a_second:
  assumes posix: "posix_nanosleep env" and long: "5000 \<le> usec" and small: "unat usec < 2 ^ 53"
  shows "\<exists>req ret. usec_sleep env usec st
      = Some (st\<lparr>usec_sleeps := usec_sleeps st @ [usec], nanosleeps := nanosleeps st @ [(req, ret)]\<rparr>)
    \<and> (ts_sec req * 1000000000 + ts_nsec req = int (unat usec) * 1000 \<longleftrightarrow> unat usec < 1000000)
    \<and> (ret = 0 \<longleftrightarrow> unat usec < 1001000)"
proof -
  obtain req ret where r: "usec_sleep env usec st
      = Some (st\<lparr>usec_sleeps := usec_sleeps st @ [usec], nanosleeps := nanosleeps st @ [(req, ret)]\<rparr>)"
    "req = \<lparr>ts_sec = int (unat usec div 1000000), ts_nsec = int (unat usec * 1000 - unat usec div 1000000 * 1000000)\<rparr>"
    "ret = (if 0 \<le> ts_nsec req \<and> ts_nsec req < 1000000000 then 0 else -1)"
    using usec_sleep_once [OF posix long, of st] usec_request [OF small] by auto
  define n q r where "n = unat usec" and "q = n div 1000000" and "r = n mod 1000000"
  have n: "n = q * 1000000 + r" "r < 1000000" by (simp_all add: q_def r_def)
  have req: "req = \<lparr>ts_sec = int q, ts_nsec = int q * 999000000 + int r * 1000\<rparr>"
    unfolding r(2) n_def [symmetric] q_def [symmetric] using n by (simp add: of_nat_diff)
  have "ts_sec req * 1000000000 + ts_nsec req = int n * 1000 \<longleftrightarrow> n < 1000000"
    unfolding req using n by (cases q) simp_all
  moreover have "int q * 999000000 + int r * 1000 < 1000000000 \<longleftrightarrow> n < 1001000"
  proof (cases "q < 2")
    case True
    then have "q = 0 \<or> q = 1" by auto
    with n show ?thesis by auto
  next
    case False
    then have "2 \<le> int q" "2 \<le> q" by simp_all
    with n show ?thesis by (simp add: not_less)
  qed
  then have "ret = 0 \<longleftrightarrow> n < 1001000" unfolding r(3) unfolding req by simp
  ultimately show ?thesis using r(1) unfolding n_def by blast
qed

theorem usec_sleep_over_a_second_witness:
  "\<exists>req ret. usec_sleep posix_env 2000000 paced_job
      = Some (paced_job\<lparr>usec_sleeps := usec_sleeps paced_job @ [2000000], nanosleeps := nanosleeps paced_job @ [(req, ret)]\<rparr>)
    \<and> ts_sec req * 1000000000 + ts_nsec req \<noteq> 2000000000 \<and> ret \<noteq> 0"
proof -
  have "posix_nanosleep posix_env" by (simp add: posix_nanosleep_def posix_env_def)
  from usec_sleep_over_a_second [OF this, of 2000000 paced_job] show ?thesis by simp
qed

end
