(* ===== verification/FioData.thy ===== *)
theory FioData
  imports FioTime
begin

text \<open>
  The data of a fio job (\<^verbatim>\<open>fio.h\<close>): the I/O unit, the file with its map of blocks done, the samples and
  the state of a job, with the fields the modelled code uses.  A job extends its clock and rate state.
  I/O units and files are referred to by their index; a \<^verbatim>\<open>list_head\<close> is the list of the members in
  order.  A random generator is the number of values drawn from it so far.
\<close>

datatype fio_ddir = DDIR_READ | DDIR_WRITE | DDIR_SYNC

fun ddir_nr :: "fio_ddir \<Rightarrow> nat" where
  "ddir_nr DDIR_READ = 0" | "ddir_nr DDIR_WRITE = 1" | "ddir_nr DDIR_SYNC = 2"

text \<open>What stops a job besides the errors it reports.\<close>

datatype fio_fault = OutOfBounds | AssertFailed | DivisionByZero | NullPointer

record io_stat =
  is_val :: u64
  val_sq :: u64
  max_val :: u64
  min_val :: u64
  samples :: u64

record io_sample =
  sample_time :: u64
  sample_val :: u64
  sample_ddir :: fio_ddir

text \<open>The array of samples: \<^const>\<open>None\<close> is allocated and not written yet.\<close>

record io_log =
  nr_samples :: u64
  max_samples :: u64
  log_array :: "io_sample option list"

record io_piece =
  ipo_file :: "nat option"
  ipo_offset :: u64
  ipo_len :: u32
  ipo_ddir :: "fio_ddir option"  \<comment> \<open>\<^const>\<open>None\<close>: not initialised\<close>

record io_u =
  start_time :: timeval
  issue_time :: timeval
  io_buf :: "u8 list"
  buflen :: u32
  offset :: u64
  resid :: u32
  io_error :: u32
  ddir :: fio_ddir
  io_file :: "nat option"

record fio_file =
  file_size :: u64
  real_file_size :: u64
  file_offset :: u64
  last_pos :: u64
  last_completed_pos :: u64
  file_map :: "u64 list"  \<comment> \<open>\<open>num_maps\<close> words\<close>

record thread_data = rate_state +
  td_ddir :: fio_ddir
  iomix :: u32
  last_was_sync :: bool
  sequential :: bool
  odirect :: bool
  td_verify :: u32
  override_sync :: bool
  norandommap :: bool
  bs_unaligned :: bool
  overwrite :: bool
  max_bs :: "u32 list"
  rw_min_bs :: u32
  fsync_blocks :: u32
  bw_avg_time :: u32
  zone_size :: u64
  zone_skip :: u64
  use_read_iolog :: bool
  use_write_iolog :: bool
  rwmixcycle :: u32
  rwmixread :: u32
  rawio :: bool  \<comment> \<open>\<^verbatim>\<open>io_ops->flags & FIO_RAWIO\<close>\<close>
  bsrange_state :: nat
  verify_state :: nat
  random_state :: nat
  rwmix_state :: nat
  cur_depth :: u32
  io_us :: "io_u list"
  io_u_freelist :: "nat list"
  io_u_busylist :: "nat list"
  files :: "fio_file list"
  io_size :: u64
  io_blocks :: "u64 list"
  io_bytes :: "u64 list"
  zone_bytes :: u64
  this_io_bytes :: "u64 list"
  clat_stat :: "io_stat list"
  slat_stat :: "io_stat list"
  bw_stat :: "io_stat list"
  stat_io_bytes :: "u64 list"
  stat_sample_time :: "timeval list"
  slat_log :: "io_log option"
  clat_log :: "io_log option"
  bw_log :: "io_log option"
  epoch :: timeval
  rwmix_switch :: timeval
  rwmix_ddir :: fio_ddir
  io_hist_list :: "io_piece list"
  io_log_list :: "io_piece list"
  iolog_f :: "string list"  \<comment> \<open>the lines written to the I/O log\<close>

definition td_read :: "'a thread_data_scheme \<Rightarrow> bool" where "td_read td = (td_ddir td = DDIR_READ)"
definition td_write :: "'a thread_data_scheme \<Rightarrow> bool" where "td_write td = (td_ddir td = DDIR_WRITE)"
definition td_rw :: "'a thread_data_scheme \<Rightarrow> bool" where "td_rw td = (iomix td \<noteq> 0)"

definition should_fsync :: "'a thread_data_scheme \<Rightarrow> bool" where
  "should_fsync td =
     (if last_was_sync td then False
      else if odirect td then False
      else if td_write td \<or> td_rw td \<or> override_sync td then True
      else False)"

text \<open>The position of a block in the map of blocks.\<close>

abbreviation BLOCKS_PER_MAP :: u64 where "BLOCKS_PER_MAP \<equiv> 64"

definition TO_MAP_BLOCK :: "'a thread_data_scheme \<Rightarrow> fio_file \<Rightarrow> u64 \<Rightarrow> u64" where
  "TO_MAP_BLOCK td f b = b - file_offset f div ucast (rw_min_bs td)"

definition RAND_MAP_IDX :: "'a thread_data_scheme \<Rightarrow> fio_file \<Rightarrow> u64 \<Rightarrow> u64" where
  "RAND_MAP_IDX td f b = TO_MAP_BLOCK td f b div BLOCKS_PER_MAP"

definition RAND_MAP_BIT :: "'a thread_data_scheme \<Rightarrow> fio_file \<Rightarrow> u64 \<Rightarrow> u64" where
  "RAND_MAP_BIT td f b = TO_MAP_BLOCK td f b AND (BLOCKS_PER_MAP - 1)"

section \<open>A small job\<close>

text \<open>A random reader and writer of one file of eight blocks of 4 KiB with two I/O units, used to evaluate the
  operations on a concrete state.\<close>

definition demo_time :: timeval where "demo_time = \<lparr>tv_sec = 0, tv_usec = 0\<rparr>"

definition demo_stat :: io_stat where
  "demo_stat = \<lparr>is_val = 0, val_sq = 0, max_val = 0, min_val = -1, samples = 0\<rparr>"

definition demo_io_u :: io_u where
  "demo_io_u = \<lparr>start_time = demo_time, issue_time = demo_time, io_buf = [], buflen = 0, offset = 0, resid = 0,
     io_error = 0, ddir = DDIR_READ, io_file = None\<rparr>"

definition demo_file :: fio_file where
  "demo_file = \<lparr>file_size = 32768, real_file_size = 32768, file_offset = 0, last_pos = 0, last_completed_pos = 0,
     file_map = [0]\<rparr>"

definition demo_td :: thread_data where
  "demo_td = \<lparr>clock_gettime_works = True, clock_reads = 0, nanosleeps = [], usec_sleeps = [],
     rate = 0, ratemin = 0, ratecycle = 1000, rate_usec_cycle = 0, rate_pending_usleep = 0, min_bs = [4096, 4096],
     td_ddir = DDIR_WRITE, iomix = 0, last_was_sync = False, sequential = False, odirect = True, td_verify = 0,
     override_sync = False, norandommap = False, bs_unaligned = False, overwrite = True, max_bs = [4096, 4096],
     rw_min_bs = 4096, fsync_blocks = 0, bw_avg_time = 500, zone_size = 18446744073709551615, zone_skip = 0,
     use_read_iolog = False, use_write_iolog = False, rwmixcycle = 500, rwmixread = 50, rawio = False,
     bsrange_state = 0, verify_state = 0, random_state = 0, rwmix_state = 0, cur_depth = 0,
     io_us = [demo_io_u, demo_io_u], io_u_freelist = [0, 1], io_u_busylist = [], files = [demo_file], io_size = 32768,
     io_blocks = [0, 0], io_bytes = [0, 0], zone_bytes = 0, this_io_bytes = [0, 0],
     clat_stat = [demo_stat, demo_stat], slat_stat = [demo_stat, demo_stat], bw_stat = [demo_stat, demo_stat],
     stat_io_bytes = [0, 0], stat_sample_time = [demo_time, demo_time], slat_log = None, clat_log = None, bw_log = None,
     epoch = demo_time, rwmix_switch = demo_time, rwmix_ddir = DDIR_READ, io_hist_list = [], io_log_list = [], iolog_f = []\<rparr>"

end
