(* ===== verification/FioStat.thy ===== *)
theory FioStat
  imports FioData
begin

text \<open>
  The statistics of fio (\<^verbatim>\<open>stat.c\<close>, and \<^verbatim>\<open>setup_log\<close> and \<^verbatim>\<open>finish_log\<close> of \<^verbatim>\<open>log.c\<close>): latency and bandwidth
  samples, the growing sample logs, the summary of a group of jobs and the accounting of disk
  utilisation.
\<close>

section \<open>Samples\<close>

definition add_stat_sample :: "io_stat \<Rightarrow> u64 \<Rightarrow> io_stat" where
  "add_stat_sample is v =
     (let is = (if v > max_val is then is\<lparr>max_val := v\<rparr> else is);
          is = (if v < min_val is then is\<lparr>min_val := v\<rparr> else is)
      in is\<lparr>is_val := is_val is + v, val_sq := val_sq is + v * v, samples := samples is + 1\<rparr>)"

section \<open>Logs of samples\<close>

text \<open>\<^verbatim>\<open>sizeof(struct io_sample)\<close> is 24.  The new size of the array is computed as an \<^verbatim>\<open>int\<close>: a negative one
  is a request no allocator can fulfil, and the entries beyond a short one are out of bounds.\<close>

definition setup_log :: io_log where
  "setup_log = \<lparr>nr_samples = 0, max_samples = 1024, log_array = replicate 1024 None\<rparr>"

definition grow_log :: "io_log \<Rightarrow> fio_fault + io_log" where
  "grow_log l =
     (if nr_samples l = max_samples l
      then let new_size = ucast (24 * max_samples l * 2) :: u32
           in if sint new_size < 0 then Inl NullPointer
              else let n = unat new_size div 24
                   in Inr (l\<lparr>log_array := take n (log_array l) @ replicate (n - length (log_array l)) None,
                             max_samples := push_bit 1 (max_samples l)\<rparr>)
      else Inr l)"

definition add_log_sample ::
  "time_env \<Rightarrow> 'a thread_data_scheme \<Rightarrow> io_log \<Rightarrow> u64 \<Rightarrow> fio_ddir \<Rightarrow> fio_fault + io_log \<times> 'a thread_data_scheme" where
  "add_log_sample env td iolog v d =
     sbind (grow_log iolog) (\<lambda>l.
       if unat (nr_samples l) \<ge> length (log_array l) then Inl OutOfBounds
       else let (msec, td) = mtime_since_now env (epoch td) td
            in Inr (l\<lparr>log_array := (log_array l)[unat (nr_samples l) :=
                        Some \<lparr>sample_time = msec, sample_val = v, sample_ddir = d\<rparr>],
                      nr_samples := nr_samples l + 1\<rparr>, td))"

text \<open>The lines \<^verbatim>\<open>finish_log\<close> prints; reading an entry that was never written is an error.\<close>

definition finish_log :: "io_log \<Rightarrow> (u64 \<times> u64 \<times> nat) list option" where
  "finish_log l =
     (if unat (nr_samples l) > length (log_array l) \<or> None \<in> set (take (unat (nr_samples l)) (log_array l)) then None
      else Some (map (\<lambda>s. (sample_time (the s), sample_val (the s), ddir_nr (sample_ddir (the s))))
                     (take (unat (nr_samples l)) (log_array l))))"

text \<open>The optional log of a job.\<close>

definition log_sample ::
  "time_env \<Rightarrow> ('a thread_data_scheme \<Rightarrow> io_log option) \<Rightarrow> (io_log \<Rightarrow> 'a thread_data_scheme \<Rightarrow> 'a thread_data_scheme)
     \<Rightarrow> u64 \<Rightarrow> fio_ddir \<Rightarrow> 'a thread_data_scheme \<Rightarrow> fio_fault + 'a thread_data_scheme" where
  "log_sample env get set_log v d td =
     (case get td of None \<Rightarrow> Inr td
      | Some l \<Rightarrow> sbind (add_log_sample env td l v d) (\<lambda>(l, td). Inr (set_log l td)))"

definition add_clat_sample :: "time_env \<Rightarrow> fio_ddir \<Rightarrow> u64 \<Rightarrow> 'a thread_data_scheme \<Rightarrow> fio_fault + 'a thread_data_scheme" where
  "add_clat_sample env d msec td =
     (let td = td\<lparr>clat_stat := (clat_stat td)[ddir_nr d := add_stat_sample (clat_stat td ! ddir_nr d) msec]\<rparr>
      in log_sample env clat_log (\<lambda>l td. td\<lparr>clat_log := Some l\<rparr>) msec d td)"

text \<open>\<^verbatim>\<open>do_io\<close> also calls this for the unit of a sync, whose direction is outside the array.\<close>

definition add_slat_sample :: "time_env \<Rightarrow> fio_ddir \<Rightarrow> u64 \<Rightarrow> 'a thread_data_scheme \<Rightarrow> fio_fault + 'a thread_data_scheme" where
  "add_slat_sample env d msec td =
     (if ddir_nr d \<ge> length (slat_stat td) then Inl OutOfBounds
      else
      let td = td\<lparr>slat_stat := (slat_stat td)[ddir_nr d := add_stat_sample (slat_stat td ! ddir_nr d) msec]\<rparr>
      in log_sample env slat_log (\<lambda>l td. td\<lparr>slat_log := Some l\<rparr>) msec d td)"

definition add_bw_sample :: "time_env \<Rightarrow> fio_ddir \<Rightarrow> timeval \<Rightarrow> 'a thread_data_scheme \<Rightarrow> fio_fault + 'a thread_data_scheme" where
  "add_bw_sample env d t td =
     (let i = ddir_nr d; spent = mtime_since (stat_sample_time td ! i) t in
      if spent < ucast (bw_avg_time td) then Inr td
      else if spent = 0 then Inl DivisionByZero
      else
        let rate = (this_io_bytes td ! i - stat_io_bytes td ! i) div spent;
            td = td\<lparr>bw_stat := (bw_stat td)[i := add_stat_sample (bw_stat td ! i) rate]\<rparr>
        in sbind (log_sample env bw_log (\<lambda>l td. td\<lparr>bw_log := Some l\<rparr>) rate d td) (\<lambda>td.
             let (now, td) = fio_gettime env td
             in Inr (td\<lparr>stat_sample_time := (stat_sample_time td)[i := now],
                        stat_io_bytes := (stat_io_bytes td)[i := this_io_bytes td ! i]\<rparr>)))"

section \<open>The summary of a group of jobs\<close>

text \<open>One direction of \<^verbatim>\<open>group_run_stats\<close>; the code treats both directions alike.\<close>

record run_stats =
  max_run :: u64
  min_run :: u64
  max_bw :: u64
  min_bw :: u64
  io_kb :: u64
  agg :: u64

text \<open>What the summary reads of a job: its group, whether it failed, bytes and runtime per direction.\<close>

record job_result =
  groupid :: nat
  failed :: bool
  job_bytes :: "u64 list"
  runtime :: "u64 list"

definition run_stats_init :: run_stats where
  "run_stats_init = \<lparr>max_run = 0, min_run = -1, max_bw = 0, min_bw = -1, io_kb = 0, agg = 0\<rparr>"

definition run_stats_job :: "u64 \<Rightarrow> u64 \<Rightarrow> run_stats \<Rightarrow> run_stats" where
  "run_stats_job bytes run rs =
     (let bw = (if run \<noteq> 0 then bytes div run else 0)
      in rs\<lparr>min_run := (if run < min_run rs \<or> min_run rs = 0 then run else min_run rs),
            max_run := (if run > max_run rs then run else max_run rs),
            min_bw := (if bw < min_bw rs then bw else min_bw rs),
            max_bw := (if bw > max_bw rs then bw else max_bw rs),
            io_kb := io_kb rs + drop_bit 10 bytes\<rparr>)"

definition run_stats_agg :: "run_stats \<Rightarrow> run_stats" where
  "run_stats_agg rs = (if max_run rs \<noteq> 0 then rs\<lparr>agg := (io_kb rs * 1024) div max_run rs\<rparr> else rs)"

text \<open>The loop over the jobs: the statistics are indexed by group and then direction.\<close>

fun run_stats_jobs :: "job_result list \<Rightarrow> run_stats list list \<Rightarrow> run_stats list list" where
  "run_stats_jobs [] rss = rss"
| "run_stats_jobs (td # tds) rss =
     (if failed td then run_stats_jobs tds rss
      else run_stats_jobs tds
        (rss[groupid td := map2 (\<lambda>d rs. run_stats_job (job_bytes td ! d) (runtime td ! d) rs) [0, 1] (rss ! groupid td)]))"

definition show_run_stats :: "nat \<Rightarrow> job_result list \<Rightarrow> run_stats list list" where
  "show_run_stats last_groupid tds =
     map (map run_stats_agg) (run_stats_jobs tds (replicate (last_groupid + 1) [run_stats_init, run_stats_init]))"

section \<open>Disk utilisation\<close>

record disk_util_stat =
  du_ios :: "u32 \<times> u32"
  du_merges :: "u32 \<times> u32"
  du_sectors :: "u64 \<times> u64"
  du_ticks :: "u32 \<times> u32"
  du_io_ticks :: u32
  du_time_in_queue :: u32

record disk_util =
  du_path :: string
  du_dev :: u64
  du_dus :: disk_util_stat
  last_dus :: disk_util_stat
  du_msec :: u64
  du_time :: timeval

definition disk_util_zero :: disk_util_stat where
  "disk_util_zero = \<lparr>du_ios = (0, 0), du_merges = (0, 0), du_sectors = (0, 0), du_ticks = (0, 0),
     du_io_ticks = 0, du_time_in_queue = 0\<rparr>"

definition dus_add :: "disk_util_stat \<Rightarrow> disk_util_stat \<Rightarrow> disk_util_stat \<Rightarrow> disk_util_stat" where
  "dus_add dus new old =
     (let acc = (\<lambda>(a, b) (c, d) (e, f). (a + (c - e), b + (d - f)));
          acc64 = (\<lambda>(a, b) (c, d) (e, f). (a + (c - e), b + (d - f)))
      in \<lparr>du_ios = acc (du_ios dus) (du_ios new) (du_ios old),
          du_merges = acc (du_merges dus) (du_merges new) (du_merges old),
          du_sectors = acc64 (du_sectors dus) (du_sectors new) (du_sectors old),
          du_ticks = acc (du_ticks dus) (du_ticks new) (du_ticks old),
          du_io_ticks = du_io_ticks dus + (du_io_ticks new - du_io_ticks old),
          du_time_in_queue = du_time_in_queue dus + (du_time_in_queue new - du_time_in_queue old)\<rparr>)"

text \<open>\<open>read_stat\<close> is what \<^verbatim>\<open>get_io_ticks\<close> reads from the file of the disk, \<^const>\<open>None\<close> when it fails.\<close>

definition update_io_tick_disk ::
  "time_env \<Rightarrow> disk_util_stat option \<Rightarrow> disk_util \<Rightarrow> 'a time_state_scheme \<Rightarrow> disk_util \<times> 'a time_state_scheme" where
  "update_io_tick_disk env read_stat du st =
     (case read_stat of None \<Rightarrow> (du, st)
      | Some new \<Rightarrow>
          let du = du\<lparr>du_dus := dus_add (du_dus du) new (last_dus du)\<rparr>;
              (t, st) = fio_gettime env st
          in (du\<lparr>du_msec := du_msec du + mtime_since (du_time du) t, du_time := t, last_dus := new\<rparr>, st))"

fun update_io_ticks ::
  "time_env \<Rightarrow> (string \<Rightarrow> disk_util_stat option) \<Rightarrow> disk_util list \<Rightarrow> 'a time_state_scheme \<Rightarrow> disk_util list \<times> 'a time_state_scheme" where
  "update_io_ticks env reads [] st = ([], st)"
| "update_io_ticks env reads (du # dus) st =
     (let (du, st) = update_io_tick_disk env (reads (du_path du)) du st;
          (dus, st) = update_io_ticks env reads dus st
      in (du # dus, st))"

fun disk_util_exists :: "u64 \<Rightarrow> disk_util list \<Rightarrow> bool" where
  "disk_util_exists dev [] = False"
| "disk_util_exists dev (du # dus) = (if du_dev du = dev then True else disk_util_exists dev dus)"

text \<open>Of a failed first read the statistics stay as the \<^verbatim>\<open>memset\<close> left them.\<close>

definition disk_util_add ::
  "time_env \<Rightarrow> (string \<Rightarrow> disk_util_stat option) \<Rightarrow> u64 \<Rightarrow> string \<Rightarrow> disk_util list \<Rightarrow> 'a time_state_scheme
     \<Rightarrow> disk_util list \<times> 'a time_state_scheme" where
  "disk_util_add env reads dev path disk_list st =
     (let p = path @ ''/stat''; (t, st) = fio_gettime env st;
          du = \<lparr>du_path = p, du_dev = dev, du_dus = disk_util_zero,
                last_dus = (case reads p of Some s \<Rightarrow> s | None \<Rightarrow> disk_util_zero), du_msec = 0, du_time = t\<rparr>
      in (disk_list @ [du], st))"

section \<open>What the samples add up to\<close>

lemma add_stat_samples:
  "is_val (foldl add_stat_sample is vs) = is_val is + sum_list vs"
  "val_sq (foldl add_stat_sample is vs) = val_sq is + sum_list (map (\<lambda>v. v * v) vs)"
  "samples (foldl add_stat_sample is vs) = samples is + of_nat (length vs)"
  "max_val (foldl add_stat_sample is vs) = fold max vs (max_val is)"
  "min_val (foldl add_stat_sample is vs) = fold min vs (min_val is)"
  by (induction vs arbitrary: "is") (auto simp: add_stat_sample_def Let_def max_def min_def add.assoc not_le not_less dest: order.antisym order.asym)

lemma fold_max_word: "vs \<noteq> [] \<Longrightarrow> fold max vs (0 :: u64) = Max (set vs)"
proof -
  assume "vs \<noteq> []"
  then show ?thesis by (simp flip: Max.set_eq_fold)
qed

lemma fold_min_word: "vs \<noteq> [] \<Longrightarrow> fold min vs (-1 :: u64) = Min (set vs)"
proof -
  assume "vs \<noteq> []"
  then show ?thesis by (simp flip: Min.set_eq_fold)
qed

section \<open>The log keeps its samples\<close>

definition log_ok :: "io_log \<Rightarrow> (u64 \<times> fio_ddir) list \<Rightarrow> bool" where
  "log_ok l vs \<longleftrightarrow>
     (\<exists>k\<le>26. unat (max_samples l) = 2 ^ k \<and> length (log_array l) = 2 ^ k)
   \<and> unat (nr_samples l) = length vs \<and> length vs \<le> length (log_array l)
   \<and> (\<exists>ss. take (length vs) (log_array l) = map Some ss \<and> map (\<lambda>s. (sample_val s, sample_ddir s)) ss = vs)"

lemma log_ok_setup: "log_ok setup_log []"
  by (auto simp: log_ok_def setup_log_def intro: exI [of _ 10])

lemma grow_log_size:
  assumes "unat (max_samples l) = m" "m \<le> 2 ^ 25"
  shows "unat (ucast (24 * max_samples l * 2) :: u32) = 48 * m"
    and "sint (ucast (24 * max_samples l * 2) :: u32) = 48 * int m"
    and "unat (push_bit 1 (max_samples l)) = 2 * m"
proof -
  have u: "unat (24 * max_samples l * 2) = 48 * m"
    using assms by (simp add: unat_word_ariths)
  then show v: "unat (ucast (24 * max_samples l * 2) :: u32) = 48 * m"
    using assms by (simp add: unat_ucast_mod)
  show "sint (ucast (24 * max_samples l * 2) :: u32) = 48 * int m"
    using v assms by (subst sint_small) simp_all
  show "unat (push_bit 1 (max_samples l)) = 2 * m"
    using assms by (simp add: push_bit_eq_mult unat_word_ariths)
qed

lemma grow_log_ok:
  assumes ok: "log_ok l vs" and room: "length vs < 2 ^ 26"
  shows "\<exists>l'. grow_log l = Inr l' \<and> log_ok l' vs \<and> length vs < length (log_array l')"
proof (cases "nr_samples l = max_samples l")
  case False
  from ok obtain k where k: "unat (max_samples l) = 2 ^ k" "length (log_array l) = 2 ^ k"
    and n: "unat (nr_samples l) = length vs" "length vs \<le> length (log_array l)"
    by (auto simp: log_ok_def)
  from False have "unat (nr_samples l) \<noteq> unat (max_samples l)" by (simp add: word_unat_eq_iff)
  with k n ok show ?thesis using False by (simp add: grow_log_def)
next
  case True
  from ok obtain k ss where k: "k \<le> 26" "unat (max_samples l) = 2 ^ k" "length (log_array l) = 2 ^ k"
    and n: "unat (nr_samples l) = length vs" "length vs \<le> length (log_array l)"
    and ss: "take (length vs) (log_array l) = map Some ss" "map (\<lambda>s. (sample_val s, sample_ddir s)) ss = vs"
    by (auto simp: log_ok_def)
  have full: "length vs = 2 ^ k" using n True k by simp
  have less: "k < 26" using full room k(1) by (cases "k = 26") simp_all
  then have m: "(2::nat) ^ k \<le> 2 ^ 25" by (intro power_increasing) simp_all
  note size = grow_log_size [OF k(2) m]
  define l' where "l' = l\<lparr>log_array := log_array l @ replicate (2 ^ k) None, max_samples := push_bit 1 (max_samples l)\<rparr>"
  have "grow_log l = Inr l'"
    using True size k(3) by (simp add: grow_log_def Let_def l'_def)
  moreover have "log_ok l' vs"
    unfolding log_ok_def using less k(2,3) n ss size(3) by (auto simp: l'_def intro!: exI [of _ "Suc k"])
  moreover have "length vs < length (log_array l')"
    using full k(3) by (simp add: l'_def)
  ultimately show ?thesis by blast
qed

lemma add_log_sample_ok:
  assumes ok: "log_ok l vs" and room: "length vs < 2 ^ 26"
  shows "\<exists>l' td'. add_log_sample env td l v d = Inr (l', td') \<and> log_ok l' (vs @ [(v, d)])"
proof -
  obtain l1 where g: "grow_log l = Inr l1" and ok1: "log_ok l1 vs" and len: "length vs < length (log_array l1)"
    using grow_log_ok [OF ok room] by blast
  obtain msec td' where t: "mtime_since_now env (epoch td) td = (msec, td')" by fastforce
  from ok1 obtain k ss where k: "k \<le> 26" "unat (max_samples l1) = 2 ^ k" "length (log_array l1) = 2 ^ k"
    and n: "unat (nr_samples l1) = length vs"
    and ss: "take (length vs) (log_array l1) = map Some ss" "map (\<lambda>s. (sample_val s, sample_ddir s)) ss = vs"
    by (auto simp: log_ok_def)
  define s where "s = \<lparr>sample_time = msec, sample_val = v, sample_ddir = d\<rparr>"
  define l' where "l' = l1\<lparr>log_array := (log_array l1)[length vs := Some s], nr_samples := nr_samples l1 + 1\<rparr>"
  have r: "add_log_sample env td l v d = Inr (l', td')"
    using len by (simp add: add_log_sample_def g n t l'_def s_def not_le)
  have "unat (nr_samples l1 + 1) = Suc (length vs)"
    using n room by (subst unat_add_lem [THEN iffD1]) simp_all
  moreover have "take (Suc (length vs)) (log_array l') = map Some (ss @ [s])"
    using len ss(1) by (simp add: l'_def take_Suc_conv_app_nth)
  ultimately have "log_ok l' (vs @ [(v, d)])"
    unfolding log_ok_def using k ss(2) len
    by (auto simp: l'_def s_def intro!: exI [of _ k] exI [of _ "ss @ [s]"])
  with r show ?thesis by blast
qed

lemma finish_log_ok:
  assumes "log_ok l vs"
  shows "\<exists>rows. finish_log l = Some rows \<and> map (\<lambda>(t, v, d). (v, d)) rows = map (\<lambda>(v, d). (v, ddir_nr d)) vs"
proof -
  from assms obtain ss where "take (length vs) (log_array l) = map Some ss"
    "map (\<lambda>s. (sample_val s, sample_ddir s)) ss = vs" "unat (nr_samples l) = length vs" "length vs \<le> length (log_array l)"
    by (auto simp: log_ok_def)
  then show ?thesis by (auto simp: finish_log_def)
qed

fun log_all ::
  "time_env \<Rightarrow> (u64 \<times> fio_ddir) list \<Rightarrow> io_log \<Rightarrow> 'a thread_data_scheme \<Rightarrow> fio_fault + io_log \<times> 'a thread_data_scheme" where
  "log_all env [] l td = Inr (l, td)"
| "log_all env ((v, d) # vs) l td = sbind (add_log_sample env td l v d) (\<lambda>(l, td). log_all env vs l td)"

lemma log_all_ok:
  "log_ok l us \<Longrightarrow> length us + length vs \<le> 2 ^ 26 \<Longrightarrow> \<exists>l' td'. log_all env vs l td = Inr (l', td') \<and> log_ok l' (us @ vs)"
proof (induction vs arbitrary: l us td)
  case (Cons x vs)
  obtain v d where x: "x = (v, d)" by (cases x)
  obtain l1 td1 where "add_log_sample env td l v d = Inr (l1, td1)" and ok: "log_ok l1 (us @ [x])"
    using add_log_sample_ok [OF Cons.prems(1), of env td v d] Cons.prems(2) x by auto
  with Cons.IH [OF ok, of td1] Cons.prems(2) x show ?case by simp
qed simp

text \<open>The sample behind the last doubling that fits an \<^verbatim>\<open>int\<close> stops the program.\<close>

lemma log_full_fails:
  "nr_samples l = 2 ^ 26 \<Longrightarrow> max_samples l = 2 ^ 26 \<Longrightarrow> add_log_sample env td l v d = Inl NullPointer"
  by (simp add: add_log_sample_def grow_log_def)

section \<open>The summary of a group\<close>

definition group_jobs :: "nat \<Rightarrow> job_result list \<Rightarrow> job_result list" where
  "group_jobs g tds = filter (\<lambda>td. \<not> failed td \<and> groupid td = g) tds"

definition job_bw :: "nat \<Rightarrow> job_result \<Rightarrow> u64" where
  "job_bw d td = (if runtime td ! d \<noteq> 0 then job_bytes td ! d div runtime td ! d else 0)"

definition job_stats :: "nat \<Rightarrow> job_result \<Rightarrow> run_stats \<Rightarrow> run_stats" where
  "job_stats d td = run_stats_job (job_bytes td ! d) (runtime td ! d)"

lemma two_directions: "\<forall>rs\<in>set rss. length rs = 2 \<Longrightarrow> g < length rss \<Longrightarrow> rss ! g = [rss ! g ! 0, rss ! g ! 1]"
proof -
  assume "\<forall>rs\<in>set rss. length rs = 2" "g < length rss"
  then have "length (rss ! g) = 2" using nth_mem by blast
  then show ?thesis by (intro nth_equalityI) (auto simp: less_2_cases_iff)
qed

lemma run_stats_jobs_group:
  assumes "\<forall>rs\<in>set rss. length rs = 2" "g < length rss" "d < 2"
  shows "length (run_stats_jobs tds rss) = length rss
    \<and> run_stats_jobs tds rss ! g ! d = fold (job_stats d) (group_jobs g tds) (rss ! g ! d)
    \<and> length (run_stats_jobs tds rss ! g) = 2"
  using assms
proof (induction tds arbitrary: rss)
  case Nil
  then show ?case by (simp add: group_jobs_def)
next
  case (Cons td tds)
  note two = two_directions [OF Cons.prems(1)]
  define rss1 where "rss1 = rss[groupid td :=
      map2 (\<lambda>d rs. run_stats_job (job_bytes td ! d) (runtime td ! d) rs) [0, 1] (rss ! groupid td)]"
  have e: "run_stats_jobs (td # tds) rss = (if failed td then run_stats_jobs tds rss else run_stats_jobs tds rss1)"
    by (simp add: rss1_def)
  have l: "length rss1 = length rss" by (simp add: rss1_def)
  have all: "\<forall>rs\<in>set rss1. length rs = 2"
  proof (cases "groupid td < length rss")
    case True
    from two [OF True] have "length (rss ! groupid td) = 2" by (metis length_Cons list.size(3) numeral_2_eq_2)
    with Cons.prems(1) show ?thesis by (auto simp: rss1_def dest: set_update_subset_insert [THEN subsetD])
  qed (use Cons.prems(1) in \<open>simp only: rss1_def not_less list_update_beyond\<close>)
  have step: "rss1 ! g ! d = (if groupid td = g then job_stats d td (rss ! g ! d) else rss ! g ! d)"
  proof -
    from two [OF Cons.prems(2)] obtain x y where "rss ! g = [x, y]" by blast
    moreover have "d = 0 \<or> d = 1" using Cons.prems(3) by auto
    ultimately show ?thesis using Cons.prems(2) by (auto simp: rss1_def job_stats_def)
  qed
  have jobs: "group_jobs g (td # tds) = (if \<not> failed td \<and> groupid td = g then td # group_jobs g tds else group_jobs g tds)"
    by (simp add: group_jobs_def)
  show ?case
    using Cons.IH [OF all, unfolded l, OF Cons.prems(2,3)] Cons.IH [OF Cons.prems]
    unfolding e jobs step by auto
qed

lemma job_stats_fields:
  "max_run (job_stats d td rs) = max (runtime td ! d) (max_run rs)"
  "max_bw (job_stats d td rs) = max (job_bw d td) (max_bw rs)"
  "min_bw (job_stats d td rs) = min (job_bw d td) (min_bw rs)"
  "io_kb (job_stats d td rs) = io_kb rs + drop_bit 10 (job_bytes td ! d)"
  "min_run (job_stats d td rs) = (if runtime td ! d < min_run rs \<or> min_run rs = 0 then runtime td ! d else min_run rs)"
  "agg (job_stats d td rs) = agg rs"
  by (auto simp: job_stats_def run_stats_job_def job_bw_def Let_def max_def min_def not_le not_less)

lemma fold_job_stats:
  "max_run (fold (job_stats d) js rs) = fold max (map (\<lambda>td. runtime td ! d) js) (max_run rs)"
  "max_bw (fold (job_stats d) js rs) = fold max (map (job_bw d) js) (max_bw rs)"
  "min_bw (fold (job_stats d) js rs) = fold min (map (job_bw d) js) (min_bw rs)"
  "io_kb (fold (job_stats d) js rs) = io_kb rs + sum_list (map (\<lambda>td. drop_bit 10 (job_bytes td ! d)) js)"
  "min_run (fold (job_stats d) js rs) = fold (\<lambda>r m. if r < m \<or> m = 0 then r else m) (map (\<lambda>td. runtime td ! d) js) (min_run rs)"
  "agg (fold (job_stats d) js rs) = agg rs"
  by (induction js arbitrary: rs) (simp_all add: job_stats_fields add.assoc)

text \<open>The shortest run forgets the jobs in front of the last one that did nothing in this direction.\<close>

definition runs_behind_idle :: "u64 list \<Rightarrow> u64 list" where
  "runs_behind_idle rs = takeWhile (\<lambda>r. r \<noteq> 0) (rev rs)"

lemma min_run_fold:
  "rs \<noteq> [] \<Longrightarrow> fold (\<lambda>r m. if r < m \<or> m = 0 then r else m) rs (-1)
     = (if runs_behind_idle rs = [] then 0 else Min (set (runs_behind_idle rs)))"
proof (induction rs rule: rev_induct)
  case (snoc r rs)
  show ?case
  proof (cases "rs = []")
    case True
    then show ?thesis by (auto simp: runs_behind_idle_def word_order.extremum_unique not_less)
  next
    case False
    define m where "m = fold (\<lambda>r m. if r < m \<or> m = 0 then r else m) rs (-1)"
    have m: "m = (if runs_behind_idle rs = [] then 0 else Min (set (runs_behind_idle rs)))"
      using snoc.IH [OF False] by (simp add: m_def)
    have nz: "Min (set (runs_behind_idle rs)) \<noteq> 0" if "runs_behind_idle rs \<noteq> []"
    proof -
      have "Min (set (runs_behind_idle rs)) \<in> set (runs_behind_idle rs)" using that by simp
      then show ?thesis unfolding runs_behind_idle_def by (auto dest: set_takeWhileD)
    qed
    have "(if r < m \<or> m = 0 then r else m)
       = (if runs_behind_idle (rs @ [r]) = [] then 0 else Min (set (runs_behind_idle (rs @ [r]))))"
    proof (cases "r = 0")
      case True
      then show ?thesis by (auto simp: runs_behind_idle_def word_neq_0_conv)
    next
      case r: False
      then have b: "runs_behind_idle (rs @ [r]) = r # runs_behind_idle rs" by (simp add: runs_behind_idle_def)
      show ?thesis
      proof (cases "runs_behind_idle rs = []")
        case True
        then show ?thesis using m b by simp
      next
        case ne: False
        then have "m \<noteq> 0" "Min (set (r # runs_behind_idle rs)) = min r m" using m nz by simp_all
        then show ?thesis by (auto simp: b min_def)
      qed
    qed
    then show ?thesis by (simp only: m_def [symmetric] fold_append comp_def fold.simps id_def append_is_Nil_conv)
  qed
qed simp

section \<open>The utilisation of a disk\<close>

lemma dus_add_telescope: "dus_add (dus_add dus mid old) new mid = dus_add dus new old"
  by (cases dus; cases mid; cases old; cases new) (auto simp: dus_add_def split: prod.splits)

text \<open>Whatever happened in between, the accumulated counters are the last reading less the first one.\<close>

lemma update_io_tick_disk_last:
  "fold (\<lambda>r (du, st). update_io_tick_disk env (Some r) du st) (rs @ [r]) (du, st) = (du', st')
     \<Longrightarrow> du_dus du' = dus_add (du_dus du) r (last_dus du) \<and> last_dus du' = r"
proof (induction rs arbitrary: r du' st' rule: rev_induct)
  case Nil
  then show ?case by (auto simp: update_io_tick_disk_def Let_def split: prod.splits)
next
  case (snoc q rs)
  obtain du1 st1 where 1: "fold (\<lambda>r (du, st). update_io_tick_disk env (Some r) du st) (rs @ [q]) (du, st) = (du1, st1)"
    by fastforce
  from snoc.IH [OF 1] snoc.prems 1 show ?case
    by (auto simp: update_io_tick_disk_def Let_def dus_add_telescope split: prod.splits)
qed

section \<open>Properties\<close>

text \<open>A statistic that starts empty (\<^verbatim>\<open>min_val\<close> at \<^verbatim>\<open>ULONG_MAX\<close>, as \<^verbatim>\<open>add_job\<close> sets it) holds the
  maximum, minimum, sum, sum of squares and number of its samples.\<close>

theorem stat_samples_summary:
  assumes "vs \<noteq> []"
  shows "foldl add_stat_sample \<lparr>is_val = 0, val_sq = 0, max_val = 0, min_val = -1, samples = 0\<rparr> vs
    = \<lparr>is_val = sum_list vs, val_sq = sum_list (map (\<lambda>v. v * v) vs), max_val = Max (set vs), min_val = Min (set vs),
       samples = of_nat (length vs)\<rparr>"
  using fold_max_word [OF assms] fold_min_word [OF assms]
  by (intro io_stat.equality) (simp_all add: add_stat_samples)

theorem stat_samples_summary_witness:
  "foldl add_stat_sample \<lparr>is_val = 0, val_sq = 0, max_val = 0, min_val = -1, samples = 0\<rparr> [7, 3, 5]
     = \<lparr>is_val = 15, val_sq = 83, max_val = 7, min_val = 3, samples = 3\<rparr>"
  using stat_samples_summary [of "[7, 3, 5]"] by (simp add: max_def min_def)

text \<open>C34: a sample log keeps every sample in order through all reallocations, up to 2^26 samples (the next
  one overflows the size of the array).\<close>

theorem sample_log_keeps_all:
  assumes "length vs \<le> 2 ^ 26"
  shows "\<exists>l td' rows. log_all env vs setup_log td = Inr (l, td') \<and> finish_log l = Some rows
    \<and> map (\<lambda>(t, v, d). (v, d)) rows = map (\<lambda>(v, d). (v, ddir_nr d)) vs"
  using log_all_ok [OF log_ok_setup, of vs env td] assms finish_log_ok by fastforce

theorem sample_log_keeps_all_witness:
  "\<exists>l td' rows. log_all posix_env (replicate 5000 (7, DDIR_WRITE)) setup_log (undefined :: thread_data) = Inr (l, td')
    \<and> finish_log l = Some rows \<and> length rows = 5000"
proof -
  have "length (replicate 5000 (7 :: u64, DDIR_WRITE)) \<le> 2 ^ 26" by simp
  from sample_log_keeps_all [OF this, of posix_env "undefined :: thread_data"] obtain l td' rows
    where r: "log_all posix_env (replicate 5000 (7, DDIR_WRITE)) setup_log (undefined :: thread_data) = Inr (l, td')"
      "finish_log l = Some rows" "map (\<lambda>(t, v, d). (v, d)) rows = map (\<lambda>(v, d). (v, ddir_nr d)) (replicate 5000 (7, DDIR_WRITE))"
    by blast
  from arg_cong [OF r(3), of length] have "length rows = 5000" by (simp only: length_map length_replicate)
  with r show ?thesis by blast
qed

text \<open>The summary of a group is over exactly its jobs that did not fail: longest run, bandwidths, data
  moved and the aggregate.  The shortest run, though, is taken only over the jobs behind the last one
  that was idle in this direction.\<close>

theorem group_summary:
  assumes g: "g \<le> last_group" and d: "d < 2" and jobs: "group_jobs g tds \<noteq> []"
  shows "show_run_stats last_group tds ! g ! d =
    (let js = group_jobs g tds; runs = map (\<lambda>td. runtime td ! d) js; bws = map (job_bw d) js;
         kb = sum_list (map (\<lambda>td. drop_bit 10 (job_bytes td ! d)) js)
     in \<lparr>max_run = Max (set runs),
         min_run = (if runs_behind_idle runs = [] then 0 else Min (set (runs_behind_idle runs))),
         max_bw = Max (set bws), min_bw = Min (set bws), io_kb = kb,
         agg = (if Max (set runs) = 0 then 0 else kb * 1024 div Max (set runs))\<rparr>)"
proof -
  let ?js = "group_jobs g tds" and ?init = "replicate (last_group + 1) [run_stats_init, run_stats_init]"
  define rs where "rs = fold (job_stats d) ?js run_stats_init"
  have i: "\<forall>rs\<in>set ?init. length rs = 2" "g < length ?init" using g by simp_all
  have "?init ! g = [run_stats_init, run_stats_init]" using i(2) by (intro nth_replicate) simp
  then have "?init ! g ! d = run_stats_init" using d by (cases d) auto
  then have "show_run_stats last_group tds ! g ! d = run_stats_agg rs"
    using run_stats_jobs_group [OF i d, of tds] g d by (simp add: show_run_stats_def rs_def)
  moreover have "max_run rs = Max (set (map (\<lambda>td. runtime td ! d) ?js))"
    "max_bw rs = Max (set (map (job_bw d) ?js))" "min_bw rs = Min (set (map (job_bw d) ?js))"
    "min_run rs = (if runs_behind_idle (map (\<lambda>td. runtime td ! d) ?js) = [] then 0
       else Min (set (runs_behind_idle (map (\<lambda>td. runtime td ! d) ?js))))"
    "io_kb rs = sum_list (map (\<lambda>td. drop_bit 10 (job_bytes td ! d)) ?js)" "agg rs = 0"
    using jobs fold_max_word [of "map (\<lambda>td. runtime td ! d) ?js"] fold_max_word [of "map (job_bw d) ?js"]
      fold_min_word [of "map (job_bw d) ?js"] min_run_fold [of "map (\<lambda>td. runtime td ! d) ?js"]
    by (simp_all only: rs_def fold_job_stats) (simp_all add: run_stats_init_def)
  ultimately show ?thesis by (simp add: run_stats_agg_def Let_def)
qed

theorem group_summary_witness:
  "min_run (show_run_stats 0 [\<lparr>groupid = 0, failed = False, job_bytes = [10240, 0], runtime = [5, 0]\<rparr>,
      \<lparr>groupid = 0, failed = False, job_bytes = [0, 0], runtime = [0, 0]\<rparr>,
      \<lparr>groupid = 0, failed = False, job_bytes = [10240, 0], runtime = [7, 0]\<rparr>] ! 0 ! 0) = 7"
  by (subst group_summary) (simp_all add: group_jobs_def runs_behind_idle_def)

end
