(* ===== verification/CStrings.thy ===== *)
theory CStrings
  imports RTFSC_Prelude
begin

text \<open>
  What the C library does with numbers in text, shared by the components that print and scan: decimal
  printing, the scanning of digits, white space and signs, and the lines \<^verbatim>\<open>fgets\<close> reads.  A string is the
  list of its characters.
\<close>

section \<open>Digits\<close>

definition is_digit :: "char \<Rightarrow> bool" where
  "is_digit c = (48 \<le> (of_char c :: nat) \<and> (of_char c :: nat) \<le> 57)"

definition digit :: "nat \<Rightarrow> char" where
  "digit d = char_of (48 + d)"

definition digit_val :: "char \<Rightarrow> nat" where
  "digit_val c = of_char c - 48"

definition is_space :: "char \<Rightarrow> bool" where
  "is_space c = ((of_char c :: nat) = 32 \<or> (9 \<le> (of_char c :: nat) \<and> (of_char c :: nat) \<le> 13))"

text \<open>\<^verbatim>\<open>printf\<close> with \<^verbatim>\<open>%u\<close> and \<^verbatim>\<open>%llu\<close>.\<close>

fun dec :: "nat \<Rightarrow> string" where
  "dec n = (if n < 10 then [digit n] else dec (n div 10) @ [digit (n mod 10)])"

declare dec.simps [simp del]

fun scan_digits :: "nat \<Rightarrow> string \<Rightarrow> nat \<times> string" where
  "scan_digits a [] = (a, [])"
| "scan_digits a (c # cs) = (if is_digit c then scan_digits (10 * a + digit_val c) cs else (a, c # cs))"

text \<open>A signed decimal number as \<^verbatim>\<open>scanf\<close> matches it for \<^verbatim>\<open>%d\<close> and \<^verbatim>\<open>%u\<close>: white space, a sign, digits.
  A number that does not fit the type is undefined in C; here it is the number itself.\<close>

definition scan_number :: "string \<Rightarrow> (int \<times> string) option" where
  "scan_number s =
     (let s = dropWhile is_space s;
          (neg, s) = (case s of c # cs \<Rightarrow> if c = CHR ''-'' then (True, cs) else if c = CHR ''+'' then (False, cs) else (False, s)
                      | [] \<Rightarrow> (False, []))
      in case s of
           [] \<Rightarrow> None
         | c # cs \<Rightarrow> if is_digit c then let (n, rest) = scan_digits 0 s in Some (if neg then - int n else int n, rest)
                      else None)"

text \<open>A literal character of the format.\<close>

definition scan_char :: "char \<Rightarrow> string \<Rightarrow> string option" where
  "scan_char ch s = (case s of c # cs \<Rightarrow> if c = ch then Some cs else None | [] \<Rightarrow> None)"

section \<open>Lines\<close>

fun take_line :: "nat \<Rightarrow> string \<Rightarrow> string \<times> string" where
  "take_line 0 s = ([], s)"
| "take_line (Suc n) [] = ([], [])"
| "take_line (Suc n) (c # cs) =
     (if c = CHR 0x0A then ([c], cs) else let (l, r) = take_line n cs in (c # l, r))"

lemma take_line_append: "take_line n s = (l, r) \<Longrightarrow> s = l @ r \<and> length l \<le> n"
  by (induction n s arbitrary: l r rule: take_line.induct) (auto split: if_splits prod.splits)

lemma take_line_nonempty: "take_line (Suc n) s = (l, r) \<Longrightarrow> s \<noteq> [] \<Longrightarrow> l \<noteq> []"
  by (cases s) (auto split: if_splits prod.splits)

text \<open>All the lines \<^verbatim>\<open>fgets\<close> reads from a file into a buffer with room for \<open>n + 1\<close> characters.\<close>

function fgets_all :: "nat \<Rightarrow> string \<Rightarrow> string list" where
  "fgets_all n s = (if s = [] then [] else let (l, r) = take_line (Suc n) s in l # fgets_all n r)"
  by pat_completeness auto

termination
proof (relation "measure (\<lambda>(n, s). length s)", simp, goal_cases)
  case (1 n s p l r)
  then have "take_line (Suc n) s = (l, r)" by simp
  from take_line_append [OF this] take_line_nonempty [OF this 1(1)]
  show ?case by auto
qed

declare fgets_all.simps [simp del]

lemma take_line_line:
  "CHR 0x0A \<notin> set l \<Longrightarrow> length l < n \<Longrightarrow> take_line n (l @ CHR 0x0A # rest) = (l @ [CHR 0x0A], rest)"
  by (induction l arbitrary: n) (auto simp: gr0_conv_Suc less_Suc_eq_0_disj Suc_less_eq2)

lemma fgets_all_line:
  assumes "CHR 0x0A \<notin> set l" "length l \<le> n"
  shows "fgets_all n (l @ CHR 0x0A # rest) = (l @ [CHR 0x0A]) # fgets_all n rest"
  using assms by (subst fgets_all.simps) (simp add: take_line_line)

section \<open>Printing and scanning agree\<close>

lemma of_char_digit: "d < 10 \<Longrightarrow> (of_char (digit d) :: nat) = 48 + d"
  by (simp add: digit_def)

lemma digit_facts: "d < 10 \<Longrightarrow> is_digit (digit d) \<and> digit_val (digit d) = d"
  by (simp add: is_digit_def digit_val_def of_char_digit)

lemma scan_digits_dec: "scan_digits a (dec n @ rest) = scan_digits (a * 10 ^ length (dec n) + n) rest"
proof (induction n arbitrary: a rest rule: dec.induct)
  case (1 n)
  show ?case
  proof (cases "n < 10")
    case True
    then show ?thesis by (simp add: dec.simps [of n] digit_facts mult.commute)
  next
    case False
    then have "scan_digits a (dec n @ rest)
        = scan_digits (a * 10 ^ length (dec (n div 10)) + n div 10) (digit (n mod 10) # rest)"
      by (subst dec.simps) (simp add: 1)
    also have "\<dots> = scan_digits (a * 10 ^ length (dec n) + n) rest"
      using False by (simp add: digit_facts dec.simps [of n] algebra_simps)
    finally show ?thesis .
  qed
qed

lemma dec_digits: "c \<in> set (dec n) \<Longrightarrow> is_digit c"
proof (induction n rule: dec.induct)
  case (1 n)
  then show ?case by (cases "n < 10") (auto simp: dec.simps [of n] digit_facts)
qed

lemma dec_not_nil: "dec n \<noteq> []"
  by (simp add: dec.simps)

lemma dec_length: "n < 10 ^ k \<Longrightarrow> 0 < k \<Longrightarrow> length (dec n) \<le> k"
proof (induction k arbitrary: n)
  case (Suc k)
  show ?case
  proof (cases "n < 10")
    case True
    then show ?thesis by (simp add: dec.simps)
  next
    case False
    with Suc.prems have "n div 10 < 10 ^ k" "k \<noteq> 0" by (auto intro: Nat.gr0I)
    with Suc.IH have "length (dec (n div 10)) \<le> k" by simp
    then show ?thesis using False by (subst dec.simps) simp
  qed
qed simp

definition no_digit :: "string \<Rightarrow> bool" where
  "no_digit s = (case s of [] \<Rightarrow> True | c # cs \<Rightarrow> \<not> is_digit c)"

lemma scan_digits_end: "no_digit rest \<Longrightarrow> scan_digits a rest = (a, rest)"
  by (cases rest) (auto simp: no_digit_def)

lemma digit_no_space: "is_digit c \<Longrightarrow> \<not> is_space c \<and> c \<noteq> CHR ''-'' \<and> c \<noteq> CHR ''+'' \<and> c \<noteq> CHR '','' \<and> c \<noteq> CHR 0x0A"
  by (auto simp: is_digit_def is_space_def)

lemma scan_number_dec:
  assumes "no_digit rest"
  shows "scan_number (dec n @ rest) = Some (int n, rest)"
proof -
  obtain c cs where d: "dec n = c # cs" using dec_not_nil by (cases "dec n") auto
  then have c: "is_digit c" using dec_digits [of c n] by simp
  have "scan_digits 0 (c # cs @ rest) = (n, rest)"
    using scan_digits_dec [of 0 n rest] assms d by (simp add: scan_digits_end)
  then show ?thesis
    using c digit_no_space [OF c] d by (simp add: scan_number_def)
qed

end
