(* ===== verification/FioLog.thy ===== *)
theory FioLog
  imports FioStat CStrings "HOL-Library.Multiset"
begin

text \<open>
  The I/O logs of fio (\<^verbatim>\<open>log.c\<close>, and \<^verbatim>\<open>get_next_verify\<close> of \<^verbatim>\<open>verify.c\<close>): the pattern written to and read from
  a log file, and the history of writes that the verification reads back.  A file is its text; the
  list \<open>io_hist_list\<close> and \<open>io_log_list\<close> are the pieces in order.
\<close>

section \<open>The log file\<close>

definition write_iolog_put :: "io_u \<Rightarrow> 'a thread_data_scheme \<Rightarrow> 'a thread_data_scheme" where
  "write_iolog_put iou td =
     td\<lparr>iolog_f := iolog_f td @ [dec (ddir_nr (ddir iou)) @ '','' @ dec (unat (offset iou)) @ '','' @ dec (unat (buflen iou)) @ [CHR 0x0A]]\<rparr>"

text \<open>\<^verbatim>\<open>sscanf(p, "%d,%llu,%u", &rw, &offset, &bytes)\<close>, when all three fields are read.\<close>

definition scan_piece :: "string \<Rightarrow> (int \<times> u64 \<times> u32) option" where
  "scan_piece p =
     Option.bind (scan_number p) (\<lambda>(rw, p).
     Option.bind (scan_char CHR '','' p) (\<lambda>p.
     Option.bind (scan_number p) (\<lambda>(off, p).
     Option.bind (scan_char CHR '','' p) (\<lambda>p.
     Option.bind (scan_number p) (\<lambda>(bytes, p).
       Some (rw, word_of_int off, word_of_int bytes))))))"

text \<open>The loop over the lines; the state also counts reads and writes.\<close>

fun iolog_lines :: "string list \<Rightarrow> nat \<Rightarrow> nat \<Rightarrow> 'a thread_data_scheme \<Rightarrow> nat \<times> nat \<times> 'a thread_data_scheme" where
  "iolog_lines [] reads writes td = (reads, writes, td)"
| "iolog_lines (p # ps) reads writes td =
     (case scan_piece p of
        None \<Rightarrow> iolog_lines ps reads writes td
      | Some (rw, off, bytes) \<Rightarrow>
          if rw \<noteq> 0 \<and> rw \<noteq> 1 then iolog_lines ps reads writes td
          else
            let reads = (if rw = 0 then Suc reads else reads); writes = (if rw = 0 then writes else Suc writes);
                d = (if rw = 0 then DDIR_READ else DDIR_WRITE);
                ipo = \<lparr>ipo_file = None, ipo_offset = off, ipo_len = bytes, ipo_ddir = Some d\<rparr>;
                td = (if bytes > max_bs td ! ddir_nr d then td\<lparr>max_bs := (max_bs td)[ddir_nr d := bytes]\<rparr> else td)
            in iolog_lines ps reads writes (td\<lparr>io_log_list := io_log_list td @ [ipo]\<rparr>))"

text \<open>The file is \<^const>\<open>None\<close> when it cannot be opened.\<close>

definition init_iolog_read :: "string option \<Rightarrow> 'a thread_data_scheme \<Rightarrow> int \<times> 'a thread_data_scheme" where
  "init_iolog_read f td =
     (case f of None \<Rightarrow> (1, td)
      | Some content \<Rightarrow>
          let (reads, writes, td) = iolog_lines (fgets_all 4094 content) 0 0 td in
          if reads = 0 \<and> writes = 0 then (1, td)
          else if reads \<noteq> 0 \<and> writes = 0 then (0, td\<lparr>td_ddir := DDIR_READ\<rparr>)
          else if reads = 0 \<and> writes \<noteq> 0 then (0, td\<lparr>td_ddir := DDIR_READ\<rparr>)
          else (0, td\<lparr>iomix := 1\<rparr>))"

definition init_iolog_write :: "bool \<Rightarrow> 'a thread_data_scheme \<Rightarrow> int \<times> 'a thread_data_scheme" where
  "init_iolog_write opened td = (if \<not> opened then (1, td) else (0, td\<lparr>iolog_f := []\<rparr>))"

text \<open>\<open>read_file\<close> and \<open>write_file\<close>: the files named by the job, if any, and what opening them gives.\<close>

definition init_iolog ::
  "bool \<Rightarrow> string option option \<Rightarrow> bool option \<Rightarrow> 'a thread_data_scheme \<Rightarrow> int \<times> 'a thread_data_scheme" where
  "init_iolog cpuio read_file write_file td =
     (if cpuio then (0, td)
      else case read_file of
        Some f \<Rightarrow> init_iolog_read f td
      | None \<Rightarrow> (case write_file of Some opened \<Rightarrow> init_iolog_write opened td | None \<Rightarrow> (0, td)))"

definition read_iolog_get :: "io_u \<Rightarrow> 'a thread_data_scheme \<Rightarrow> int \<times> io_u \<times> 'a thread_data_scheme" where
  "read_iolog_get iou td =
     (case io_log_list td of
        ipo # rest \<Rightarrow>
          (0, iou\<lparr>offset := ipo_offset ipo, buflen := ipo_len ipo,
                  ddir := (case ipo_ddir ipo of Some d \<Rightarrow> d | None \<Rightarrow> ddir iou), io_file := ipo_file ipo\<rparr>,
           td\<lparr>io_log_list := rest\<rparr>)
      | [] \<Rightarrow> (1, iou, td))"

section \<open>The history of writes\<close>

text \<open>The walk from the end of the list to the first entry with a smaller offset, on the list read
  backwards.\<close>

fun hist_insert :: "io_piece \<Rightarrow> io_piece list \<Rightarrow> io_piece list" where
  "hist_insert ipo [] = [ipo]"
| "hist_insert ipo (e # es) = (if ipo_offset e < ipo_offset ipo then ipo # e # es else e # hist_insert ipo es)"

definition log_io_piece :: "io_u \<Rightarrow> 'a thread_data_scheme \<Rightarrow> 'a thread_data_scheme" where
  "log_io_piece iou td =
     (let ipo = \<lparr>ipo_file = io_file iou, ipo_offset = offset iou, ipo_len = buflen iou, ipo_ddir = None\<rparr>
      in if sequential td \<or> \<not> overwrite td then td\<lparr>io_hist_list := io_hist_list td @ [ipo]\<rparr>
         else td\<lparr>io_hist_list := rev (hist_insert ipo (rev (io_hist_list td)))\<rparr>)"

fun prune_list :: "io_piece list \<Rightarrow> io_piece list" where
  "prune_list [] = []"
| "prune_list (ipo # rest) = prune_list rest"

definition prune_io_piece_log :: "'a thread_data_scheme \<Rightarrow> 'a thread_data_scheme" where
  "prune_io_piece_log td = td\<lparr>io_hist_list := prune_list (io_hist_list td)\<rparr>"

definition get_next_verify :: "io_u \<Rightarrow> 'a thread_data_scheme \<Rightarrow> int \<times> io_u \<times> 'a thread_data_scheme" where
  "get_next_verify iou td =
     (case io_hist_list td of
        ipo # rest \<Rightarrow>
          (0, iou\<lparr>offset := ipo_offset ipo, buflen := ipo_len ipo, ddir := DDIR_READ\<rparr>, td\<lparr>io_hist_list := rest\<rparr>)
      | [] \<Rightarrow> (1, iou, td))"

section \<open>A log written is a log read\<close>

lemma comma_no_digit: "no_digit ('','' @ s)" "no_digit (CHR '','' # s)" "no_digit [CHR 0x0A]"
  by (simp_all add: no_digit_def is_digit_def)

definition piece_line :: "nat \<Rightarrow> u64 \<Rightarrow> u32 \<Rightarrow> string" where
  "piece_line d off len = dec d @ '','' @ dec (unat off) @ '','' @ dec (unat len)"

lemma scan_piece_line: "scan_piece (piece_line d off len @ [CHR 0x0A]) = Some (int d, off, len)"
  using scan_number_dec [OF comma_no_digit(1), of d "dec (unat off) @ '','' @ dec (unat len) @ [CHR 0x0A]"]
    scan_number_dec [OF comma_no_digit(1), of "unat off" "dec (unat len) @ [CHR 0x0A]"]
    scan_number_dec [OF comma_no_digit(3), of "unat len"]
  by (simp add: scan_piece_def piece_line_def scan_char_def)

lemma piece_line_newline: "CHR 0x0A \<notin> set (piece_line d off len)"
  using digit_no_space dec_digits by (fastforce simp: piece_line_def)

lemma piece_line_length: "d < 10 \<Longrightarrow> length (piece_line d off len) \<le> 4094"
  using dec_length [of d 1] dec_length [of "unat off" 20] dec_length [of "unat len" 10]
    unat_less_u64 [of off] unat_less_u32 [of len]
  by (simp add: piece_line_def)

lemma write_iolog_put_line:
  "write_iolog_put iou td = td\<lparr>iolog_f := iolog_f td @ [piece_line (ddir_nr (ddir iou)) (offset iou) (buflen iou) @ [CHR 0x0A]]\<rparr>"
  by (simp add: write_iolog_put_def piece_line_def)

definition iou_piece :: "io_u \<Rightarrow> io_piece" where
  "iou_piece iou = \<lparr>ipo_file = None, ipo_offset = offset iou, ipo_len = buflen iou, ipo_ddir = Some (ddir iou)\<rparr>"

definition iou_line :: "io_u \<Rightarrow> string" where
  "iou_line iou = piece_line (ddir_nr (ddir iou)) (offset iou) (buflen iou) @ [CHR 0x0A]"

lemma iolog_lines_written:
  "\<forall>iou\<in>set ious. ddir iou \<noteq> DDIR_SYNC \<Longrightarrow>
   \<exists>mb. iolog_lines (map iou_line ious) r w td
     = (r + length (filter (\<lambda>iou. ddir iou = DDIR_READ) ious), w + length (filter (\<lambda>iou. ddir iou = DDIR_WRITE) ious),
        td\<lparr>max_bs := mb, io_log_list := io_log_list td @ map iou_piece ious\<rparr>)"
proof (induction ious arbitrary: r w td)
  case Nil
  show ?case by (intro exI [of _ "max_bs td"]) simp
next
  case (Cons iou ious)
  define td1 where "td1 = (if buflen iou > max_bs td ! ddir_nr (ddir iou) then td\<lparr>max_bs := (max_bs td)[ddir_nr (ddir iou) := buflen iou]\<rparr> else td)"
  define td2 where "td2 = td1\<lparr>io_log_list := io_log_list td1 @ [iou_piece iou]\<rparr>"
  from Cons.prems have d: "ddir iou = DDIR_READ \<or> ddir iou = DDIR_WRITE" by (cases "ddir iou") auto
  then have "iolog_lines (map iou_line (iou # ious)) r w td
     = iolog_lines (map iou_line ious)
         (if ddir iou = DDIR_READ then Suc r else r) (if ddir iou = DDIR_READ then w else Suc w) td2"
    by (auto simp: iou_line_def scan_piece_line td1_def td2_def iou_piece_def Let_def)
  moreover obtain mb where "iolog_lines (map iou_line ious)
         (if ddir iou = DDIR_READ then Suc r else r) (if ddir iou = DDIR_READ then w else Suc w) td2
     = ((if ddir iou = DDIR_READ then Suc r else r) + length (filter (\<lambda>iou. ddir iou = DDIR_READ) ious),
        (if ddir iou = DDIR_READ then w else Suc w) + length (filter (\<lambda>iou. ddir iou = DDIR_WRITE) ious),
        td2\<lparr>max_bs := mb, io_log_list := io_log_list td2 @ map iou_piece ious\<rparr>)"
    using Cons.IH [of "if ddir iou = DDIR_READ then Suc r else r" "if ddir iou = DDIR_READ then w else Suc w" td2] Cons.prems by auto
  moreover have "td2\<lparr>max_bs := mb, io_log_list := io_log_list td2 @ map iou_piece ious\<rparr>
      = td\<lparr>max_bs := mb, io_log_list := io_log_list td @ map iou_piece (iou # ious)\<rparr>"
    by (simp add: td1_def td2_def)
  ultimately show ?case using d by (elim disjE) (simp_all, blast+)
qed

lemma fgets_written:
  "fgets_all 4094 (concat (map iou_line ious))
     = map iou_line ious"
proof (induction ious)
  case (Cons iou ious)
  have "ddir_nr (ddir iou) < 10" by (cases "ddir iou") simp_all
  from fgets_all_line [OF piece_line_newline piece_line_length [OF this]] Cons show ?case by (simp add: iou_line_def)
qed (simp add: fgets_all.simps)

lemma iolog_f_puts:
  "iolog_f (fold write_iolog_put ious td)
     = iolog_f td @ map iou_line ious"
  by (induction ious arbitrary: td) (simp_all add: write_iolog_put_line iou_line_def)

section \<open>The history is sorted and complete\<close>

lemma hist_insert_mset: "mset (hist_insert ipo es) = add_mset ipo (mset es)"
  by (induction es) auto

lemma hist_insert_sorted:
  "sorted_wrt (\<lambda>a b. ipo_offset b \<le> ipo_offset a) es \<Longrightarrow> sorted_wrt (\<lambda>a b. ipo_offset b \<le> ipo_offset a) (hist_insert ipo es)"
proof (induction es)
  case (Cons e es)
  have "set (hist_insert ipo es) = insert ipo (set es)"
    using arg_cong [OF hist_insert_mset [of ipo es], of set_mset] by simp
  with Cons show ?case by auto
qed simp

definition hist_piece :: "io_u \<Rightarrow> io_piece" where
  "hist_piece iou = \<lparr>ipo_file = io_file iou, ipo_offset = offset iou, ipo_len = buflen iou, ipo_ddir = None\<rparr>"

lemma log_io_piece_mset: "mset (io_hist_list (log_io_piece iou td)) = add_mset (hist_piece iou) (mset (io_hist_list td))"
  by (simp add: log_io_piece_def hist_piece_def hist_insert_mset Let_def)

lemma log_io_piece_sorted:
  "\<not> sequential td \<Longrightarrow> overwrite td \<Longrightarrow> sorted_wrt (\<lambda>a b. ipo_offset a \<le> ipo_offset b) (io_hist_list td) \<Longrightarrow>
     sorted_wrt (\<lambda>a b. ipo_offset a \<le> ipo_offset b) (io_hist_list (log_io_piece iou td))"
  using hist_insert_sorted [of "rev (io_hist_list td)" "hist_piece iou"]
  by (simp add: log_io_piece_def hist_piece_def Let_def sorted_wrt_rev)

lemma log_io_piece_flags: "sequential (log_io_piece iou td) = sequential td" "overwrite (log_io_piece iou td) = overwrite td"
  by (simp_all add: log_io_piece_def Let_def)

lemma log_pieces:
  "mset (io_hist_list (fold log_io_piece ious td)) = mset (map hist_piece ious) + mset (io_hist_list td)"
  "\<not> sequential td \<Longrightarrow> overwrite td \<Longrightarrow> sorted_wrt (\<lambda>a b. ipo_offset a \<le> ipo_offset b) (io_hist_list td) \<Longrightarrow>
     sorted_wrt (\<lambda>a b. ipo_offset a \<le> ipo_offset b) (io_hist_list (fold log_io_piece ious td))"
  by (induction ious arbitrary: td) (auto simp: log_io_piece_mset log_io_piece_sorted log_io_piece_flags)

text \<open>The verification takes pieces until there are none.\<close>

fun verify_reads :: "nat \<Rightarrow> io_u \<Rightarrow> 'a thread_data_scheme \<Rightarrow> (u64 \<times> u32) list \<times> int" where
  "verify_reads 0 iou td = ([], 0)"
| "verify_reads (Suc n) iou td =
     (let (r, iou, td) = get_next_verify iou td
      in if r \<noteq> 0 then ([], r) else let (xs, r) = verify_reads n iou td in ((offset iou, buflen iou) # xs, r))"

lemma verify_reads_all:
  "length (io_hist_list td) < n \<Longrightarrow>
     verify_reads n iou td = (map (\<lambda>p. (ipo_offset p, ipo_len p)) (io_hist_list td), 1)"
proof (induction n arbitrary: iou td)
  case (Suc n)
  then show ?case by (cases "io_hist_list td") (simp_all add: get_next_verify_def)
qed simp

section \<open>Properties\<close>



text \<open>C10: with random overwrites the verification reads every logged write exactly once, in ascending order
  of offsets, and then reports that nothing is left.\<close>

theorem verify_reads_back_writes:
  assumes "\<not> sequential td" "overwrite td" "io_hist_list td = []" "length ious < n"
  shows "\<exists>xs. verify_reads n iou (fold log_io_piece ious td) = (xs, 1)
    \<and> mset xs = mset (map (\<lambda>iou. (offset iou, buflen iou)) ious) \<and> sorted (map fst xs)"
proof -
  let ?h = "io_hist_list (fold log_io_piece ious td)"
  have m: "mset ?h = mset (map hist_piece ious)" using log_pieces(1) [of ious td] assms(3) by simp
  have s: "sorted_wrt (\<lambda>a b. ipo_offset a \<le> ipo_offset b) ?h" using log_pieces(2) [of td ious] assms by simp
  have "length ?h < n" using assms(4) arg_cong [OF m, of size] by simp
  from verify_reads_all [OF this] have "verify_reads n iou (fold log_io_piece ious td) = (map (\<lambda>p. (ipo_offset p, ipo_len p)) ?h, 1)" .
  moreover have "mset (map (\<lambda>p. (ipo_offset p, ipo_len p)) ?h) = mset (map (\<lambda>iou. (offset iou, buflen iou)) ious)"
    by (simp add: m image_mset.compositionality comp_def hist_piece_def)
  moreover have "sorted (map fst (map (\<lambda>p. (ipo_offset p, ipo_len p)) ?h))"
    using s by (simp add: sorted_wrt_map comp_def)
  ultimately show ?thesis by blast
qed

theorem verify_reads_back_writes_witness:
  "\<exists>xs. verify_reads 3 demo_io_u (fold log_io_piece [demo_io_u\<lparr>offset := 8192, buflen := 4096\<rparr>, demo_io_u\<lparr>buflen := 512\<rparr>] demo_td) = (xs, 1)
     \<and> mset xs = {#(8192, 4096), (0, 512)#} \<and> sorted (map fst xs)"
  using verify_reads_back_writes [of demo_td "[demo_io_u\<lparr>offset := 8192, buflen := 4096\<rparr>, demo_io_u\<lparr>buflen := 512\<rparr>]" 3 demo_io_u]
  by (simp add: demo_td_def demo_io_u_def)

end
