(* ===== verification/FioVerify.thy ===== *)
theory FioVerify
  imports FioChecksum
begin

text \<open>
  The verification of written blocks in fio (\<^verbatim>\<open>verify.c\<close>): the header that is put in front of the random
  payload of a block (\<^verbatim>\<open>struct verify_header\<close> of \<^verbatim>\<open>fio.h\<close>, 32 bytes on a 64-bit little-endian target:
  three words, four bytes of padding, the union of MD5 digest and CRC) and the checks made when the
  block is read back.  A buffer is the list of its bytes; reading past its end is \<^const>\<open>None\<close>.  The
  random generator gives the eight bytes of each random double, and the stack garbage in the
  uninitialised header is an argument.
\<close>

section \<open>The header\<close>

abbreviation FIO_HDR_MAGIC :: u32 where "FIO_HDR_MAGIC \<equiv> 0xf00baaef"
abbreviation VERIFY_MD5 :: u32 where "VERIFY_MD5 \<equiv> 1"
abbreviation VERIFY_CRC32 :: u32 where "VERIFY_CRC32 \<equiv> 2"
abbreviation HDR_SIZE :: nat where "HDR_SIZE \<equiv> 32"

record verify_header =
  fio_magic :: u32
  vh_len :: u32
  verify_type :: u32
  vh_pad :: "u8 list"
  vh_union :: "u8 list"  \<comment> \<open>\<^verbatim>\<open>md5_digest\<close>, whose first eight bytes are \<^verbatim>\<open>crc32\<close>\<close>

definition le32 :: "u32 \<Rightarrow> u8 list" where
  "le32 w = [ucast w, ucast (drop_bit 8 w), ucast (drop_bit 16 w), ucast (drop_bit 24 w)]"

definition le64 :: "u64 \<Rightarrow> u8 list" where
  "le64 w = map (\<lambda>i. ucast (drop_bit (8 * i) w)) [0..<8]"

definition hdr_bytes :: "verify_header \<Rightarrow> u8 list" where
  "hdr_bytes h = le32 (fio_magic h) @ le32 (vh_len h) @ le32 (verify_type h) @ vh_pad h @ vh_union h"

text \<open>The buffer read through a pointer to the header.\<close>

definition read_hdr :: "u8 list \<Rightarrow> verify_header option" where
  "read_hdr buf =
     (if length buf < HDR_SIZE then None
      else Some \<lparr>fio_magic = le_word buf, vh_len = le_word (drop 4 buf), verify_type = le_word (drop 8 buf),
                 vh_pad = take 4 (drop 12 buf), vh_union = take 16 (drop 16 buf)\<rparr>)"

section \<open>Filling a block\<close>

text \<open>\<open>r n\<close> is the \<open>n\<close>-th random double.\<close>

function fill_random_bytes :: "(nat \<Rightarrow> u8 list) \<Rightarrow> nat \<Rightarrow> nat \<Rightarrow> u8 list \<times> nat" where
  "fill_random_bytes r n len =
     (if len > 0
      then let todo = (if 8 > len then len else 8);
               (rest, n') = fill_random_bytes r (Suc n) (len - todo)
           in (take todo (r n) @ rest, n')
      else ([], n))"
  by pat_completeness auto

termination
  by (relation "measure (\<lambda>(r, n, len). len)") auto

declare fill_random_bytes.simps [simp del]

definition md5_zero :: md5_ctx where
  "md5_zero = \<lparr>md5_hash = (0, 0, 0, 0), md5_block = replicate 64 0, byte_count = 0\<rparr>"

definition hash_bytes :: "u32 \<times> u32 \<times> u32 \<times> u32 \<Rightarrow> u8 list" where
  "hash_bytes h = (case h of (a, b, c, d) \<Rightarrow> le32 a @ le32 b @ le32 c @ le32 d)"

definition fill_crc32 :: "u8 list \<Rightarrow> verify_header \<Rightarrow> verify_header" where
  "fill_crc32 p hdr = hdr\<lparr>vh_union := le64 (crc32 p) @ drop 8 (vh_union hdr)\<rparr>"

definition fill_md5 :: "u8 list \<Rightarrow> verify_header \<Rightarrow> verify_header" where
  "fill_md5 p hdr = hdr\<lparr>vh_union := hash_bytes (md5_hash (md5_update md5_zero p))\<rparr>"

text \<open>The contents of \<^verbatim>\<open>io_u->buf\<close> afterwards and the state of the generator; \<^const>\<open>None\<close> when the block
  is smaller than the header, where the length of the payload wraps around.\<close>

definition populate_verify_io_u ::
  "(nat \<Rightarrow> u8 list) \<Rightarrow> verify_header \<Rightarrow> u32 \<Rightarrow> nat \<Rightarrow> u32 \<Rightarrow> (u8 list \<times> nat) option" where
  "populate_verify_io_u r garbage verify n buflen =
     (if unat buflen < HDR_SIZE then None
      else
        let hdr = garbage\<lparr>fio_magic := FIO_HDR_MAGIC, vh_len := buflen\<rparr>;
            (p, n') = fill_random_bytes r n (unat buflen - HDR_SIZE);
            hdr = (if verify = VERIFY_MD5 then (fill_md5 p hdr)\<lparr>verify_type := VERIFY_MD5\<rparr>
                   else (fill_crc32 p hdr)\<lparr>verify_type := VERIFY_CRC32\<rparr>)
        in Some (hdr_bytes hdr @ p, n'))"

section \<open>Checking a block\<close>

text \<open>The payload the header claims: \<^verbatim>\<open>hdr->len - sizeof(*hdr)\<close> bytes behind it.\<close>

definition hdr_payload :: "verify_header \<Rightarrow> u8 list \<Rightarrow> u8 list option" where
  "hdr_payload hdr buf =
     (if unat (vh_len hdr) < HDR_SIZE \<or> unat (vh_len hdr) > length buf then None
      else Some (take (unat (vh_len hdr) - HDR_SIZE) (drop HDR_SIZE buf)))"

definition verify_io_u_crc32 :: "verify_header \<Rightarrow> u8 list \<Rightarrow> int option" where
  "verify_io_u_crc32 hdr buf =
     map_option (\<lambda>p. if le64 (crc32 p) \<noteq> take 8 (vh_union hdr) then 1 else 0) (hdr_payload hdr buf)"

definition verify_io_u_md5 :: "verify_header \<Rightarrow> u8 list \<Rightarrow> int option" where
  "verify_io_u_md5 hdr buf =
     map_option (\<lambda>p. if vh_union hdr \<noteq> hash_bytes (md5_hash (md5_update md5_zero p)) then 1 else 0) (hdr_payload hdr buf)"

definition verify_io_u :: "u8 list \<Rightarrow> int option" where
  "verify_io_u buf =
     Option.bind (read_hdr buf) (\<lambda>hdr.
       if fio_magic hdr \<noteq> FIO_HDR_MAGIC then Some 1
       else if verify_type hdr = VERIFY_MD5 then verify_io_u_md5 hdr buf
       else if verify_type hdr = VERIFY_CRC32 then verify_io_u_crc32 hdr buf
       else Some 1)"

section \<open>The header reads back\<close>

lemma le_word_le32: "le_word (le32 w @ rest) = w"
proof (rule bit_word_eqI)
  fix n
  assume "n < LENGTH(32)"
  then show "bit (le_word (le32 w @ rest)) n = bit w n"
    by (cases "n < 8"; cases "n < 16"; cases "n < 24") (auto simp: le_word_def le32_def bit_simps)
qed

lemma length_le [simp]: "length (le32 w) = 4" "length (le64 v) = 8"
  by (simp_all add: le32_def le64_def)

lemma read_hdr_bytes:
  "length (vh_pad h) = 4 \<Longrightarrow> length (vh_union h) = 16 \<Longrightarrow> read_hdr (hdr_bytes h @ p) = Some h"
  by (simp add: read_hdr_def hdr_bytes_def le_word_le32)

lemma length_hdr_bytes: "length (vh_pad h) = 4 \<Longrightarrow> length (vh_union h) = 16 \<Longrightarrow> length (hdr_bytes h) = 32"
  by (simp add: hdr_bytes_def)

lemma le64_inj: "le64 v = le64 w \<Longrightarrow> v = w"
proof (rule bit_word_eqI)
  fix n
  assume eq: "le64 v = le64 w" and n: "n < LENGTH(64)"
  have "n div 8 < 8" using n by simp
  then have "le64 u ! (n div 8) = ucast (drop_bit (8 * (n div 8)) u)" for u
    by (simp add: le64_def)
  then have "bit (ucast (drop_bit (8 * (n div 8)) v) :: u8) (n mod 8) = bit (ucast (drop_bit (8 * (n div 8)) w) :: u8) (n mod 8)"
    using eq by metis
  then show "bit v n = bit w n"
    using n by (simp add: bit_simps)
qed

lemma length_fill_random_bytes:
  "(\<And>i. length (r i) = 8) \<Longrightarrow> length (fst (fill_random_bytes r n len)) = len"
proof (induction r n len rule: fill_random_bytes.induct)
  case (1 r n len)
  show ?case
  proof (cases "len > 0")
    case True
    let ?t = "if 8 > len then len else 8"
    have "length (fst (fill_random_bytes r (Suc n) (len - ?t))) = len - ?t"
      using 1 True by blast
    with True 1(2) show ?thesis
      by (subst fill_random_bytes.simps) (auto simp: Let_def case_prod_beta)
  qed (simp add: fill_random_bytes.simps)
qed

section \<open>Blocks that were filled verify\<close>

lemma populate_some:
  "HDR_SIZE \<le> unat buflen \<Longrightarrow> \<exists>buf n'. populate_verify_io_u r garbage verify n buflen = Some (buf, n')"
  by (simp add: populate_verify_io_u_def Let_def case_prod_beta)

lemma unat_50: "HDR_SIZE \<le> unat (50 :: u32) \<longleftrightarrow> True"
  by simp

lemma length_hash_bytes: "length (hash_bytes h) = 16"
  by (cases h) (simp add: hash_bytes_def)

lemma populate_bytes:
  assumes "populate_verify_io_u r garbage verify n buflen = Some (buf, n')"
    and "length (vh_pad garbage) = 4" "length (vh_union garbage) = 16" "\<And>i. length (r i) = 8"
  shows "\<exists>hdr p. buf = hdr_bytes hdr @ p \<and> length p = unat buflen - HDR_SIZE \<and> HDR_SIZE \<le> unat buflen
    \<and> length (vh_pad hdr) = 4 \<and> length (vh_union hdr) = 16 \<and> fio_magic hdr = FIO_HDR_MAGIC \<and> vh_len hdr = buflen
    \<and> (if verify = VERIFY_MD5
       then verify_type hdr = VERIFY_MD5 \<and> vh_union hdr = hash_bytes (md5_hash (md5_update md5_zero p))
       else verify_type hdr = VERIFY_CRC32 \<and> take 8 (vh_union hdr) = le64 (crc32 p))"
proof -
  have big: "HDR_SIZE \<le> unat buflen"
    using assms(1) by (simp add: populate_verify_io_u_def split: if_splits)
  obtain p m where p: "fill_random_bytes r n (unat buflen - HDR_SIZE) = (p, m)" by fastforce
  have len: "length p = unat buflen - HDR_SIZE"
    using length_fill_random_bytes [of r n "unat buflen - HDR_SIZE"] assms(4) p by simp
  let ?g = "garbage\<lparr>fio_magic := FIO_HDR_MAGIC, vh_len := buflen\<rparr>"
  let ?h = "if verify = VERIFY_MD5 then (fill_md5 p ?g)\<lparr>verify_type := VERIFY_MD5\<rparr>
            else (fill_crc32 p ?g)\<lparr>verify_type := VERIFY_CRC32\<rparr>"
  have "buf = hdr_bytes ?h @ p"
    using assms(1) big p by (simp add: populate_verify_io_u_def Let_def)
  then show ?thesis
    using assms(2,3) big len
    by (intro exI [of _ ?h] exI [of _ p]) (simp add: fill_md5_def fill_crc32_def length_hash_bytes)
qed

lemma verify_with_header:
  assumes "length (vh_pad hdr) = 4" "length (vh_union hdr) = 16" "fio_magic hdr = FIO_HDR_MAGIC"
    and "HDR_SIZE \<le> unat (vh_len hdr)" "length p = unat (vh_len hdr) - HDR_SIZE"
  shows "verify_io_u (hdr_bytes hdr @ p) =
    (if verify_type hdr = VERIFY_MD5
     then Some (if vh_union hdr \<noteq> hash_bytes (md5_hash (md5_update md5_zero p)) then 1 else 0)
     else if verify_type hdr = VERIFY_CRC32 then Some (if le64 (crc32 p) \<noteq> take 8 (vh_union hdr) then 1 else 0)
     else Some 1)"
proof -
  have "hdr_payload hdr (hdr_bytes hdr @ p) = Some p"
    using assms(4,5) length_hdr_bytes [OF assms(1,2)] by (simp add: hdr_payload_def)
  then show ?thesis
    using assms(3) read_hdr_bytes [OF assms(1,2), of p]
    by (simp add: verify_io_u_def verify_io_u_md5_def verify_io_u_crc32_def)
qed

section \<open>Properties\<close>

text \<open>C30: a block filled by \<^verbatim>\<open>populate_verify_io_u\<close> passes \<^verbatim>\<open>verify_io_u\<close>, for both kinds of sum, every block
  length of at least a header, every random source and whatever was in the uninitialised header.\<close>

theorem verify_accepts_populated:
  assumes "populate_verify_io_u r garbage verify n buflen = Some (buf, n')"
    and "length (vh_pad garbage) = 4" "length (vh_union garbage) = 16" "\<And>i. length (r i) = 8"
  shows "verify_io_u buf = Some 0 \<and> length buf = unat buflen"
proof -
  obtain hdr p where h: "buf = hdr_bytes hdr @ p" "length p = unat buflen - HDR_SIZE" "HDR_SIZE \<le> unat buflen"
    "length (vh_pad hdr) = 4" "length (vh_union hdr) = 16" "fio_magic hdr = FIO_HDR_MAGIC" "vh_len hdr = buflen"
    and sum: "if verify = VERIFY_MD5
       then verify_type hdr = VERIFY_MD5 \<and> vh_union hdr = hash_bytes (md5_hash (md5_update md5_zero p))
       else verify_type hdr = VERIFY_CRC32 \<and> take 8 (vh_union hdr) = le64 (crc32 p)"
    using populate_bytes [OF assms] by blast
  have "length buf = unat buflen"
    using h(1-3) length_hdr_bytes [OF h(4,5)] by simp
  moreover have "verify_io_u buf = Some 0"
    unfolding h(1) using verify_with_header [OF h(4,5,6), of p] h(2,3,7) sum by (auto split: if_splits)
  ultimately show ?thesis by blast
qed

definition demo_garbage :: verify_header where
  "demo_garbage = \<lparr>fio_magic = 0, vh_len = 0, verify_type = 9, vh_pad = replicate 4 7, vh_union = replicate 16 8\<rparr>"

theorem verify_accepts_populated_witness:
  "\<exists>buf n'. populate_verify_io_u (\<lambda>i. replicate 8 (of_nat i)) demo_garbage VERIFY_CRC32 0 50 = Some (buf, n')
     \<and> verify_io_u buf = Some 0 \<and> length buf = 50"
proof -
  obtain buf n' where run: "populate_verify_io_u (\<lambda>i. replicate 8 (of_nat i)) demo_garbage VERIFY_CRC32 0 50 = Some (buf, n')"
    using populate_some [of 50] by (simp only: unat_50) blast
  from verify_accepts_populated [OF this] show ?thesis
    using run by (auto simp: demo_garbage_def)
qed

text \<open>With the CRC, a block whose payload was changed in one byte is rejected.\<close>

theorem verify_crc_rejects_changed_byte:
  assumes "populate_verify_io_u r garbage verify n buflen = Some (buf, n')" and "verify \<noteq> VERIFY_MD5"
    and "length (vh_pad garbage) = 4" "length (vh_union garbage) = 16" "\<And>i. length (r i) = 8"
    and "HDR_SIZE \<le> i" "i < length buf" "b \<noteq> buf ! i"
  shows "verify_io_u (buf[i := b]) = Some 1"
proof -
  obtain hdr p where h: "buf = hdr_bytes hdr @ p" "length p = unat buflen - HDR_SIZE" "HDR_SIZE \<le> unat buflen"
    "length (vh_pad hdr) = 4" "length (vh_union hdr) = 16" "fio_magic hdr = FIO_HDR_MAGIC" "vh_len hdr = buflen"
    and sum: "verify_type hdr = VERIFY_CRC32" "take 8 (vh_union hdr) = le64 (crc32 p)"
    using populate_bytes [OF assms(1,3,4,5)] assms(2) by auto
  note lh = length_hdr_bytes [OF h(4,5)]
  define j where "j = i - HDR_SIZE"
  have j: "j < length p" "buf ! i = p ! j"
    using assms(6,7) h(1) lh by (auto simp: j_def nth_append)
  have buf': "buf[i := b] = hdr_bytes hdr @ p[j := b]"
    using assms(6) h(1) lh by (simp add: j_def list_update_append)
  have "crc32 (p[j := b]) \<noteq> crc32 p"
  proof -
    have "p[j := b] = take j p @ b # drop (Suc j) p"
      using j(1) by (simp add: upd_conv_take_nth_drop)
    moreover have "p = take j p @ p ! j # drop (Suc j) p"
      using j(1) by (rule id_take_nth_drop)
    moreover have "b \<noteq> p ! j" using assms(8) j(2) by simp
    ultimately show ?thesis using crc32_changed_byte by metis
  qed
  then have "le64 (crc32 (p[j := b])) \<noteq> take 8 (vh_union hdr)"
    using sum(2) le64_inj by metis
  then show ?thesis
    unfolding buf' using verify_with_header [OF h(4,5,6), of "p[j := b]"] h(2,3,7) sum(1) by simp
qed

theorem verify_crc_rejects_changed_byte_witness:
  "\<exists>buf n'. populate_verify_io_u (\<lambda>i. replicate 8 (of_nat i)) demo_garbage VERIFY_CRC32 0 50 = Some (buf, n')
     \<and> verify_io_u (buf[40 := buf ! 40 + 1]) = Some 1"
proof -
  obtain buf n' where run: "populate_verify_io_u (\<lambda>i. replicate 8 (of_nat i)) demo_garbage VERIFY_CRC32 0 50 = Some (buf, n')"
    using populate_some [of 50] by (simp only: unat_50) blast
  have "length buf = 50"
    using populate_bytes [OF run] length_hdr_bytes by (fastforce simp: demo_garbage_def)
  with verify_crc_rejects_changed_byte [OF run, of 40 "buf ! 40 + 1"] show ?thesis
    using run by (auto simp: demo_garbage_def)
qed

text \<open>C31: the MD5 sum never covers the end of a block.  The digest stored is the running hash without the
  final padding, so in a filled block the bytes after the last whole 64 bytes of payload may be
  replaced by anything of the same length and the block still passes.\<close>

theorem verify_md5_ignores_tail:
  assumes "populate_verify_io_u r garbage VERIFY_MD5 n buflen = Some (buf, n')"
    and "length (vh_pad garbage) = 4" "length (vh_union garbage) = 16" "\<And>i. length (r i) = 8"
    and "k = HDR_SIZE + (unat buflen - HDR_SIZE) div 64 * 64" "length tail = length buf - k"
  shows "verify_io_u (take k buf @ tail) = Some 0"
proof -
  obtain hdr p where h: "buf = hdr_bytes hdr @ p" "length p = unat buflen - HDR_SIZE" "HDR_SIZE \<le> unat buflen"
    "length (vh_pad hdr) = 4" "length (vh_union hdr) = 16" "fio_magic hdr = FIO_HDR_MAGIC" "vh_len hdr = buflen"
    and sum: "verify_type hdr = VERIFY_MD5" "vh_union hdr = hash_bytes (md5_hash (md5_update md5_zero p))"
    using populate_bytes [OF assms(1-4)] by auto
  note lh = length_hdr_bytes [OF h(4,5)]
  define m where "m = length p div 64 * 64"
  have k: "k = HDR_SIZE + m" and m: "m \<le> length p" "length p - m < 64"
    using assms(5) h(2) by (simp_all add: m_def minus_div_mult_eq_mod)
  have buf': "take k buf @ tail = hdr_bytes hdr @ (take m p @ tail)"
    using lh by (simp add: h(1) k)
  have lt: "length tail = length p - m"
    using assms(6) lh by (simp add: h(1) k)
  have small: "length p < 2 ^ 32"
  proof -
    have "length p < 4294967296" using h(2) unat_less_u32 [of buflen] by linarith
    then show ?thesis by simp
  qed
  have hash: "md5_hash (md5_update md5_zero q) = fst (absorb (0, 0, 0, 0) q)" if "length q < 2 ^ 32" for q
  proof -
    have "md5_ok md5_zero" by (simp add: md5_ok_def md5_zero_def)
    from md5_update_refines(2) [OF this that] have "fst (md5_abs (md5_update md5_zero q)) = fst (absorb (0, 0, 0, 0) q)"
      by (simp add: md5_zero_def pending_len_def)
    then show ?thesis by (simp add: md5_abs_def)
  qed
  have tailfree: "fst (absorb h (xs @ ys)) = fst (absorb h xs)" if "length xs mod 64 = 0" "length ys < 64" for h xs ys
    using that(1)
  proof (induction h xs rule: absorb.induct)
    case (1 h xs)
    show ?case
    proof (cases "64 \<le> length xs")
      case True
      have "length (drop 64 xs) mod 64 = 0" using 1(2) True by (simp add: le_mod_geq)
      from 1(1) [OF True this] True show ?thesis by (simp add: absorb_long)
    next
      case False
      with 1(2) have "xs = []" by simp
      then show ?thesis using that(2) by (simp add: absorb_short)
    qed
  qed
  have "length (take m p) = m" using m(1) by simp
  then have z: "length (take m p) mod 64 = 0" by (simp add: m_def)
  have "fst (absorb (0, 0, 0, 0) (take m p @ tail)) = fst (absorb (0, 0, 0, 0) (take m p))"
    by (rule tailfree [OF z]) (use lt m(2) in simp)
  moreover have "fst (absorb (0, 0, 0, 0) (take m p @ drop m p)) = fst (absorb (0, 0, 0, 0) (take m p))"
    by (rule tailfree [OF z]) (use m(2) in simp)
  ultimately have "md5_hash (md5_update md5_zero (take m p @ tail)) = md5_hash (md5_update md5_zero p)"
    using hash [of p] hash [of "take m p @ tail"] small lt m(1) by simp
  then show ?thesis
    unfolding buf' using verify_with_header [OF h(4,5,6), of "take m p @ tail"] h(2,3,7) sum lt m(1) by simp
qed

theorem verify_md5_ignores_tail_witness:
  "\<exists>buf n'. populate_verify_io_u (\<lambda>i. replicate 8 (of_nat i)) demo_garbage VERIFY_MD5 0 50 = Some (buf, n')
     \<and> verify_io_u (take 32 buf @ replicate 18 99) = Some 0"
proof -
  obtain buf n' where run: "populate_verify_io_u (\<lambda>i. replicate 8 (of_nat i)) demo_garbage VERIFY_MD5 0 50 = Some (buf, n')"
    using populate_some [of 50] by (simp only: unat_50) blast
  have "length buf = 50"
    using populate_bytes [OF run] length_hdr_bytes by (fastforce simp: demo_garbage_def)
  with verify_md5_ignores_tail [OF run, of 32 "replicate 18 99"] show ?thesis
    using run by (auto simp: demo_garbage_def)
qed

end
