(* ===== verification/FioIoU.thy ===== *)
theory FioIoU
  imports FioLog FioVerify
begin

text \<open>
  The I/O units of fio (\<^verbatim>\<open>io_u.c\<close>): the pool of free and busy units, the map of blocks already done, the
  choice of the next direction, offset and length, and the completion of units.  What the random
  generators and the I/O engine answer is the environment \<open>io_env\<close>; a random long is a number below
  2^31.  An access outside the map, a division by zero, a failed assertion or a use of an unset file is
  a fault.
\<close>

record io_env =
  io_time :: time_env
  env_random :: "nat \<Rightarrow> nat"  \<comment> \<open>the draws from \<^verbatim>\<open>random_state\<close>\<close>
  env_bsrange :: "nat \<Rightarrow> nat"
  env_rwmix :: "nat \<Rightarrow> nat"
  env_verify :: "nat \<Rightarrow> u8 list"
  env_garbage :: verify_header
  env_prep :: "io_u \<Rightarrow> bool"  \<comment> \<open>the engine's \<^verbatim>\<open>prep\<close> fails\<close>
  env_event :: "nat \<Rightarrow> nat"  \<comment> \<open>the unit of the engine's \<open>n\<close>-th event\<close>

record io_completion_data =
  icd_error :: u32
  bytes_done :: "u64 list"
  icd_time :: timeval

section \<open>The map of blocks\<close>

text \<open>The first zero bit of a word.\<close>

definition generic_ffz :: "u64 \<Rightarrow> u64" where
  "generic_ffz w = (case List.find (\<lambda>i. \<not> bit w i) [0..<64] of Some i \<Rightarrow> of_nat i | None \<Rightarrow> -1)"

definition map_idx :: "'a thread_data_scheme \<Rightarrow> fio_file \<Rightarrow> u64 \<Rightarrow> nat" where
  "map_idx td f b = unat (ucast (RAND_MAP_IDX td f b) :: u32)"

definition map_bit :: "'a thread_data_scheme \<Rightarrow> fio_file \<Rightarrow> u64 \<Rightarrow> nat" where
  "map_bit td f b = unat (ucast (RAND_MAP_BIT td f b) :: u32)"

definition random_map_free :: "'a thread_data_scheme \<Rightarrow> fio_file \<Rightarrow> u64 \<Rightarrow> fio_fault + bool" where
  "random_map_free td f block =
     (if map_idx td f block \<ge> length (file_map f) then Inl OutOfBounds
      else Inr (file_map f ! map_idx td f block AND push_bit (map_bit td f block) 1 = 0))"

text \<open>The loop of \<^verbatim>\<open>mark_random_map\<close>; its first argument is how many blocks are left to try.\<close>

fun mark_loop :: "'a thread_data_scheme \<Rightarrow> nat \<Rightarrow> u64 \<Rightarrow> u32 \<Rightarrow> fio_file \<Rightarrow> fio_fault + u32 \<times> fio_file" where
  "mark_loop td 0 block blocks f = Inr (blocks, f)"
| "mark_loop td (Suc n) block blocks f =
     sbind (random_map_free td f block) (\<lambda>free.
       if \<not> free then Inr (blocks, f)
       else
         let i = map_idx td f block in
         if \<not> i < length (file_map f) then Inl AssertFailed
         else mark_loop td n (block + 1) (blocks + 1)
                (f\<lparr>file_map := (file_map f)[i := file_map f ! i OR push_bit (map_bit td f block) 1]\<rparr>))"

definition mark_random_map :: "'a thread_data_scheme \<Rightarrow> fio_file \<Rightarrow> io_u \<Rightarrow> fio_fault + fio_file \<times> io_u" where
  "mark_random_map td f iou =
     (let bs = min_bs td ! ddir_nr (ddir iou) in
      if bs = 0 then Inl DivisionByZero
      else
        sbind (mark_loop td (unat (buflen iou div bs)) (offset iou div ucast bs) 0 f) (\<lambda>(blocks, f).
          Inr (f, if blocks * bs < buflen iou then iou\<lparr>buflen := blocks * bs\<rparr> else iou)))"

function free_block_from :: "'a thread_data_scheme \<Rightarrow> fio_file \<Rightarrow> nat \<Rightarrow> u64 \<Rightarrow> fio_fault + u64 option" where
  "free_block_from td f i b =
     (if \<not> b * ucast (rw_min_bs td) < real_file_size f then Inr None
      else if i \<ge> length (file_map f) then Inl OutOfBounds
      else if file_map f ! i \<noteq> -1 then Inr (Some (b + generic_ffz (file_map f ! i)))
      else free_block_from td f (Suc i) (b + BLOCKS_PER_MAP))"
  by pat_completeness auto

termination
  by (relation "measure (\<lambda>(td, f, i, b). length (file_map f) - i)") auto

declare free_block_from.simps [simp del]

definition get_next_free_block :: "'a thread_data_scheme \<Rightarrow> fio_file \<Rightarrow> fio_fault + u64 option" where
  "get_next_free_block td f = free_block_from td f 0 0"

section \<open>The next piece of I/O\<close>

text \<open>The draws of random blocks, at most fifty; the result also has how many are left.\<close>

fun try_random :: "io_env \<Rightarrow> nat \<Rightarrow> fio_file \<Rightarrow> nat \<Rightarrow> 'a thread_data_scheme \<Rightarrow> fio_fault + nat \<times> u64 \<times> 'a thread_data_scheme" where
  "try_random env d f 0 td = Inr (0, 0, td)"
| "try_random env d f (Suc loops) td =
     (let bs = ucast (min_bs td ! d); r = of_nat (env_random env (random_state td));
          td = td\<lparr>random_state := Suc (random_state td)\<rparr>;
          b = drop_bit 31 ((file_size f div bs - 1) * r)
      in if norandommap td then Inr (Suc loops, b, td)
         else sbind (random_map_free td f (b + file_offset f div bs)) (\<lambda>free.
           if \<not> free \<and> loops \<noteq> 0 then try_random env d f loops td else Inr (loops, b, td)))"

text \<open>The result of the C function and the offset, which keeps its old value when no block is found.\<close>

definition get_next_offset ::
  "io_env \<Rightarrow> nat \<Rightarrow> u64 \<Rightarrow> nat \<Rightarrow> 'a thread_data_scheme \<Rightarrow> fio_fault + int \<times> u64 \<times> 'a thread_data_scheme" where
  "get_next_offset env fi old d td =
     (let f = files td ! fi; bs = ucast (min_bs td ! d) in
      if bs = 0 then Inl DivisionByZero
      else
        sbind (if \<not> sequential td
               then sbind (try_random env d f 50 td) (\<lambda>(loops, b, td).
                      if loops = 0 then sbind (get_next_free_block td f) (\<lambda>fb. Inr (fb, td)) else Inr (Some b, td))
               else Inr (Some (last_pos f div bs), td)) (\<lambda>(fb, td).
          case fb of None \<Rightarrow> Inr (1, old, td)
          | Some b \<Rightarrow>
              let off = b * bs + file_offset f
              in Inr (if off > real_file_size f then 1 else 0, off, td)))"

text \<open>\<^verbatim>\<open>1 + (double) (max_bs - 1) * r / (RAND_MAX + 1.0)\<close> converted to \<^verbatim>\<open>unsigned int\<close>: the product and the sum are
  rounded, the division by 2^31 is exact.\<close>

definition random_buflen :: "u32 \<Rightarrow> nat \<Rightarrow> u32" where
  "random_buflen bs r = of_nat (rnd53_nat (2 ^ 31 + rnd53_nat (unat (bs - 1) * r)) div 2 ^ 31)"

definition get_next_buflen :: "io_env \<Rightarrow> nat \<Rightarrow> 'a thread_data_scheme \<Rightarrow> u32 \<times> 'a thread_data_scheme" where
  "get_next_buflen env d td =
     (let mn = min_bs td ! d; mx = max_bs td ! d;
          (len, td) =
            (if mn = mx then (mn, td)
             else let len = random_buflen mx (env_bsrange env (bsrange_state td))
                  in (if \<not> bs_unaligned td then (len + mn - 1) AND NOT (mn - 1) else len,
                      td\<lparr>bsrange_state := Suc (bsrange_state td)\<rparr>))
      in if ucast len > io_size td - this_io_bytes td ! d
         then (if rawio td then 0 else ucast (io_size td - this_io_bytes td ! d), td)
         else (len, td))"

definition get_rw_ddir :: "io_env \<Rightarrow> 'a thread_data_scheme \<Rightarrow> fio_ddir \<times> 'a thread_data_scheme" where
  "get_rw_ddir env td =
     (if td_rw td
      then
        let (now, td) = fio_gettime (io_time env) td;
            (elapsed, td) = mtime_since_now (io_time env) (rwmix_switch td) td
        in if elapsed \<ge> ucast (rwmixcycle td)
           then let v = 1 + 100 * env_rwmix env (rwmix_state td) div 2 ^ 31;
                    td = td\<lparr>rwmix_state := Suc (rwmix_state td)\<rparr>;
                    d = (if v < unat (rwmixread td) then DDIR_READ else DDIR_WRITE)
                in (d, td\<lparr>rwmix_ddir := d, rwmix_switch := now\<rparr>)
           else (rwmix_ddir td, td)
      else if td_read td then (DDIR_READ, td) else (DDIR_WRITE, td))"

text \<open>The C result and the filled unit.\<close>

definition fill_io_u :: "io_env \<Rightarrow> nat \<Rightarrow> io_u \<Rightarrow> 'a thread_data_scheme \<Rightarrow> fio_fault + int \<times> io_u \<times> 'a thread_data_scheme" where
  "fill_io_u env fi iou td =
     (if use_read_iolog td then Inr (read_iolog_get iou td)
      else if fsync_blocks td \<noteq> 0 \<and> io_blocks td ! 1 mod ucast (fsync_blocks td) = 0 \<and> should_fsync td
      then Inr (0, iou\<lparr>ddir := DDIR_SYNC, io_file := Some fi\<rparr>, td)
      else
        let (d, td) = get_rw_ddir env td; iou = iou\<lparr>ddir := d\<rparr>
        in sbind (get_next_offset env fi (offset iou) (ddir_nr d) td) (\<lambda>(ret, off, td).
             let iou = iou\<lparr>offset := off\<rparr> in
             if ret \<noteq> 0 then Inr (1, iou, td)
             else
               let (len, td) = get_next_buflen env (ddir_nr d) td; iou = iou\<lparr>buflen := len\<rparr>
               in if len = 0 then Inr (1, iou, td)
                  else Inr (0, iou\<lparr>io_file := Some fi\<rparr>, if use_write_iolog td then write_iolog_put iou td else td)))"

section \<open>The pool\<close>

text \<open>\<^verbatim>\<open>list_del\<close> unlinks a unit from whichever list it is on.\<close>

definition put_io_u :: "nat \<Rightarrow> 'a thread_data_scheme \<Rightarrow> 'a thread_data_scheme" where
  "put_io_u i td =
     td\<lparr>io_us := (io_us td)[i := (io_us td ! i)\<lparr>io_file := None\<rparr>],
        io_u_freelist := i # remove1 i (io_u_freelist td),
        io_u_busylist := remove1 i (io_u_busylist td),
        cur_depth := cur_depth td - 1\<rparr>"

definition get_free_io_u :: "'a thread_data_scheme \<Rightarrow> nat option \<times> 'a thread_data_scheme" where
  "get_free_io_u td =
     (case io_u_freelist td of
        [] \<Rightarrow> (None, td)
      | i # rest \<Rightarrow>
          (Some i, td\<lparr>io_us := (io_us td)[i := (io_us td ! i)\<lparr>buflen := 0, io_error := 0, resid := 0\<rparr>],
                      io_u_freelist := rest, io_u_busylist := i # io_u_busylist td, cur_depth := cur_depth td + 1\<rparr>))"

definition td_io_prep :: "io_env \<Rightarrow> io_u \<Rightarrow> int" where
  "td_io_prep env iou = (if env_prep env iou then 1 else 0)"

text \<open>The step from the filled unit to the one that is returned, and the whole function.  \<open>set_iou\<close> and
  \<open>set_file\<close> write through the pointers.\<close>

definition set_iou :: "nat \<Rightarrow> io_u \<Rightarrow> 'a thread_data_scheme \<Rightarrow> 'a thread_data_scheme" where
  "set_iou i iou td = td\<lparr>io_us := (io_us td)[i := iou]\<rparr>"

definition set_file :: "nat \<Rightarrow> fio_file \<Rightarrow> 'a thread_data_scheme \<Rightarrow> 'a thread_data_scheme" where
  "set_file fi f td = td\<lparr>files := (files td)[fi := f]\<rparr>"

definition claim_io_u :: "io_env \<Rightarrow> nat \<Rightarrow> io_u \<Rightarrow> 'a thread_data_scheme \<Rightarrow> fio_fault + io_u \<times> 'a thread_data_scheme" where
  "claim_io_u env fi iou td =
     sbind (if \<not> use_read_iolog td \<and> \<not> sequential td \<and> \<not> norandommap td
            then mark_random_map td (files td ! fi) iou else Inr (files td ! fi, iou)) (\<lambda>(f, iou).
       let td = set_file fi (f\<lparr>last_pos := last_pos f + ucast (buflen iou)\<rparr>) td
       in if td_verify td = 0 then Inr (iou, td)
          else case populate_verify_io_u (env_verify env) (env_garbage env) (td_verify td) (verify_state td) (buflen iou) of
            None \<Rightarrow> Inl OutOfBounds
          | Some (buf, n) \<Rightarrow> Inr (iou\<lparr>io_buf := buf\<rparr>, td\<lparr>verify_state := n\<rparr>))"

definition skip_zone :: "nat \<Rightarrow> 'a thread_data_scheme \<Rightarrow> 'a thread_data_scheme" where
  "skip_zone fi td =
     (if zone_bytes td \<ge> zone_size td
      then set_file fi ((files td ! fi)\<lparr>last_pos := last_pos (files td ! fi) + zone_skip td\<rparr>) (td\<lparr>zone_bytes := 0\<rparr>)
      else td)"

definition get_io_u :: "io_env \<Rightarrow> nat \<Rightarrow> 'a thread_data_scheme \<Rightarrow> fio_fault + nat option \<times> 'a thread_data_scheme" where
  "get_io_u env fi td =
     (case get_free_io_u td of
        (None, td) \<Rightarrow> Inr (None, td)
      | (Some i, td) \<Rightarrow>
          let td = skip_zone fi td in
          sbind (fill_io_u env fi (io_us td ! i) td) (\<lambda>(ret, iou, td).
            let td = set_iou i iou td; sz = real_file_size (files td ! fi) in
            if ret \<noteq> 0 then Inr (None, put_io_u i td)
            else if ucast (buflen iou) + offset iou > sz \<and> rawio td then Inr (None, put_io_u i td)
            else
              let iou = (if ucast (buflen iou) + offset iou > sz then iou\<lparr>buflen := ucast (sz - offset iou)\<rparr> else iou) in
              if ddir iou \<noteq> DDIR_SYNC \<and> buflen iou = 0 then Inr (None, put_io_u i (set_iou i iou td))
              else
                sbind (if ddir iou \<noteq> DDIR_SYNC then claim_io_u env fi iou td else Inr (iou, td)) (\<lambda>(iou, td).
                  if td_io_prep env iou \<noteq> 0 then Inr (None, put_io_u i (set_iou i iou td))
                  else let (now, td) = fio_gettime (io_time env) td
                       in Inr (Some i, set_iou i (iou\<lparr>start_time := now\<rparr>) td))))"

section \<open>Completion\<close>

definition io_completed ::
  "io_env \<Rightarrow> nat \<Rightarrow> io_completion_data \<Rightarrow> 'a thread_data_scheme \<Rightarrow> fio_fault + io_completion_data \<times> 'a thread_data_scheme" where
  "io_completed env i icd td =
     (let iou = io_us td ! i; k = ddir_nr (ddir iou) in
      if ddir iou = DDIR_SYNC then Inr (icd, td\<lparr>last_was_sync := True\<rparr>)
      else
        let td = td\<lparr>last_was_sync := False\<rparr> in
        if io_error iou \<noteq> 0 then Inr (icd\<lparr>icd_error := io_error iou\<rparr>, td)
        else
          let bytes = buflen iou - resid iou;
              td = td\<lparr>io_blocks := (io_blocks td)[k := io_blocks td ! k + 1],
                      io_bytes := (io_bytes td)[k := io_bytes td ! k + ucast bytes],
                      zone_bytes := zone_bytes td + ucast bytes,
                      this_io_bytes := (this_io_bytes td)[k := this_io_bytes td ! k + ucast bytes]\<rparr>
          in case io_file iou of
            None \<Rightarrow> Inl NullPointer
          | Some fi \<Rightarrow>
              let td = set_file fi ((files td ! fi)\<lparr>last_completed_pos := offset iou + ucast (buflen iou)\<rparr>) td;
                  msec = mtime_since (issue_time iou) (icd_time icd)
              in sbind (add_clat_sample (io_time env) (ddir iou) msec td) (\<lambda>td.
                 sbind (add_bw_sample (io_time env) (ddir iou) (icd_time icd) td) (\<lambda>td.
                   let td = (if (td_rw td \<or> td_write td) \<and> ddir iou = DDIR_WRITE then log_io_piece iou td else td)
                   in Inr (icd\<lparr>bytes_done := (bytes_done icd)[k := bytes_done icd ! k + ucast bytes]\<rparr>, td))))"

fun complete_events ::
  "io_env \<Rightarrow> nat list \<Rightarrow> io_completion_data \<Rightarrow> 'a thread_data_scheme \<Rightarrow> fio_fault + io_completion_data \<times> 'a thread_data_scheme" where
  "complete_events env [] icd td = Inr (icd, td)"
| "complete_events env (i # is) icd td =
     sbind (io_completed env i icd td) (\<lambda>(icd, td). complete_events env is icd (put_io_u i td))"

definition ios_completed :: "io_env \<Rightarrow> nat \<Rightarrow> 'a thread_data_scheme \<Rightarrow> fio_fault + io_completion_data \<times> 'a thread_data_scheme" where
  "ios_completed env nr td =
     (let (now, td) = fio_gettime (io_time env) td
      in complete_events env (map (env_event env) [0..<nr]) \<lparr>icd_error = 0, bytes_done = [0, 0], icd_time = now\<rparr> td)"

text \<open>The verification of a unit read back (\<^verbatim>\<open>verify.c\<close>): the result, then the unit goes back to the pool.\<close>

definition do_io_u_verify :: "nat option \<Rightarrow> 'a thread_data_scheme \<Rightarrow> (int \<times> 'a thread_data_scheme) option" where
  "do_io_u_verify iou td =
     (case iou of None \<Rightarrow> Some (0, td)
      | Some i \<Rightarrow> map_option (\<lambda>ret. (ret, put_io_u i td)) (verify_io_u (io_buf (io_us td ! i))))"

section \<open>The map as a set of blocks\<close>

definition taken :: "fio_file \<Rightarrow> nat \<Rightarrow> bool" where
  "taken f p \<longleftrightarrow> p div 64 < length (file_map f) \<and> bit (file_map f ! (p div 64)) (p mod 64)"

text \<open>The number of a block within the file's map.\<close>

definition map_pos :: "'a thread_data_scheme \<Rightarrow> fio_file \<Rightarrow> u64 \<Rightarrow> nat" where
  "map_pos td f b = unat (TO_MAP_BLOCK td f b)"

lemma map_idx_pos: "map_pos td f b < 2 ^ 38 \<Longrightarrow> map_idx td f b = map_pos td f b div 64"
proof -
  assume "map_pos td f b < 2 ^ 38"
  then have "map_pos td f b div 64 < 2 ^ 32" by (simp add: div_less_iff_less_mult)
  then show ?thesis by (simp add: map_idx_def map_pos_def RAND_MAP_IDX_def unat_ucast_mod unat_div)
qed

lemma map_bit_pos: "map_bit td f b = map_pos td f b mod 64"
proof -
  have "TO_MAP_BLOCK td f b AND 63 = take_bit 6 (TO_MAP_BLOCK td f b)"
    by (simp add: take_bit_eq_mask mask_eq_exp_minus_1)
  moreover have "unat (take_bit 6 (TO_MAP_BLOCK td f b)) = take_bit 6 (unat (TO_MAP_BLOCK td f b))"
    by (simp only: unsigned_take_bit_eq)
  ultimately have "unat (RAND_MAP_BIT td f b) = map_pos td f b mod 64"
    by (simp add: RAND_MAP_BIT_def map_pos_def take_bit_eq_mod [where ?'a = nat])
  then show ?thesis by (simp add: map_bit_def unat_ucast_mod)
qed

lemma and_bit_zero: "w AND 2 ^ n = 0 \<longleftrightarrow> \<not> bit w n" if "n < 64" for w :: u64
proof
  assume z: "w AND 2 ^ n = 0"
  show "\<not> bit w n"
  proof
    assume "bit w n"
    then have "bit (w AND 2 ^ n) n" using that by (simp add: bit_simps)
    with z show False by simp
  qed
next
  assume "\<not> bit w n"
  then show "w AND 2 ^ n = 0" by (intro bit_word_eqI) (auto simp: bit_simps)
qed

lemma random_map_free_pos:
  assumes "map_pos td f b < 2 ^ 38"
  shows "random_map_free td f b
    = (if map_pos td f b div 64 \<ge> length (file_map f) then Inl OutOfBounds else Inr (\<not> taken f (map_pos td f b)))"
  using map_idx_pos [OF assms] map_bit_pos [of td f b] by (simp add: random_map_free_def taken_def and_bit_zero)

lemma taken_mark:
  assumes "p div 64 < length (file_map f)"
  shows "taken (f\<lparr>file_map := (file_map f)[p div 64 := file_map f ! (p div 64) OR push_bit (p mod 64) 1]\<rparr>) q \<longleftrightarrow> q = p \<or> taken f q"
proof (cases "q div 64 = p div 64")
  case True
  then have "q = p \<longleftrightarrow> q mod 64 = p mod 64" by (metis div_mult_mod_eq)
  with True assms show ?thesis by (auto simp: taken_def bit_simps)
next
  case False
  then show ?thesis by (auto simp: taken_def)
qed

text \<open>The blocks marked are the free ones at the front of the range.\<close>

lemma map_pos_step: "map_pos td f b = p \<Longrightarrow> p < 2 ^ 63 \<Longrightarrow> map_pos td f (b + 1) = Suc p"
proof -
  assume p: "map_pos td f b = p" "p < 2 ^ 63"
  have "TO_MAP_BLOCK td f (b + 1) = TO_MAP_BLOCK td f b + 1" by (simp add: TO_MAP_BLOCK_def)
  moreover have "unat (TO_MAP_BLOCK td f b + 1) = Suc (unat (TO_MAP_BLOCK td f b))"
    using p by (subst unat_add_lem [THEN iffD1]) (simp_all add: map_pos_def)
  ultimately show ?thesis using p by (simp add: map_pos_def)
qed

lemma map_pos_file: "map_pos td (f\<lparr>file_map := m\<rparr>) b = map_pos td f b"
  by (simp add: map_pos_def TO_MAP_BLOCK_def)

lemma mark_loop_claims:
  "map_pos td f b = p \<Longrightarrow> p + n \<le> 64 * length (file_map f) \<Longrightarrow> length (file_map f) \<le> 2 ^ 32 \<Longrightarrow>
   \<exists>m f'. mark_loop td n b k f = Inr (k + of_nat m, f') \<and> m \<le> n
     \<and> (\<forall>q. taken f' q \<longleftrightarrow> taken f q \<or> p \<le> q \<and> q < p + m)
     \<and> (\<forall>q. p \<le> q \<and> q < p + m \<longrightarrow> \<not> taken f q) \<and> (m < n \<longrightarrow> taken f (p + m))
     \<and> (\<exists>mp. length mp = length (file_map f) \<and> f' = f\<lparr>file_map := mp\<rparr>)"
proof (induction n arbitrary: b k f p)
  case 0
  show ?case by (intro exI [of _ 0] exI [of _ f]) (auto intro!: exI [of _ "file_map f"])
next
  case (Suc n)
  have small: "p < 2 ^ 38" "p div 64 < length (file_map f)" using Suc.prems by auto
  have free: "random_map_free td f b = Inr (\<not> taken f p)"
    using random_map_free_pos [of td f b] Suc.prems small by simp
  show ?case
  proof (cases "taken f p")
    case True
    then show ?thesis using free
      by (intro exI [of _ 0] exI [of _ f]) (auto intro!: exI [of _ "file_map f"])
  next
    case False
    define f1 where "f1 = f\<lparr>file_map := (file_map f)[p div 64 := file_map f ! (p div 64) OR push_bit (p mod 64) 1]\<rparr>"
    have t1: "taken f1 q \<longleftrightarrow> q = p \<or> taken f q" for q
      unfolding f1_def by (rule taken_mark [OF small(2)])
    have run: "mark_loop td (Suc n) b k f = mark_loop td n (b + 1) (k + 1) f1"
      using free False small map_idx_pos [of td f b] map_bit_pos [of td f b] Suc.prems(1)
      by (simp add: f1_def Let_def)
    have "map_pos td f1 (b + 1) = Suc p"
      using map_pos_step [of td f b p] Suc.prems(1) small(1) by (simp add: f1_def map_pos_file)
    from Suc.IH [OF this, of "k + 1"] Suc.prems(2,3) obtain m f' mp where
      r: "mark_loop td n (b + 1) (k + 1) f1 = Inr (k + 1 + of_nat m, f')" "m \<le> n"
      and t: "\<forall>q. taken f' q \<longleftrightarrow> taken f1 q \<or> Suc p \<le> q \<and> q < Suc p + m"
      and fr: "\<forall>q. Suc p \<le> q \<and> q < Suc p + m \<longrightarrow> \<not> taken f1 q" and e: "m < n \<longrightarrow> taken f1 (Suc p + m)"
      and mp: "length mp = length (file_map f1)" "f' = f1\<lparr>file_map := mp\<rparr>"
      by (auto simp: f1_def)
    show ?thesis
    proof (intro exI [of _ "Suc m"] exI [of _ f'] conjI)
      show "mark_loop td (Suc n) b k f = Inr (k + of_nat (Suc m), f')" using run r by (simp add: algebra_simps)
      show "\<forall>q. taken f' q \<longleftrightarrow> taken f q \<or> p \<le> q \<and> q < p + Suc m"
      proof
        fix q
        have "taken f' q \<longleftrightarrow> (q = p \<or> taken f q) \<or> Suc p \<le> q \<and> q < Suc p + m" using t t1 by simp
        also have "\<dots> \<longleftrightarrow> taken f q \<or> p \<le> q \<and> q < p + Suc m" by auto
        finally show "taken f' q \<longleftrightarrow> taken f q \<or> p \<le> q \<and> q < p + Suc m" .
      qed
      show "\<forall>q. p \<le> q \<and> q < p + Suc m \<longrightarrow> \<not> taken f q"
        using fr False unfolding t1 by (metis Suc_leI le_neq_implies_less add_Suc_right add_Suc)
      show "Suc m < Suc n \<longrightarrow> taken f (p + Suc m)" using e unfolding t1 by auto
      show "\<exists>mp. length mp = length (file_map f) \<and> f' = f\<lparr>file_map := mp\<rparr>"
        using mp by (intro exI [of _ mp]) (simp add: f1_def)
    qed (use r in simp)
  qed
qed

section \<open>The first free block\<close>

lemma generic_ffz_first:
  assumes "w \<noteq> (-1 :: u64)"
  shows "unat (generic_ffz w) < 64 \<and> \<not> bit w (unat (generic_ffz w)) \<and> (\<forall>i < unat (generic_ffz w). bit w i)"
proof -
  have "\<exists>i<64. \<not> bit w i"
  proof (rule ccontr)
    assume "\<not> ?thesis"
    then have "w = -1" by (intro bit_word_eqI) auto
    with assms show False by simp
  qed
  then have "List.find (\<lambda>i. \<not> bit w i) [0..<64] \<noteq> None" by (auto simp: find_None_iff)
  then obtain i where i: "List.find (\<lambda>i. \<not> bit w i) [0..<64] = Some i" by blast
  then obtain k where k: "k < 64" "\<not> bit w ([0..<64] ! k)" "i = [0..<64] ! k" "\<forall>j<k. bit w ([0..<64] ! j)"
    by (auto simp: find_Some_iff)
  then have "i = k" by simp
  have "bit w j" if "j < k" for j
    using k(4) that k(1) nth_upt [of 0 j 64] by auto
  with k \<open>i = k\<close> have f: "i < 64" "\<not> bit w i" "\<forall>j<i. bit w j" by auto
  moreover have "unat (generic_ffz w) = i" using f i by (simp add: generic_ffz_def unat_of_nat)
  ultimately show ?thesis by simp
qed

lemma free_block_from_least:
  "free_block_from td f i b = Inr (Some r) \<Longrightarrow> unat b = 64 * i \<Longrightarrow> length (file_map f) \<le> 2 ^ 32 \<Longrightarrow>
   \<forall>q < 64 * i. taken f q \<Longrightarrow>
   unat r < 64 * length (file_map f) \<and> \<not> taken f (unat r) \<and> (\<forall>q < unat r. taken f q)"
proof (induction td f i b rule: free_block_from.induct)
  case (1 td f i b)
  show ?case
  proof (cases "file_map f ! i = -1")
    case True
    have i: "i < length (file_map f)" and next_block: "free_block_from td f (Suc i) (b + 64) = Inr (Some r)"
      using 1(2) True by (subst (asm) free_block_from.simps, auto split: if_splits)+
    have guard: "\<not> \<not> b * ucast (rw_min_bs td) < real_file_size f"
      using 1(2) by (subst (asm) free_block_from.simps) (auto split: if_splits)
    have "unat (b + 64) = 64 * Suc i"
      using 1(3,4) i by (subst unat_add_lem [THEN iffD1]) simp_all
    moreover have "\<forall>q < 64 * Suc i. taken f q"
    proof (intro allI impI)
      fix q assume q: "q < 64 * Suc i"
      show "taken f q"
      proof (cases "q < 64 * i")
        case False
        then have "q div 64 = i" using q by (simp add: div_nat_eqI)
        then show ?thesis using True i by (simp add: taken_def)
      qed (use 1(5) in simp)
    qed
    ultimately show ?thesis using "1.IH" [OF guard _ _ next_block] i True 1(4) by simp
  next
    case False
    then have i: "i < length (file_map f)" and r: "r = b + generic_ffz (file_map f ! i)"
      using 1(2) by (subst (asm) free_block_from.simps, auto split: if_splits)+
    note z = generic_ffz_first [OF False]
    have u: "unat r = 64 * i + unat (generic_ffz (file_map f ! i))"
      unfolding r using 1(3,4) i z by (subst unat_add_lem [THEN iffD1]) simp_all
    have d: "unat r div 64 = i" "unat r mod 64 = unat (generic_ffz (file_map f ! i))" using u z by simp_all
    have "taken f q" if "q < unat r" for q
    proof (cases "q < 64 * i")
      case False
      then have d: "q div 64 = i" using that u z by (simp add: div_nat_eqI)
      then have "q mod 64 < unat (generic_ffz (file_map f ! i))"
        using that u div_mult_mod_eq [of q 64] by linarith
      note d this
      then show ?thesis using z i by (simp add: taken_def)
    qed (use 1(5) in simp)
    moreover have "unat r < 64 * length (file_map f)" using u z i by linarith
    ultimately show ?thesis using d i z by (simp add: taken_def)
  qed
qed

section \<open>The pool is conserved\<close>

text \<open>Every unit is on exactly one of the two lists, and \<open>cur_depth\<close> is the number of busy ones.\<close>

definition pool_ok :: "'a thread_data_scheme \<Rightarrow> bool" where
  "pool_ok td \<longleftrightarrow> distinct (io_u_freelist td @ io_u_busylist td)
     \<and> set (io_u_freelist td @ io_u_busylist td) = {..<length (io_us td)}
     \<and> unat (cur_depth td) = length (io_u_busylist td) \<and> length (io_us td) < 2 ^ 32"

text \<open>What a step leaves alone: the pool, the sizes of the files, how far the job is with its plan, and what extends the job.\<close>

abbreviation plan :: "'a thread_data_scheme \<Rightarrow> u64 \<times> u64 list \<times> bool \<times> bool \<times> bool \<times> bool \<times> fio_ddir" where
  "plan td \<equiv> (io_size td, this_io_bytes td, last_was_sync td, sequential td, norandommap td, use_read_iolog td, td_ddir td)"

definition same_pool :: "'a thread_data_scheme \<Rightarrow> 'a thread_data_scheme \<Rightarrow> bool" where
  "same_pool td td' \<longleftrightarrow> length (io_us td') = length (io_us td) \<and> io_u_freelist td' = io_u_freelist td
     \<and> io_u_busylist td' = io_u_busylist td \<and> cur_depth td' = cur_depth td
     \<and> map real_file_size (files td') = map real_file_size (files td) \<and> thread_data.more td' = thread_data.more td
     \<and> plan td' = plan td \<and> (rwmix_ddir td \<noteq> DDIR_SYNC \<longrightarrow> rwmix_ddir td' \<noteq> DDIR_SYNC)"

lemma same_pool_refl [simp]: "same_pool td td"
  by (simp add: same_pool_def)

lemma same_pool_trans [trans]: "same_pool a b \<Longrightarrow> same_pool b c \<Longrightarrow> same_pool a c"
  by (simp add: same_pool_def)

lemma same_pool_ok: "same_pool td td' \<Longrightarrow> pool_ok td \<Longrightarrow> pool_ok td'"
  by (simp add: same_pool_def pool_ok_def)

lemma gettime_pool: "fio_gettime env td = (t, td') \<Longrightarrow> same_pool td td' \<and> io_us td' = io_us td \<and> files td' = files td"
  for td :: "'a thread_data_scheme"
  by (auto simp: fio_gettime_def same_pool_def Let_def split: if_splits option.splits)

lemma mtime_since_now_pool: "mtime_since_now env s td = (m, td') \<Longrightarrow> same_pool td td' \<and> files td' = files td"
  for td :: "'a thread_data_scheme"
  by (auto simp: mtime_since_now_def Let_def dest: gettime_pool split: prod.splits)

lemma get_rw_ddir_pool: "get_rw_ddir env td = (d, td') \<Longrightarrow> same_pool td td' \<and> files td' = files td"
proof -
  assume a: "get_rw_ddir env td = (d, td')"
  obtain now td1 where 1: "fio_gettime (io_time env) td = (now, td1)" by fastforce
  obtain m td2 where 2: "mtime_since_now (io_time env) (rwmix_switch td1) td1 = (m, td2)" by fastforce
  have "same_pool td2 td' \<or> td' = td" "files td' = files td2 \<or> td' = td"
    using a by (auto simp: get_rw_ddir_def 1 2 Let_def same_pool_def split: if_splits)
  with gettime_pool [OF 1] mtime_since_now_pool [OF 2] show ?thesis
    by (auto intro: same_pool_trans)
qed

lemma try_random_pool:
  "try_random env d f n td = Inr (l, b, td') \<Longrightarrow> same_pool td td' \<and> files td' = files td"
proof (induction env d f n td rule: try_random.induct)
  case (2 env d f n td)
  have k: "same_pool td (td\<lparr>random_state := x\<rparr>)" for x by (simp add: same_pool_def)
  from 2(2) 2(1) [OF refl refl refl refl] k [THEN same_pool_trans] k show ?case
    by (fastforce simp: Let_def sbind_Inr_iff split: if_splits)
qed simp

lemma get_next_offset_pool:
  assumes "get_next_offset env fi old d td = Inr (ret, off, td')"
  shows "same_pool td td'" "files td' = files td" "ret = 0 \<Longrightarrow> off \<le> real_file_size (files td ! fi)"
  using assms
  by (auto simp: get_next_offset_def Let_def sbind_Inr_iff not_less dest!: try_random_pool
      split: if_splits option.splits prod.splits)

lemma get_next_buflen_pool: "get_next_buflen env d td = (len, td') \<Longrightarrow> same_pool td td' \<and> files td' = files td"
  by (auto simp: get_next_buflen_def same_pool_def Let_def split: if_splits prod.splits)

lemma fill_io_u_pool:
  assumes "fill_io_u env fi iou td = Inr (ret, iou', td')"
  shows "same_pool td td'" "files td' = files td"
    "\<not> use_read_iolog td \<Longrightarrow> ret = 0 \<Longrightarrow> ddir iou' \<noteq> DDIR_SYNC \<Longrightarrow> offset iou' \<le> real_file_size (files td ! fi)"
proof -
  have "same_pool td td' \<and> files td' = files td
    \<and> (\<not> use_read_iolog td \<and> ret = 0 \<and> ddir iou' \<noteq> DDIR_SYNC \<longrightarrow> offset iou' \<le> real_file_size (files td ! fi))"
  proof (cases "use_read_iolog td")
    case True
    then show ?thesis using assms by (auto simp: fill_io_u_def read_iolog_get_def same_pool_def split: list.splits)
  next
    case nolog: False
    show ?thesis
    proof (cases "fsync_blocks td \<noteq> 0 \<and> io_blocks td ! 1 mod ucast (fsync_blocks td) = 0 \<and> should_fsync td")
      case True
      then show ?thesis using assms nolog by (auto simp: fill_io_u_def)
    next
      case False
      obtain d td1 where 1: "get_rw_ddir env td = (d, td1)" by fastforce
      from assms nolog False 1 obtain r off td2 where
        2: "get_next_offset env fi (offset iou) (ddir_nr d) td1 = Inr (r, off, td2)"
        by (auto simp: fill_io_u_def Let_def sbind_Inr_iff)
      obtain len td3 where 3: "get_next_buflen env (ddir_nr d) td2 = (len, td3)" by fastforce
      have w: "same_pool td3 (write_iolog_put u td3)" "files (write_iolog_put u td3) = files td3" for u
        by (simp_all add: write_iolog_put_def same_pool_def)
      have s: "same_pool td td2" "same_pool td td3" "files td2 = files td" "files td3 = files td" "files td1 = files td"
        using get_rw_ddir_pool [OF 1] get_next_offset_pool [OF 2] get_next_buflen_pool [OF 3]
        by (auto intro: same_pool_trans)
      from assms nolog False have cases:
        "td' = td2 \<and> ret = 1 \<or> td' = td3 \<and> ret = 1 \<or> (td' = td3 \<or> (\<exists>u. td' = write_iolog_put u td3)) \<and> r = 0 \<and> offset iou' = off"
        by (auto simp: fill_io_u_def Let_def sbind_Inr_iff 1 2 3 split: if_splits)
      with s w(1) [THEN same_pool_trans [rotated]] w get_next_offset_pool(3) [OF 2] show ?thesis
        by (elim disjE) (auto intro: same_pool_trans)
    qed
  qed
  then show "same_pool td td'" "files td' = files td"
    "\<not> use_read_iolog td \<Longrightarrow> ret = 0 \<Longrightarrow> ddir iou' \<noteq> DDIR_SYNC \<Longrightarrow> offset iou' \<le> real_file_size (files td ! fi)"
    by auto
qed

lemma set_iou_pool [simp]: "same_pool td (set_iou i iou td)" "files (set_iou i iou td) = files td"
  by (simp_all add: set_iou_def same_pool_def)

lemma set_file_pool: "real_file_size f = real_file_size (files td ! fi) \<Longrightarrow> same_pool td (set_file fi f td)"
  by (cases "fi < length (files td)") (simp_all add: set_file_def same_pool_def map_update list_update_beyond list_update_same_conv)

lemma skip_zone_pool: "same_pool td (skip_zone fi td)"
proof -
  have "same_pool td (td\<lparr>zone_bytes := 0\<rparr>)" by (simp add: same_pool_def)
  from same_pool_trans [OF this set_file_pool] show ?thesis by (simp add: skip_zone_def)
qed

lemma real_size_nth: "same_pool td td' \<Longrightarrow> fi < length (files td) \<Longrightarrow> real_file_size (files td' ! fi) = real_file_size (files td ! fi)"
proof -
  assume "same_pool td td'" and fi: "fi < length (files td)"
  then have m: "map real_file_size (files td') = map real_file_size (files td)" by (simp add: same_pool_def)
  from arg_cong [OF m, of length] have "fi < length (files td')" using fi by simp
  with arg_cong [OF m, of "\<lambda>xs. xs ! fi"] fi show ?thesis by simp
qed

lemma mark_loop_size: "mark_loop td n b k f = Inr (k', f') \<Longrightarrow> real_file_size f' = real_file_size f"
  by (induction td n b k f rule: mark_loop.induct) (auto simp: sbind_Inr_iff Let_def split: if_splits)

lemma mark_random_map_shrinks:
  assumes "mark_random_map td f iou = Inr (f', iou')"
  shows "real_file_size f' = real_file_size f" "offset iou' = offset iou" "buflen iou' \<le> buflen iou" "ddir iou' = ddir iou"
  using assms by (auto simp: mark_random_map_def Let_def sbind_Inr_iff dest: mark_loop_size split: if_splits)

text \<open>The unit and the file after the map was marked, and the cases that follow.\<close>

definition marked_unit :: "nat \<Rightarrow> io_u \<Rightarrow> 'a thread_data_scheme \<Rightarrow> fio_fault + fio_file \<times> io_u" where
  "marked_unit fi iou td =
     (if \<not> use_read_iolog td \<and> \<not> sequential td \<and> \<not> norandommap td
      then mark_random_map td (files td ! fi) iou else Inr (files td ! fi, iou))"

lemma marked_unit_shrinks:
  assumes "marked_unit fi iou td = Inr (f, iou1)"
  shows "real_file_size f = real_file_size (files td ! fi)" "offset iou1 = offset iou" "buflen iou1 \<le> buflen iou" "ddir iou1 = ddir iou"
proof -
  have "mark_random_map td (files td ! fi) iou = Inr (f, iou1) \<or> f = files td ! fi \<and> iou1 = iou"
    using assms by (cases "\<not> use_read_iolog td \<and> \<not> sequential td \<and> \<not> norandommap td") (auto simp: marked_unit_def)
  then consider "mark_random_map td (files td ! fi) iou = Inr (f, iou1)" | "f = files td ! fi" "iou1 = iou" by blast
  then have "real_file_size f = real_file_size (files td ! fi) \<and> offset iou1 = offset iou \<and> buflen iou1 \<le> buflen iou
    \<and> ddir iou1 = ddir iou"
  proof cases
    case 1
    from mark_random_map_shrinks [OF this] show ?thesis by blast
  next
    case 2
    then show ?thesis by simp
  qed
  then show "real_file_size f = real_file_size (files td ! fi)" "offset iou1 = offset iou" "buflen iou1 \<le> buflen iou" "ddir iou1 = ddir iou"
    by blast+
qed

lemma claim_io_u_cases:
  assumes "claim_io_u env fi iou td = Inr (iou', td')"
  obtains f iou1 td1 where "marked_unit fi iou td = Inr (f, iou1)"
    "td1 = set_file fi (f\<lparr>last_pos := last_pos f + ucast (buflen iou1)\<rparr>) td"
    "iou' = iou1 \<and> td' = td1 \<or> (\<exists>buf n. iou' = iou1\<lparr>io_buf := buf\<rparr> \<and> td' = td1\<lparr>verify_state := n\<rparr>)"
proof -
  obtain m where "marked_unit fi iou td = Inr m"
    using assms by (cases "marked_unit fi iou td") (simp_all add: claim_io_u_def marked_unit_def [symmetric])
  then obtain f iou1 where m: "marked_unit fi iou td = Inr (f, iou1)" by (cases m) simp
  define td1 where "td1 = set_file fi (f\<lparr>last_pos := last_pos f + ucast (buflen iou1)\<rparr>) td"
  have "claim_io_u env fi iou td = (if td_verify td1 = 0 then Inr (iou1, td1)
      else case populate_verify_io_u (env_verify env) (env_garbage env) (td_verify td1) (verify_state td1) (buflen iou1) of
        None \<Rightarrow> Inl OutOfBounds
      | Some (buf, n) \<Rightarrow> Inr (iou1\<lparr>io_buf := buf\<rparr>, td1\<lparr>verify_state := n\<rparr>))"
    by (simp only: claim_io_u_def marked_unit_def [symmetric] m sbind_simps prod.case Let_def td1_def)
  then have c: "(if td_verify td1 = 0 then Inr (iou1, td1)
      else case populate_verify_io_u (env_verify env) (env_garbage env) (td_verify td1) (verify_state td1) (buflen iou1) of
        None \<Rightarrow> Inl OutOfBounds
      | Some (buf, n) \<Rightarrow> Inr (iou1\<lparr>io_buf := buf\<rparr>, td1\<lparr>verify_state := n\<rparr>)) = Inr (iou', td')"
    using assms by (rule subst)
  show ?thesis
  proof (cases "td_verify td1 = 0")
    case True
    then show ?thesis using that [OF m td1_def] c by simp
  next
    case False
    then obtain buf n where
      p: "populate_verify_io_u (env_verify env) (env_garbage env) (td_verify td1) (verify_state td1) (buflen iou1) = Some (buf, n)"
      using c by (cases "populate_verify_io_u (env_verify env) (env_garbage env) (td_verify td1) (verify_state td1) (buflen iou1)") auto
    show ?thesis by (rule that [OF m td1_def]) (use c False in \<open>simp add: p\<close>, blast)
  qed
qed

lemma claim_io_u_pool:
  assumes "claim_io_u env fi iou td = Inr (iou', td')"
  shows "same_pool td td'" "offset iou' = offset iou" "buflen iou' \<le> buflen iou" "ddir iou' = ddir iou"
proof -
  have v: "same_pool td1 (td1\<lparr>verify_state := n\<rparr>)" for n and td1 :: "'a thread_data_scheme" by (simp add: same_pool_def)
  from assms obtain f iou1 td1 where m: "marked_unit fi iou td = Inr (f, iou1)"
    and td1: "td1 = set_file fi (f\<lparr>last_pos := last_pos f + ucast (buflen iou1)\<rparr>) td"
    and c: "iou' = iou1 \<and> td' = td1 \<or> (\<exists>buf n. iou' = iou1\<lparr>io_buf := buf\<rparr> \<and> td' = td1\<lparr>verify_state := n\<rparr>)"
    by (rule claim_io_u_cases)
  have s: "same_pool td td1" unfolding td1 by (rule set_file_pool) (simp add: marked_unit_shrinks(1) [OF m])
  have "same_pool td1 td'" using c v by auto
  with s show "same_pool td td'" by (rule same_pool_trans)
  show "offset iou' = offset iou" "buflen iou' \<le> buflen iou" "ddir iou' = ddir iou"
    using c marked_unit_shrinks(2-4) [OF m] by auto
qed

text \<open>Taking a unit and putting it back.\<close>

definition taken_unit :: "nat \<Rightarrow> 'a thread_data_scheme \<Rightarrow> bool" where
  "taken_unit i td \<longleftrightarrow> pool_ok td \<and> i \<in> set (io_u_busylist td)"

lemma put_io_u_ok: "taken_unit i td \<Longrightarrow> pool_ok (put_io_u i td)"
proof -
  assume t: "taken_unit i td"
  then have i: "i \<in> set (io_u_busylist td)" "i \<notin> set (io_u_freelist td)" "0 < length (io_u_busylist td)"
    by (auto simp: taken_unit_def pool_ok_def)
  have "unat (cur_depth td - 1) = length (io_u_busylist td) - 1"
    using t i by (subst unat_sub) (auto simp: taken_unit_def pool_ok_def word_le_nat_alt Suc_le_eq)
  then show ?thesis
    using t i by (auto simp: taken_unit_def pool_ok_def put_io_u_def remove1_idem length_remove1)
qed

lemma get_free_io_u_ok:
  assumes "pool_ok td" "get_free_io_u td = (Some i, td')"
  shows "taken_unit i td'" "files td' = files td" "use_read_iolog td' = use_read_iolog td"
proof -
  from assms obtain rest where f: "io_u_freelist td = i # rest"
    and td': "io_u_freelist td' = rest" "io_u_busylist td' = i # io_u_busylist td" "cur_depth td' = cur_depth td + 1"
      "length (io_us td') = length (io_us td)" "files td' = files td" "use_read_iolog td' = use_read_iolog td"
    by (auto simp: get_free_io_u_def split: list.splits)
  have "length (io_u_freelist td @ io_u_busylist td) = length (io_us td)"
    using assms(1) by (metis card_lessThan distinct_card pool_ok_def)
  then have "length (io_u_busylist td) + 1 < 2 ^ 32" using assms(1) f by (auto simp: pool_ok_def)
  then have "unat (cur_depth td + 1) = Suc (length (io_u_busylist td))"
    using assms(1) by (subst unat_add_lem [THEN iffD1]) (auto simp: pool_ok_def)
  then have "pool_ok td'" using assms(1) f td' by (auto simp: pool_ok_def)
  then show "taken_unit i td'" "files td' = files td" "use_read_iolog td' = use_read_iolog td"
    using td' by (auto simp: taken_unit_def)
qed

lemma taken_unit_same: "taken_unit i td \<Longrightarrow> same_pool td td' \<Longrightarrow> taken_unit i td'"
  using same_pool_ok by (auto simp: taken_unit_def same_pool_def)

lemma skip_zone_iolog: "use_read_iolog (skip_zone fi td) = use_read_iolog td"
  by (simp add: skip_zone_def set_file_def)

text \<open>The length is cut at the end of the file.\<close>

lemma clip_inside:
  assumes "off \<le> sz" "unat (sz :: u64) < 2 ^ 63" "len1 = (if ucast (len :: u32) + off > sz then ucast (sz - off) else len)"
  shows "unat off + unat (len1 :: u32) \<le> unat sz"
proof -
  have off: "unat off \<le> unat sz" using assms(1) by (simp add: word_le_nat_alt)
  have sum: "unat (ucast len + off :: u64) = unat len + unat off"
  proof -
    have "unat len mod 2 ^ 64 = unat len" by (rule mod_less, rule less_trans [OF unat_less_u32]) simp
    then have "unat (ucast len :: u64) = unat len" by (simp add: unat_ucast_mod)
    moreover have "unat len + unat off < 2 ^ 64"
    proof -
      have "unat len + unat off < 4294967296 + 9223372036854775808"
        by (rule add_strict_mono [OF unat_less_u32 le_less_trans [OF off]]) (use assms(2) in simp)
      then show ?thesis by simp
    qed
    ultimately show ?thesis by (subst unat_add_lem [THEN iffD1]) simp_all
  qed
  show ?thesis
  proof (cases "ucast len + off > sz")
    case True
    have "unat (ucast (sz - off) :: u32) \<le> unat (sz - off)" by (simp add: unat_ucast_mod)
    moreover have "unat (sz - off) = unat sz - unat off" using assms(1) by (simp add: unat_sub)
    ultimately show ?thesis using True assms(3) off by simp
  next
    case False
    then have "len1 = len" using assms(3) by simp
    with False sum show ?thesis by (simp add: word_le_nat_alt not_less)
  qed
qed

lemma claimed_outcome:
  "sbind C (\<lambda>(iou, td). if P iou \<noteq> (0 :: int) then Inr (None, A iou td)
      else let (now, td) = G td in Inr (Some i, B iou now td)) = Inr (r, td') \<Longrightarrow>
   \<exists>iou2 td5. C = Inr (iou2, td5) \<and> (r = None \<and> td' = A iou2 td5
     \<or> (\<exists>now td6. G td5 = (now, td6) \<and> r = Some i \<and> td' = B iou2 now td6))"
  by (cases C) (auto split: if_splits prod.splits)

text \<open>The outcome of \<^verbatim>\<open>get_io_u\<close>: nothing and the pool as it was, or a busy unit inside the file.\<close>

lemma get_io_u_outcome:
  assumes ok: "pool_ok td" and fi: "fi < length (files td)" and run: "get_io_u env fi td = Inr (r, td')"
  shows "pool_ok td' \<and> (\<forall>i. r = Some i \<longrightarrow> taken_unit i td'
    \<and> (\<not> use_read_iolog td \<and> ddir (io_us td' ! i) \<noteq> DDIR_SYNC \<and> unat (real_file_size (files td ! fi)) < 2 ^ 63 \<longrightarrow>
        unat (offset (io_us td' ! i)) + unat (buflen (io_us td' ! i)) \<le> unat (real_file_size (files td ! fi))))"
proof (cases "get_free_io_u td")
  case (Pair fr td1)
  show ?thesis
  proof (cases fr)
    case None
    then show ?thesis using run ok Pair by (auto simp: get_io_u_def get_free_io_u_def split: list.splits)
  next
    case (Some i)
    with Pair have g: "get_free_io_u td = (Some i, td1)" by simp
    define td2 where "td2 = skip_zone fi td1"
    from run obtain ret iou td3 where 3: "fill_io_u env fi (io_us td2 ! i) td2 = Inr (ret, iou, td3)"
      by (auto simp: get_io_u_def g Let_def sbind_Inr_iff td2_def)
    define td4 where "td4 = set_iou i iou td3"
    define sz where "sz = real_file_size (files td4 ! fi)"
    define iou1 where "iou1 = (if ucast (buflen iou) + offset iou > sz then iou\<lparr>buflen := ucast (sz - offset iou)\<rparr> else iou)"
    note g1 = get_free_io_u_ok [OF ok g]
    have s: "same_pool td1 td2" "same_pool td2 td3" "same_pool td3 td4"
      using skip_zone_pool fill_io_u_pool(1) [OF 3] by (simp_all add: td2_def td4_def)
    have t4: "taken_unit i td4" by (rule taken_unit_same [OF taken_unit_same [OF taken_unit_same [OF g1(1) s(1)] s(2)] s(3)])
    have sz: "sz = real_file_size (files td ! fi)"
      using real_size_nth [OF same_pool_trans [OF s(1) same_pool_trans [OF s(2,3)]], of fi] fi g1(2) by (simp add: sz_def)
    have put: "pool_ok (put_io_u i (set_iou i u td5))" if "taken_unit i td5" for u and td5 :: "'a thread_data_scheme"
      using put_io_u_ok [OF taken_unit_same [OF that set_iou_pool(1)]] .
    have rest: "(if ret \<noteq> 0 then Inr (None, put_io_u i td4)
       else if ucast (buflen iou) + offset iou > sz \<and> rawio td4 then Inr (None, put_io_u i td4)
       else if ddir iou1 \<noteq> DDIR_SYNC \<and> buflen iou1 = 0 then Inr (None, put_io_u i (set_iou i iou1 td4))
       else sbind (if ddir iou1 \<noteq> DDIR_SYNC then claim_io_u env fi iou1 td4 else Inr (iou1, td4)) (\<lambda>(iou, td).
              if td_io_prep env iou \<noteq> 0 then Inr (None, put_io_u i (set_iou i iou td))
              else let (now, td) = fio_gettime (io_time env) td in Inr (Some i, set_iou i (iou\<lparr>start_time := now\<rparr>) td)))
       = Inr (r, td')"
      using run by (simp only: get_io_u_def g prod.case option.case Let_def td2_def [symmetric] 3 sbind_simps td4_def [symmetric] sz_def [symmetric] iou1_def [symmetric])
    have outcome: "r = None \<and> (td' = put_io_u i td4 \<or> td' = put_io_u i (set_iou i iou1 td4)) \<or>
      ret = 0 \<and> (\<exists>iou2 td5. (if ddir iou1 \<noteq> DDIR_SYNC then claim_io_u env fi iou1 td4 else Inr (iou1, td4)) = Inr (iou2, td5)
        \<and> (r = None \<and> td' = put_io_u i (set_iou i iou2 td5)
          \<or> (\<exists>now td6. fio_gettime (io_time env) td5 = (now, td6) \<and> r = Some i \<and> td' = set_iou i (iou2\<lparr>start_time := now\<rparr>) td6)))"
    proof -
      consider "ret \<noteq> 0" | "ret = 0" "ucast (buflen iou) + offset iou > sz \<and> rawio td4"
        | "ret = 0" "\<not> (ucast (buflen iou) + offset iou > sz \<and> rawio td4)" "ddir iou1 \<noteq> DDIR_SYNC \<and> buflen iou1 = 0"
        | "ret = 0" "\<not> (ucast (buflen iou) + offset iou > sz \<and> rawio td4)" "\<not> (ddir iou1 \<noteq> DDIR_SYNC \<and> buflen iou1 = 0)"
        by blast
      then show ?thesis
      proof cases
        case 4
        have "\<not> ret \<noteq> 0" using 4(1) by simp
        from claimed_outcome [OF rest [unfolded if_not_P [OF this] if_not_P [OF 4(2)] if_not_P [OF 4(3)]]] 4(1)
        show ?thesis by blast
      next
        case 1
        then show ?thesis using rest by simp
      next
        case 2
        have "\<not> ret \<noteq> 0" using 2(1) by simp
        from rest [unfolded if_not_P [OF this] if_P [OF 2(2)]] show ?thesis by simp
      next
        case 3
        have "\<not> ret \<noteq> 0" using 3(1) by simp
        from rest [unfolded if_not_P [OF this] if_not_P [OF 3(2)] if_P [OF 3(3)]] show ?thesis by simp
      qed
    qed
    then show ?thesis
    proof (elim disjE conjE exE)
      fix iou2 td5
      assume c: "(if ddir iou1 \<noteq> DDIR_SYNC then claim_io_u env fi iou1 td4 else Inr (iou1, td4)) = Inr (iou2, td5)"
        and r: "r = None" "td' = put_io_u i (set_iou i iou2 td5)"
      have "same_pool td4 td5" using c claim_io_u_pool(1) by (cases "ddir iou1 \<noteq> DDIR_SYNC") auto
      from put [OF taken_unit_same [OF t4 this]] r show ?thesis by simp
    next
      fix iou2 td5 now td6
      assume c: "(if ddir iou1 \<noteq> DDIR_SYNC then claim_io_u env fi iou1 td4 else Inr (iou1, td4)) = Inr (iou2, td5)"
        and 6: "fio_gettime (io_time env) td5 = (now, td6)" and r: "r = Some i"
        and td': "td' = set_iou i (iou2\<lparr>start_time := now\<rparr>) td6" and ret: "ret = 0"
      have c5: "same_pool td4 td5 \<and> offset iou2 = offset iou1 \<and> buflen iou2 \<le> buflen iou1 \<and> ddir iou2 = ddir iou1"
        using c claim_io_u_pool [of env fi iou1 td4 iou2 td5] by (cases "ddir iou1 \<noteq> DDIR_SYNC") auto
      have t': "taken_unit i td'"
        unfolding td'
        by (rule taken_unit_same [OF taken_unit_same [OF taken_unit_same [OF t4 conjunct1 [OF c5]] conjunct1 [OF gettime_pool [OF 6]]] set_iou_pool(1)])
      then have nth: "io_us td' ! i = iou2\<lparr>start_time := now\<rparr>"
        unfolding td' by (auto simp: taken_unit_def pool_ok_def set_iou_def)
      have inside: "unat (offset iou2) + unat (buflen iou2) \<le> unat sz"
        if "\<not> use_read_iolog td" "ddir iou2 \<noteq> DDIR_SYNC" "unat sz < 2 ^ 63"
      proof -
        have i1: "offset iou1 = offset iou" "ddir iou1 = ddir iou"
          "buflen iou1 = (if ucast (buflen iou) + offset iou > sz then ucast (sz - offset iou) else buflen iou)"
          by (simp_all add: iou1_def)
        have "offset iou \<le> real_file_size (files td2 ! fi)"
          using fill_io_u_pool(3) [OF 3] that ret c5 g1 i1(2) by (simp add: td2_def skip_zone_iolog)
        then have "offset iou \<le> sz" using real_size_nth [OF s(1), of fi] fi g1(2) sz by simp
        from clip_inside [OF this that(3) i1(3)] show ?thesis using c5 i1(1) by (simp add: word_le_nat_alt)
      qed
      then show ?thesis using r t' nth sz by (simp add: taken_unit_def)
    qed (use put_io_u_ok [OF t4] put [OF t4] in simp_all)
  qed
qed

section \<open>Completion keeps the pool\<close>

lemma add_log_sample_pool: "add_log_sample env td l v d = Inr (l', td') \<Longrightarrow> same_pool td td'"
  by (auto simp: add_log_sample_def sbind_Inr_iff Let_def dest: mtime_since_now_pool split: if_splits prod.splits)

lemma log_sample_pool:
  assumes "\<And>l td. same_pool td (set_log l td)" "log_sample env get set_log v d td = Inr td'"
  shows "same_pool td td'"
proof (cases "get td")
  case None
  then show ?thesis using assms(2) by (simp add: log_sample_def)
next
  case (Some l)
  then obtain l' td1 where "add_log_sample env td l v d = Inr (l', td1)" "td' = set_log l' td1"
    using assms(2) by (auto simp: log_sample_def sbind_Inr_iff)
  then show ?thesis using add_log_sample_pool assms(1) by (blast intro: same_pool_trans)
qed

lemma add_clat_sample_pool: "add_clat_sample env d msec td = Inr td' \<Longrightarrow> same_pool td td'"
proof -
  assume a: "add_clat_sample env d msec td = Inr td'"
  have "same_pool td (td\<lparr>clat_stat := x\<rparr>)" for x by (simp add: same_pool_def)
  moreover have "same_pool (td\<lparr>clat_stat := (clat_stat td)[ddir_nr d := add_stat_sample (clat_stat td ! ddir_nr d) msec]\<rparr>) td'"
    by (rule log_sample_pool [OF _ a [unfolded add_clat_sample_def Let_def]]) (simp add: same_pool_def)
  ultimately show ?thesis by (rule same_pool_trans)
qed

lemma add_bw_sample_pool:
  assumes "add_bw_sample env d t td = Inr td'"
  shows "same_pool td td'"
proof -
  let ?spent = "mtime_since (stat_sample_time td ! ddir_nr d) t"
  let ?rate = "(this_io_bytes td ! ddir_nr d - stat_io_bytes td ! ddir_nr d) div ?spent"
  define td1 where "td1 = td\<lparr>bw_stat := (bw_stat td)[ddir_nr d := add_stat_sample (bw_stat td ! ddir_nr d) ?rate]\<rparr>"
  have 1: "same_pool td td1" by (simp add: same_pool_def td1_def)
  show ?thesis
  proof (cases "?spent < ucast (bw_avg_time td) \<or> ?spent = 0")
    case True
    then show ?thesis using assms by (auto simp: add_bw_sample_def Let_def split: if_splits)
  next
    case False
    obtain td2 where 2: "log_sample env bw_log (\<lambda>l td. td\<lparr>bw_log := Some l\<rparr>) ?rate d td1 = Inr td2"
      and r: "(let (now, td) = fio_gettime env td2
             in Inr (td\<lparr>stat_sample_time := (stat_sample_time td)[ddir_nr d := now],
                        stat_io_bytes := (stat_io_bytes td)[ddir_nr d := this_io_bytes td ! ddir_nr d]\<rparr>)) = (Inr td' :: fio_fault + _)"
      using assms False by (auto simp: add_bw_sample_def Let_def td1_def [symmetric] sbind_Inr_iff)
    obtain now td3 where 3: "fio_gettime env td2 = (now, td3)" by fastforce
    have "same_pool td1 td2" by (rule log_sample_pool [OF _ 2]) (simp add: same_pool_def)
    moreover have "same_pool td2 td3" using gettime_pool [OF 3] by simp
    moreover have "same_pool td3 td'" using r by (auto simp: 3 same_pool_def)
    ultimately show ?thesis using 1 by (blast intro: same_pool_trans)
  qed
qed

lemma log_io_piece_pool: "same_pool td (log_io_piece iou td)"
  by (simp add: log_io_piece_def same_pool_def Let_def)

text \<open>The counters a completed unit moves, and the whole step.\<close>

definition count_io :: "nat \<Rightarrow> u32 \<Rightarrow> 'a thread_data_scheme \<Rightarrow> 'a thread_data_scheme" where
  "count_io k bytes td =
     td\<lparr>last_was_sync := False, io_blocks := (io_blocks td)[k := io_blocks td ! k + 1],
        io_bytes := (io_bytes td)[k := io_bytes td ! k + ucast bytes],
        zone_bytes := zone_bytes td + ucast bytes,
        this_io_bytes := (this_io_bytes td)[k := this_io_bytes td ! k + ucast bytes]\<rparr>"

definition counted :: "io_u \<Rightarrow> 'a thread_data_scheme \<Rightarrow> 'a thread_data_scheme" where
  "counted iou td =
     (if ddir iou = DDIR_SYNC then td\<lparr>last_was_sync := True\<rparr>
      else if io_error iou \<noteq> 0 then td\<lparr>last_was_sync := False\<rparr>
      else count_io (ddir_nr (ddir iou)) (buflen iou - resid iou) td)"

lemma counted_simps [simp]:
  "pool_ok (counted iou td) = pool_ok td" "io_u_busylist (counted iou td) = io_u_busylist td"
  "io_u_freelist (counted iou td) = io_u_freelist td" "files (counted iou td) = files td" "io_us (counted iou td) = io_us td"
  "thread_data.more (counted iou td) = thread_data.more td" "cur_depth (counted iou td) = cur_depth td"
  "io_size (counted iou td) = io_size td" "td_ddir (counted iou td) = td_ddir td" "sequential (counted iou td) = sequential td"
  "norandommap (counted iou td) = norandommap td" "use_read_iolog (counted iou td) = use_read_iolog td"
  "rwmix_ddir (counted iou td) = rwmix_ddir td"
  by (auto simp: counted_def count_io_def pool_ok_def)

lemma io_completed_pool:
  assumes "io_completed env i icd td = Inr (icd', td')"
  shows "same_pool (counted (io_us td ! i) td) td'"
proof -
  let ?iou = "io_us td ! i"
  show ?thesis
  proof (cases "ddir ?iou = DDIR_SYNC \<or> io_error ?iou \<noteq> 0")
    case True
    then show ?thesis using assms by (auto simp: io_completed_def counted_def Let_def split: if_splits)
  next
    case False
    define td1 where "td1 = count_io (ddir_nr (ddir ?iou)) (buflen ?iou - resid ?iou) td"
    have 1: "counted ?iou td = td1" using False by (simp add: td1_def counted_def)
    from assms False obtain fi where fi: "io_file ?iou = Some fi"
      by (cases "io_file ?iou") (auto simp: io_completed_def Let_def)
    define td2 where "td2 = set_file fi ((files td1 ! fi)\<lparr>last_completed_pos := offset ?iou + ucast (buflen ?iou)\<rparr>) td1"
    have 2: "same_pool td1 td2" unfolding td2_def by (rule set_file_pool) simp
    have "io_completed env i icd td =
      sbind (add_clat_sample (io_time env) (ddir ?iou) (mtime_since (issue_time ?iou) (icd_time icd)) td2) (\<lambda>td.
      sbind (add_bw_sample (io_time env) (ddir ?iou) (icd_time icd) td) (\<lambda>td.
        Inr (icd\<lparr>bytes_done := (bytes_done icd)[ddir_nr (ddir ?iou) := bytes_done icd ! ddir_nr (ddir ?iou) + ucast (buflen ?iou - resid ?iou)]\<rparr>,
             if (td_rw td \<or> td_write td) \<and> ddir ?iou = DDIR_WRITE then log_io_piece ?iou td else td)))"
      using False by (simp add: io_completed_def Let_def fi td2_def td1_def count_io_def cong: if_cong)
    with assms obtain td3 td4 where
      3: "add_clat_sample (io_time env) (ddir ?iou) (mtime_since (issue_time ?iou) (icd_time icd)) td2 = Inr td3"
      and 4: "add_bw_sample (io_time env) (ddir ?iou) (icd_time icd) td3 = Inr td4"
      and td': "td' = (if (td_rw td4 \<or> td_write td4) \<and> ddir ?iou = DDIR_WRITE then log_io_piece ?iou td4 else td4)"
      by (auto simp: sbind_Inr_iff)
    have "same_pool td4 td'"
    proof (cases "(td_rw td4 \<or> td_write td4) \<and> ddir ?iou = DDIR_WRITE")
      case True
      then have "td' = log_io_piece ?iou td4" unfolding td' by (rule if_P)
      then show ?thesis by (simp only: log_io_piece_pool)
    next
      case False
      then have "td' = td4" unfolding td' by (rule if_not_P)
      then show ?thesis by simp
    qed
    with add_bw_sample_pool [OF 4] add_clat_sample_pool [OF 3] 2 show ?thesis unfolding 1 by (blast intro: same_pool_trans)
  qed
qed

lemma complete_events_ok:
  "complete_events env is icd td = Inr (icd', td') \<Longrightarrow> pool_ok td \<Longrightarrow> distinct is \<Longrightarrow> set is \<subseteq> set (io_u_busylist td) \<Longrightarrow> pool_ok td'"
proof (induction "is" arbitrary: icd td)
  case (Cons i "is")
  from Cons.prems(1) obtain icd1 td1 where 1: "io_completed env i icd td = Inr (icd1, td1)"
    and r: "complete_events env is icd1 (put_io_u i td1) = Inr (icd', td')"
    by (auto simp: sbind_Inr_iff)
  note s = io_completed_pool [OF 1]
  have "taken_unit i td1" using Cons.prems(2,4) s by (intro taken_unit_same [OF _ s]) (simp add: taken_unit_def)
  then have "pool_ok (put_io_u i td1)" by (rule put_io_u_ok)
  moreover have "set is \<subseteq> set (io_u_busylist (put_io_u i td1))"
  proof
    fix j
    assume j: "j \<in> set is"
    then have "j \<noteq> i" "j \<in> set (io_u_busylist td1)" using Cons.prems(3,4) s by (auto simp: same_pool_def)
    then show "j \<in> set (io_u_busylist (put_io_u i td1))" by (simp add: put_io_u_def in_set_remove1)
  qed
  ultimately show ?case using Cons.IH [OF r] Cons.prems(3) by simp
qed simp

text \<open>The pool is driven by the operations of the job loop.\<close>

datatype io_op = GetUnit nat | PutUnit nat | Completed nat

definition io_step :: "io_env \<Rightarrow> io_op \<Rightarrow> 'a thread_data_scheme \<Rightarrow> fio_fault + 'a thread_data_scheme" where
  "io_step env x td =
     (case x of
        GetUnit fi \<Rightarrow> sbind (get_io_u env fi td) (\<lambda>(r, td). Inr td)
      | PutUnit i \<Rightarrow> Inr (put_io_u i td)
      | Completed nr \<Rightarrow> sbind (ios_completed env nr td) (\<lambda>(icd, td). Inr td))"

definition io_guard :: "io_env \<Rightarrow> io_op \<Rightarrow> 'a thread_data_scheme \<Rightarrow> bool" where
  "io_guard env x td =
     (case x of
        GetUnit fi \<Rightarrow> fi < length (files td)
      | PutUnit i \<Rightarrow> i \<in> set (io_u_busylist td)
      | Completed nr \<Rightarrow> distinct (map (env_event env) [0..<nr]) \<and> set (map (env_event env) [0..<nr]) \<subseteq> set (io_u_busylist td))"

lemma io_step_ok: "pool_ok td \<Longrightarrow> io_guard env x td \<Longrightarrow> io_step env x td = Inr td' \<Longrightarrow> pool_ok td'"
proof (cases x)
  case (GetUnit fi)
  then show "pool_ok td \<Longrightarrow> io_guard env x td \<Longrightarrow> io_step env x td = Inr td' \<Longrightarrow> pool_ok td'"
    using get_io_u_outcome [of td fi env] by (auto simp: io_step_def io_guard_def sbind_Inr_iff)
next
  case (PutUnit i)
  then show "pool_ok td \<Longrightarrow> io_guard env x td \<Longrightarrow> io_step env x td = Inr td' \<Longrightarrow> pool_ok td'"
    using put_io_u_ok [of i td] by (auto simp: io_step_def io_guard_def taken_unit_def)
next
  case (Completed nr)
  obtain now td1 where 1: "fio_gettime (io_time env) td = (now, td1)" by fastforce
  assume "pool_ok td" "io_guard env x td" "io_step env x td = Inr td'"
  then show "pool_ok td'"
    using Completed complete_events_ok [of env "map (env_event env) [0..<nr]" _ td1] same_pool_ok [of td td1] gettime_pool [OF 1]
    by (auto simp: io_step_def io_guard_def ios_completed_def 1 sbind_Inr_iff same_pool_def)
qed

interpretation iou: guarded_machine "io_step env" "io_guard env" "pool_ok :: 'a thread_data_scheme \<Rightarrow> bool" for env
  by unfold_locales (rule io_step_ok)

section \<open>Properties\<close>

text \<open>The environment of the witnesses: every random draw is the middle of the range and the engine accepts
  every unit.\<close>

definition demo_env :: io_env where
  "demo_env = \<lparr>io_time = posix_env, env_random = (\<lambda>n. 2 ^ 30), env_bsrange = (\<lambda>n. 2 ^ 30), env_rwmix = (\<lambda>n. 0),
     env_verify = (\<lambda>n. [1, 2, 3, 4, 5, 6, 7, 8]),
     env_garbage = \<lparr>fio_magic = 0, vh_len = 0, verify_type = 0, vh_pad = [0, 0, 0, 0], vh_union = replicate 16 0\<rparr>,
     env_prep = (\<lambda>iou. False), env_event = (\<lambda>n. n)\<rparr>"

text \<open>C5: no unit is lost or handed out twice: over every sequence of taking, putting back and completing
  units, each unit is on exactly one of the two lists and \<open>cur_depth\<close> counts the busy ones, whatever
  the random generators and the engine do and whatever fails on the way.\<close>

theorem io_u_pool_conserved:
  assumes "pool_ok td" "guarded_run (io_guard env) (io_step env) ops td" "run_ops (io_step env) ops td = Inr td'"
  shows "distinct (io_u_freelist td' @ io_u_busylist td')
    \<and> set (io_u_freelist td' @ io_u_busylist td') = {..<length (io_us td')}
    \<and> unat (cur_depth td') = length (io_u_busylist td')"
  using iou.run_inv [OF assms] by (simp_all add: pool_ok_def)

text \<open>One unit taken from the small job, evaluated.\<close>

lemmas demo_defs = demo_td_def demo_file_def demo_io_u_def demo_env_def demo_time_def posix_env_def

lemma demo_try:
  assumes "min_bs td = [4096, 4096]" "\<not> norandommap td" "rw_min_bs td = 4096"
  shows "try_random demo_env (Suc 0) demo_file 50 td = Inr (49, 3, td\<lparr>random_state := Suc (random_state td)\<rparr>)"
proof -
  have "(50 :: nat) = Suc 49" by simp
  then show ?thesis
    using assms
    by (simp only: try_random.simps) (simp add: demo_env_def demo_file_def random_map_free_def map_idx_def map_bit_def
      RAND_MAP_IDX_def RAND_MAP_BIT_def TO_MAP_BLOCK_def Let_def)
qed

lemma demo_mark:
  assumes "min_bs td = [4096, 4096]" "rw_min_bs td = 4096" "ddir iou = DDIR_WRITE" "offset iou = 12288" "buflen iou = 4096"
  shows "mark_random_map td demo_file iou = Inr (demo_file\<lparr>file_map := [8]\<rparr>, iou)"
proof -
  have "mark_loop td (Suc 0) 3 0 demo_file = Inr (1, demo_file\<lparr>file_map := [8]\<rparr>)"
    using assms by (simp add: demo_file_def random_map_free_def map_idx_def map_bit_def
      RAND_MAP_IDX_def RAND_MAP_BIT_def TO_MAP_BLOCK_def Let_def)
  then show ?thesis using assms by (simp add: mark_random_map_def)
qed

lemma demo_get:
  "\<exists>td'. get_io_u demo_env 0 demo_td = Inr (Some 0, td') \<and> io_u_busylist td' = [0] \<and> ddir (io_us td' ! 0) = DDIR_WRITE
     \<and> offset (io_us td' ! 0) = 12288 \<and> buflen (io_us td' ! 0) = 4096"
proof -
  define td1 where "td1 = demo_td\<lparr>io_u_freelist := [1], io_u_busylist := [0], cur_depth := 1\<rparr>"
  have 1: "get_free_io_u demo_td = (Some 0, td1)" by (simp add: get_free_io_u_def td1_def demo_td_def demo_io_u_def)
  have 2: "skip_zone 0 td1 = td1" by (simp add: skip_zone_def td1_def demo_td_def)
  have 3: "get_rw_ddir demo_env td1 = (DDIR_WRITE, td1)"
    by (simp add: get_rw_ddir_def td_rw_def td_read_def td1_def demo_td_def)
  define td2 where "td2 = td1\<lparr>random_state := 1\<rparr>"
  have 4: "get_next_offset demo_env 0 0 (Suc 0) td1 = Inr (0, 12288, td2)"
    using demo_try [of td1] by (simp add: get_next_offset_def td2_def td1_def demo_td_def) (simp add: demo_file_def)
  have 5: "get_next_buflen demo_env (Suc 0) td2 = (4096, td2)"
    by (simp add: get_next_buflen_def td2_def td1_def demo_td_def)
  define iou where "iou = demo_io_u\<lparr>ddir := DDIR_WRITE, offset := 12288, buflen := 4096, io_file := Some 0\<rparr>"
  have io: "io_us td1 ! 0 = demo_io_u" "io_us td2 = [demo_io_u, demo_io_u]" by (simp_all add: td1_def td2_def demo_td_def)
  have 6: "fill_io_u demo_env 0 (io_us td1 ! 0) td1 = Inr (0, iou, td2)"
    using 4 5 unfolding io by (simp add: fill_io_u_def 3 iou_def demo_io_u_def Let_def)
      (simp add: td1_def td2_def demo_td_def)
  define td3 where "td3 = td2\<lparr>io_us := [iou, demo_io_u]\<rparr>"
  have 7: "set_iou 0 iou td2 = td3" by (simp add: set_iou_def td3_def io)
  define td4 where "td4 = td3\<lparr>files := [demo_file\<lparr>file_map := [8], last_pos := 4096\<rparr>]\<rparr>"
  have f: "files td3 = [demo_file]" "files td2 = [demo_file]" by (simp_all add: td3_def td2_def td1_def demo_td_def)
  have "mark_random_map td3 demo_file iou = Inr (demo_file\<lparr>file_map := [8]\<rparr>, iou)"
    by (rule demo_mark) (simp_all add: td3_def td2_def td1_def demo_td_def iou_def)
  then have 8: "claim_io_u demo_env 0 iou td3 = Inr (iou, td4)"
    by (simp add: claim_io_u_def f set_file_def) (simp add: td4_def td3_def td2_def td1_def demo_td_def iou_def demo_file_def)
  obtain now td5 where 9: "fio_gettime posix_env td4 = (now, td5)" by fastforce
  note g = gettime_pool [OF 9]
  have "ddir iou = DDIR_WRITE" "offset iou = 12288" "buflen iou = 4096" "real_file_size demo_file = 32768"
    by (simp_all add: iou_def demo_file_def)
  moreover have "td_io_prep demo_env iou = 0" "io_time demo_env = posix_env" by (simp_all add: td_io_prep_def demo_env_def)
  ultimately have "get_io_u demo_env 0 demo_td = Inr (Some 0, set_iou 0 (iou\<lparr>start_time := now\<rparr>) td5)"
    by (simp add: get_io_u_def 1 2 6 7 8 9 f Let_def)
  moreover have "io_u_busylist td5 = [0]" "io_us td5 = [iou, demo_io_u]"
    using g by (simp_all add: same_pool_def td4_def td3_def td2_def td1_def)
  ultimately show ?thesis
    by (simp add: set_iou_def iou_def)
qed

lemma demo_pool: "pool_ok demo_td" "0 < length (files demo_td)" "\<not> use_read_iolog demo_td" "real_file_size (files demo_td ! 0) = 32768"
  by (auto simp: demo_defs pool_ok_def)

theorem io_u_pool_conserved_witness:
  "\<exists>td'. run_ops (io_step demo_env) [GetUnit 0, PutUnit 0] demo_td = Inr td' \<and> set (io_u_freelist td' @ io_u_busylist td') = {..<length (io_us td')}"
proof -
  obtain td1 where g: "get_io_u demo_env 0 demo_td = Inr (Some 0, td1)" "io_u_busylist td1 = [0]" using demo_get by blast
  have r: "run_ops (io_step demo_env) [GetUnit 0, PutUnit 0] demo_td = Inr (put_io_u 0 td1)"
    "guarded_run (io_guard demo_env) (io_step demo_env) [GetUnit 0, PutUnit 0] demo_td"
    using demo_pool g by (simp_all add: io_step_def io_guard_def)
  from io_u_pool_conserved [OF demo_pool(1) r(2,1)] r(1) show ?thesis by blast
qed

text \<open>C17: \<^verbatim>\<open>mark_random_map\<close> claims exactly the free blocks at the front of the piece of I/O: no block that is
  claimed was taken, it stops only at a taken block or at the end, and the length becomes the claimed
  blocks.  So a piece shorter than a block, the tail of a file, gets length zero and stays unclaimed.\<close>

theorem mark_random_map_claims:
  assumes bs: "min_bs td ! ddir_nr (ddir iou) = bs" "bs \<noteq> 0"
    and p: "map_pos td f (offset iou div ucast bs) = p"
    and room: "p + unat (buflen iou div bs) \<le> 64 * length (file_map f)" "length (file_map f) \<le> 2 ^ 32"
  shows "\<exists>m f' iou'. mark_random_map td f iou = Inr (f', iou')
    \<and> m \<le> unat (buflen iou) div unat bs \<and> unat (buflen iou') = m * unat bs
    \<and> (\<forall>q. taken f' q \<longleftrightarrow> taken f q \<or> p \<le> q \<and> q < p + m)
    \<and> (\<forall>q. p \<le> q \<and> q < p + m \<longrightarrow> \<not> taken f q)
    \<and> (m = unat (buflen iou) div unat bs \<or> taken f (p + m))"
proof -
  let ?n = "unat (buflen iou div bs)"
  have n: "?n = unat (buflen iou) div unat bs" by (simp add: unat_div)
  from mark_loop_claims [OF p room, of 0] obtain m f' where
    r: "mark_loop td ?n (offset iou div ucast bs) 0 f = Inr (0 + of_nat m, f')" "m \<le> ?n"
    and q: "\<forall>q. taken f' q \<longleftrightarrow> taken f q \<or> p \<le> q \<and> q < p + m" "\<forall>q. p \<le> q \<and> q < p + m \<longrightarrow> \<not> taken f q"
      "m < ?n \<longrightarrow> taken f (p + m)"
    by blast
  have le: "m * unat bs \<le> unat (buflen iou)"
    using r(2) unfolding n by (metis div_times_less_eq_dividend mult_le_mono1 order_trans)
  have "m < 2 ^ 32" using le_less_trans [OF r(2) unat_less_u32] by simp
  then have "unat (of_nat m :: u32) = m" by (simp add: unat_of_nat)
  then have u: "unat (of_nat m * bs) = m * unat bs"
    using le_less_trans [OF le unat_less_u32] by (subst unat_mult_lem [THEN iffD1]) simp_all
  define iou' where "iou' = (if of_nat m * bs < buflen iou then iou\<lparr>buflen := of_nat m * bs\<rparr> else iou)"
  have "mark_random_map td f iou = Inr (f', iou')"
    using bs r(1) by (simp add: mark_random_map_def iou'_def Let_def)
  moreover have "unat (buflen iou') = m * unat bs"
    using u le by (auto simp: iou'_def word_less_nat_alt)
  ultimately show ?thesis using r(2) q unfolding n by (intro exI conjI) (auto simp: n)
qed

theorem mark_random_map_claims_witness:
  "\<exists>m f' iou'. mark_random_map demo_td demo_file (demo_io_u\<lparr>offset := 28672, buflen := 512\<rparr>) = Inr (f', iou') \<and> buflen iou' = 0 \<and> \<not> taken f' 7"
proof -
  have "map_pos demo_td demo_file (offset (demo_io_u\<lparr>offset := 28672, buflen := 512\<rparr>) div ucast (4096 :: u32)) = 7"
    by (simp add: map_pos_def TO_MAP_BLOCK_def demo_td_def demo_file_def demo_io_u_def)
  from mark_random_map_claims [OF _ _ this] obtain m f' iou' where
    "mark_random_map demo_td demo_file (demo_io_u\<lparr>offset := 28672, buflen := 512\<rparr>) = Inr (f', iou')"
    "m = 0" "unat (buflen iou') = m * 4096" "\<forall>q. taken f' q \<longleftrightarrow> taken demo_file q \<or> 7 \<le> q \<and> q < 7 + m"
    by (auto simp: demo_td_def demo_io_u_def demo_file_def)
  moreover from this(4) have "taken f' 7 \<longleftrightarrow> taken demo_file 7" using \<open>m = 0\<close> by simp
  moreover have "\<not> taken demo_file 7" by (simp add: taken_def demo_file_def)
  ultimately show ?thesis by (auto simp: unat_eq_0)
qed

text \<open>The block \<^verbatim>\<open>get_next_free_block\<close> finds is the first one of the map that is not taken.\<close>

theorem get_next_free_block_first:
  assumes "get_next_free_block td f = Inr (Some b)" "length (file_map f) \<le> 2 ^ 32"
  shows "\<not> taken f (unat b) \<and> unat b < 64 * length (file_map f) \<and> (\<forall>q < unat b. taken f q)"
  using free_block_from_least [OF assms(1) [unfolded get_next_free_block_def] _ assms(2)] by simp

theorem get_next_free_block_first_witness:
  "\<exists>b. get_next_free_block demo_td (demo_file\<lparr>file_map := [7]\<rparr>) = Inr (Some b) \<and> \<not> taken (demo_file\<lparr>file_map := [7]\<rparr>) (unat b)"
proof -
  have "get_next_free_block demo_td (demo_file\<lparr>file_map := [7]\<rparr>) = Inr (Some (0 + generic_ffz 7))"
    by (simp add: get_next_free_block_def free_block_from.simps demo_td_def demo_file_def)
  from get_next_free_block_first [OF this] this show ?thesis by (auto simp: demo_file_def)
qed



end
