(* ===== verification/FioParse.thy ===== *)
theory FioParse
  imports CStrings
begin

text \<open>
  The option parser of fio (\<^verbatim>\<open>parse.c\<close>, \<^verbatim>\<open>parse.h\<close>): values with suffixes, ranges, pairs of values, and the search in a
  table of options.  The parser knows the structure it fills only as an address and the offsets of the table, so
  the structure is its bytes, little-endian; a \<^verbatim>\<open>char *\<close> in it is the number of a string of the heap, 0 is
  the null pointer.  A handler of an option is a function of the state.  What C leaves undefined (reading an array
  behind its end, a \<^verbatim>\<open>scanf\<close> of a number that does not fit, a call through a pointer of another type) is an error value.
  The messages are not modelled, and memory for strings does not run out.
\<close>

section \<open>Integers in memory\<close>

fun le_bytes :: "nat \<Rightarrow> nat \<Rightarrow> u8 list" where
  "le_bytes 0 v = []"
| "le_bytes (Suc n) v = of_nat v # le_bytes n (v div 256)"

fun le_value :: "u8 list \<Rightarrow> nat" where
  "le_value [] = 0"
| "le_value (b # bs) = unat b + 256 * le_value bs"

text \<open>A store and a load of \<open>n\<close> bytes at an offset.\<close>

definition store_le :: "nat \<Rightarrow> nat \<Rightarrow> nat \<Rightarrow> (nat \<Rightarrow> u8) \<Rightarrow> nat \<Rightarrow> u8" where
  "store_le n off v m = (\<lambda>a. if off \<le> a \<and> a < off + n then le_bytes n v ! (a - off) else m a)"

definition load_le :: "nat \<Rightarrow> nat \<Rightarrow> (nat \<Rightarrow> u8) \<Rightarrow> nat" where
  "load_le n off m = le_value (map m [off..<off + n])"

lemma length_le_bytes [simp]: "length (le_bytes n v) = n"
  by (induction n arbitrary: v) simp_all

lemma le_value_bytes: "le_value (le_bytes n v) = v mod 256 ^ n"
proof (induction n arbitrary: v)
  case (Suc n)
  have "unat (of_nat v :: u8) = v mod 256" by (simp add: unat_of_nat)
  then show ?case by (simp add: Suc mod_mult2_eq)
qed simp

lemma load_store_same: "load_le n off (store_le n off v m) = v mod 256 ^ n"
proof -
  have "map (store_le n off v m) [off..<off + n] = le_bytes n v"
    by (rule nth_equalityI) (simp_all add: store_le_def)
  then show ?thesis by (simp add: load_le_def le_value_bytes)
qed

lemma load_store_other: "off + n \<le> a \<or> a + k \<le> off \<Longrightarrow> load_le k a (store_le n off v m) = load_le k a m"
  unfolding load_le_def store_le_def by (intro arg_cong [where f = le_value] map_cong) auto

lemma store_le_outside: "a < off \<or> off + n \<le> a \<Longrightarrow> store_le n off v m a = m a"
  by (auto simp: store_le_def)

section \<open>Options\<close>

text \<open>What ends the parser, or later the set-up of the jobs, in a way that C does not define.\<close>

datatype job_fault =
    Unterminated | Unrepresentable | WrongCallback | NullDereference | BadFree | OutOfRange | DivideByZero
  | Exited int  \<comment> \<open>the program ends itself\<close>

record opt_mem =
  om_data :: "nat \<Rightarrow> u8"             \<comment> \<open>the structure behind \<^verbatim>\<open>void *data\<close>\<close>
  om_heap :: "string option list"      \<comment> \<open>the strings of \<^verbatim>\<open>strdup\<close>; \<^const>\<open>None\<close> is a freed one\<close>
  om_erange :: bool                    \<comment> \<open>\<^verbatim>\<open>errno\<close> is \<^verbatim>\<open>ERANGE\<close>\<close>

datatype fio_opt_type =
    FIO_OPT_STR | FIO_OPT_STR_VAL | FIO_OPT_STR_VAL_INT | FIO_OPT_STR_VAL_TIME | FIO_OPT_STR_STORE
  | FIO_OPT_RANGE | FIO_OPT_INT | FIO_OPT_STR_SET

text \<open>The four types of functions that stand behind \<^verbatim>\<open>void *cb\<close>; an \<^verbatim>\<open>unsigned long *\<close> and an
  \<^verbatim>\<open>unsigned long long *\<close> are the same on this target.\<close>

datatype 's opt_cb =
    Cb_str "string \<Rightarrow> 's \<Rightarrow> job_fault + int \<times> 's"
  | Cb_val "u64 \<Rightarrow> 's \<Rightarrow> job_fault + int \<times> 's"
  | Cb_int "u32 \<Rightarrow> 's \<Rightarrow> job_fault + int \<times> 's"
  | Cb_set "'s \<Rightarrow> job_fault + int \<times> 's"

record 's fio_option =
  opt_name :: string
  opt_type :: fio_opt_type
  opt_off1 :: u32
  opt_off2 :: u32
  opt_off3 :: u32
  opt_off4 :: u32
  opt_max :: u32
  opt_cb :: "'s opt_cb option"

section \<open>Numbers\<close>

definition get_mult_time :: "char \<Rightarrow> u64" where
  "get_mult_time c =
     (if c = CHR ''m'' \<or> c = CHR ''M'' then 60
      else if c = CHR ''h'' \<or> c = CHR ''H'' then 60 * 60
      else if c = CHR ''d'' \<or> c = CHR ''D'' then 24 * 60 * 60
      else 1)"

definition get_mult_bytes :: "char \<Rightarrow> u64" where
  "get_mult_bytes c =
     (if c = CHR ''k'' \<or> c = CHR ''K'' then 1024
      else if c = CHR ''m'' \<or> c = CHR ''M'' then 1024 * 1024
      else if c = CHR ''g'' \<or> c = CHR ''G'' then 1024 * 1024 * 1024
      else 1)"

text \<open>\<^verbatim>\<open>strtoul\<close> with base 10: a negative number is negated in the type, one that does not fit is \<^verbatim>\<open>ULONG_MAX\<close> and
  sets \<^verbatim>\<open>errno\<close>, text without a number is 0.\<close>

definition strtoul :: "string \<Rightarrow> u64 \<times> bool" where
  "strtoul str =
     (case scan_number str of
        None \<Rightarrow> (0, False)
      | Some (n, _) \<Rightarrow> if \<bar>n\<bar> < 2 ^ 64 then (word_of_int n, False) else (-1, True))"

text \<open>The value if there is one, and \<^verbatim>\<open>errno\<close>, which nobody resets before.\<close>

definition str_to_decimal :: "string \<Rightarrow> bool \<Rightarrow> bool \<Rightarrow> u64 option \<times> bool" where
  "str_to_decimal str kilo erange =
     (if length str = 0 then (None, erange)
      else
        let (val, r) = strtoul str; erange = (erange \<or> r)
        in if val = -1 \<and> erange then (None, erange)
           else (Some (val * (if kilo then get_mult_bytes (last str) else get_mult_time (last str))), erange))"

abbreviation check_str_bytes :: "string \<Rightarrow> bool \<Rightarrow> u64 option \<times> bool" where
  "check_str_bytes p \<equiv> str_to_decimal p True"

abbreviation check_str_time :: "string \<Rightarrow> bool \<Rightarrow> u64 option \<times> bool" where
  "check_str_time p \<equiv> str_to_decimal p False"

text \<open>\<^verbatim>\<open>sscanf\<close> of an unsigned number of \<open>w\<close> bits: the number and the text behind it.\<close>

definition scan_unsigned :: "nat \<Rightarrow> string \<Rightarrow> job_fault + (int \<times> string) option" where
  "scan_unsigned w str =
     (case scan_number str of
        None \<Rightarrow> Inr None
      | Some (n, rest) \<Rightarrow> if \<bar>n\<bar> < 2 ^ w then Inr (Some (n, rest)) else Inl Unrepresentable)"

definition check_range_bytes :: "string \<Rightarrow> job_fault + u64 option" where
  "check_range_bytes str =
     (if length str = 0 then Inr None
      else sbind (scan_unsigned 64 str) (\<lambda>r.
        case r of
          Some (n, suffix # _) \<Rightarrow> Inr (Some (word_of_int n * get_mult_bytes suffix))
        | Some (n, []) \<Rightarrow> Inr (Some (word_of_int n))
        | None \<Rightarrow> Inr None))"

definition check_int :: "string \<Rightarrow> job_fault + u32 option" where
  "check_int p =
     (if length p = 0 then Inr None
      else sbind (scan_unsigned 32 p) (\<lambda>r. Inr (map_option (\<lambda>(n, _). word_of_int n) r)))"

section \<open>Blanks\<close>

definition is_cntrl :: "char \<Rightarrow> bool" where
  "is_cntrl c = ((of_char c :: nat) < 32 \<or> (of_char c :: nat) = 127)"

text \<open>\<^verbatim>\<open>strip_blank_front\<close> moves a local pointer and leaves the one it was given as it is.\<close>

definition strip_blank_front :: "string \<Rightarrow> string" where
  "strip_blank_front p = (let s = dropWhile is_space p in p)"

text \<open>\<^verbatim>\<open>strip_blank_end\<close> of the string \<open>p\<close> at the end of \<open>before @ p\<close>, the part of its array up to its end: the loop runs
  to the left without a bound, \<^const>\<open>None\<close> is that it leaves the array.\<close>

definition strip_blank_end :: "string \<Rightarrow> string \<Rightarrow> string option" where
  "strip_blank_end before p =
     (let kept = rev (dropWhile (\<lambda>c. is_space c \<or> is_cntrl c) (rev (before @ p)))
      in if kept = [] then None else Some (drop (length before) kept))"

section \<open>One option\<close>

fun find_option :: "'s fio_option list \<Rightarrow> string \<Rightarrow> 's fio_option option" where
  "find_option [] opt = None"
| "find_option (x # options) opt = (if opt_name x = opt then Some x else find_option options opt)"

text \<open>The stores through \<^verbatim>\<open>unsigned int *\<close>, \<^verbatim>\<open>unsigned long long *\<close> and \<^verbatim>\<open>char **\<close>.\<close>

definition store_uint :: "u32 \<Rightarrow> u32 \<Rightarrow> 'a opt_mem_scheme \<Rightarrow> 'a opt_mem_scheme" where
  "store_uint v off s = s\<lparr>om_data := store_le 4 (unat off) (unat v) (om_data s)\<rparr>"

definition store_ull :: "u64 \<Rightarrow> u32 \<Rightarrow> 'a opt_mem_scheme \<Rightarrow> 'a opt_mem_scheme" where
  "store_ull v off s = s\<lparr>om_data := store_le 8 (unat off) (unat v) (om_data s)\<rparr>"

definition strdup :: "string \<Rightarrow> 'a opt_mem_scheme \<Rightarrow> u64 \<times> 'a opt_mem_scheme" where
  "strdup str s = (of_nat (length (om_heap s) + 1), s\<lparr>om_heap := om_heap s @ [Some str]\<rparr>)"

text \<open>Both stores of a value, each under its condition.\<close>

definition store_pair :: "('v \<Rightarrow> u32 \<Rightarrow> 's \<Rightarrow> 's) \<Rightarrow> 'v \<Rightarrow> 's fio_option \<Rightarrow> bool \<Rightarrow> bool \<Rightarrow> 's \<Rightarrow> 's" where
  "store_pair st v opt first again s =
     (let s = (if first then st v (opt_off1 opt) s else s)
      in if \<not> again \<and> opt_off2 opt \<noteq> 0 then st v (opt_off2 opt) s else s)"

definition handle_str_val ::
  "'a opt_mem_scheme fio_option \<Rightarrow> bool \<Rightarrow> string \<Rightarrow> bool \<Rightarrow> bool \<Rightarrow> 'a opt_mem_scheme \<Rightarrow> job_fault + int \<times> 'a opt_mem_scheme"
where
  "handle_str_val opt is_time ptr first again s =
     (let (r, erange) = (if is_time then check_str_time ptr (om_erange s) else check_str_bytes ptr (om_erange s));
          s = s\<lparr>om_erange := erange\<rparr>
      in case r of
           None \<Rightarrow> Inr (1, s)
         | Some ull \<Rightarrow>
             let ull = (if opt_max opt \<noteq> 0 \<and> ucast (opt_max opt) < ull then ucast (opt_max opt) else ull)
             in case opt_cb opt of
                  Some (Cb_val fn) \<Rightarrow> fn ull s
                | Some _ \<Rightarrow> Inl WrongCallback
                | None \<Rightarrow>
                    if opt_type opt = FIO_OPT_STR_VAL_INT then Inr (0, store_pair store_uint (ucast ull) opt first again s)
                    else Inr (0, store_pair store_ull ull opt first again s))"

definition handle_range ::
  "'a opt_mem_scheme fio_option \<Rightarrow> string \<Rightarrow> bool \<Rightarrow> bool \<Rightarrow> 'a opt_mem_scheme \<Rightarrow> job_fault + int \<times> 'a opt_mem_scheme"
where
  "handle_range opt ptr first again s =
     (let tmp = take 127 ptr; cut = (127 \<le> length ptr)
      in if CHR ''-'' \<notin> set tmp then (if cut then Inl Unterminated else Inr (1, s))
         else
           let p1 = takeWhile (\<lambda>c. c \<noteq> CHR ''-'') tmp; p2 = drop (length p1 + 1) tmp
           in sbind (check_range_bytes p1) (\<lambda>r1. case r1 of None \<Rightarrow> Inr (1, s) | Some ul1 \<Rightarrow>
                if cut then Inl Unterminated
                else sbind (check_range_bytes p2) (\<lambda>r2. case r2 of None \<Rightarrow> Inr (1, s) | Some ul2 \<Rightarrow>
                  let (ul1, ul2) = (if ul2 < ul1 then (ul2, ul1) else (ul1, ul2));
                      s = (if first then store_uint (ucast ul2) (opt_off2 opt) (store_uint (ucast ul1) (opt_off1 opt) s) else s);
                      s = (if \<not> again \<and> opt_off3 opt \<noteq> 0 \<and> opt_off4 opt \<noteq> 0
                           then store_uint (ucast ul2) (opt_off4 opt) (store_uint (ucast ul1) (opt_off3 opt) s) else s)
                  in Inr (0, s))))"

definition handle_int ::
  "'a opt_mem_scheme fio_option \<Rightarrow> string \<Rightarrow> bool \<Rightarrow> bool \<Rightarrow> 'a opt_mem_scheme \<Rightarrow> job_fault + int \<times> 'a opt_mem_scheme"
where
  "handle_int opt ptr first again s =
     sbind (check_int ptr) (\<lambda>r. case r of
       None \<Rightarrow> Inr (1, s)
     | Some il \<Rightarrow>
         let il = (if opt_max opt \<noteq> 0 \<and> opt_max opt < il then opt_max opt else il)
         in case opt_cb opt of
              Some (Cb_int fn) \<Rightarrow> fn il s
            | Some _ \<Rightarrow> Inl WrongCallback
            | None \<Rightarrow> Inr (0, store_pair store_uint il opt first again s))"

definition handle_set ::
  "'a opt_mem_scheme fio_option \<Rightarrow> bool \<Rightarrow> bool \<Rightarrow> 'a opt_mem_scheme \<Rightarrow> job_fault + int \<times> 'a opt_mem_scheme"
where
  "handle_set opt first again s =
     (case opt_cb opt of
        Some (Cb_set fn) \<Rightarrow> fn s
      | Some _ \<Rightarrow> Inl WrongCallback
      | None \<Rightarrow> Inr (0, store_pair store_uint 1 opt first again s))"

text \<open>\<^verbatim>\<open>__handle_option\<close>.\<close>

definition handle_one_option ::
  "'a opt_mem_scheme fio_option \<Rightarrow> string option \<Rightarrow> bool \<Rightarrow> bool \<Rightarrow> 'a opt_mem_scheme \<Rightarrow> job_fault + int \<times> 'a opt_mem_scheme"
where
  "handle_one_option opt ptr first again s =
     (case ptr of
        None \<Rightarrow> if opt_type opt = FIO_OPT_STR_SET then handle_set opt first again s else Inr (1, s)
      | Some p \<Rightarrow>
          (case opt_type opt of
             FIO_OPT_STR \<Rightarrow> (case opt_cb opt of Some (Cb_str fn) \<Rightarrow> fn p s | _ \<Rightarrow> Inl WrongCallback)
           | FIO_OPT_STR_VAL_TIME \<Rightarrow> handle_str_val opt True p first again s
           | FIO_OPT_STR_VAL \<Rightarrow> handle_str_val opt False p first again s
           | FIO_OPT_STR_VAL_INT \<Rightarrow> handle_str_val opt False p first again s
           | FIO_OPT_STR_STORE \<Rightarrow> (let (cp, s) = strdup p s in Inr (0, store_ull cp (opt_off1 opt) s))
           | FIO_OPT_RANGE \<Rightarrow> handle_range opt p first again s
           | FIO_OPT_INT \<Rightarrow> handle_int opt p first again s
           | FIO_OPT_STR_SET \<Rightarrow> handle_set opt first again s))"

text \<open>\<^verbatim>\<open>strchr\<close>, with the text behind the character.\<close>

definition after_char :: "char \<Rightarrow> string \<Rightarrow> string option" where
  "after_char ch str = (if ch \<in> set str then Some (tl (dropWhile (\<lambda>c. c \<noteq> ch) str)) else None)"

definition handle_option ::
  "'a opt_mem_scheme fio_option \<Rightarrow> string option \<Rightarrow> 'a opt_mem_scheme \<Rightarrow> job_fault + int \<times> 'a opt_mem_scheme"
where
  "handle_option opt ptr s =
     (let ptr2 = Option.bind ptr (after_char CHR '','')
      in sbind (handle_one_option opt ptr True (ptr2 \<noteq> None) s) (\<lambda>(r1, s).
           if ptr2 = None then Inr (r1, s)
           else sbind (handle_one_option opt ptr2 False False s) (\<lambda>(r2, s).
             Inr (c_bool (r1 \<noteq> 0 \<and> r2 \<noteq> 0), s))))"

section \<open>Entry points\<close>

definition parse_cmd_option ::
  "string \<Rightarrow> string option \<Rightarrow> 'a opt_mem_scheme fio_option list \<Rightarrow> 'a opt_mem_scheme \<Rightarrow> job_fault + int \<times> 'a opt_mem_scheme"
where
  "parse_cmd_option opt val options s =
     (case find_option options opt of
        None \<Rightarrow> Inr (1, s)
      | Some x \<Rightarrow> sbind (handle_option x val s) (\<lambda>(r, s). Inr (c_bool (r \<noteq> 0), s)))"

text \<open>The copy in \<^verbatim>\<open>tmp\<close> has room for 63 characters and the end; \<^verbatim>\<open>strncpy\<close> writes no end behind 63 or more, and
  what stands there is not set: looking for a missing \<^verbatim>\<open>=\<close> and parsing a value run over it (a value whose
  parsing stops earlier, at a comma, is not told apart).  A name that no option has is told from the copy alone.\<close>

definition parse_option ::
  "string \<Rightarrow> 'a opt_mem_scheme fio_option list \<Rightarrow> 'a opt_mem_scheme \<Rightarrow> job_fault + int \<times> 'a opt_mem_scheme"
where
  "parse_option opt options s =
     (let tmp = take 63 opt; cut = (63 \<le> length opt)
      in if cut \<and> CHR ''='' \<notin> set tmp then Inl Unterminated
         else
           let name = takeWhile (\<lambda>c. c \<noteq> CHR ''='') tmp; post = after_char CHR ''='' tmp
           in case find_option options name of
                None \<Rightarrow> Inr (1, s)
              | Some x \<Rightarrow>
                  if cut then Inl Unterminated
                  else sbind (handle_option x post s) (\<lambda>(r, s). Inr (c_bool (r \<noteq> 0), s)))"

section \<open>What an option writes\<close>

text \<open>The offsets an option without a handler stores to, each with the width of the store.\<close>

definition option_writes :: "'s fio_option \<Rightarrow> (nat \<times> nat) list" where
  "option_writes opt =
     (case opt_type opt of
        FIO_OPT_STR \<Rightarrow> []
      | FIO_OPT_STR_STORE \<Rightarrow> [(unat (opt_off1 opt), 8)]
      | FIO_OPT_RANGE \<Rightarrow> [(unat (opt_off1 opt), 4), (unat (opt_off2 opt), 4)]
          @ (if opt_off3 opt \<noteq> 0 \<and> opt_off4 opt \<noteq> 0 then [(unat (opt_off3 opt), 4), (unat (opt_off4 opt), 4)] else [])
      | t \<Rightarrow> let n = (if t = FIO_OPT_STR_VAL \<or> t = FIO_OPT_STR_VAL_TIME then 8 else 4)
             in (unat (opt_off1 opt), n) # (if opt_off2 opt \<noteq> 0 then [(unat (opt_off2 opt), n)] else []))"

definition outside_writes :: "nat \<Rightarrow> 's fio_option \<Rightarrow> bool" where
  "outside_writes a opt = list_all (\<lambda>(off, n). a < off \<or> off + n \<le> a) (option_writes opt)"

text \<open>What a step with a result did to the structure: a failure nothing, a success nothing outside.\<close>

definition keeps_data :: "'s fio_option \<Rightarrow> 'a opt_mem_scheme \<Rightarrow> job_fault + int \<times> 'a opt_mem_scheme \<Rightarrow> bool" where
  "keeps_data opt s res =
     (case res of Inl _ \<Rightarrow> True
      | Inr (r, s') \<Rightarrow> (r \<noteq> 0 \<longrightarrow> om_data s' = om_data s) \<and> (\<forall>a. outside_writes a opt \<longrightarrow> om_data s' a = om_data s a))"

lemma keeps_data_Inl [simp]: "keeps_data opt s (Inl e)"
  by (simp add: keeps_data_def)

lemma keeps_data_fail [simp]: "om_data s' = om_data s \<Longrightarrow> keeps_data opt s (Inr (r, s'))"
  by (simp add: keeps_data_def)

lemma keeps_data_ok:
  "(\<And>a. outside_writes a opt \<Longrightarrow> om_data s' a = om_data s a) \<Longrightarrow> keeps_data opt s (Inr (0, s'))"
  by (simp add: keeps_data_def)

lemma store_uint_outside: "a < unat off \<or> unat off + 4 \<le> a \<Longrightarrow> om_data (store_uint v off s) a = om_data s a"
  by (simp add: store_uint_def store_le_outside)

lemma store_ull_outside: "a < unat off \<or> unat off + 8 \<le> a \<Longrightarrow> om_data (store_ull v off s) a = om_data s a"
  by (simp add: store_ull_def store_le_outside)

lemmas outside_defs = outside_writes_def option_writes_def Let_def

lemma handle_set_keeps: "opt_cb opt = None \<Longrightarrow> opt_type opt = FIO_OPT_STR_SET \<Longrightarrow> keeps_data opt s (handle_set opt first again s)"
  by (auto simp: handle_set_def store_pair_def outside_defs store_uint_outside intro!: keeps_data_ok split: if_splits)

lemma handle_int_keeps: "opt_cb opt = None \<Longrightarrow> opt_type opt = FIO_OPT_INT \<Longrightarrow> keeps_data opt s (handle_int opt p first again s)"
  by (cases "check_int p")
     (auto simp: handle_int_def store_pair_def outside_defs store_uint_outside intro!: keeps_data_ok split: if_splits option.splits)

lemma handle_str_val_keeps:
  assumes "opt_cb opt = None" "opt_type opt \<in> {FIO_OPT_STR_VAL, FIO_OPT_STR_VAL_INT, FIO_OPT_STR_VAL_TIME}"
  shows "keeps_data opt s (handle_str_val opt is_time p first again s)"
proof -
  obtain r e where re: "(if is_time then check_str_time p (om_erange s) else check_str_bytes p (om_erange s)) = (r, e)"
    by fastforce
  show ?thesis
  proof (cases r)
    case None
    then show ?thesis using re by (simp add: handle_str_val_def)
  next
    case (Some ull)
    then show ?thesis using re assms
      by (auto simp: handle_str_val_def store_pair_def outside_defs store_uint_outside store_ull_outside
               intro!: keeps_data_ok split: if_splits)
  qed
qed

lemma handle_range_keeps:
  assumes "opt_type opt = FIO_OPT_RANGE"
  shows "keeps_data opt s (handle_range opt p first again s)"
proof -
  have stores: "keeps_data opt s (Inr (0,
      let s = (if first then store_uint v2 (opt_off2 opt) (store_uint v1 (opt_off1 opt) s) else s)
      in if \<not> again \<and> opt_off3 opt \<noteq> 0 \<and> opt_off4 opt \<noteq> 0
         then store_uint v2 (opt_off4 opt) (store_uint v1 (opt_off3 opt) s) else s))" for v1 v2
    using assms by (intro keeps_data_ok) (auto simp: outside_defs store_uint_outside split: if_splits)
  show ?thesis
    unfolding handle_range_def Let_def
    using stores unfolding Let_def
    by (auto simp: sbind_def split: sum.splits option.splits prod.splits)
qed

lemma handle_one_option_keeps:
  assumes "opt_cb opt = None"
  shows "keeps_data opt s (handle_one_option opt ptr first again s)"
proof (cases ptr)
  case None
  then show ?thesis using assms by (simp add: handle_one_option_def handle_set_keeps)
next
  case (Some p)
  show ?thesis
  proof (cases "opt_type opt")
    case FIO_OPT_STR_STORE
    then show ?thesis using Some
      by (auto simp: handle_one_option_def strdup_def outside_defs store_ull_outside intro!: keeps_data_ok)
  qed (use assms Some in \<open>simp_all add: handle_one_option_def handle_set_keeps handle_int_keeps handle_range_keeps handle_str_val_keeps\<close>)
qed

lemma handle_one_option_data:
  assumes "opt_cb opt = None" "handle_one_option opt ptr first again s = Inr (r, s')"
  shows "r \<noteq> 0 \<Longrightarrow> om_data s' = om_data s" "outside_writes a opt \<Longrightarrow> om_data s' a = om_data s a"
  using handle_one_option_keeps [OF assms(1), of s ptr first again] assms(2) by (auto simp: keeps_data_def)

lemma handle_option_keeps:
  assumes "opt_cb opt = None"
  shows "keeps_data opt s (handle_option opt ptr s)"
  using handle_one_option_data [OF assms]
  by (auto simp: handle_option_def Let_def keeps_data_def sbind_def split: sum.splits prod.splits)

text \<open>The option an argument names, and its value.\<close>

definition named_option :: "'s fio_option list \<Rightarrow> string \<Rightarrow> 's fio_option option" where
  "named_option options opt = find_option options (takeWhile (\<lambda>c. c \<noteq> CHR ''='') opt)"

lemma takeWhile_take: "x \<in> set (take n xs) \<Longrightarrow> takeWhile (\<lambda>y. y \<noteq> x) (take n xs) = takeWhile (\<lambda>y. y \<noteq> x) xs"
  by (induction xs arbitrary: n) (auto simp: take_Cons split: nat.splits)

lemma parse_option_handles:
  assumes "named_option options opt = Some x" "parse_option opt options s = Inr (r, s')"
  obtains q where "handle_option x (after_char CHR ''='' opt) s = Inr (q, s')" "r = c_bool (q \<noteq> 0)"
proof -
  have short: "length opt < 63"
    using assms takeWhile_take [of "CHR ''=''" 63 opt]
    by (auto simp: parse_option_def Let_def named_option_def split: if_splits)
  then have "take 63 opt = opt" by simp
  then show ?thesis
    using assms short that
    by (auto simp: parse_option_def Let_def named_option_def sbind_Inr_iff split: if_splits)
qed

text \<open>An option without a handler stores only into the bytes its entry of the table names, whatever the text; all the
  other bytes of the job stay as they are.\<close>

theorem parse_option_frame:
  assumes "named_option options opt = Some x" "opt_cb x = None" "parse_option opt options s = Inr (r, s')"
    and "outside_writes a x"
  shows "om_data s' a = om_data s a"
proof -
  from parse_option_handles [OF assms(1,3)] obtain q
    where "handle_option x (after_char CHR ''='' opt) s = Inr (q, s')" by metis
  with handle_option_keeps [OF assms(2), of s "after_char CHR ''='' opt"] assms(4) show ?thesis
    by (simp add: keeps_data_def)
qed

text \<open>When \<^verbatim>\<open>parse_option\<close> reports an error for an option without a handler, the job is as it was.\<close>

theorem parse_option_error_keeps:
  assumes "named_option options opt = Some x" "opt_cb x = None" "parse_option opt options s = Inr (r, s')" "r \<noteq> 0"
  shows "om_data s' = om_data s"
proof -
  from parse_option_handles [OF assms(1,3)] obtain q
    where "handle_option x (after_char CHR ''='' opt) s = Inr (q, s')" "r = c_bool (q \<noteq> 0)" by metis
  with handle_option_keeps [OF assms(2), of s "after_char CHR ''='' opt"] assms(4) show ?thesis
    by (simp add: keeps_data_def split: if_splits)
qed

section \<open>Values that parse\<close>

lemma find_option_eq: "find_option options n = find (\<lambda>x. opt_name x = n) options"
  by (induction options) auto

lemma named_option_eq: "CHR ''='' \<notin> set name \<Longrightarrow> named_option options (name @ CHR ''='' # v) = find_option options name"
  by (simp add: named_option_def takeWhile_until)

lemma after_char_first: "ch \<notin> set a \<Longrightarrow> after_char ch (a @ ch # b) = Some b"
  by (induction a) (auto simp: after_char_def)

lemma after_char_none: "ch \<notin> set a \<Longrightarrow> after_char ch a = None"
  by (simp add: after_char_def)

lemma parse_option_value:
  assumes "find_option options name = Some x" "CHR ''='' \<notin> set name" "length name + length v < 62"
  shows "parse_option (name @ CHR ''='' # v) options s
    = sbind (handle_option x (Some v) s) (\<lambda>(r, s). Inr (c_bool (r \<noteq> 0), s))"
  using assms by (simp add: parse_option_def Let_def takeWhile_until after_char_first)

text \<open>A number with its unit.\<close>

definition unit_char :: "char \<Rightarrow> bool" where
  "unit_char c = (\<not> is_digit c \<and> c \<noteq> CHR '','' \<and> c \<noteq> CHR ''-'')"

lemma dec_no_char: "\<not> is_digit c \<Longrightarrow> c \<notin> set (dec n)"
  using dec_digits by blast

lemma mark_no_digit: "\<not> is_digit CHR '',''" "\<not> is_digit CHR ''-''" "\<not> is_digit CHR ''=''"
  by (simp_all add: is_digit_def)

lemma strtoul_dec: "n < 2 ^ 64 \<Longrightarrow> no_digit rest \<Longrightarrow> strtoul (dec n @ rest) = (of_nat n, False)"
  by (simp add: strtoul_def scan_number_dec)

lemma of_nat_not_max: "n < 2 ^ 64 - 1 \<Longrightarrow> (of_nat n :: u64) \<noteq> -1"
proof
  assume a: "n < 2 ^ 64 - 1" "(of_nat n :: u64) = -1"
  then have "unat (of_nat n :: u64) = unat (-1 :: u64)" by simp
  moreover have "unat (of_nat n :: u64) = n" using a(1) by (simp add: unat_of_nat)
  moreover have "unat (-1 :: u64) = 2 ^ 64 - 1" by (simp add: unsigned_minus_1_eq_mask mask_eq_exp_minus_1)
  ultimately show False using a(1) by simp
qed

text \<open>The value is scaled by the last character of the whole text, whatever stands between.\<close>

lemma str_to_decimal_dec:
  assumes "n < 2 ^ 64 - 1" "no_digit rest" "rest \<noteq> []"
  shows "str_to_decimal (dec n @ rest) kilo e
    = (Some (of_nat n * (if kilo then get_mult_bytes (last rest) else get_mult_time (last rest))), e)"
  using assms of_nat_not_max [OF assms(1)] strtoul_dec [of n rest]
  by (simp add: str_to_decimal_def Let_def dec_not_nil)

lemma last_append_char: "last (a @ [c]) = c"
  by simp

definition clamp_max :: "'s fio_option \<Rightarrow> u64 \<Rightarrow> u64" where
  "clamp_max x v = (if opt_max x \<noteq> 0 \<and> ucast (opt_max x) < v then ucast (opt_max x) else v)"

definition store_value :: "'a opt_mem_scheme fio_option \<Rightarrow> u64 \<Rightarrow> bool \<Rightarrow> bool \<Rightarrow> 'a opt_mem_scheme \<Rightarrow> 'a opt_mem_scheme" where
  "store_value x v first again s =
     (if opt_type x = FIO_OPT_STR_VAL_INT then store_pair store_uint (ucast (clamp_max x v)) x first again s
      else store_pair store_ull (clamp_max x v) x first again s)"

lemma handle_one_size:
  assumes "opt_cb x = None" "opt_type x \<in> {FIO_OPT_STR_VAL, FIO_OPT_STR_VAL_INT}"
    and "n < 2 ^ 64 - 1" "no_digit rest" "rest \<noteq> []"
  shows "handle_one_option x (Some (dec n @ rest)) first again s
    = Inr (0, store_value x (of_nat n * get_mult_bytes (last rest)) first again s)"
  using assms(1,2) str_to_decimal_dec [OF assms(3-5), of True "om_erange s"]
  by (auto simp: handle_one_option_def handle_str_val_def store_value_def clamp_max_def Let_def)

lemma dec_unit_comma: "unit_char c \<Longrightarrow> CHR '','' \<notin> set (dec n @ [c])"
  using dec_no_char [OF mark_no_digit(1)] by (auto simp: unit_char_def)

text \<open>An option \<^verbatim>\<open>name=<n><unit>\<close> for a size sets both of its fields to \<open>n\<close> times the unit, cut off at the largest
  value the table allows.\<close>

theorem parse_option_size:
  assumes "find_option options name = Some x" "CHR ''='' \<notin> set name"
    and "opt_cb x = None" "opt_type x \<in> {FIO_OPT_STR_VAL, FIO_OPT_STR_VAL_INT}"
    and "n < 2 ^ 64 - 1" "unit_char c" "length name + length (dec n) < 61"
  shows "parse_option (name @ CHR ''='' # dec n @ [c]) options s
    = Inr (0, store_value x (of_nat n * get_mult_bytes c) True False s)"
proof -
  have one: "handle_one_option x (Some (dec n @ [c])) True False s
      = Inr (0, store_value x (of_nat n * get_mult_bytes c) True False s)"
    using handle_one_size [OF assms(3-5), of "[c]"] assms(6) by (simp add: unit_char_def no_digit_def)
  have "handle_option x (Some (dec n @ [c])) s = Inr (0, store_value x (of_nat n * get_mult_bytes c) True False s)"
    using one after_char_none [OF dec_unit_comma [OF assms(6)], of n] by (simp add: handle_option_def Let_def)
  then show ?thesis
    using parse_option_value [OF assms(1,2), of "dec n @ [c]" s] assms(7) by simp
qed

text \<open>C40: of two sizes \<^verbatim>\<open>name=<a><unit>,<b><unit>\<close> the first is scaled by the unit of the second: the unit is the last
  character of the text from the start of the number on, and the text of the first number goes up to the end of the line.\<close>

theorem parse_option_size_pair:
  assumes "find_option options name = Some x" "CHR ''='' \<notin> set name"
    and "opt_cb x = None" "opt_type x \<in> {FIO_OPT_STR_VAL, FIO_OPT_STR_VAL_INT}"
    and "n < 2 ^ 64 - 1" "unit_char c" "m < 2 ^ 64 - 1" "unit_char d"
    and "length name + length (dec n) + length (dec m) < 59"
  shows "parse_option (name @ CHR ''='' # dec n @ c # CHR '','' # dec m @ [d]) options s
    = Inr (0, store_value x (of_nat m * get_mult_bytes d) False False
                (store_value x (of_nat n * get_mult_bytes d) True True s))"
proof -
  define v where "v = dec n @ c # CHR '','' # dec m @ [d]"
  have v: "v = (dec n @ [c]) @ CHR '','' # dec m @ [d]" by (simp add: v_def)
  have after: "after_char CHR '','' v = Some (dec m @ [d])"
    unfolding v using dec_unit_comma [OF assms(6)] by (rule after_char_first)
  have "handle_one_option x (Some v) True True s = Inr (0, store_value x (of_nat n * get_mult_bytes d) True True s)"
    using handle_one_size [OF assms(3-5), of "c # CHR '','' # dec m @ [d]"] assms(6)
    by (simp add: unit_char_def no_digit_def v_def)
  moreover have "handle_one_option x (Some (dec m @ [d])) False False t
      = Inr (0, store_value x (of_nat m * get_mult_bytes d) False False t)" for t
    using handle_one_size [OF assms(3,4,7), of "[d]"] assms(8) by (simp add: unit_char_def no_digit_def)
  ultimately have "handle_option x (Some v) s = Inr (0, store_value x (of_nat m * get_mult_bytes d) False False
                (store_value x (of_nat n * get_mult_bytes d) True True s))"
    using after by (simp add: handle_option_def Let_def)
  then show ?thesis
    using parse_option_value [OF assms(1,2), of v s] assms(9) by (simp add: v_def)
qed

section \<open>Ranges\<close>

lemma takeWhile_dash: "CHR ''-'' \<notin> set a \<Longrightarrow> takeWhile (\<lambda>c. c \<noteq> CHR ''-'') (a @ CHR ''-'' # b) = a"
  by (rule takeWhile_until)

lemma check_range_bytes_dec:
  assumes "n < 2 ^ 64" "unit_char c"
  shows "check_range_bytes (dec n @ c # rest) = Inr (Some (of_nat n * get_mult_bytes c))"
  using assms scan_number_dec [of "c # rest" n]
  by (simp add: check_range_bytes_def scan_unsigned_def unit_char_def no_digit_def)

definition store_range :: "'a opt_mem_scheme fio_option \<Rightarrow> u64 \<Rightarrow> u64 \<Rightarrow> 'a opt_mem_scheme \<Rightarrow> 'a opt_mem_scheme" where
  "store_range x lo hi s =
     (let s = store_uint (ucast hi) (opt_off2 x) (store_uint (ucast lo) (opt_off1 x) s)
      in if opt_off3 x \<noteq> 0 \<and> opt_off4 x \<noteq> 0
         then store_uint (ucast hi) (opt_off4 x) (store_uint (ucast lo) (opt_off3 x) s) else s)"

lemma handle_range_both:
  assumes "length v < 127" "CHR ''-'' \<in> set v" "takeWhile (\<lambda>c. c \<noteq> CHR ''-'') v = a" "drop (length a + 1) v = b"
    and "check_range_bytes a = Inr (Some ul1)" "check_range_bytes b = Inr (Some ul2)"
  shows "handle_range x v True False s = Inr (0, store_range x (min ul1 ul2) (max ul1 ul2) s)"
proof -
  have "take 127 v = v" "\<not> 127 \<le> length v" using assms(1) by simp_all
  then show ?thesis
    using assms(2-) by (cases "ul2 < ul1") (simp_all add: handle_range_def store_range_def Let_def min_def max_def)
qed

text \<open>An option \<^verbatim>\<open>name=<a><unit>-<b><unit>\<close> stores the smaller of the two sizes as the lower bound and the larger as the
  upper bound, in whichever order they are written, each with its own unit, and for both directions.\<close>

theorem parse_option_range:
  assumes "find_option options name = Some x" "CHR ''='' \<notin> set name" "opt_type x = FIO_OPT_RANGE"
    and "n < 2 ^ 64" "unit_char c" "m < 2 ^ 64" "unit_char d"
    and "length name + length (dec n) + length (dec m) < 59"
  shows "parse_option (name @ CHR ''='' # dec n @ c # CHR ''-'' # dec m @ [d]) options s
    = Inr (0, store_range x (min (of_nat n * get_mult_bytes c) (of_nat m * get_mult_bytes d))
                            (max (of_nat n * get_mult_bytes c) (of_nat m * get_mult_bytes d)) s)"
proof -
  define v where "v = dec n @ c # CHR ''-'' # dec m @ [d]"
  have v: "v = (dec n @ [c]) @ CHR ''-'' # dec m @ [d]" by (simp add: v_def)
  have dash: "CHR ''-'' \<notin> set (dec n @ [c])"
    using dec_no_char [OF mark_no_digit(2)] assms(5) by (auto simp: unit_char_def)
  have short: "length v < 127" using assms(8) by (simp add: v_def)
  have p1: "takeWhile (\<lambda>c. c \<noteq> CHR ''-'') v = dec n @ [c]"
    unfolding v using dash by (rule takeWhile_dash)
  have p2: "drop (length (dec n @ [c]) + 1) v = dec m @ [d]"
    by (simp add: v)
  have "CHR '','' \<notin> set v"
    using dec_unit_comma [OF assms(5), of n] dec_unit_comma [OF assms(7), of m] by (simp add: v_def)
  then have after: "after_char CHR '','' v = None" by (rule after_char_none)
  have lo: "check_range_bytes (dec n @ [c]) = Inr (Some (of_nat n * get_mult_bytes c))"
    using check_range_bytes_dec [OF assms(4,5), of "[]"] by simp
  have hi: "check_range_bytes (dec m @ [d]) = Inr (Some (of_nat m * get_mult_bytes d))"
    using check_range_bytes_dec [OF assms(6,7), of "[]"] by simp
  have hyph: "CHR ''-'' \<in> set v" by (simp add: v)
  have "handle_range x v True False s
    = Inr (0, store_range x (min (of_nat n * get_mult_bytes c) (of_nat m * get_mult_bytes d))
                            (max (of_nat n * get_mult_bytes c) (of_nat m * get_mult_bytes d)) s)"
    using handle_range_both [OF short hyph p1 p2 lo hi] .
  then show ?thesis
    using parse_option_value [OF assms(1,2), of v s] assms(3,8) after
    by (simp add: v_def handle_option_def handle_one_option_def Let_def)
qed

section \<open>Blanks at the end\<close>

lemma strip_blank_end_line:
  assumes "c \<in> set p" "\<not> is_space c" "\<not> is_cntrl c"
  shows "strip_blank_end [] p = Some (rev (dropWhile (\<lambda>c. is_space c \<or> is_cntrl c) (rev p)))"
  using assms by (auto simp: strip_blank_end_def Let_def dropWhile_eq_Nil_conv)

section \<open>Strings\<close>

text \<open>An option \<^verbatim>\<open>name=<text>\<close> for a string ends up with the part of the text behind its first comma, when there is
  one: the text counts as two values, and a string is stored for each of them.\<close>

theorem parse_option_string:
  assumes "find_option options name = Some x" "CHR ''='' \<notin> set name" "opt_type x = FIO_OPT_STR_STORE"
    and "length name + length v < 62"
  shows "\<exists>t. parse_option (name @ CHR ''='' # v) options s = Inr (0, t)
    \<and> last (om_heap t) = Some (case after_char CHR '','' v of None \<Rightarrow> v | Some w \<Rightarrow> w)
    \<and> load_le 8 (unat (opt_off1 x)) (om_data t) = length (om_heap t) mod 2 ^ 64"
proof -
  have one: "handle_one_option x (Some u) first again q
      = Inr (0, store_ull (of_nat (length (om_heap q) + 1)) (opt_off1 x) (q\<lparr>om_heap := om_heap q @ [Some u]\<rparr>))"
    for u first again and q :: "'a opt_mem_scheme"
    using assms(3) by (simp add: handle_one_option_def strdup_def)
  have ld: "load_le 8 (unat off) (om_data (store_ull (of_nat k) off q)) = k mod 2 ^ 64"
    for off k and q :: "'a opt_mem_scheme"
    by (simp add: store_ull_def load_store_same unat_of_nat)
  have heap: "om_heap (store_ull p off q) = om_heap q" for p off and q :: "'a opt_mem_scheme"
    by (simp add: store_ull_def)
  show ?thesis
  proof (cases "after_char CHR '','' v")
    case None
    then have "handle_option x (Some v) s = handle_one_option x (Some v) True False s"
      by (cases "handle_one_option x (Some v) True False s") (auto simp: handle_option_def)
    then show ?thesis
      using parse_option_value [OF assms(1,2,4), of s] None one [of v True False s]
        ld [of "opt_off1 x" "length (om_heap s) + 1" "s\<lparr>om_heap := om_heap s @ [Some v]\<rparr>"]
      by (simp add: heap)
  next
    case (Some w)
    define t where "t = store_ull (of_nat (length (om_heap s) + 1)) (opt_off1 x) (s\<lparr>om_heap := om_heap s @ [Some v]\<rparr>)"
    have "handle_one_option x (Some v) True True s = Inr (0, t)"
      using one [of v True True s] by (simp only: t_def)
    then have "handle_option x (Some v) s = handle_one_option x (Some w) False False t"
      using one [of w False False t] Some by (simp add: handle_option_def)
    then show ?thesis
      using parse_option_value [OF assms(1,2,4), of s] Some one [of w False False t]
        ld [of "opt_off1 x" "length (om_heap t) + 1" "t\<lparr>om_heap := om_heap t @ [Some w]\<rparr>"]
      by (simp add: heap)
  qed
qed

section \<open>A small table\<close>

definition demo_options :: "opt_mem fio_option list" where
  "demo_options =
    [\<lparr>opt_name = ''bs'', opt_type = FIO_OPT_STR_VAL_INT, opt_off1 = 8, opt_off2 = 12, opt_off3 = 0, opt_off4 = 0, opt_max = 0, opt_cb = None\<rparr>,
     \<lparr>opt_name = ''range'', opt_type = FIO_OPT_RANGE, opt_off1 = 16, opt_off2 = 20, opt_off3 = 24, opt_off4 = 28, opt_max = 0, opt_cb = None\<rparr>,
     \<lparr>opt_name = ''dir'', opt_type = FIO_OPT_STR_STORE, opt_off1 = 32, opt_off2 = 0, opt_off3 = 0, opt_off4 = 0, opt_max = 0, opt_cb = None\<rparr>]"

definition demo_mem :: opt_mem where
  "demo_mem = \<lparr>om_data = (\<lambda>_. 0), om_heap = [], om_erange = False\<rparr>"

lemma dec_small: "n < 10 \<Longrightarrow> dec n = [digit n]"
  by (simp add: dec.simps)

lemma digit_char: "digit 4 = CHR ''4''" "digit 1 = CHR ''1''" "digit 8 = CHR ''8''"
  by code_simp+

theorem parse_option_string_witness:
  "\<exists>t. parse_option ''dir=/a,b'' demo_options demo_mem = Inr (0, t) \<and> last (om_heap t) = Some ''b''
    \<and> load_le 8 32 (om_data t) = length (om_heap t) mod 2 ^ 64"
  using parse_option_string [of demo_options "''dir''" "demo_options ! 2" "''/a,b''" demo_mem]
  by (simp add: demo_options_def after_char_def)

text \<open>\<^verbatim>\<open>bs=4k,1m\<close> gives 4 MiB for reads.\<close>

theorem parse_option_size_pair_witness:
  "parse_option ''bs=4k,1m'' demo_options demo_mem
    = Inr (0, store_uint 1048576 12 (store_uint 4194304 8 demo_mem))"
proof -
  have u: "unit_char CHR ''k''" "unit_char CHR ''m''" by (simp_all add: unit_char_def is_digit_def)
  have "parse_option (''bs'' @ CHR ''='' # dec 4 @ CHR ''k'' # CHR '','' # dec 1 @ [CHR ''m'']) demo_options demo_mem
    = Inr (0, store_value (demo_options ! 0) (of_nat 1 * get_mult_bytes CHR ''m'') False False
                (store_value (demo_options ! 0) (of_nat 4 * get_mult_bytes CHR ''m'') True True demo_mem))"
    by (rule parse_option_size_pair) (simp_all add: demo_options_def u dec_small)
  then show ?thesis
    by (simp add: dec_small digit_char store_value_def clamp_max_def store_pair_def get_mult_bytes_def demo_options_def
        del: One_nat_def)
qed

theorem parse_option_range_witness:
  "parse_option ''range=8k-4k'' demo_options demo_mem
    = Inr (0, store_uint 8192 28 (store_uint 4096 24 (store_uint 8192 20 (store_uint 4096 16 demo_mem))))"
proof -
  have u: "unit_char CHR ''k''" by (simp add: unit_char_def is_digit_def)
  have "parse_option (''range'' @ CHR ''='' # dec 8 @ CHR ''k'' # CHR ''-'' # dec 4 @ [CHR ''k'']) demo_options demo_mem
    = Inr (0, store_range (demo_options ! 1) (min (of_nat 8 * get_mult_bytes CHR ''k'') (of_nat 4 * get_mult_bytes CHR ''k''))
                (max (of_nat 8 * get_mult_bytes CHR ''k'') (of_nat 4 * get_mult_bytes CHR ''k'')) demo_mem)"
    by (rule parse_option_range) (simp_all add: demo_options_def u dec_small)
  then show ?thesis
    by (simp add: dec_small digit_char store_range_def get_mult_bytes_def demo_options_def min_def max_def Let_def)
qed

theorem parse_option_error_keeps_witness:
  "\<exists>t. parse_option ''bs='' demo_options demo_mem = Inr (1, t) \<and> om_data t = om_data demo_mem"
proof -
  have p: "parse_option ''bs='' demo_options demo_mem = Inr (1, demo_mem)"
    by (simp add: parse_option_def demo_options_def demo_mem_def after_char_def handle_option_def handle_one_option_def
        handle_str_val_def str_to_decimal_def)
  show ?thesis
    using parse_option_error_keeps [of demo_options "''bs=''" "demo_options ! 0" demo_mem 1 demo_mem] p
    by (simp add: named_option_def demo_options_def)
qed

end
