(* ===== verification/FioLayout.thy ===== *)
theory FioLayout
  imports FioParse
begin

text \<open>
  \<^verbatim>\<open>struct thread_data\<close> of \<^verbatim>\<open>fio.h\<close> as the compiler lays it out on Linux for x86-64: the members in their order, each with its
  offset and its type, and access to a member through its bytes.  This is the view the option parser has of a
  job.  The sizes of the types of the C library (\<^verbatim>\<open>pthread_t\<close>, \<^verbatim>\<open>cpu_set_t\<close>, \<^verbatim>\<open>struct drand48_data\<close>, \<^verbatim>\<open>struct timeval\<close>,
  \<^verbatim>\<open>struct rusage\<close>) are those of this platform.  Members never overlap, so a store to one leaves the others.
\<close>

section \<open>Types and offsets\<close>

datatype ctype =
    C_int | C_uint | C_long | C_ulong | C_ullong | C_string
  | C_other nat nat  \<comment> \<open>size and alignment of anything else\<close>

fun ctype_size :: "ctype \<Rightarrow> nat" where
  "ctype_size C_int = 4"
| "ctype_size C_uint = 4"
| "ctype_size C_long = 8"
| "ctype_size C_ulong = 8"
| "ctype_size C_ullong = 8"
| "ctype_size C_string = 8"
| "ctype_size (C_other n a) = n"

fun ctype_align :: "ctype \<Rightarrow> nat" where
  "ctype_align (C_other n a) = a"
| "ctype_align t = ctype_size t"

abbreviation C_pointer :: ctype where "C_pointer \<equiv> C_other 8 8"
abbreviation C_enum :: ctype where "C_enum \<equiv> C_other 4 4"
abbreviation C_list_head :: ctype where "C_list_head \<equiv> C_other 16 8"
abbreviation C_timeval :: ctype where "C_timeval \<equiv> C_other 16 8"
abbreviation C_random :: ctype where "C_random \<equiv> C_other 24 8"
abbreviation C_io_stat :: ctype where "C_io_stat \<equiv> C_other 40 8"

definition align_up :: "nat \<Rightarrow> nat \<Rightarrow> nat" where
  "align_up n a = (n + a - 1) div a * a"

text \<open>A member: its offset and its type.  Two members of an array are two members here.\<close>

type_synonym member = "nat \<times> ctype"

text \<open>The offsets are those the compiler gives to members of these types in this order: the first aligned place behind
  the one before.\<close>

fun layout_ok :: "nat \<Rightarrow> member list \<Rightarrow> bool" where
  "layout_ok n [] = True"
| "layout_ok n ((off, t) # ms) = (off = align_up n (ctype_align t) \<and> layout_ok (off + ctype_size t) ms)"

section \<open>The members\<close>

abbreviation m_name :: member where "m_name \<equiv> (0, C_string)"
abbreviation m_directory :: member where "m_directory \<equiv> (8, C_string)"
abbreviation m_filename :: member where "m_filename \<equiv> (16, C_string)"
abbreviation m_verror :: member where "m_verror \<equiv> (24, C_other 80 1)"
abbreviation m_thread :: member where "m_thread \<equiv> (104, C_other 8 8)"
abbreviation m_thread_number :: member where "m_thread_number \<equiv> (112, C_int)"
abbreviation m_groupid :: member where "m_groupid \<equiv> (116, C_int)"
abbreviation m_filetype :: member where "m_filetype \<equiv> (120, C_enum)"
abbreviation m_files :: member where "m_files \<equiv> (128, C_pointer)"
abbreviation m_nr_files :: member where "m_nr_files \<equiv> (136, C_uint)"
abbreviation m_nr_uniq_files :: member where "m_nr_uniq_files \<equiv> (140, C_uint)"
abbreviation m_next_file :: member where "m_next_file \<equiv> (144, C_uint)"
abbreviation m_error :: member where "m_error \<equiv> (148, C_int)"
abbreviation m_pid :: member where "m_pid \<equiv> (152, C_int)"
abbreviation m_orig_buffer :: member where "m_orig_buffer \<equiv> (160, C_string)"
abbreviation m_orig_buffer_size :: member where "m_orig_buffer_size \<equiv> (168, C_ulong)"
abbreviation m_terminate :: member where "m_terminate \<equiv> (176, C_int)"
abbreviation m_runstate :: member where "m_runstate \<equiv> (180, C_int)"
abbreviation m_ddir :: member where "m_ddir \<equiv> (184, C_enum)"
abbreviation m_iomix :: member where "m_iomix \<equiv> (188, C_uint)"
abbreviation m_ioprio :: member where "m_ioprio \<equiv> (192, C_uint)"
abbreviation m_last_was_sync :: member where "m_last_was_sync \<equiv> (196, C_uint)"
abbreviation m_sequential :: member where "m_sequential \<equiv> (200, C_uint)"
abbreviation m_odirect :: member where "m_odirect \<equiv> (204, C_uint)"
abbreviation m_invalidate_cache :: member where "m_invalidate_cache \<equiv> (208, C_uint)"
abbreviation m_create_serialize :: member where "m_create_serialize \<equiv> (212, C_uint)"
abbreviation m_create_fsync :: member where "m_create_fsync \<equiv> (216, C_uint)"
abbreviation m_end_fsync :: member where "m_end_fsync \<equiv> (220, C_uint)"
abbreviation m_sync_io :: member where "m_sync_io \<equiv> (224, C_uint)"
abbreviation m_verify :: member where "m_verify \<equiv> (228, C_uint)"
abbreviation m_use_thread :: member where "m_use_thread \<equiv> (232, C_uint)"
abbreviation m_unlink :: member where "m_unlink \<equiv> (236, C_uint)"
abbreviation m_do_disk_util :: member where "m_do_disk_util \<equiv> (240, C_uint)"
abbreviation m_override_sync :: member where "m_override_sync \<equiv> (244, C_uint)"
abbreviation m_rand_repeatable :: member where "m_rand_repeatable \<equiv> (248, C_uint)"
abbreviation m_write_lat_log :: member where "m_write_lat_log \<equiv> (252, C_uint)"
abbreviation m_write_bw_log :: member where "m_write_bw_log \<equiv> (256, C_uint)"
abbreviation m_norandommap :: member where "m_norandommap \<equiv> (260, C_uint)"
abbreviation m_bs_unaligned :: member where "m_bs_unaligned \<equiv> (264, C_uint)"
abbreviation m_bs_0 :: member where "m_bs_0 \<equiv> (268, C_uint)"
abbreviation m_bs_1 :: member where "m_bs_1 \<equiv> (272, C_uint)"
abbreviation m_min_bs_0 :: member where "m_min_bs_0 \<equiv> (276, C_uint)"
abbreviation m_min_bs_1 :: member where "m_min_bs_1 \<equiv> (280, C_uint)"
abbreviation m_max_bs_0 :: member where "m_max_bs_0 \<equiv> (284, C_uint)"
abbreviation m_max_bs_1 :: member where "m_max_bs_1 \<equiv> (288, C_uint)"
abbreviation m_hugepage_size :: member where "m_hugepage_size \<equiv> (292, C_uint)"
abbreviation m_rw_min_bs :: member where "m_rw_min_bs \<equiv> (296, C_uint)"
abbreviation m_thinktime :: member where "m_thinktime \<equiv> (300, C_uint)"
abbreviation m_fsync_blocks :: member where "m_fsync_blocks \<equiv> (304, C_uint)"
abbreviation m_start_delay :: member where "m_start_delay \<equiv> (308, C_uint)"
abbreviation m_timeout :: member where "m_timeout \<equiv> (312, C_ulong)"
abbreviation m_overwrite :: member where "m_overwrite \<equiv> (320, C_uint)"
abbreviation m_bw_avg_time :: member where "m_bw_avg_time \<equiv> (324, C_uint)"
abbreviation m_loops :: member where "m_loops \<equiv> (328, C_uint)"
abbreviation m_zone_size :: member where "m_zone_size \<equiv> (336, C_ullong)"
abbreviation m_zone_skip :: member where "m_zone_skip \<equiv> (344, C_ullong)"
abbreviation m_mem_type :: member where "m_mem_type \<equiv> (352, C_enum)"
abbreviation m_mmapfile :: member where "m_mmapfile \<equiv> (360, C_string)"
abbreviation m_mmapfd :: member where "m_mmapfd \<equiv> (368, C_int)"
abbreviation m_stonewall :: member where "m_stonewall \<equiv> (372, C_uint)"
abbreviation m_numjobs :: member where "m_numjobs \<equiv> (376, C_uint)"
abbreviation m_iodepth :: member where "m_iodepth \<equiv> (380, C_uint)"
abbreviation m_cpumask :: member where "m_cpumask \<equiv> (384, C_other 128 8)"
abbreviation m_iolog :: member where "m_iolog \<equiv> (512, C_uint)"
abbreviation m_read_iolog :: member where "m_read_iolog \<equiv> (516, C_uint)"
abbreviation m_rwmixcycle :: member where "m_rwmixcycle \<equiv> (520, C_uint)"
abbreviation m_rwmixread :: member where "m_rwmixread \<equiv> (524, C_uint)"
abbreviation m_rwmixwrite :: member where "m_rwmixwrite \<equiv> (528, C_uint)"
abbreviation m_nice :: member where "m_nice \<equiv> (532, C_uint)"
abbreviation m_read_iolog_file :: member where "m_read_iolog_file \<equiv> (536, C_string)"
abbreviation m_write_iolog_file :: member where "m_write_iolog_file \<equiv> (544, C_string)"
abbreviation m_iolog_buf :: member where "m_iolog_buf \<equiv> (552, C_pointer)"
abbreviation m_iolog_f :: member where "m_iolog_f \<equiv> (560, C_pointer)"
abbreviation m_sysfs_root :: member where "m_sysfs_root \<equiv> (568, C_string)"
abbreviation m_ioscheduler :: member where "m_ioscheduler \<equiv> (576, C_string)"
abbreviation m_bsrange_state :: member where "m_bsrange_state \<equiv> (584, C_random)"
abbreviation m_verify_state :: member where "m_verify_state \<equiv> (608, C_random)"
abbreviation m_shm_id :: member where "m_shm_id \<equiv> (632, C_int)"
abbreviation m_io_ops :: member where "m_io_ops \<equiv> (640, C_pointer)"
abbreviation m_cur_depth :: member where "m_cur_depth \<equiv> (648, C_uint)"
abbreviation m_io_u_freelist :: member where "m_io_u_freelist \<equiv> (656, C_list_head)"
abbreviation m_io_u_busylist :: member where "m_io_u_busylist \<equiv> (672, C_list_head)"
abbreviation m_rate :: member where "m_rate \<equiv> (688, C_uint)"
abbreviation m_ratemin :: member where "m_ratemin \<equiv> (692, C_uint)"
abbreviation m_ratecycle :: member where "m_ratecycle \<equiv> (696, C_uint)"
abbreviation m_rate_usec_cycle :: member where "m_rate_usec_cycle \<equiv> (704, C_ulong)"
abbreviation m_rate_pending_usleep :: member where "m_rate_pending_usleep \<equiv> (712, C_long)"
abbreviation m_rate_bytes :: member where "m_rate_bytes \<equiv> (720, C_ulong)"
abbreviation m_lastrate :: member where "m_lastrate \<equiv> (728, C_timeval)"
abbreviation m_runtime_0 :: member where "m_runtime_0 \<equiv> (744, C_ulong)"
abbreviation m_runtime_1 :: member where "m_runtime_1 \<equiv> (752, C_ulong)"
abbreviation m_io_size :: member where "m_io_size \<equiv> (760, C_ullong)"
abbreviation m_total_file_size :: member where "m_total_file_size \<equiv> (768, C_ullong)"
abbreviation m_start_offset :: member where "m_start_offset \<equiv> (776, C_ullong)"
abbreviation m_total_io_size :: member where "m_total_io_size \<equiv> (784, C_ullong)"
abbreviation m_io_blocks_0 :: member where "m_io_blocks_0 \<equiv> (792, C_ullong)"
abbreviation m_io_blocks_1 :: member where "m_io_blocks_1 \<equiv> (800, C_ullong)"
abbreviation m_io_bytes_0 :: member where "m_io_bytes_0 \<equiv> (808, C_ullong)"
abbreviation m_io_bytes_1 :: member where "m_io_bytes_1 \<equiv> (816, C_ullong)"
abbreviation m_zone_bytes :: member where "m_zone_bytes \<equiv> (824, C_ullong)"
abbreviation m_this_io_bytes_0 :: member where "m_this_io_bytes_0 \<equiv> (832, C_ullong)"
abbreviation m_this_io_bytes_1 :: member where "m_this_io_bytes_1 \<equiv> (840, C_ullong)"
abbreviation m_mutex :: member where "m_mutex \<equiv> (848, C_int)"
abbreviation m_random_state :: member where "m_random_state \<equiv> (856, C_random)"
abbreviation m_cpuload :: member where "m_cpuload \<equiv> (880, C_uint)"
abbreviation m_cpucycle :: member where "m_cpucycle \<equiv> (884, C_uint)"
abbreviation m_clat_stat_0 :: member where "m_clat_stat_0 \<equiv> (888, C_io_stat)"
abbreviation m_clat_stat_1 :: member where "m_clat_stat_1 \<equiv> (928, C_io_stat)"
abbreviation m_slat_stat_0 :: member where "m_slat_stat_0 \<equiv> (968, C_io_stat)"
abbreviation m_slat_stat_1 :: member where "m_slat_stat_1 \<equiv> (1008, C_io_stat)"
abbreviation m_bw_stat_0 :: member where "m_bw_stat_0 \<equiv> (1048, C_io_stat)"
abbreviation m_bw_stat_1 :: member where "m_bw_stat_1 \<equiv> (1088, C_io_stat)"
abbreviation m_stat_io_bytes_0 :: member where "m_stat_io_bytes_0 \<equiv> (1128, C_ullong)"
abbreviation m_stat_io_bytes_1 :: member where "m_stat_io_bytes_1 \<equiv> (1136, C_ullong)"
abbreviation m_stat_sample_time_0 :: member where "m_stat_sample_time_0 \<equiv> (1144, C_timeval)"
abbreviation m_stat_sample_time_1 :: member where "m_stat_sample_time_1 \<equiv> (1160, C_timeval)"
abbreviation m_slat_log :: member where "m_slat_log \<equiv> (1176, C_pointer)"
abbreviation m_clat_log :: member where "m_clat_log \<equiv> (1184, C_pointer)"
abbreviation m_bw_log :: member where "m_bw_log \<equiv> (1192, C_pointer)"
abbreviation m_start :: member where "m_start \<equiv> (1200, C_timeval)"
abbreviation m_epoch :: member where "m_epoch \<equiv> (1216, C_timeval)"
abbreviation m_end_time :: member where "m_end_time \<equiv> (1232, C_timeval)"
abbreviation m_ru_start :: member where "m_ru_start \<equiv> (1248, C_other 144 8)"
abbreviation m_ru_end :: member where "m_ru_end \<equiv> (1392, C_other 144 8)"
abbreviation m_usr_time :: member where "m_usr_time \<equiv> (1536, C_ulong)"
abbreviation m_sys_time :: member where "m_sys_time \<equiv> (1544, C_ulong)"
abbreviation m_ctx :: member where "m_ctx \<equiv> (1552, C_ulong)"
abbreviation m_rwmix_state :: member where "m_rwmix_state \<equiv> (1560, C_random)"
abbreviation m_rwmix_switch :: member where "m_rwmix_switch \<equiv> (1584, C_timeval)"
abbreviation m_rwmix_ddir :: member where "m_rwmix_ddir \<equiv> (1600, C_enum)"
abbreviation m_exec_prerun :: member where "m_exec_prerun \<equiv> (1608, C_string)"
abbreviation m_exec_postrun :: member where "m_exec_postrun \<equiv> (1616, C_string)"
abbreviation m_io_hist_list :: member where "m_io_hist_list \<equiv> (1624, C_list_head)"
abbreviation m_io_log_list :: member where "m_io_log_list \<equiv> (1640, C_list_head)"

definition thread_data_members :: "member list" where
  "thread_data_members =
    [m_name, m_directory, m_filename, m_verror, m_thread, m_thread_number, m_groupid, m_filetype, m_files,
     m_nr_files, m_nr_uniq_files, m_next_file, m_error, m_pid, m_orig_buffer, m_orig_buffer_size, m_terminate,
     m_runstate, m_ddir, m_iomix, m_ioprio, m_last_was_sync, m_sequential, m_odirect, m_invalidate_cache,
     m_create_serialize, m_create_fsync, m_end_fsync, m_sync_io, m_verify, m_use_thread, m_unlink,
     m_do_disk_util, m_override_sync, m_rand_repeatable, m_write_lat_log, m_write_bw_log, m_norandommap,
     m_bs_unaligned, m_bs_0, m_bs_1, m_min_bs_0, m_min_bs_1, m_max_bs_0, m_max_bs_1, m_hugepage_size,
     m_rw_min_bs, m_thinktime, m_fsync_blocks, m_start_delay, m_timeout, m_overwrite, m_bw_avg_time, m_loops,
     m_zone_size, m_zone_skip, m_mem_type, m_mmapfile, m_mmapfd, m_stonewall, m_numjobs, m_iodepth, m_cpumask,
     m_iolog, m_read_iolog, m_rwmixcycle, m_rwmixread, m_rwmixwrite, m_nice, m_read_iolog_file,
     m_write_iolog_file, m_iolog_buf, m_iolog_f, m_sysfs_root, m_ioscheduler, m_bsrange_state, m_verify_state,
     m_shm_id, m_io_ops, m_cur_depth, m_io_u_freelist, m_io_u_busylist, m_rate, m_ratemin, m_ratecycle,
     m_rate_usec_cycle, m_rate_pending_usleep, m_rate_bytes, m_lastrate, m_runtime_0, m_runtime_1, m_io_size,
     m_total_file_size, m_start_offset, m_total_io_size, m_io_blocks_0, m_io_blocks_1, m_io_bytes_0,
     m_io_bytes_1, m_zone_bytes, m_this_io_bytes_0, m_this_io_bytes_1, m_mutex, m_random_state, m_cpuload,
     m_cpucycle, m_clat_stat_0, m_clat_stat_1, m_slat_stat_0, m_slat_stat_1, m_bw_stat_0, m_bw_stat_1,
     m_stat_io_bytes_0, m_stat_io_bytes_1, m_stat_sample_time_0, m_stat_sample_time_1, m_slat_log, m_clat_log,
     m_bw_log, m_start, m_epoch, m_end_time, m_ru_start, m_ru_end, m_usr_time, m_sys_time, m_ctx, m_rwmix_state,
     m_rwmix_switch, m_rwmix_ddir, m_exec_prerun, m_exec_postrun, m_io_hist_list, m_io_log_list]"

text \<open>The offsets above are those of the structure.\<close>

lemma thread_data_layout: "layout_ok 0 thread_data_members"
  by (simp add: thread_data_members_def align_up_def)

text \<open>\<^verbatim>\<open>td_var_offset\<close>, an \<^verbatim>\<open>unsigned int\<close> in the table of options.\<close>

definition td_var_offset :: "member \<Rightarrow> u32" where
  "td_var_offset f = of_nat (fst f)"

definition get_u32 :: "member \<Rightarrow> (nat \<Rightarrow> u8) \<Rightarrow> u32" where
  "get_u32 f m = of_nat (load_le 4 (fst f) m)"

definition set_u32 :: "member \<Rightarrow> u32 \<Rightarrow> (nat \<Rightarrow> u8) \<Rightarrow> nat \<Rightarrow> u8" where
  "set_u32 f v m = store_le 4 (fst f) (unat v) m"

definition get_u64 :: "member \<Rightarrow> (nat \<Rightarrow> u8) \<Rightarrow> u64" where
  "get_u64 f m = of_nat (load_le 8 (fst f) m)"

definition set_u64 :: "member \<Rightarrow> u64 \<Rightarrow> (nat \<Rightarrow> u8) \<Rightarrow> nat \<Rightarrow> u8" where
  "set_u64 f v m = store_le 8 (fst f) (unat v) m"

section \<open>Members do not overlap\<close>

lemma align_up_ge: "0 < a \<Longrightarrow> n \<le> align_up n a"
proof -
  assume a: "0 < a"
  have "n + a - 1 < ((n + a - 1) div a + 1) * a" using a by (simp add: dividend_less_div_times)
  then show ?thesis using a by (simp add: align_up_def)
qed

lemma layout_ok_ge:
  "list_all (\<lambda>f. 0 < ctype_align (snd f)) ms \<Longrightarrow> layout_ok n ms \<Longrightarrow> f \<in> set ms \<Longrightarrow> n \<le> fst f"
proof (induction n ms rule: layout_ok.induct)
  case (2 n off t ms)
  have "n \<le> align_up n (ctype_align t)" using 2(2) by (intro align_up_ge) simp
  with 2 show ?case by fastforce
qed simp

lemma layout_ok_disjoint:
  assumes "list_all (\<lambda>f. 0 < ctype_align (snd f)) ms" "layout_ok n ms" "f \<in> set ms" "g \<in> set ms" "f \<noteq> g"
  shows "fst f + ctype_size (snd f) \<le> fst g \<or> fst g + ctype_size (snd g) \<le> fst f"
  using assms
proof (induction n ms rule: layout_ok.induct)
  case (2 n off t ms)
  have "list_all (\<lambda>f. 0 < ctype_align (snd f)) ms" "layout_ok (off + ctype_size t) ms" using 2(2,3) by auto
  note above = layout_ok_ge [OF this]
  show ?case using 2 above [of f] above [of g] by auto
qed simp

lemma members_aligned: "list_all (\<lambda>f. 0 < ctype_align (snd f)) thread_data_members"
  by (simp add: thread_data_members_def)

lemma members_apart:
  "f \<in> set thread_data_members \<Longrightarrow> g \<in> set thread_data_members \<Longrightarrow> f \<noteq> g \<Longrightarrow>
     fst f + ctype_size (snd f) \<le> fst g \<or> fst g + ctype_size (snd g) \<le> fst f"
  by (rule layout_ok_disjoint [OF members_aligned thread_data_layout])

section \<open>Reading what was written\<close>

lemma unat_mod_256_4: "unat (v :: u32) mod 256 ^ 4 = unat v"
  using unat_less_u32 [of v] by simp

lemma unat_mod_256_8: "unat (v :: u64) mod 256 ^ 8 = unat v"
  using unat_less_u64 [of v] by simp

lemma of_nat_unat_word: "of_nat (unat v) = v" for v :: "'a::len word"
  by simp

lemma get_set_same [simp]:
  "get_u32 f (set_u32 f v m) = v" "get_u64 f (set_u64 f w m) = w"
  by (simp_all only: get_u32_def set_u32_def get_u64_def set_u64_def load_store_same
      unat_mod_256_4 unat_mod_256_8 of_nat_unat_word)

lemma get_set_u32_other [simp]:
  "fst f + 4 \<le> fst g \<or> fst g + 4 \<le> fst f \<Longrightarrow> get_u32 f (set_u32 g v m) = get_u32 f m"
  "fst f + 8 \<le> fst g \<or> fst g + 4 \<le> fst f \<Longrightarrow> get_u64 f (set_u32 g v m) = get_u64 f m"
  by (auto simp: get_u32_def get_u64_def set_u32_def load_store_other)

lemma get_set_u64_other [simp]:
  "fst f + 4 \<le> fst g \<or> fst g + 8 \<le> fst f \<Longrightarrow> get_u32 f (set_u64 g v m) = get_u32 f m"
  "fst f + 8 \<le> fst g \<or> fst g + 8 \<le> fst f \<Longrightarrow> get_u64 f (set_u64 g v m) = get_u64 f m"
  by (auto simp: get_u32_def get_u64_def set_u64_def load_store_other)


end
