(* ===== verification/FioEngine.thy ===== *)
theory FioEngine
  imports FioLayout
begin

text \<open>
  The registry of I/O engines (\<^verbatim>\<open>ioengines.c\<close>): which engines are registered, how a job's engine is found by its
  name, by an alias or in a shared object, and that each load hands out a copy of its own, which the job owns until it
  closes it.  The copies are the entries of \<open>js_ops\<close>; a \<^verbatim>\<open>struct ioengine_ops *\<close> is the number of its copy, 0 the
  null pointer.  Of the functions of an engine only the presence of each is modelled here.  The dynamic linker is an
  argument; the text that \<^verbatim>\<open>td_vmsg\<close> writes to \<^verbatim>\<open>td->verror\<close> is not modelled.
\<close>

section \<open>Engines\<close>

record ioengine_ops =
  ops_name :: string          \<comment> \<open>at most 15 characters\<close>
  ops_version :: int
  ops_flags :: u32
  ops_event :: bool
  ops_getevents :: bool
  ops_queue :: bool
  ops_dlhandle :: bool

abbreviation (input) FIO_SYNCIO :: u32 where "FIO_SYNCIO \<equiv> 1"
abbreviation (input) FIO_CPUIO :: u32 where "FIO_CPUIO \<equiv> 2"
abbreviation (input) FIO_MMAPIO :: u32 where "FIO_MMAPIO \<equiv> 4"
abbreviation (input) FIO_RAWIO :: u32 where "FIO_RAWIO \<equiv> 8"
abbreviation (input) FIO_IOOPS_VERSION :: int where "FIO_IOOPS_VERSION \<equiv> 3"

text \<open>A job under construction: its bytes and the strings of the parser, and the copies of the engines.\<close>

record job_state = opt_mem +
  js_ops :: "ioengine_ops option list"

text \<open>\<open>engine_list\<close> and what \<^verbatim>\<open>dlopen\<close> and \<^verbatim>\<open>dlsym\<close> give for a path.\<close>

record engine_env =
  engine_list :: "ioengine_ops list"
  dl_engine :: "string \<Rightarrow> ioengine_ops option"

definition check_engine_ops :: "ioengine_ops \<Rightarrow> int" where
  "check_engine_ops ops =
     (if ops_version ops \<noteq> FIO_IOOPS_VERSION then 1
      else if ops_flags ops AND FIO_CPUIO \<noteq> 0 then 0
      else if \<not> ops_event ops then 1
      else if \<not> ops_getevents ops then 1
      else if \<not> ops_queue ops then 1
      else 0)"

definition register_ioengine :: "ioengine_ops \<Rightarrow> ioengine_ops list \<Rightarrow> int \<times> ioengine_ops list" where
  "register_ioengine ops engines =
     (if check_engine_ops ops \<noteq> 0 then (1, engines) else (0, engines @ [ops]))"

definition unregister_ioengine :: "ioengine_ops \<Rightarrow> ioengine_ops list \<Rightarrow> ioengine_ops list" where
  "unregister_ioengine ops engines = remove1 ops engines"

section \<open>Loading\<close>

text \<open>\<^verbatim>\<open>strncmp(s, p, strlen(p)) == 0\<close>.\<close>

definition starts_with :: "string \<Rightarrow> string \<Rightarrow> bool" where
  "starts_with p s = (take (length p) s = p)"

definition aio_alias :: "string \<Rightarrow> bool" where
  "aio_alias engine = (starts_with ''linuxaio'' engine \<or> starts_with ''aio'' engine)"

text \<open>The copy in \<^verbatim>\<open>char engine[16]\<close> has no end behind 15 characters; a comparison that gets there reads what is not set.\<close>

fun find_engine :: "string \<Rightarrow> bool \<Rightarrow> ioengine_ops list \<Rightarrow> job_fault + ioengine_ops option" where
  "find_engine engine open_end [] = Inr None"
| "find_engine engine open_end (ops # engines) =
     (if ops_name ops = engine then (if open_end then Inl Unterminated else Inr (Some ops))
      else find_engine engine open_end engines)"

definition find_ioengine :: "ioengine_ops list \<Rightarrow> string \<Rightarrow> job_fault + ioengine_ops option" where
  "find_ioengine engines name =
     (let engine = take 15 name
      in if aio_alias engine then find_engine ''libaio'' False engines
         else find_engine engine (15 \<le> length name) engines)"

text \<open>The engine and the number to store in \<^verbatim>\<open>td->error\<close>.\<close>

definition dlopen_ioengine :: "engine_env \<Rightarrow> string \<Rightarrow> 'a job_state_scheme \<Rightarrow> ioengine_ops option \<times> 'a job_state_scheme" where
  "dlopen_ioengine env engine_lib s =
     (case dl_engine env engine_lib of
        None \<Rightarrow> (None, s\<lparr>om_data := set_u32 m_error (-1) (om_data s)\<rparr>)
      | Some ops \<Rightarrow> (Some (ops\<lparr>ops_dlhandle := True\<rparr>), s))"

definition load_ioengine :: "engine_env \<Rightarrow> string \<Rightarrow> 'a job_state_scheme \<Rightarrow> job_fault + u64 \<times> 'a job_state_scheme" where
  "load_ioengine env name s =
     (let engine = take 15 name;
          engine = (if aio_alias engine then ''libaio'' else engine)
      in sbind (find_ioengine (engine_list env) engine) (\<lambda>found.
           let (ops, s) = (case found of Some ops \<Rightarrow> (Some ops, s) | None \<Rightarrow> dlopen_ioengine env name s)
           in case ops of
                None \<Rightarrow> Inr (0, s)
              | Some ops \<Rightarrow>
                  if check_engine_ops ops \<noteq> 0 then Inr (0, s)
                  else Inr (of_nat (length (js_ops s) + 1), s\<lparr>js_ops := js_ops s @ [Some ops]\<rparr>)))"

text \<open>The engine behind \<^verbatim>\<open>td->io_ops\<close>.\<close>

definition job_ops :: "'a job_state_scheme \<Rightarrow> job_fault + ioengine_ops" where
  "job_ops s =
     (let p = unat (get_u64 m_io_ops (om_data s))
      in if p = 0 then Inl NullDereference
         else if p \<le> length (js_ops s) then (case js_ops s ! (p - 1) of Some ops \<Rightarrow> Inr ops | None \<Rightarrow> Inl BadFree)
         else Inl OutOfRange)"

text \<open>\<open>cleanup\<close> is the engine's own function.\<close>

definition close_ioengine :: "('a job_state_scheme \<Rightarrow> 'a job_state_scheme) \<Rightarrow> 'a job_state_scheme \<Rightarrow> job_fault + 'a job_state_scheme" where
  "close_ioengine cleanup s =
     sbind (job_ops s) (\<lambda>_.
       let s = cleanup s
       in sbind (job_ops s) (\<lambda>_.
            let p = unat (get_u64 m_io_ops (om_data s))
            in Inr (s\<lparr>js_ops := (js_ops s)[p - 1 := None], om_data := set_u64 m_io_ops 0 (om_data s)\<rparr>)))"

end
