(* ===== verification/FioOptions.thy ===== *)
theory FioOptions
  imports FioEngine FioStat
begin

text \<open>
  The options of a fio job (\<^verbatim>\<open>init.c\<close>): the handlers, the table with the member each option stores to, and what the
  table says about the types of the members.  The build is the one for Linux (\<^verbatim>\<open>os-linux.h\<close>).  The state is the job
  being filled (its bytes) with the globals that the handlers and the set-up of jobs change.
\<close>

section \<open>State\<close>

record job_file =
  jf_name :: string
  jf_size :: u64
  jf_offset :: u64

text \<open>The thread area has a slot for each possible job; its length is \<^verbatim>\<open>max_jobs\<close>.\<close>

record init_state = job_state +
  st_threads :: "(nat \<Rightarrow> u8) list"
  st_def_thread :: "nat \<Rightarrow> u8"
  st_thread_number :: int
  st_groupid :: int
  st_files :: "job_file list list"      \<comment> \<open>the arrays of files, \<^verbatim>\<open>td->files\<close> is the number of one\<close>
  st_logs :: "io_log list"              \<comment> \<open>the logs of \<^verbatim>\<open>setup_log\<close>\<close>
  st_mlock_size :: u64
  st_exitall :: bool                    \<comment> \<open>\<^verbatim>\<open>exitall_on_terminate\<close>\<close>
  st_terse_output :: bool
  st_def_timeout :: u32
  st_write_lat_log :: u32
  st_write_bw_log :: u32

definition data_u32 :: "member \<Rightarrow> u32 \<Rightarrow> 'a opt_mem_scheme \<Rightarrow> 'a opt_mem_scheme" where
  "data_u32 f v s = s\<lparr>om_data := set_u32 f v (om_data s)\<rparr>"

definition data_u64 :: "member \<Rightarrow> u64 \<Rightarrow> 'a opt_mem_scheme \<Rightarrow> 'a opt_mem_scheme" where
  "data_u64 f v s = s\<lparr>om_data := set_u64 f v (om_data s)\<rparr>"

section \<open>Handlers\<close>

abbreviation (input) MEM_MALLOC :: u32 where "MEM_MALLOC \<equiv> 0"
abbreviation (input) MEM_SHM :: u32 where "MEM_SHM \<equiv> 1"
abbreviation (input) MEM_SHMHUGE :: u32 where "MEM_SHMHUGE \<equiv> 2"
abbreviation (input) MEM_MMAP :: u32 where "MEM_MMAP \<equiv> 3"
abbreviation (input) MEM_MMAPHUGE :: u32 where "MEM_MMAPHUGE \<equiv> 4"

abbreviation (input) VERIFY_NONE :: u32 where "VERIFY_NONE \<equiv> 0"
abbreviation (input) VERIFY_MD5 :: u32 where "VERIFY_MD5 \<equiv> 1"
abbreviation (input) VERIFY_CRC32 :: u32 where "VERIFY_CRC32 \<equiv> 2"

text \<open>\<^verbatim>\<open>DDIR_READ\<close> is 0, \<^verbatim>\<open>DDIR_WRITE\<close> is 1.\<close>

definition set_ddir :: "u32 \<Rightarrow> u32 \<Rightarrow> 'a opt_mem_scheme \<Rightarrow> 'a opt_mem_scheme" where
  "set_ddir d seq s = data_u32 m_sequential seq (data_u32 m_ddir d s)"

definition set_ddir_mix :: "u32 \<Rightarrow> 'a opt_mem_scheme \<Rightarrow> 'a opt_mem_scheme" where
  "set_ddir_mix seq s = data_u32 m_sequential seq (data_u32 m_iomix 1 (data_u32 m_ddir 0 s))"

definition str_rw_cb :: "string \<Rightarrow> 'a opt_mem_scheme \<Rightarrow> job_fault + int \<times> 'a opt_mem_scheme" where
  "str_rw_cb mem s =
     (if starts_with ''read'' mem \<or> starts_with ''0'' mem then Inr (0, set_ddir 0 1 s)
      else if starts_with ''randread'' mem then Inr (0, set_ddir 0 0 s)
      else if starts_with ''write'' mem \<or> starts_with ''1'' mem then Inr (0, set_ddir 1 1 s)
      else if starts_with ''randwrite'' mem then Inr (0, set_ddir 1 0 s)
      else if starts_with ''rw'' mem then Inr (0, set_ddir_mix 1 s)
      else if starts_with ''randrw'' mem then Inr (0, set_ddir_mix 0 s)
      else Inr (1, s))"

definition str_verify_cb :: "string \<Rightarrow> 'a opt_mem_scheme \<Rightarrow> job_fault + int \<times> 'a opt_mem_scheme" where
  "str_verify_cb mem s =
     (if starts_with ''0'' mem then Inr (0, data_u32 m_verify VERIFY_NONE s)
      else if starts_with ''md5'' mem \<or> starts_with ''1'' mem then Inr (0, data_u32 m_verify VERIFY_MD5 s)
      else if starts_with ''crc32'' mem then Inr (0, data_u32 m_verify VERIFY_CRC32 s)
      else Inr (1, s))"

text \<open>The text is stripped in the caller's array, which is not read again behind this place except for the same
  blanks.  The loop of \<^verbatim>\<open>strip_blank_end\<close> stops at the colon at the latest.\<close>

definition get_mmap_file :: "string \<Rightarrow> 'a opt_mem_scheme \<Rightarrow> job_fault + u64 \<times> 'a opt_mem_scheme" where
  "get_mmap_file str s =
     (case after_char CHR '':'' str of
        None \<Rightarrow> Inr (0, s)
      | Some p \<Rightarrow>
          let p = strip_blank_front p
          in case strip_blank_end (takeWhile (\<lambda>c. c \<noteq> CHR '':'') str @ '':'') p of
               None \<Rightarrow> Inl OutOfRange
             | Some p \<Rightarrow> Inr (strdup p s))"

definition str_mem_cb :: "string \<Rightarrow> 'a opt_mem_scheme \<Rightarrow> job_fault + int \<times> 'a opt_mem_scheme" where
  "str_mem_cb mem s =
     (if starts_with ''malloc'' mem then Inr (0, data_u32 m_mem_type MEM_MALLOC s)
      else if starts_with ''mmaphuge'' mem then
        sbind (get_mmap_file mem s) (\<lambda>(file, s).
          let s = data_u64 m_mmapfile file s
          in if file = 0 then Inr (1, s) else Inr (0, data_u32 m_mem_type MEM_MMAPHUGE s))
      else if starts_with ''mmap'' mem then
        sbind (get_mmap_file mem s) (\<lambda>(file, s). Inr (0, data_u32 m_mem_type MEM_MMAP (data_u64 m_mmapfile file s)))
      else if starts_with ''shmhuge'' mem then Inr (0, data_u32 m_mem_type MEM_SHMHUGE s)
      else if starts_with ''shm'' mem then Inr (0, data_u32 m_mem_type MEM_SHM s)
      else Inr (1, s))"

definition str_ioengine_cb :: "engine_env \<Rightarrow> string \<Rightarrow> 'a job_state_scheme \<Rightarrow> job_fault + int \<times> 'a job_state_scheme" where
  "str_ioengine_cb env str s =
     sbind (load_ioengine env str s) (\<lambda>(ops, s).
       let s = data_u64 m_io_ops ops s
       in if ops \<noteq> 0 then Inr (0, s) else Inr (1, s))"

definition str_lockmem_cb :: "u64 \<Rightarrow> 'a init_state_scheme \<Rightarrow> job_fault + int \<times> 'a init_state_scheme" where
  "str_lockmem_cb val s = Inr (0, s\<lparr>st_mlock_size := val\<rparr>)"

definition str_prioclass_cb :: "u32 \<Rightarrow> 'a opt_mem_scheme \<Rightarrow> job_fault + int \<times> 'a opt_mem_scheme" where
  "str_prioclass_cb val s = Inr (0, data_u32 m_ioprio (get_u32 m_ioprio (om_data s) OR push_bit 13 val) s)"

definition str_prio_cb :: "u32 \<Rightarrow> 'a opt_mem_scheme \<Rightarrow> job_fault + int \<times> 'a opt_mem_scheme" where
  "str_prio_cb val s = Inr (0, data_u32 m_ioprio (get_u32 m_ioprio (om_data s) OR val) s)"

definition str_exitall_cb :: "'a init_state_scheme \<Rightarrow> job_fault + int \<times> 'a init_state_scheme" where
  "str_exitall_cb s = Inr (0, s\<lparr>st_exitall := True\<rparr>)"

text \<open>The mask is a parameter that is passed by value: \<^verbatim>\<open>fill_cpu_mask\<close> fills its own copy, bit by bit, and the caller's
  mask stays as it was.\<close>

definition fill_cpu_mask :: "(nat \<Rightarrow> bool) \<Rightarrow> u32 \<Rightarrow> nat \<Rightarrow> bool" where
  "fill_cpu_mask cpumask cpu = (\<lambda>i. i < 32 \<and> bit cpu i)"

definition str_cpumask_cb :: "u32 \<Rightarrow> 'a opt_mem_scheme \<Rightarrow> job_fault + int \<times> 'a opt_mem_scheme" where
  "str_cpumask_cb val s =
     (let local_mask = fill_cpu_mask (\<lambda>i. bit (om_data s (fst m_cpumask + i div 8)) (i mod 8)) val in Inr (0, s))"

section \<open>The table\<close>

definition opt_plain :: "string \<Rightarrow> fio_opt_type \<Rightarrow> member \<Rightarrow> 's fio_option" where
  "opt_plain n t f = \<lparr>opt_name = n, opt_type = t, opt_off1 = td_var_offset f, opt_off2 = 0, opt_off3 = 0, opt_off4 = 0,
     opt_max = 0, opt_cb = None\<rparr>"

definition opt_handler :: "string \<Rightarrow> fio_opt_type \<Rightarrow> 's opt_cb \<Rightarrow> 's fio_option" where
  "opt_handler n t fn = \<lparr>opt_name = n, opt_type = t, opt_off1 = 0, opt_off2 = 0, opt_off3 = 0, opt_off4 = 0,
     opt_max = 0, opt_cb = Some fn\<rparr>"

definition options :: "engine_env \<Rightarrow> 'a init_state_scheme fio_option list" where
  "options env =
    [opt_plain ''name'' FIO_OPT_STR_STORE m_name,
     opt_plain ''directory'' FIO_OPT_STR_STORE m_directory,
     opt_plain ''filename'' FIO_OPT_STR_STORE m_filename,
     opt_handler ''rw'' FIO_OPT_STR (Cb_str str_rw_cb),
     opt_handler ''ioengine'' FIO_OPT_STR (Cb_str (str_ioengine_cb env)),
     opt_handler ''mem'' FIO_OPT_STR (Cb_str str_mem_cb),
     opt_handler ''verify'' FIO_OPT_STR (Cb_str str_verify_cb),
     opt_plain ''write_iolog'' FIO_OPT_STR_STORE m_write_iolog_file,
     opt_plain ''read_iolog'' FIO_OPT_STR_STORE m_read_iolog_file,
     opt_plain ''exec_prerun'' FIO_OPT_STR_STORE m_exec_prerun,
     opt_plain ''exec_postrun'' FIO_OPT_STR_STORE m_exec_postrun,
     opt_plain ''ioscheduler'' FIO_OPT_STR_STORE m_ioscheduler,
     opt_plain ''size'' FIO_OPT_STR_VAL m_total_file_size,
     (opt_plain ''bs'' FIO_OPT_STR_VAL_INT m_bs_0)\<lparr>opt_off2 := td_var_offset m_bs_1\<rparr>,
     opt_plain ''offset'' FIO_OPT_STR_VAL m_start_offset,
     opt_plain ''zonesize'' FIO_OPT_STR_VAL m_zone_size,
     opt_plain ''zoneskip'' FIO_OPT_STR_VAL m_zone_skip,
     opt_handler ''lockmem'' FIO_OPT_STR_VAL (Cb_val str_lockmem_cb),
     (opt_plain ''bsrange'' FIO_OPT_RANGE m_min_bs_0)\<lparr>opt_off2 := td_var_offset m_max_bs_0,
        opt_off3 := td_var_offset m_min_bs_1, opt_off4 := td_var_offset m_max_bs_1\<rparr>,
     opt_plain ''nrfiles'' FIO_OPT_INT m_nr_files,
     opt_plain ''iodepth'' FIO_OPT_INT m_iodepth,
     opt_plain ''fsync'' FIO_OPT_INT m_fsync_blocks,
     opt_plain ''rwmixcycle'' FIO_OPT_INT m_rwmixcycle,
     (opt_plain ''rwmixread'' FIO_OPT_INT m_rwmixread)\<lparr>opt_max := 100\<rparr>,
     (opt_plain ''rwmixwrite'' FIO_OPT_INT m_rwmixwrite)\<lparr>opt_max := 100\<rparr>,
     opt_plain ''nice'' FIO_OPT_INT m_nice,
     opt_handler ''prio'' FIO_OPT_INT (Cb_int str_prio_cb),
     opt_handler ''prioclass'' FIO_OPT_INT (Cb_int str_prioclass_cb),
     opt_plain ''thinktime'' FIO_OPT_INT m_thinktime,
     opt_plain ''rate'' FIO_OPT_INT m_rate,
     opt_plain ''ratemin'' FIO_OPT_INT m_ratemin,
     opt_plain ''ratecycle'' FIO_OPT_INT m_ratecycle,
     opt_plain ''startdelay'' FIO_OPT_INT m_start_delay,
     opt_plain ''timeout'' FIO_OPT_STR_VAL_TIME m_timeout,
     opt_plain ''invalidate'' FIO_OPT_INT m_invalidate_cache,
     opt_plain ''sync'' FIO_OPT_INT m_sync_io,
     opt_plain ''bwavgtime'' FIO_OPT_INT m_bw_avg_time,
     opt_plain ''create_serialize'' FIO_OPT_INT m_create_serialize,
     opt_plain ''create_fsync'' FIO_OPT_INT m_create_fsync,
     opt_plain ''loops'' FIO_OPT_INT m_loops,
     opt_plain ''numjobs'' FIO_OPT_INT m_numjobs,
     opt_plain ''cpuload'' FIO_OPT_INT m_cpuload,
     opt_plain ''cpuchunks'' FIO_OPT_INT m_cpucycle,
     opt_plain ''direct'' FIO_OPT_INT m_odirect,
     opt_plain ''overwrite'' FIO_OPT_INT m_overwrite,
     opt_handler ''cpumask'' FIO_OPT_INT (Cb_int str_cpumask_cb),
     opt_plain ''end_fsync'' FIO_OPT_INT m_end_fsync,
     opt_plain ''unlink'' FIO_OPT_STR_SET m_unlink,
     opt_handler ''exitall'' FIO_OPT_STR_SET (Cb_set str_exitall_cb),
     opt_plain ''stonewall'' FIO_OPT_STR_SET m_stonewall,
     opt_plain ''thread'' FIO_OPT_STR_SET m_thread,
     opt_plain ''write_bw_log'' FIO_OPT_STR_SET m_write_bw_log,
     opt_plain ''write_lat_log'' FIO_OPT_STR_SET m_write_lat_log,
     opt_plain ''norandommap'' FIO_OPT_STR_SET m_norandommap,
     opt_plain ''bs_unaligned'' FIO_OPT_STR_SET m_bs_unaligned,
     opt_plain ''hugepage-size'' FIO_OPT_STR_VAL m_hugepage_size]"

section \<open>The table and the types of the members\<close>

text \<open>The type of a member that an option of a type stores to, and the handler an option of a type calls.\<close>

fun stores_to :: "fio_opt_type \<Rightarrow> ctype \<Rightarrow> bool" where
  "stores_to FIO_OPT_STR t = False"
| "stores_to FIO_OPT_STR_STORE t = (t = C_string)"
| "stores_to FIO_OPT_STR_VAL t = (t = C_ullong \<or> t = C_ulong)"
| "stores_to FIO_OPT_STR_VAL_TIME t = (t = C_ullong \<or> t = C_ulong)"
| "stores_to FIO_OPT_STR_VAL_INT t = (t = C_uint)"
| "stores_to FIO_OPT_RANGE t = (t = C_uint)"
| "stores_to FIO_OPT_INT t = (t = C_uint)"
| "stores_to FIO_OPT_STR_SET t = (t = C_uint)"

fun handler_fits :: "fio_opt_type \<Rightarrow> 's opt_cb \<Rightarrow> bool" where
  "handler_fits t (Cb_str f) = (t = FIO_OPT_STR)"
| "handler_fits t (Cb_val g) = (t = FIO_OPT_STR_VAL \<or> t = FIO_OPT_STR_VAL_INT \<or> t = FIO_OPT_STR_VAL_TIME)"
| "handler_fits t (Cb_int h) = (t = FIO_OPT_INT)"
| "handler_fits t (Cb_set k) = (t = FIO_OPT_STR_SET)"

definition member_at :: "nat \<Rightarrow> ctype option" where
  "member_at off = map_of thread_data_members off"

definition option_typed :: "'s fio_option \<Rightarrow> bool" where
  "option_typed opt =
     (case opt_cb opt of
        Some fn \<Rightarrow> handler_fits (opt_type opt) fn
      | None \<Rightarrow> opt_type opt \<noteq> FIO_OPT_STR \<and>
          list_all (\<lambda>(off, n). case member_at off of Some t \<Rightarrow> stores_to (opt_type opt) t | None \<Rightarrow> False) (option_writes opt))"

lemma layout_ok_distinct:
  "list_all (\<lambda>f. 0 < ctype_align (snd f) \<and> 0 < ctype_size (snd f)) ms \<Longrightarrow> layout_ok n ms \<Longrightarrow> distinct (map fst ms)"
proof (induction n ms rule: layout_ok.induct)
  case (2 n off t ms)
  have a: "list_all (\<lambda>f. 0 < ctype_align (snd f)) ms" using 2(2) by (simp add: list.pred_set)
  have "layout_ok (off + ctype_size t) ms" using 2(3) by auto
  from layout_ok_ge [OF a this] have "off \<notin> fst ` set ms" using 2(2) by fastforce
  with 2 show ?case by auto
qed simp

lemma members_distinct: "distinct (map fst thread_data_members)"
  by (rule layout_ok_distinct [OF _ thread_data_layout]) (simp add: thread_data_members_def)

lemma member_at_member: "f \<in> set thread_data_members \<Longrightarrow> member_at (fst f) = Some (snd f)"
  using members_distinct by (simp add: member_at_def)

lemma member_atD: "member_at off = Some t \<Longrightarrow> (off, t) \<in> set thread_data_members"
  by (simp add: member_at_def map_of_SomeD)

text \<open>The members the table names.\<close>

lemma option_members:
  "{m_name, m_directory, m_filename, m_write_iolog_file, m_read_iolog_file, m_exec_prerun, m_exec_postrun, m_ioscheduler,
    m_total_file_size, m_bs_0, m_bs_1, m_start_offset, m_zone_size, m_zone_skip, m_min_bs_0, m_max_bs_0, m_min_bs_1,
    m_max_bs_1, m_nr_files, m_iodepth, m_fsync_blocks, m_rwmixcycle, m_rwmixread, m_rwmixwrite, m_nice}
   \<subseteq> set thread_data_members"
  "{m_thinktime, m_rate, m_ratemin, m_ratecycle, m_start_delay, m_timeout, m_invalidate_cache, m_sync_io, m_bw_avg_time,
    m_create_serialize, m_create_fsync, m_loops, m_numjobs, m_cpuload, m_cpucycle, m_odirect, m_overwrite, m_end_fsync,
    m_unlink, m_stonewall, m_thread, m_write_bw_log, m_write_lat_log, m_norandommap, m_bs_unaligned, m_hugepage_size}
   \<subseteq> set thread_data_members"
  by (simp_all add: thread_data_members_def)

lemma members_at: "S \<subseteq> set thread_data_members \<Longrightarrow> \<forall>f\<in>S. member_at (fst f) = Some (snd f)"
  using member_at_member by auto

lemmas member_at_options = option_members [THEN members_at, simplified]

lemma unat_td_var_offset: "fst f < 4294967296 \<Longrightarrow> unat (td_var_offset f) = fst f"
  by (simp add: td_var_offset_def unat_of_nat)

lemma td_var_offset_zero: "fst f < 4294967296 \<Longrightarrow> td_var_offset f = 0 \<longleftrightarrow> fst f = 0"
  using unat_td_var_offset [of f] by (metis unat_eq_zero)

lemma option_typed_handler: "option_typed (opt_handler n t fn) = handler_fits t fn"
  by (simp add: option_typed_def opt_handler_def)

lemma option_typed_plain:
  "t \<in> {FIO_OPT_STR_STORE, FIO_OPT_STR_VAL, FIO_OPT_STR_VAL_TIME, FIO_OPT_INT, FIO_OPT_STR_SET} \<Longrightarrow> fst f < 4294967296 \<Longrightarrow>
     option_typed (opt_plain n t f) = (case member_at (fst f) of Some u \<Rightarrow> stores_to t u | None \<Rightarrow> False)"
  by (auto simp: option_typed_def opt_plain_def option_writes_def Let_def unat_td_var_offset split: option.splits)

lemma option_typed_capped: "option_typed (x\<lparr>opt_max := v\<rparr>) = option_typed x"
proof -
  have w: "option_writes (x\<lparr>opt_max := v\<rparr>) = option_writes x"
    by (cases "opt_type x") (simp_all add: option_writes_def Let_def)
  have t: "opt_type (x\<lparr>opt_max := v\<rparr>) = opt_type x" "opt_cb (x\<lparr>opt_max := v\<rparr>) = opt_cb x" by simp_all
  show ?thesis by (simp only: option_typed_def w t)
qed



section \<open>The direction of a job\<close>

text \<open>\<^verbatim>\<open>rw=\<close> never ends a mix of reads and writes: a job that has one, say from the global section, keeps it, whatever
  direction its own \<^verbatim>\<open>rw=\<close> names.\<close>

theorem rw_option_keeps_mix:
  assumes "str_rw_cb mem s = Inr (r, t)" "get_u32 m_iomix (om_data s) \<noteq> 0"
  shows "get_u32 m_iomix (om_data t) \<noteq> 0"
  using assms
  by (auto simp: str_rw_cb_def set_ddir_def set_ddir_mix_def data_u32_def split: if_splits)

theorem rw_option_keeps_mix_witness:
  "get_u32 m_iomix (om_data (set_ddir 0 1 (set_ddir_mix 0 demo_mem))) \<noteq> 0"
  by (rule rw_option_keeps_mix [of "''read''" "set_ddir_mix 0 demo_mem" 0])
     (simp_all add: str_rw_cb_def starts_with_def set_ddir_mix_def data_u32_def)

end
