(* ===== verification/FioInit.thy ===== *)
theory FioInit
  imports FioOptions
begin

text \<open>
  The set-up of fio's jobs (\<^verbatim>\<open>init.c\<close>): the slots of the thread area, the defaults, the options that depend on each other,
  and \<^verbatim>\<open>add_job\<close>, which names and sizes the files of a job, puts it into a group and adds its copies.  A job is worked
  on in its slot; \<open>with_td\<close> loads the bytes of a slot, runs a step on them and stores them back.  What the system answers
  (\<^verbatim>\<open>stat\<close>, the affinity mask) is an argument.  The lines a job prints are not modelled, but the index into the table
  of their words is.
\<close>

section \<open>Slots\<close>

text \<open>A \<^verbatim>\<open>struct thread_data *\<close>: the job of the defaults or a slot of the thread area.\<close>

datatype td_ref = Def_thread | Slot nat

definition td_bytes :: "td_ref \<Rightarrow> init_state \<Rightarrow> nat \<Rightarrow> u8" where
  "td_bytes r s = (case r of Def_thread \<Rightarrow> st_def_thread s | Slot i \<Rightarrow> st_threads s ! i)"

definition put_td :: "td_ref \<Rightarrow> (nat \<Rightarrow> u8) \<Rightarrow> init_state \<Rightarrow> init_state" where
  "put_td r d s =
     (case r of Def_thread \<Rightarrow> s\<lparr>st_def_thread := d\<rparr> | Slot i \<Rightarrow> s\<lparr>st_threads := (st_threads s)[i := d]\<rparr>)"

definition with_td :: "td_ref \<Rightarrow> (init_state \<Rightarrow> job_fault + 'r \<times> init_state) \<Rightarrow> init_state \<Rightarrow> job_fault + 'r \<times> init_state" where
  "with_td r f s = sbind (f (s\<lparr>om_data := td_bytes r s\<rparr>)) (\<lambda>(v, s). Inr (v, put_td r (om_data s) s))"

text \<open>\<^verbatim>\<open>get_new_job\<close>; \<^const>\<open>None\<close> is the null pointer.\<close>

definition get_new_job :: "bool \<Rightarrow> td_ref \<Rightarrow> init_state \<Rightarrow> job_fault + td_ref option \<times> init_state" where
  "get_new_job global parent s =
     (if global then Inr (Some Def_thread, s)
      else if int (length (st_threads s)) \<le> st_thread_number s then Inr (None, s)
      else if st_thread_number s < 0 then Inl OutOfRange
      else
        let i = nat (st_thread_number s); n = st_thread_number s + 1
        in Inr (Some (Slot i),
             (put_td (Slot i) (set_u32 m_thread_number (word_of_int n) (td_bytes parent s)) s)\<lparr>st_thread_number := n\<rparr>))"

text \<open>\<^verbatim>\<open>put_job\<close> clears the slot the job says it has.\<close>

definition put_job :: "td_ref \<Rightarrow> init_state \<Rightarrow> job_fault + init_state" where
  "put_job r s =
     (case r of
        Def_thread \<Rightarrow> Inr s
      | Slot _ \<Rightarrow>
          let i = sint (get_u32 m_thread_number (td_bytes r s)) - 1
          in if 0 \<le> i \<and> i < int (length (st_threads s))
             then Inr ((put_td (Slot (nat i)) (\<lambda>_. 0) s)\<lparr>st_thread_number := st_thread_number s - 1\<rparr>)
             else Inl OutOfRange)"

section \<open>Options that depend on each other\<close>

text \<open>\<^verbatim>\<open>free\<close> of a string; a second time, or of no string, is undefined.\<close>

definition free_string :: "u64 \<Rightarrow> 'a opt_mem_scheme \<Rightarrow> job_fault + 'a opt_mem_scheme" where
  "free_string p s =
     (if p = 0 then Inr s
      else if unat p \<le> length (om_heap s) \<and> om_heap s ! (unat p - 1) \<noteq> None
           then Inr (s\<lparr>om_heap := (om_heap s)[unat p - 1 := None]\<rparr>)
      else Inl BadFree)"

definition string_at :: "u64 \<Rightarrow> 'a opt_mem_scheme \<Rightarrow> job_fault + string" where
  "string_at p s =
     (if p = 0 then Inl NullDereference
      else if unat p \<le> length (om_heap s) then (case om_heap s ! (unat p - 1) of Some str \<Rightarrow> Inr str | None \<Rightarrow> Inl BadFree)
      else Inl OutOfRange)"

abbreviation (input) FIO_TYPE_FILE :: u32 where "FIO_TYPE_FILE \<equiv> 1"
abbreviation (input) FIO_TYPE_BD :: u32 where "FIO_TYPE_BD \<equiv> 2"
abbreviation (input) FIO_TYPE_CHAR :: u32 where "FIO_TYPE_CHAR \<equiv> 3"

text \<open>A member that is still zero gets a value.\<close>

definition default_u32 :: "member \<Rightarrow> member \<Rightarrow> (nat \<Rightarrow> u8) \<Rightarrow> nat \<Rightarrow> u8" where
  "default_u32 f from_f d = (if get_u32 f d = 0 then set_u32 f (get_u32 from_f d) d else d)"

definition fix_mix :: "(nat \<Rightarrow> u8) \<Rightarrow> nat \<Rightarrow> u8" where
  "fix_mix d =
     (if get_u32 m_rwmixread d = 0 \<and> get_u32 m_rwmixwrite d \<noteq> 0
      then set_u32 m_rwmixread (100 - get_u32 m_rwmixwrite d) d else d)"

definition fix_iologs :: "'a opt_mem_scheme \<Rightarrow> job_fault + 'a opt_mem_scheme" where
  "fix_iologs s =
     (let w = get_u64 m_write_iolog_file (om_data s)
      in if w \<noteq> 0 \<and> get_u64 m_read_iolog_file (om_data s) \<noteq> 0
         then sbind (free_string w s) (\<lambda>s. Inr (data_u64 m_write_iolog_file 0 s))
         else Inr s)"

definition fix_depth :: "u32 \<Rightarrow> (nat \<Rightarrow> u8) \<Rightarrow> nat \<Rightarrow> u8" where
  "fix_depth flags d =
     (if flags AND FIO_SYNCIO \<noteq> 0 then set_u32 m_iodepth 1 d
      else default_u32 m_iodepth m_nr_files d)"

definition fix_zone :: "(nat \<Rightarrow> u8) \<Rightarrow> nat \<Rightarrow> u8" where
  "fix_zone d =
     (if get_u64 m_zone_size d \<noteq> 0 \<and> get_u32 m_sequential d = 0 \<and> get_u32 m_nr_files d = 1
      then set_u64 m_zone_size 0 d else d)"

definition job_read :: "(nat \<Rightarrow> u8) \<Rightarrow> bool" where "job_read d = (get_u32 m_ddir d = 0)"
definition job_rw :: "(nat \<Rightarrow> u8) \<Rightarrow> bool" where "job_rw d = (get_u32 m_iomix d \<noteq> 0)"

definition fix_overwrite :: "(nat \<Rightarrow> u8) \<Rightarrow> nat \<Rightarrow> u8" where
  "fix_overwrite d = (if job_read d \<or> job_rw d then set_u32 m_overwrite 1 d else d)"

definition fix_bs :: "(nat \<Rightarrow> u8) \<Rightarrow> nat \<Rightarrow> u8" where
  "fix_bs d =
     (let d = default_u32 m_min_bs_0 m_bs_0 d;
          d = default_u32 m_max_bs_0 m_bs_0 d;
          d = default_u32 m_min_bs_1 m_bs_1 d;
          d = default_u32 m_max_bs_1 m_bs_1 d
      in set_u32 m_rw_min_bs (min (get_u32 m_min_bs_0 d) (get_u32 m_min_bs_1 d)) d)"

definition fix_verify :: "(nat \<Rightarrow> u8) \<Rightarrow> nat \<Rightarrow> u8" where
  "fix_verify d =
     (let d = (if job_read d \<and> \<not> job_rw d then set_u32 m_verify 0 d else d)
      in if get_u32 m_norandommap d \<noteq> 0 \<and> get_u32 m_verify d \<noteq> VERIFY_NONE then set_u32 m_verify VERIFY_NONE d else d)"

definition fix_direct :: "(nat \<Rightarrow> u8) \<Rightarrow> nat \<Rightarrow> u8" where
  "fix_direct d =
     (if get_u32 m_filetype d = FIO_TYPE_CHAR \<and> get_u32 m_odirect d \<noteq> 0 then set_u32 m_odirect 0 d else d)"

definition fixup_options :: "'a job_state_scheme \<Rightarrow> job_fault + 'a job_state_scheme" where
  "fixup_options s =
     sbind (fix_iologs (s\<lparr>om_data := fix_mix (om_data s)\<rparr>)) (\<lambda>s.
     sbind (job_ops s) (\<lambda>ops.
       Inr (s\<lparr>om_data := fix_direct (fix_verify (fix_bs (fix_overwrite (fix_zone
              (fix_depth (ops_flags ops) (om_data s))))))\<rparr>)))"

section \<open>Sizes for the eye\<close>

text \<open>The loop of \<^verbatim>\<open>to_kmg\<close> over the letters of \<^verbatim>\<open>post\<close>; the zero at the end of the table ends the loop, and a zero for the
  letter ends the printed string.\<close>

fun kmg_loop :: "u32 \<Rightarrow> char option list \<Rightarrow> u32 \<times> char option" where
  "kmg_loop val [] = (val, None)"
| "kmg_loop val (p # ps) =
     (if val AND 1023 \<noteq> 0 then (val, p)
      else let val = drop_bit 10 val
           in case ps of [] \<Rightarrow> (val, None) | q # _ \<Rightarrow> if q = None then (val, None) else kmg_loop val ps)"

definition to_kmg :: "u32 \<Rightarrow> string" where
  "to_kmg val =
     (let (v, p) = kmg_loop val [None, Some CHR ''K'', Some CHR ''M'', Some CHR ''G'', Some CHR ''P'', None]
      in dec (unat v) @ (case p of None \<Rightarrow> [] | Some c \<Rightarrow> [c]))"

section \<open>Adding a job\<close>

datatype file_kind = Block_device | Character_device | Other_file

datatype shm_answer = Shm_ok | Shm_einval | Shm_failed

record init_env =
  ie_engines :: engine_env
  ie_stat :: "string \<Rightarrow> file_kind option"       \<comment> \<open>\<^const>\<open>None\<close>: \<^verbatim>\<open>stat\<close> failed\<close>
  ie_affinity :: "(nat \<Rightarrow> u8) option"           \<comment> \<open>the mask of \<^verbatim>\<open>sched_getaffinity\<close>\<close>
  ie_fopen :: "string \<Rightarrow> string option"         \<comment> \<open>the contents of a file that opens\<close>
  ie_create :: "string \<Rightarrow> bool"                 \<comment> \<open>\<^verbatim>\<open>fopen(.., "w+")\<close>\<close>
  ie_shmget :: "nat \<Rightarrow> shm_answer"              \<comment> \<open>by the number of slots asked for\<close>
  ie_shmat :: bool

text \<open>\<^verbatim>\<open>setup_rate\<close> on the members it reads and writes.\<close>

definition rate_of :: "(nat \<Rightarrow> u8) \<Rightarrow> rate_state" where
  "rate_of d = \<lparr>clock_gettime_works = True, clock_reads = 0, nanosleeps = [], usec_sleeps = [],
     rate = get_u32 m_rate d, ratemin = get_u32 m_ratemin d, ratecycle = get_u32 m_ratecycle d,
     rate_usec_cycle = get_u64 m_rate_usec_cycle d, rate_pending_usleep = get_u64 m_rate_pending_usleep d,
     min_bs = [get_u32 m_min_bs_0 d, get_u32 m_min_bs_1 d]\<rparr>"

definition job_setup_rate :: "'a opt_mem_scheme \<Rightarrow> job_fault + int \<times> 'a opt_mem_scheme" where
  "job_setup_rate s =
     (case setup_rate (rate_of (om_data s)) of
        None \<Rightarrow> Inl DivideByZero
      | Some (r, td) \<Rightarrow> Inr (r, data_u64 m_rate_pending_usleep (rate_pending_usleep td)
                                  (data_u64 m_rate_usec_cycle (rate_usec_cycle td) s)))"

definition job_setup_log :: "member \<Rightarrow> init_state \<Rightarrow> init_state" where
  "job_setup_log f s = data_u64 f (of_nat (length (st_logs s) + 1)) (s\<lparr>st_logs := st_logs s @ [setup_log]\<rparr>)"

text \<open>The names of the files: \<^verbatim>\<open>len\<close> stays 0, so the name overwrites the directory in \<^verbatim>\<open>tmp\<close>, which has \<^verbatim>\<open>PATH_MAX\<close>
  bytes.\<close>

definition print_tmp :: "string \<Rightarrow> job_fault + string" where
  "print_tmp str = (if length str < 4096 then Inr str else Inl OutOfRange)"

fun map_fault :: "('a \<Rightarrow> 'e + 'b) \<Rightarrow> 'a list \<Rightarrow> 'e + 'b list" where
  "map_fault f [] = Inr []"
| "map_fault f (x # xs) = sbind (f x) (\<lambda>y. sbind (map_fault f xs) (\<lambda>ys. Inr (y # ys)))"

definition dec_int :: "int \<Rightarrow> string" where
  "dec_int i = (if i < 0 then CHR ''-'' # dec (nat (- i)) else dec (nat i))"

definition file_names :: "string \<Rightarrow> init_state \<Rightarrow> job_fault + string list" where
  "file_names jobname s =
     (let d = om_data s; indices = [0..<nat (sint (get_u32 m_nr_files d))]
      in sbind (if get_u64 m_directory d = 0 then Inr ()
                else sbind (string_at (get_u64 m_directory d) s) (\<lambda>dir.
                  if dir = [] then Inr () else sbind (print_tmp (dir @ ''/'')) (\<lambda>_. Inr ()))) (\<lambda>_.
         map_fault (\<lambda>i.
           if get_u64 m_filename d \<noteq> 0 then sbind (string_at (get_u64 m_filename d) s) print_tmp
           else print_tmp (jobname @ ''.'' @ dec_int (sint (get_u32 m_thread_number d)) @ ''.'' @ dec i)) indices))"

definition job_filetype :: "init_env \<Rightarrow> string \<Rightarrow> u32" where
  "job_filetype env jobname =
     (case ie_stat env jobname of
        Some Block_device \<Rightarrow> FIO_TYPE_BD
      | Some Character_device \<Rightarrow> FIO_TYPE_CHAR
      | _ \<Rightarrow> FIO_TYPE_FILE)"

definition set_nr_uniq :: "(nat \<Rightarrow> u8) \<Rightarrow> nat \<Rightarrow> u8" where
  "set_nr_uniq d = set_u32 m_nr_uniq_files (if get_u64 m_filename d \<noteq> 0 then 1 else get_u32 m_nr_files d) d"

text \<open>The array of files with their sizes.  A job on a device without a file name has one file, the device.\<close>

definition make_files :: "string list \<Rightarrow> (nat \<Rightarrow> u8) \<Rightarrow> job_file list" where
  "make_files names d =
     map (\<lambda>n. \<lparr>jf_name = n, jf_size = get_u64 m_total_file_size d div ucast (get_u32 m_nr_files d),
               jf_offset = get_u64 m_start_offset d\<rparr>) names"

definition add_files :: "string \<Rightarrow> init_state \<Rightarrow> job_fault + init_state" where
  "add_files jobname s =
     sbind (if get_u32 m_filetype (om_data s) = FIO_TYPE_FILE \<or> get_u64 m_filename (om_data s) \<noteq> 0
            then sbind (file_names jobname s) (\<lambda>names. Inr (names, s))
            else Inr ([jobname], data_u32 m_nr_files 1 s)) (\<lambda>(names, s).
       Inr (data_u64 m_files (of_nat (length (st_files s) + 1))
              (s\<lparr>st_files := st_files s @ [make_files names (om_data s)]\<rparr>)))"

text \<open>\<^verbatim>\<open>min_val\<close> of a \<^verbatim>\<open>struct io_stat\<close>.\<close>

definition io_stat_min :: "member \<Rightarrow> member" where
  "io_stat_min f = (fst f + 24, C_ulong)"

definition reset_stats :: "(nat \<Rightarrow> u8) \<Rightarrow> nat \<Rightarrow> u8" where
  "reset_stats d =
     fold (\<lambda>f. set_u64 (io_stat_min f) (-1))
       [m_clat_stat_1, m_clat_stat_0, m_slat_stat_1, m_slat_stat_0, m_bw_stat_1, m_bw_stat_0] (set_u32 m_mutex 0 d)"

text \<open>A stonewall starts a new group.\<close>

definition set_group :: "init_state \<Rightarrow> init_state" where
  "set_group s =
     (let d = om_data s;
          g = st_groupid s + (if get_u32 m_stonewall d \<noteq> 0 \<and> 1 < sint (get_u32 m_thread_number d) then 1 else 0)
      in data_u32 m_groupid (word_of_int g) (s\<lparr>st_groupid := g\<rparr>))"

definition setup_job_logs :: "init_state \<Rightarrow> init_state" where
  "setup_job_logs s =
     (let s = (if get_u32 m_write_lat_log (om_data s) \<noteq> 0 then job_setup_log m_clat_log (job_setup_log m_slat_log s) else s)
      in if get_u32 m_write_bw_log (om_data s) \<noteq> 0 then job_setup_log m_bw_log s else s)"

definition name_job :: "string \<Rightarrow> init_state \<Rightarrow> init_state" where
  "name_job jobname s =
     (if get_u64 m_name (om_data s) = 0 then let (p, s) = strdup jobname s in data_u64 m_name p s else s)"

text \<open>The index into the seven words of \<^verbatim>\<open>ddir_str\<close>, used when the job is printed.\<close>

definition ddir_index :: "(nat \<Rightarrow> u8) \<Rightarrow> u32" where
  "ddir_index d =
     get_u32 m_ddir d + push_bit 1 (if get_u32 m_sequential d = 0 then 1 else 0) + push_bit 2 (get_u32 m_iomix d)"

definition print_job :: "int \<Rightarrow> init_state \<Rightarrow> job_fault + init_state" where
  "print_job job_add_num s =
     (if st_terse_output s \<or> job_add_num \<noteq> 0 then Inr s
      else sbind (job_ops s) (\<lambda>ops.
        if ops_flags ops AND FIO_CPUIO \<noteq> 0 \<or> ddir_index (om_data s) < 7 then Inr s else Inl OutOfRange))"

text \<open>The default engine, and direct I/O as a flag of the engine, which other jobs may share.\<close>

definition add_engine :: "init_env \<Rightarrow> init_state \<Rightarrow> job_fault + int \<times> init_state" where
  "add_engine env s =
     (if get_u64 m_io_ops (om_data s) \<noteq> 0 then Inr (0, s)
      else sbind (load_ioengine (ie_engines env) ''sync'' s) (\<lambda>(ops, s).
        Inr (if ops = 0 then 1 else 0, data_u64 m_io_ops ops s)))"

definition set_raw :: "init_state \<Rightarrow> job_fault + init_state" where
  "set_raw s =
     (if get_u32 m_odirect (om_data s) = 0 then Inr s
      else sbind (job_ops s) (\<lambda>ops.
        Inr (s\<lparr>js_ops := (js_ops s)[unat (get_u64 m_io_ops (om_data s)) - 1 := Some (ops\<lparr>ops_flags := ops_flags ops OR FIO_RAWIO\<rparr>)]\<rparr>)))"

text \<open>\<^verbatim>\<open>add_job\<close> up to the loop over the copies, on the bytes of the job: 0, 1 without an engine, -1 for the
  jump to \<^verbatim>\<open>err\<close>.\<close>

definition add_job_body :: "init_env \<Rightarrow> string \<Rightarrow> int \<Rightarrow> init_state \<Rightarrow> job_fault + int \<times> init_state" where
  "add_job_body env jobname job_add_num s =
     sbind (add_engine env s) (\<lambda>(r, s).
       if r \<noteq> 0 then Inr (1, s)
       else
         sbind (set_raw s) (\<lambda>s.
         sbind (fixup_options (data_u32 m_filetype (job_filetype env jobname) s)) (\<lambda>s.
         sbind (add_files jobname (s\<lparr>om_data := set_nr_uniq (om_data s)\<rparr>)) (\<lambda>s.
         let s = set_group (s\<lparr>om_data := reset_stats (om_data s)\<rparr>)
         in sbind (job_setup_rate s) (\<lambda>(r, s).
              if r \<noteq> 0 then Inr (-1, s)
              else sbind (print_job job_add_num (name_job jobname (setup_job_logs s))) (\<lambda>s. Inr (0, s)))))))"

text \<open>A job alone: with \<^verbatim>\<open>numjobs\<close> 1 the loop over the copies has nothing to do, so this is \<^verbatim>\<open>add_job\<close> of a copy.\<close>

definition add_one_job :: "init_env \<Rightarrow> td_ref \<Rightarrow> string \<Rightarrow> int \<Rightarrow> init_state \<Rightarrow> job_fault + int \<times> init_state" where
  "add_one_job env r jobname job_add_num s =
     (if r = Def_thread then Inr (0, s)
      else sbind (with_td r (add_job_body env jobname job_add_num) s) (\<lambda>(ret, s).
        if ret = -1 then sbind (put_job r s) (\<lambda>s. Inr (-1, s)) else Inr (ret, s)))"

section \<open>What a step leaves alone\<close>

text \<open>The steps on a loaded job do not touch the thread area.\<close>

definition same_area :: "init_state \<Rightarrow> init_state \<Rightarrow> bool" where
  "same_area s t = (st_threads t = st_threads s \<and> st_def_thread t = st_def_thread s \<and> st_thread_number t = st_thread_number s)"

lemma same_area_refl [simp]: "same_area s s"
  by (simp add: same_area_def)

lemma same_area_trans: "same_area s t \<Longrightarrow> same_area t u \<Longrightarrow> same_area s u"
  by (simp add: same_area_def)

lemma same_area_update [simp]:
  "same_area s (t\<lparr>om_data := d\<rparr>) = same_area s t" "same_area s (t\<lparr>om_heap := h\<rparr>) = same_area s t"
  "same_area s (t\<lparr>js_ops := q\<rparr>) = same_area s t" "same_area s (t\<lparr>st_files := fs\<rparr>) = same_area s t"
  "same_area s (t\<lparr>st_logs := ls\<rparr>) = same_area s t" "same_area s (t\<lparr>st_groupid := g\<rparr>) = same_area s t"
  "same_area s (data_u32 f v t) = same_area s t" "same_area s (data_u64 f w t) = same_area s t"
  by (simp_all add: same_area_def data_u32_def data_u64_def)

lemma load_ioengine_area: "load_ioengine env n s = Inr (p, t) \<Longrightarrow> same_area s t"
  by (auto simp: load_ioengine_def dlopen_ioengine_def Let_def sbind_Inr_iff split: option.splits if_splits prod.splits)

lemma add_engine_area: "add_engine env s = Inr (r, t) \<Longrightarrow> same_area s t"
  by (auto simp: add_engine_def sbind_Inr_iff split: if_splits dest: load_ioengine_area)

lemma set_raw_area: "set_raw s = Inr t \<Longrightarrow> same_area s t"
  by (auto simp: set_raw_def sbind_Inr_iff split: if_splits)

lemma fix_iologs_area: "fix_iologs s = Inr t \<Longrightarrow> same_area s t"
  by (auto simp: fix_iologs_def free_string_def Let_def sbind_Inr_iff split: if_splits)

lemma fixup_options_area: "fixup_options s = Inr t \<Longrightarrow> same_area s t"
  by (auto simp: fixup_options_def sbind_Inr_iff same_area_def dest!: fix_iologs_area)

lemma add_files_area: "add_files n s = Inr t \<Longrightarrow> same_area s t"
  by (auto simp: add_files_def sbind_Inr_iff split: if_splits)

lemma set_group_area [simp]: "same_area s (set_group t) = same_area s t"
  by (simp add: set_group_def Let_def)

lemma job_setup_rate_area: "job_setup_rate s = Inr (r, t) \<Longrightarrow> same_area s t"
  by (auto simp: job_setup_rate_def split: option.splits)

lemma setup_job_logs_area [simp]: "same_area s (setup_job_logs t) = same_area s t"
  by (simp add: setup_job_logs_def job_setup_log_def Let_def)

lemma name_job_area [simp]: "same_area s (name_job n t) = same_area s t"
  by (simp add: name_job_def strdup_def)

lemma print_job_area: "print_job n s = Inr t \<Longrightarrow> t = s"
  by (auto simp: print_job_def sbind_Inr_iff split: if_splits)

lemma add_job_body_area: "add_job_body env n k s = Inr (r, t) \<Longrightarrow> same_area s t"
proof -
  assume "add_job_body env n k s = Inr (r, t)"
  then obtain r1 s1 where e: "add_engine env s = Inr (r1, s1)"
    and rest: "r1 \<noteq> 0 \<and> t = s1 \<or> r1 = 0 \<and> (\<exists>s2 s3 s4 r5 s5. set_raw s1 = Inr s2
      \<and> fixup_options (data_u32 m_filetype (job_filetype env n) s2) = Inr s3
      \<and> add_files n (s3\<lparr>om_data := set_nr_uniq (om_data s3)\<rparr>) = Inr s4
      \<and> job_setup_rate (set_group (s4\<lparr>om_data := reset_stats (om_data s4)\<rparr>)) = Inr (r5, s5)
      \<and> (r5 \<noteq> 0 \<and> t = s5 \<or> print_job k (name_job n (setup_job_logs s5)) = Inr t))"
    by (auto simp: add_job_body_def Let_def sbind_Inr_iff split: if_splits)
  have 1: "same_area s s1" using e by (rule add_engine_area)
  show ?thesis
  proof (cases "r1 = 0")
    case False
    with rest 1 show ?thesis by simp
  next
    case True
    with rest obtain s2 s3 s4 r5 s5 where r: "set_raw s1 = Inr s2"
      "fixup_options (data_u32 m_filetype (job_filetype env n) s2) = Inr s3"
      "add_files n (s3\<lparr>om_data := set_nr_uniq (om_data s3)\<rparr>) = Inr s4"
      "job_setup_rate (set_group (s4\<lparr>om_data := reset_stats (om_data s4)\<rparr>)) = Inr (r5, s5)"
      and t: "r5 \<noteq> 0 \<and> t = s5 \<or> print_job k (name_job n (setup_job_logs s5)) = Inr t" by auto
    have "same_area s5 t" using t print_job_area by fastforce
    with 1 set_raw_area [OF r(1)] fixup_options_area [OF r(2)] add_files_area [OF r(3)] job_setup_rate_area [OF r(4)]
    show ?thesis by (auto simp: same_area_def set_group_def data_u32_def Let_def)
  qed
qed

text \<open>The counters of the thread area: how many slots there are and are used.\<close>

definition same_counts :: "init_state \<Rightarrow> init_state \<Rightarrow> bool" where
  "same_counts s t = (length (st_threads t) = length (st_threads s) \<and> st_thread_number t = st_thread_number s)"

lemma with_td_counts:
  assumes "with_td r f s = Inr (v, t)" "\<And>w u. f (s\<lparr>om_data := td_bytes r s\<rparr>) = Inr (w, u) \<Longrightarrow> same_area s u"
  shows "same_counts s t"
proof -
  from assms(1) obtain u where u: "f (s\<lparr>om_data := td_bytes r s\<rparr>) = Inr (v, u)" "t = put_td r (om_data u) u"
    by (auto simp: with_td_def sbind_Inr_iff)
  from assms(2) [OF u(1)] show ?thesis
    by (cases r) (simp_all add: u(2) put_td_def same_counts_def same_area_def)
qed

lemma add_one_job_counts: "add_one_job env r n k s = Inr (0, t) \<Longrightarrow> same_counts s t"
proof -
  assume a: "add_one_job env r n k s = Inr (0, t)"
  show ?thesis
  proof (cases "r = Def_thread")
    case True
    with a show ?thesis by (simp add: add_one_job_def same_counts_def)
  next
    case False
    with a have "with_td r (add_job_body env n k) s = Inr (0, t)"
      by (auto simp: add_one_job_def sbind_Inr_iff split: if_splits)
    then show ?thesis by (rule with_td_counts) (use add_job_body_area in \<open>fastforce simp: same_area_def\<close>)
  qed
qed

section \<open>Copies of a job\<close>

text \<open>The loop over \<^verbatim>\<open>numjobs\<close>: each turn takes a slot, so it ends by the number of slots even when \<^verbatim>\<open>numjobs\<close> is 0 and the
  counter goes below zero.  A copy has \<^verbatim>\<open>numjobs\<close> 1.\<close>

definition make_copy :: "init_state \<Rightarrow> job_fault + int \<times> init_state" where
  "make_copy s = Inr (0, data_u32 m_stonewall 0 (data_u32 m_numjobs 1 s))"

lemma make_copy_counts: "with_td r make_copy s = Inr (v, t) \<Longrightarrow> same_counts s t"
  by (rule with_td_counts) (auto simp: make_copy_def)

lemma get_new_job_counts:
  "get_new_job False r s = Inr (Some q, t) \<Longrightarrow>
     length (st_threads t) = length (st_threads s) \<and> 0 \<le> st_thread_number s \<and> st_thread_number t = st_thread_number s + 1
     \<and> st_thread_number s < int (length (st_threads s)) \<and> q = Slot (nat (st_thread_number s))"
  by (auto simp: get_new_job_def put_td_def Let_def split: if_splits)

function add_copies :: "init_env \<Rightarrow> td_ref \<Rightarrow> string \<Rightarrow> int \<Rightarrow> init_state \<Rightarrow> job_fault + int \<times> init_state" where
  "add_copies env r jobname numjobs s =
     (let numjobs = numjobs - 1
      in if numjobs = 0 then Inr (0, s)
         else
           case get_new_job False r s of
             Inl e \<Rightarrow> Inl e
           | Inr (None, s) \<Rightarrow> sbind (put_job r s) (\<lambda>s. Inr (-1, s))
           | Inr (Some new, s) \<Rightarrow>
               (case with_td new make_copy s of
                  Inl e \<Rightarrow> Inl e
                | Inr (_, s) \<Rightarrow>
                    (case add_one_job env new jobname (numjobs - 1) s of
                       Inl e \<Rightarrow> Inl e
                     | Inr (ret, s) \<Rightarrow>
                         if ret \<noteq> 0 then sbind (put_job r s) (\<lambda>s. Inr (-1, s))
                         else add_copies env r jobname numjobs s)))"
  by pat_completeness auto

termination
  by (relation "measure (\<lambda>(env, r, jobname, numjobs, s). nat (int (length (st_threads s)) - st_thread_number s))")
     (auto dest!: get_new_job_counts make_copy_counts add_one_job_counts simp: same_counts_def)

declare add_copies.simps [simp del]

definition add_job :: "init_env \<Rightarrow> td_ref \<Rightarrow> string \<Rightarrow> int \<Rightarrow> init_state \<Rightarrow> job_fault + int \<times> init_state" where
  "add_job env r jobname job_add_num s =
     (if r = Def_thread then Inr (0, s)
      else sbind (add_one_job env r jobname job_add_num s) (\<lambda>(ret, s).
        if ret \<noteq> 0 then Inr (ret, s)
        else add_copies env r jobname (sint (get_u32 m_numjobs (td_bytes r s))) s))"

text \<open>A job with \<^verbatim>\<open>numjobs\<close> 1, as every copy is, is added alone.\<close>

lemma add_job_single:
  assumes "add_one_job env (Slot i) n k s = Inr (0, t)" "get_u32 m_numjobs (td_bytes (Slot i) t) = 1"
  shows "add_job env (Slot i) n k s = Inr (0, t)"
  using assms by (simp add: add_job_def add_copies.simps [of env "Slot i" n 1])

lemma add_copies_count:
  "add_copies env r n k s = Inr (0, t) \<Longrightarrow> 1 \<le> k \<and> st_thread_number t = st_thread_number s + k - 1"
proof (induction env r n k s rule: add_copies.induct)
  case (1 env r n k s)
  define m where "m = k - 1"
  note step = 1(2) [unfolded add_copies.simps [of env r n k s] Let_def, folded m_def]
  show ?case
  proof (cases "m = 0")
    case True
    with step show ?thesis by (simp add: m_def)
  next
    case False
    with step obtain q s1 where new: "get_new_job False r s = Inr (Some q, s1)"
      by (auto simp: sbind_Inr_iff split: sum.splits prod.splits option.splits)
    with step False obtain v s2 where copy: "with_td q make_copy s1 = Inr (v, s2)"
      by (auto split: sum.splits prod.splits)
    with step False new obtain s3 where one: "add_one_job env q n (m - 1) s2 = Inr (0, s3)"
      and rec: "add_copies env r n m s3 = Inr (0, t)"
      by (auto simp: sbind_Inr_iff split: sum.splits prod.splits if_splits)
    have "1 \<le> m \<and> st_thread_number t = st_thread_number s3 + m - 1"
      using 1(1) [OF m_def False new refl refl copy refl one refl] rec by simp
    moreover have "st_thread_number s3 = st_thread_number s + 1"
      using add_one_job_counts [OF one] make_copy_counts [OF copy] get_new_job_counts [OF new] by (simp add: same_counts_def)
    ultimately show ?thesis by (simp add: m_def)
  qed
qed

text \<open>C38: adding a job takes exactly \<^verbatim>\<open>numjobs\<close> slots, its own and those of the copies; with \<^verbatim>\<open>numjobs\<close> 0 it never succeeds,
  because the counter is decremented before it is tested.\<close>

theorem add_job_takes_numjobs:
  assumes "add_job env (Slot i) n k s = Inr (0, t)" "add_one_job env (Slot i) n k s = Inr (0, u)"
  shows "1 \<le> sint (get_u32 m_numjobs (td_bytes (Slot i) u))
    \<and> st_thread_number t + 1 = st_thread_number s + sint (get_u32 m_numjobs (td_bytes (Slot i) u))"
proof -
  from assms have "add_copies env (Slot i) n (sint (get_u32 m_numjobs (td_bytes (Slot i) u))) u = Inr (0, t)"
    by (simp add: add_job_def)
  from add_copies_count [OF this] add_one_job_counts [OF assms(2)] show ?thesis by (simp add: same_counts_def)
qed

section \<open>Names and sizes\<close>

text \<open>The directory of a job has no effect on the names of its files: when the names are made, they are made as if there
  were no directory.\<close>

theorem directory_is_ignored:
  assumes "file_names jobname s = Inr names"
  shows "file_names jobname (data_u64 m_directory 0 s) = Inr names"
proof -
  have "om_heap (data_u64 m_directory 0 s) = om_heap s" by (simp add: data_u64_def)
  moreover have "string_at p (data_u64 m_directory 0 s) = string_at p s" for p
    by (simp add: string_at_def data_u64_def)
  moreover have "om_data (data_u64 m_directory 0 s) = set_u64 m_directory 0 (om_data s)"
    by (simp add: data_u64_def)
  ultimately show ?thesis
    using assms by (auto simp: file_names_def Let_def sbind_Inr_iff cong: if_cong split: if_splits)
qed

lemma mod_1024: "v AND 1023 = 0 \<longleftrightarrow> unat v mod 1024 = 0" for v :: u32
proof -
  have "v AND 1023 = take_bit 10 v" by (simp add: take_bit_eq_mask mask_eq_exp_minus_1)
  then have "unat (v AND 1023) = take_bit 10 (unat v)" by (simp only: unsigned_take_bit_eq)
  then have "unat (v AND 1023) = unat v mod 1024" by (simp add: take_bit_eq_mod)
  then show ?thesis by (metis unsigned_eq_0_iff)
qed

text \<open>What a number with its letter stands for.\<close>

definition kmg_value :: "u32 \<times> char option \<Rightarrow> nat" where
  "kmg_value vp = unat (fst vp) * (case snd vp of None \<Rightarrow> 1 | Some c \<Rightarrow> unat (get_mult_bytes c))"

lemma kmg_loop_value:
  fixes v :: u32
  defines "r \<equiv> kmg_loop v [None, Some CHR ''K'', Some CHR ''M'', Some CHR ''G'', Some CHR ''P'', None]"
  shows "kmg_value r = unat v" "snd r \<in> {None, Some CHR ''K'', Some CHR ''M'', Some CHR ''G''}"
proof -
  define n where "n = unat v"
  have d: "unat (drop_bit 10 v) = n div 1024" "unat (drop_bit 20 v) = n div 1048576" "unat (drop_bit 30 v) = n div 1073741824"
    by (simp_all add: unat_drop_bit_eq_div n_def)
  have small: "n < 4294967296" unfolding n_def by (rule unat_less_u32)
  have up: "1024 dvd n \<Longrightarrow> 1024 dvd n div 1024 \<Longrightarrow> n div 1048576 * 1048576 = n"
    "1024 dvd n \<Longrightarrow> 1024 dvd n div 1024 \<Longrightarrow> 1024 dvd n div 1048576 \<Longrightarrow> n div 1073741824 * 1073741824 = n"
    by (auto elim!: dvdE)
  have top: "1024 dvd n \<Longrightarrow> 1024 dvd n div 1024 \<Longrightarrow> 1024 dvd n div 1048576 \<Longrightarrow> 1024 dvd n div 1073741824 \<Longrightarrow> n = 0"
    using small by (auto elim!: dvdE)
  show "kmg_value r = unat v" "snd r \<in> {None, Some CHR ''K'', Some CHR ''M'', Some CHR ''G''}"
    unfolding r_def n_def [symmetric]
    using up top by (auto simp: kmg_value_def mod_1024 d n_def [symmetric] get_mult_bytes_def Let_def split: if_splits)
qed

text \<open>C39: \<^verbatim>\<open>to_kmg\<close> prints a size so that the option parser reads the same size back.\<close>

theorem to_kmg_parses: "str_to_decimal (to_kmg v) True e = (Some (ucast v), e)"
proof -
  define r where "r = kmg_loop v [None, Some CHR ''K'', Some CHR ''M'', Some CHR ''G'', Some CHR ''P'', None]"
  define n where "n = unat (fst r)"
  have val: "kmg_value r = unat v" and letter: "snd r \<in> {None, Some CHR ''K'', Some CHR ''M'', Some CHR ''G''}"
    unfolding r_def by (rule kmg_loop_value)+
  have n: "n < 2 ^ 64 - 1" unfolding n_def by (rule less_trans [OF unat_less_u32]) simp
  have kmg: "to_kmg v = dec n @ (case snd r of None \<Rightarrow> [] | Some c \<Rightarrow> [c])"
    by (simp add: to_kmg_def r_def n_def split: prod.splits)
  have big: "(of_nat (unat v) :: u64) = ucast v" by simp
  show ?thesis
  proof (cases "snd r")
    case None
    obtain c where c: "last (dec n) = c" "is_digit c" using dec_digits [of "last (dec n)" n] dec_not_nil by simp
    have "get_mult_bytes c = 1" using c(2) by (auto simp: get_mult_bytes_def is_digit_def)
    moreover have "strtoul (dec n @ []) = (of_nat n, False)" using n by (intro strtoul_dec) (auto simp: no_digit_def)
    moreover have "n = unat v" using val None by (simp add: kmg_value_def n_def)
    ultimately show ?thesis
      using of_nat_not_max [OF n] None c big by (simp add: kmg str_to_decimal_def Let_def dec_not_nil)
  next
    case (Some c)
    with letter have c: "no_digit [c]" "get_mult_bytes c \<in> {1024, 1048576, 1073741824}"
      by (auto simp: no_digit_def is_digit_def get_mult_bytes_def)
    have "unat v = n * unat (get_mult_bytes c)" using val Some by (simp add: kmg_value_def n_def)
    then have "of_nat n * get_mult_bytes c = (ucast v :: u64)" using big by (metis of_nat_mult of_nat_unat_word)
    then show ?thesis
      using str_to_decimal_dec [OF n c(1), of True e] by (simp add: kmg Some)
  qed
qed

end
