(* ===== verification/FioJobs.thy ===== *)
theory FioJobs
  imports FioInit
begin

text \<open>
  Where fio's jobs come from (\<^verbatim>\<open>init.c\<close>): the defaults, the job file with its sections, the command line, and
  \<^verbatim>\<open>parse_options\<close>, which runs them.  A file is the text that is left to read, so \<^verbatim>\<open>fgetpos\<close> remembers a text and \<^verbatim>\<open>fsetpos\<close>
  goes back to it.  \<^verbatim>\<open>getopt_long\<close> is modelled for whole option names.
\<close>

section \<open>Defaults\<close>

definition default_members :: "init_state \<Rightarrow> (member \<times> u32) list" where
  "default_members s =
    [(m_ddir, 0), (m_iomix, 0), (m_bs_0, 4096), (m_bs_1, 4096), (m_min_bs_0, 0), (m_min_bs_1, 0), (m_max_bs_0, 0),
     (m_max_bs_1, 0), (m_odirect, 1), (m_ratecycle, 1000), (m_sequential, 1), (m_overwrite, 0), (m_invalidate_cache, 1),
     (m_sync_io, 0), (m_mem_type, MEM_MALLOC), (m_bw_avg_time, 500), (m_create_serialize, 1), (m_create_fsync, 1),
     (m_loops, 1), (m_verify, 0), (m_stonewall, 0), (m_numjobs, 1), (m_use_thread, 0), (m_rwmixcycle, 500),
     (m_rwmixread, 50), (m_nice, 0), (m_rand_repeatable, 1), (m_nr_files, 1), (m_unlink, 1),
     (m_write_bw_log, st_write_bw_log s), (m_write_lat_log, st_write_lat_log s), (m_norandommap, 0),
     (m_hugepage_size, 4096 * 1024), (m_do_disk_util, 1)]"

definition fill_def_thread :: "init_env \<Rightarrow> init_state \<Rightarrow> int \<times> init_state" where
  "fill_def_thread env s =
     (case ie_affinity env of
        None \<Rightarrow> (1, s\<lparr>st_def_thread := (\<lambda>_. 0)\<rparr>)
      | Some cpus \<Rightarrow>
          let d = (\<lambda>a. if fst m_cpumask \<le> a \<and> a < fst m_cpumask + 128 then cpus (a - fst m_cpumask) else 0);
              d = fold (\<lambda>(f, v). set_u32 f v) (default_members s) d
          in (0, s\<lparr>st_def_thread := set_u64 m_timeout (scast (st_def_timeout s)) d\<rparr>))"

section \<open>Job files\<close>

text \<open>\<^verbatim>\<open>fgets\<close> with room for \<open>n\<close> bytes: the line and what is left, \<^const>\<open>None\<close> at the end.\<close>

definition fgets :: "nat \<Rightarrow> string \<Rightarrow> (string \<times> string) option" where
  "fgets n inp = (if inp = [] then None else Some (take_line (n - 1) inp))"

fun is_empty_or_comment :: "string \<Rightarrow> bool" where
  "is_empty_or_comment [] = True"
| "is_empty_or_comment (c # line) =
     (if c = CHR '';'' then True else if \<not> is_space c \<and> \<not> is_cntrl c then False else is_empty_or_comment line)"

text \<open>\<^verbatim>\<open>sscanf(p, "[%255s]", name) == 1\<close>: the word behind the bracket, which takes the closing bracket with it.\<close>

definition scan_section :: "string \<Rightarrow> string option" where
  "scan_section p =
     (case p of
        [] \<Rightarrow> None
      | c # rest \<Rightarrow>
          if c \<noteq> CHR ''['' then None
          else let w = takeWhile (\<lambda>c. \<not> is_space c) (dropWhile is_space rest)
               in if w = [] then None else Some (take 255 w))"

lemma fgets_shorter: "fgets n inp = Some (p, rest) \<Longrightarrow> 2 \<le> n \<Longrightarrow> length rest < length inp \<and> inp = p @ rest \<and> p \<noteq> []"
proof -
  assume a: "fgets n inp = Some (p, rest)" "2 \<le> n"
  then obtain k where k: "n - 1 = Suc k" and t: "inp \<noteq> []" "take_line (Suc k) inp = (p, rest)"
    by (cases "n - 1") (auto simp: fgets_def split: if_splits)
  show ?thesis using take_line_append [OF t(2)] take_line_nonempty [OF t(2,1)] by auto
qed

text \<open>The inner loop reads the options of a section: \<open>off\<close> is the position \<^verbatim>\<open>fgetpos\<close> remembered, \<open>ret\<close> the errors so far.  It
  stops at the next section or at the end.\<close>

function read_options ::
  "init_env \<Rightarrow> td_ref \<Rightarrow> string \<Rightarrow> string \<Rightarrow> int \<Rightarrow> init_state \<Rightarrow> job_fault + (int \<times> string) \<times> init_state" where
  "read_options env r inp off ret s =
     (case fgets 4096 inp of
        None \<Rightarrow> Inr ((ret, off), s)
      | Some (p, rest) \<Rightarrow>
          if is_empty_or_comment p then read_options env r rest off ret s
          else
            let p = strip_blank_front p
            in if hd p = CHR ''['' then Inr ((ret, off), s)
               else
                 case strip_blank_end [] p of
                   None \<Rightarrow> Inl OutOfRange
                 | Some p \<Rightarrow>
                     (case with_td r (parse_option p (options (ie_engines env))) s of
                        Inl e \<Rightarrow> Inl e
                      | Inr (v, s) \<Rightarrow> read_options env r rest rest (ret OR v) s))"
  by pat_completeness auto

termination
  by (relation "measure (\<lambda>(env, r, inp, off, ret, s). length inp)") (auto dest!: fgets_shorter)

declare read_options.simps [simp del]

lemma read_options_pos:
  "read_options env r inp off ret s = Inr ((ret', off'), s') \<Longrightarrow> length inp \<le> length off \<Longrightarrow> length off' \<le> length off"
proof (induction env r inp off ret s rule: read_options.induct)
  case (1 env r inp off ret s)
  show ?case
  proof (cases "fgets 4096 inp")
    case None
    with 1 show ?thesis by (subst (asm) read_options.simps) simp
  next
    case (Some pr)
    obtain p rest where pr: "(p, rest) = pr" by (metis surj_pair)
    have short: "length rest < length inp" using fgets_shorter [of 4096 inp p rest] Some pr [symmetric] by simp
    show ?thesis
    proof (cases "is_empty_or_comment p")
      case True
      from 1(3) have "read_options env r rest off ret s = Inr ((ret', off'), s')"
        by (subst (asm) read_options.simps) (simp add: Some pr [symmetric] True)
      from 1(1) [OF Some pr True this] short 1(4) show ?thesis by simp
    next
      case False
      define q where "q = strip_blank_front p"
      show ?thesis
      proof (cases "hd q = CHR ''[''")
        case True
        with 1(3) have "off' = off"
          by (subst (asm) read_options.simps) (simp add: Some pr [symmetric] False q_def [symmetric] Let_def)
        then show ?thesis by simp
      next
        case hd: False
        with 1(3) False Some pr [symmetric] obtain u v t where
          u: "strip_blank_end [] q = Some u" "with_td r (parse_option u (options (ie_engines env))) s = Inr (v, t)"
          and rec: "read_options env r rest rest (ret OR v) t = Inr ((ret', off'), s')"
          by (subst (asm) read_options.simps) (auto simp: q_def [symmetric] Let_def split: option.splits sum.splits prod.splits)
        from 1(2) [OF Some pr False q_def hd u(1) u(2) refl rec] short 1(4) show ?thesis by simp
      qed
    qed
  qed
qed

lemma read_options_shorter:
  "read_options env r inp inp ret s = Inr ((ret', off'), s') \<Longrightarrow> length off' \<le> length inp"
  using read_options_pos by blast

lemma fgets_less: "fgets n inp = Some (p, rest) \<Longrightarrow> 2 \<le> n \<Longrightarrow> length rest < length inp"
  using fgets_shorter by blast

text \<open>The outer loop reads a section: it makes the job, reads its options, and adds or drops it.  A stonewall separates
  the jobs of this file from those before.\<close>

definition close_section ::
  "init_env \<Rightarrow> td_ref \<Rightarrow> string \<Rightarrow> int \<Rightarrow> init_state \<Rightarrow> job_fault + int \<times> init_state" where
  "close_section env r name ret s =
     (if ret = 0 then add_job env r name 0 s else sbind (put_job r s) (\<lambda>s. Inr (ret, s)))"

definition open_section ::
  "string \<Rightarrow> u32 \<Rightarrow> init_state \<Rightarrow> job_fault + (td_ref option \<times> u32) \<times> init_state" where
  "open_section name stonewall s =
     (let global = starts_with ''global'' name
      in sbind (get_new_job global Def_thread s) (\<lambda>(new, s).
           case new of
             None \<Rightarrow> Inr ((None, stonewall), s)
           | Some r \<Rightarrow>
               if \<not> global \<and> stonewall \<noteq> 0
               then sbind (with_td r (\<lambda>s. Inr ((), data_u32 m_stonewall stonewall s)) s) (\<lambda>(_, s). Inr ((Some r, 0), s))
               else Inr ((Some r, stonewall), s)))"

function parse_sections :: "init_env \<Rightarrow> string \<Rightarrow> u32 \<Rightarrow> init_state \<Rightarrow> job_fault + int \<times> init_state" where
  "parse_sections env inp stonewall s =
     (case fgets 4095 inp of
        None \<Rightarrow> Inr (0, s)
      | Some (p, rest) \<Rightarrow>
          if is_empty_or_comment p then parse_sections env rest stonewall s
          else
            case scan_section p of
              None \<Rightarrow> parse_sections env rest stonewall s
            | Some word \<Rightarrow>
                let name = butlast word
                in case open_section word stonewall s of
                     Inl e \<Rightarrow> Inl e
                   | Inr ((None, stonewall), s) \<Rightarrow> Inr (1, s)
                   | Inr ((Some r, stonewall), s) \<Rightarrow>
                       (case read_options env r rest rest 0 s of
                          Inl e \<Rightarrow> Inl e
                        | Inr ((ret, off), s) \<Rightarrow>
                            (case close_section env r name ret s of
                               Inl e \<Rightarrow> Inl e
                             | Inr (ret, s) \<Rightarrow> if ret = 0 then parse_sections env off stonewall s else Inr (ret, s))))"
  by pat_completeness auto

termination
  by (relation "measure (\<lambda>(env, inp, stonewall, s). length inp)")
     (auto dest!: fgets_less read_options_shorter)

declare parse_sections.simps [simp del]

definition parse_jobs_ini :: "init_env \<Rightarrow> string \<Rightarrow> u32 \<Rightarrow> init_state \<Rightarrow> job_fault + int \<times> init_state" where
  "parse_jobs_ini env file stonewall_flag s =
     (case ie_fopen env file of
        None \<Rightarrow> Inr (1, s)
      | Some contents \<Rightarrow> parse_sections env contents stonewall_flag s)"

section \<open>The command line\<close>

datatype has_arg = No_argument | Required_argument | Optional_argument

text \<open>\<^verbatim>\<open>val\<close> of a long option: a letter, or \<^verbatim>\<open>FIO_GETOPT_JOB\<close>.\<close>

datatype opt_val = Opt_char char | Opt_job

type_synonym long_option = "string \<times> has_arg \<times> opt_val"

definition long_options :: "long_option list" where
  "long_options =
    [(''output'', Required_argument, Opt_char CHR ''o''),
     (''timeout'', Required_argument, Opt_char CHR ''t''),
     (''latency-log'', Required_argument, Opt_char CHR ''l''),
     (''bandwidth-log'', Required_argument, Opt_char CHR ''b''),
     (''minimal'', Optional_argument, Opt_char CHR ''m''),
     (''version'', No_argument, Opt_char CHR ''v'')]"

text \<open>The table has \<^verbatim>\<open>FIO_CMD_OPTS\<close> places besides those of the job options and their end; the assertion holds.\<close>

definition dupe_job_options :: "'s fio_option list \<Rightarrow> long_option list" where
  "dupe_job_options opts =
     long_options @ map (\<lambda>x. (opt_name x, if opt_type x = FIO_OPT_STR_SET then No_argument else Required_argument, Opt_job)) opts"

text \<open>What \<^verbatim>\<open>getopt_long\<close> returns for the arguments in turn, and the other arguments, which it moves to the end.\<close>

datatype getopt =
    Got_char char "string option"
  | Got_job string "string option"
  | Got_error

fun find_long :: "long_option list \<Rightarrow> string \<Rightarrow> (has_arg \<times> opt_val) option" where
  "find_long [] n = None"
| "find_long ((m, h, v) # table) n = (if m = n then Some (h, v) else find_long table n)"

definition got :: "string \<Rightarrow> opt_val \<Rightarrow> string option \<Rightarrow> getopt" where
  "got n v arg = (case v of Opt_char c \<Rightarrow> Got_char c arg | Opt_job \<Rightarrow> Got_job n arg)"

fun getopt_long :: "long_option list \<Rightarrow> string list \<Rightarrow> getopt list \<times> string list" where
  "getopt_long table [] = ([], [])"
| "getopt_long table (a # args) =
     (if a = ''--'' then ([], args)
      else if starts_with ''--'' a then
        let n = takeWhile (\<lambda>c. c \<noteq> CHR ''='') (drop 2 a); val = after_char CHR ''='' (drop 2 a)
        in case find_long table n of
             None \<Rightarrow> let (gs, rest) = getopt_long table args in (Got_error # gs, rest)
           | Some (No_argument, v) \<Rightarrow>
               let (gs, rest) = getopt_long table args
               in ((if val = None then got n v None else Got_error) # gs, rest)
           | Some (Optional_argument, v) \<Rightarrow> let (gs, rest) = getopt_long table args in (got n v val # gs, rest)
           | Some (Required_argument, v) \<Rightarrow>
               (case val of
                  Some x \<Rightarrow> let (gs, rest) = getopt_long table args in (got n v (Some x) # gs, rest)
                | None \<Rightarrow>
                    (case args of
                       [] \<Rightarrow> ([Got_error], [])
                     | x # more_args \<Rightarrow> let (gs, rest) = getopt_long table more_args in (got n v (Some x) # gs, rest)))
      else if starts_with ''-'' a \<and> 1 < length a then
        let (gs, rest) = getopt_long table args in (Got_error # gs, rest)
      else let (gs, rest) = getopt_long table args in (gs, a # rest))"

text \<open>\<^verbatim>\<open>atoi\<close>; a number that does not fit is undefined.\<close>

definition atoi :: "string \<Rightarrow> job_fault + u32" where
  "atoi str =
     (case scan_number str of
        None \<Rightarrow> Inr 0
      | Some (n, _) \<Rightarrow> if - (2 ^ 31) \<le> n \<and> n < 2 ^ 31 then Inr (word_of_int n) else Inl Unrepresentable)"

text \<open>The name of the job under construction.\<close>

definition cmd_job_name :: "td_ref \<Rightarrow> init_state \<Rightarrow> job_fault + string" where
  "cmd_job_name r s =
     (let p = get_u64 m_name (td_bytes r s) in if p \<noteq> 0 then string_at p s else Inr ''fio'')"

text \<open>A job that cannot be added is put back, after \<^verbatim>\<open>add_job\<close> did so itself.\<close>

definition add_cmd_job :: "init_env \<Rightarrow> td_ref \<Rightarrow> init_state \<Rightarrow> job_fault + int \<times> init_state" where
  "add_cmd_job env r s =
     sbind (cmd_job_name r s) (\<lambda>n.
     sbind (add_job env r n 0 s) (\<lambda>(ret, s).
       if ret \<noteq> 0 then sbind (put_job r s) (\<lambda>s. Inr (ret, s)) else Inr (0, s)))"

text \<open>One option of a job.  The first component tells that \<^verbatim>\<open>parse_cmd_line\<close> returns.\<close>

definition cmd_job_option ::
  "init_env \<Rightarrow> string \<Rightarrow> string option \<Rightarrow> td_ref option \<Rightarrow> init_state \<Rightarrow> job_fault + (bool \<times> td_ref option) \<times> init_state" where
  "cmd_job_option env opt val td s =
     sbind (case td of
              Some r \<Rightarrow> if starts_with ''name'' opt then sbind (add_cmd_job env r s) (\<lambda>(ret, s). Inr ((ret \<noteq> 0, None), s))
                        else Inr ((False, td), s)
            | None \<Rightarrow> Inr ((False, None), s)) (\<lambda>((stop, td), s).
     if stop then Inr ((True, td), s)
     else
       sbind (case td of
                Some r \<Rightarrow> Inr (Some r, s)
              | None \<Rightarrow>
                  (case val of
                     None \<Rightarrow> Inl NullDereference
                   | Some v \<Rightarrow> get_new_job (starts_with ''global'' v) Def_thread s)) (\<lambda>(td, s).
       case td of
         None \<Rightarrow> Inr ((True, None), s)
       | Some r \<Rightarrow>
           sbind (with_td r (parse_cmd_option opt val (options (ie_engines env))) s) (\<lambda>(ret, s).
             if ret \<noteq> 0 then sbind (put_job r s) (\<lambda>s. Inr ((False, None), s)) else Inr ((False, Some r), s))))"

fun parse_cmd_opts ::
  "init_env \<Rightarrow> getopt list \<Rightarrow> td_ref option \<Rightarrow> init_state \<Rightarrow> job_fault + (bool \<times> td_ref option) \<times> init_state" where
  "parse_cmd_opts env [] td s = Inr ((False, td), s)"
| "parse_cmd_opts env (Got_error # gs) td s = parse_cmd_opts env gs td s"
| "parse_cmd_opts env (Got_job opt val # gs) td s =
     sbind (cmd_job_option env opt val td s) (\<lambda>((stop, td), s).
       if stop then Inr ((True, td), s) else parse_cmd_opts env gs td s)"
| "parse_cmd_opts env (Got_char c arg # gs) td s =
     (if c = CHR ''t'' then
        (case arg of None \<Rightarrow> Inl NullDereference
         | Some a \<Rightarrow> sbind (atoi a) (\<lambda>v. parse_cmd_opts env gs td (s\<lparr>st_def_timeout := v\<rparr>)))
      else if c = CHR ''l'' then parse_cmd_opts env gs td (s\<lparr>st_write_lat_log := 1\<rparr>)
      else if c = CHR ''w'' then parse_cmd_opts env gs td (s\<lparr>st_write_bw_log := 1\<rparr>)
      else if c = CHR ''o'' then
        (case arg of None \<Rightarrow> Inl NullDereference
         | Some a \<Rightarrow> if ie_create env a then parse_cmd_opts env gs td s else Inl (Exited 1))
      else if c = CHR ''m'' then parse_cmd_opts env gs td (s\<lparr>st_terse_output := True\<rparr>)
      else if c = CHR ''h'' \<or> c = CHR ''v'' then Inl (Exited 0)
      else parse_cmd_opts env gs td s)"

text \<open>The files named on the command line.\<close>

definition parse_cmd_line :: "init_env \<Rightarrow> string list \<Rightarrow> init_state \<Rightarrow> job_fault + string list \<times> init_state" where
  "parse_cmd_line env args s =
     (let (gs, rest) = getopt_long (dupe_job_options (options (ie_engines env) :: init_state fio_option list)) args
      in sbind (parse_cmd_opts env gs None s) (\<lambda>((stop, td), s).
           if stop then Inr ([], s)
           else case td of
                  None \<Rightarrow> Inr (rest, s)
                | Some r \<Rightarrow> sbind (add_cmd_job env r s) (\<lambda>(_, s). Inr (rest, s))))"

section \<open>All the jobs\<close>

text \<open>The shared segment for the slots: half as many after each answer \<^verbatim>\<open>EINVAL\<close>.\<close>

function shm_slots :: "init_env \<Rightarrow> nat \<Rightarrow> nat option" where
  "shm_slots env max_jobs =
     (case ie_shmget env max_jobs of
        Shm_ok \<Rightarrow> Some max_jobs
      | Shm_failed \<Rightarrow> None
      | Shm_einval \<Rightarrow> (let half = max_jobs div 2 in if half = 0 then None else shm_slots env half))"
  by pat_completeness auto

termination
  by (relation "measure snd") auto

declare shm_slots.simps [simp del]

abbreviation (input) MAX_JOBS :: nat where "MAX_JOBS \<equiv> 1024"

definition setup_thread_area :: "init_env \<Rightarrow> init_state \<Rightarrow> int \<times> init_state" where
  "setup_thread_area env s =
     (case shm_slots env MAX_JOBS of
        None \<Rightarrow> (1, s)
      | Some n \<Rightarrow> if ie_shmat env then (0, s\<lparr>st_threads := replicate n (\<lambda>_. 0)\<rparr>) else (1, s))"

fun parse_files :: "init_env \<Rightarrow> u32 \<Rightarrow> string list \<Rightarrow> init_state \<Rightarrow> job_fault + int \<times> init_state" where
  "parse_files env i [] s = Inr (0, s)"
| "parse_files env i (file # rest) s =
     (let (r, s) = fill_def_thread env s
      in if r \<noteq> 0 then Inr (1, s)
         else sbind (parse_jobs_ini env file i s) (\<lambda>(r, s).
                if r \<noteq> 0 then Inr (1, s) else parse_files env (i + 1) rest s))"

definition parse_options :: "init_env \<Rightarrow> string list \<Rightarrow> init_state \<Rightarrow> job_fault + int \<times> init_state" where
  "parse_options env args s =
     (let (r, s) = setup_thread_area env s
      in if r \<noteq> 0 then Inr (1, s)
         else
           let (r, s) = fill_def_thread env s
           in if r \<noteq> 0 then Inr (1, s)
              else
                sbind (parse_cmd_line env args s) (\<lambda>(names, s).
                sbind (parse_files env 0 names s) (\<lambda>(r, s).
                  if r \<noteq> 0 then Inr (1, s)
                  else if st_thread_number s = 0 then Inr (1, s)
                  else Inr (0, s))))"

section \<open>Random states\<close>

text \<open>The map of a file: \<^verbatim>\<open>blocks\<close> and \<^verbatim>\<open>num_maps\<close> are \<^verbatim>\<open>int\<close>s that take 64-bit quotients.\<close>

definition file_num_maps :: "u64 \<Rightarrow> u32 \<Rightarrow> job_fault + u32" where
  "file_num_maps fsize bs =
     (if bs = 0 then Inl DivideByZero
      else
        let blocks = ucast ((fsize + ucast bs - 1) div ucast bs) :: u32
        in Inr (ucast ((scast blocks + 64 - 1 :: u64) div 64)))"

text \<open>\<^verbatim>\<open>init_random_state\<close> with the four numbers from the random device, \<^const>\<open>None\<close> when it does not open and a shorter list
  when it gives less: the seeds of the four generators and the sizes of the maps.\<close>

record random_init =
  ri_seeds :: "u64 list"
  ri_maps :: "u32 list"

definition init_random_state ::
  "u64 list option \<Rightarrow> job_file list \<Rightarrow> 'a job_state_scheme \<Rightarrow> job_fault + (int \<times> random_init option)" where
  "init_random_state urandom files_of s =
     sbind (job_ops s) (\<lambda>ops.
       if ops_flags ops AND FIO_CPUIO \<noteq> 0 then Inr (0, None)
       else
         case urandom of
           None \<Rightarrow> Inr (1, None)
         | Some seeds \<Rightarrow>
             if length seeds < 4 then Inr (1, None)
             else
               let d = om_data s
               in if get_u32 m_sequential d \<noteq> 0 then Inr (0, Some \<lparr>ri_seeds = take 3 seeds, ri_maps = []\<rparr>)
                  else
                    let seed = (if get_u32 m_rand_repeatable d \<noteq> 0 then 0xb1899bed else seeds ! 3)
                    in sbind (if get_u32 m_norandommap d \<noteq> 0 then Inr []
                              else map_fault (\<lambda>f. file_num_maps (jf_size f) (get_u32 m_rw_min_bs d)) files_of) (\<lambda>maps.
                         Inr (0, Some \<lparr>ri_seeds = take 3 seeds @ [seed], ri_maps = maps\<rparr>)))"

lemma ucast_down: "unat w < 2 ^ LENGTH('b) \<Longrightarrow> unat (ucast w :: 'b::len word) = unat w" for w :: "'a::len word"
  by (simp add: unat_ucast_mod)

lemma ucast_u32_u64: "unat (ucast w :: u64) = unat w" for w :: u32
  by (rule ucast_down) (rule less_trans [OF unat_less_u32], simp)

lemma scast_small: "unat w < 2 ^ 31 \<Longrightarrow> unat (scast w :: u64) = unat w" for w :: u32
proof -
  assume "unat w < 2 ^ 31"
  then have "sint w = int (unat w)" by (simp add: sint_small)
  then have "(scast w :: u64) = word_of_int (int (unat w))" by (metis scast_eq)
  also have "\<dots> = of_nat (unat w)" by simp
  finally show ?thesis by (simp add: ucast_u32_u64)
qed

text \<open>C22: the map of a file has a bit for every block of the smallest size, and less than one word more than it needs, as
  long as the number of blocks fits an \<^verbatim>\<open>int\<close>.\<close>

theorem file_num_maps_enough:
  assumes "file_num_maps fsize bs = Inr n" "unat fsize + unat bs < 2 ^ 64" "(unat fsize + unat bs - 1) div unat bs < 2 ^ 31"
  shows "unat fsize \<le> unat n * 64 * unat bs \<and> unat n * 64 < unat fsize div unat bs + 65"
proof -
  define k where "k = (unat fsize + unat bs - 1) div unat bs"
  have b: "0 < unat bs" using assms(1) by (auto simp: file_num_maps_def unat_gt_0 split: if_splits)
  have k31: "k < 2 ^ 31" using assms(3) by (simp add: k_def)
  have ub: "unat (ucast bs :: u64) = unat bs" by (rule ucast_u32_u64)
  have sum: "unat (fsize + ucast bs) = unat fsize + unat bs"
    using assms(2) by (simp add: unat_word_ariths ub)
  have "unat (fsize + ucast bs - 1) = unat fsize + unat bs - 1"
    using b sum by (subst unat_sub) (auto simp: word_le_nat_alt)
  then have q: "unat ((fsize + ucast bs - 1) div ucast bs) = k"
    by (simp add: unat_div ub k_def)
  define w where "w = (ucast ((fsize + ucast bs - 1) div ucast bs) :: u32)"
  have w: "unat w = k" using q k31 by (simp add: w_def ucast_down)
  have sw: "unat (scast w :: u64) = k" using scast_small [of w] w k31 by simp
  have "unat (scast w + 64 :: u64) = k + 64" using sw k31 by (simp add: unat_word_ariths)
  then have "unat (scast w + 64 - 1 :: u64) = k + 63" by (subst unat_sub) (auto simp: word_le_nat_alt)
  then have "unat ((scast w + 64 - 1 :: u64) div 64) = (k + 63) div 64" by (simp add: unat_div)
  then have n: "unat n = (k + 63) div 64"
    using assms(1) b k31 by (auto simp: file_num_maps_def Let_def w_def [symmetric] ucast_down split: if_splits)
  have "unat fsize \<le> k * unat bs"
  proof -
    have "unat fsize + unat bs - 1 < (k + 1) * unat bs"
      using b dividend_less_div_times [of "unat bs" "unat fsize + unat bs - 1"] by (simp add: k_def algebra_simps)
    then show ?thesis by simp
  qed
  moreover have "k \<le> unat n * 64" by (simp add: n)
  ultimately have a: "unat fsize \<le> unat n * 64 * unat bs" by (meson le_trans mult_le_mono1)
  have "k \<le> unat fsize div unat bs + 1"
  proof -
    have "k \<le> (unat fsize + unat bs) div unat bs" unfolding k_def by (rule div_le_mono) simp
    also have "\<dots> = unat fsize div unat bs + 1" using b div_add_self2 [of "unat bs" "unat fsize"] by linarith
    finally show ?thesis .
  qed
  moreover have "unat n * 64 < k + 64" by (simp add: n)
  ultimately show ?thesis using a by simp
qed

text \<open>1 MiB and a byte in blocks of 4 KiB: 257 blocks, five words.\<close>

theorem file_num_maps_enough_witness:
  "unat (1048577 :: u64) \<le> 5 * 64 * 4096 \<and> (5 :: nat) * 64 < unat (1048577 :: u64) div 4096 + 65"
proof -
  have "file_num_maps 1048577 4096 = Inr 5" by (simp add: file_num_maps_def Let_def)
  from file_num_maps_enough [OF this] show ?thesis by simp
qed

end
