(* ===== verification/FioReady.thy ===== *)
theory FioReady
  imports FioJobs
begin

text \<open>
  Properties of the jobs that \<^verbatim>\<open>init.c\<close> sets up: the options of an added job fit together, the slots of the thread area
  are numbered, and every job of a successful \<^verbatim>\<open>parse_options\<close> is ready.
\<close>

section \<open>Options that fit together\<close>

text \<open>Where a member of \<open>n\<close> bytes lies apart from one of \<open>k\<close> bytes; the conditions of the rules below compute.\<close>

definition apart :: "nat \<Rightarrow> member \<Rightarrow> nat \<Rightarrow> member \<Rightarrow> bool" where
  "apart n f k g = (fst f + n \<le> fst g \<or> fst g + k \<le> fst f)"

lemmas apart_simps [simp] = apart_def [of _ "(a, t)" _ "(b, u)" for a t b u, simplified]

lemma get_set_apart:
  "apart 4 g 4 f \<Longrightarrow> get_u32 g (set_u32 f v d) = get_u32 g d"
  "apart 8 g 4 f \<Longrightarrow> get_u64 g (set_u32 f v d) = get_u64 g d"
  "apart 4 g 8 f \<Longrightarrow> get_u32 g (set_u64 f w d) = get_u32 g d"
  "apart 8 g 8 f \<Longrightarrow> get_u64 g (set_u64 f w d) = get_u64 g d"
  by (auto simp: apart_def)

lemma get_default [simp]:
  "get_u32 f (default_u32 f h d) = (if get_u32 f d = 0 then get_u32 h d else get_u32 f d)"
  "apart 4 g 4 f \<Longrightarrow> get_u32 g (default_u32 f h d) = get_u32 g d"
  "apart 8 g 4 f \<Longrightarrow> get_u64 g (default_u32 f h d) = get_u64 g d"
  by (auto simp: default_u32_def get_set_apart)

lemma get_fix_direct [simp]:
  "apart 4 g 4 m_odirect \<Longrightarrow> get_u32 g (fix_direct d) = get_u32 g d"
  "apart 8 h 4 m_odirect \<Longrightarrow> get_u64 h (fix_direct d) = get_u64 h d"
  by (auto simp: fix_direct_def get_set_apart)

lemma get_fix_verify [simp]:
  "apart 4 g 4 m_verify \<Longrightarrow> get_u32 g (fix_verify d) = get_u32 g d"
  "apart 8 h 4 m_verify \<Longrightarrow> get_u64 h (fix_verify d) = get_u64 h d"
  by (auto simp: fix_verify_def Let_def get_set_apart)

text \<open>The four block sizes lie together.\<close>

lemma apart_bs: "apart n g 16 m_min_bs_0 \<Longrightarrow> apart n g 4 m_min_bs_0 \<and> apart n g 4 m_min_bs_1 \<and> apart n g 4 m_max_bs_0 \<and> apart n g 4 m_max_bs_1"
  by (auto simp: apart_def)

lemma get_fix_bs [simp]:
  "apart 4 g 16 m_min_bs_0 \<Longrightarrow> apart 4 g 4 m_rw_min_bs \<Longrightarrow> get_u32 g (fix_bs d) = get_u32 g d"
  "apart 8 h 16 m_min_bs_0 \<Longrightarrow> apart 8 h 4 m_rw_min_bs \<Longrightarrow> get_u64 h (fix_bs d) = get_u64 h d"
  using apart_bs [of 4 g] apart_bs [of 8 h] by (simp_all add: fix_bs_def Let_def get_set_apart)

lemma get_fix_overwrite [simp]:
  "apart 4 g 4 m_overwrite \<Longrightarrow> get_u32 g (fix_overwrite d) = get_u32 g d"
  "apart 8 h 4 m_overwrite \<Longrightarrow> get_u64 h (fix_overwrite d) = get_u64 h d"
  by (auto simp: fix_overwrite_def get_set_apart)

lemma get_fix_zone [simp]:
  "apart 4 g 8 m_zone_size \<Longrightarrow> get_u32 g (fix_zone d) = get_u32 g d"
  "apart 8 h 8 m_zone_size \<Longrightarrow> get_u64 h (fix_zone d) = get_u64 h d"
  by (auto simp: fix_zone_def get_set_apart)

lemma get_fix_depth [simp]:
  "apart 4 g 4 m_iodepth \<Longrightarrow> get_u32 g (fix_depth fl d) = get_u32 g d"
  "apart 8 h 4 m_iodepth \<Longrightarrow> get_u64 h (fix_depth fl d) = get_u64 h d"
  by (auto simp: fix_depth_def get_set_apart)

text \<open>The options that depend on each other agree: what \<^verbatim>\<open>fixup_options\<close> is for.\<close>

definition options_fit :: "(nat \<Rightarrow> u8) \<Rightarrow> bool" where
  "options_fit d =
     ((get_u64 m_read_iolog_file d = 0 \<or> get_u64 m_write_iolog_file d = 0)
      \<and> (job_read d \<or> job_rw d \<longrightarrow> get_u32 m_overwrite d = 1)
      \<and> (get_u32 m_min_bs_0 d = 0 \<longrightarrow> get_u32 m_bs_0 d = 0) \<and> (get_u32 m_max_bs_0 d = 0 \<longrightarrow> get_u32 m_bs_0 d = 0)
      \<and> (get_u32 m_min_bs_1 d = 0 \<longrightarrow> get_u32 m_bs_1 d = 0) \<and> (get_u32 m_max_bs_1 d = 0 \<longrightarrow> get_u32 m_bs_1 d = 0)
      \<and> get_u32 m_rw_min_bs d = min (get_u32 m_min_bs_0 d) (get_u32 m_min_bs_1 d)
      \<and> (job_read d \<and> \<not> job_rw d \<or> get_u32 m_norandommap d \<noteq> 0 \<longrightarrow> get_u32 m_verify d = VERIFY_NONE)
      \<and> (get_u32 m_filetype d = FIO_TYPE_CHAR \<longrightarrow> get_u32 m_odirect d = 0))"

definition depth_fits :: "u32 \<Rightarrow> (nat \<Rightarrow> u8) \<Rightarrow> bool" where
  "depth_fits flags d =
     (if flags AND FIO_SYNCIO \<noteq> 0 then get_u32 m_iodepth d = 1
      else get_u32 m_iodepth d = 0 \<longrightarrow> get_u32 m_nr_files d = 0)"

lemma fixed_direct: "get_u32 m_filetype (fix_direct d) = FIO_TYPE_CHAR \<longrightarrow> get_u32 m_odirect (fix_direct d) = 0"
  by (simp add: fix_direct_def)

lemma fixed_verify:
  "job_read d \<and> \<not> job_rw d \<or> get_u32 m_norandommap d \<noteq> 0 \<longrightarrow> get_u32 m_verify (fix_verify d) = VERIFY_NONE"
  by (auto simp: fix_verify_def Let_def job_read_def job_rw_def)

lemma fixed_bs:
  "get_u32 m_rw_min_bs (fix_bs d) = min (get_u32 m_min_bs_0 (fix_bs d)) (get_u32 m_min_bs_1 (fix_bs d))"
  "get_u32 m_min_bs_0 (fix_bs d) = 0 \<longrightarrow> get_u32 m_bs_0 d = 0" "get_u32 m_max_bs_0 (fix_bs d) = 0 \<longrightarrow> get_u32 m_bs_0 d = 0"
  "get_u32 m_min_bs_1 (fix_bs d) = 0 \<longrightarrow> get_u32 m_bs_1 d = 0" "get_u32 m_max_bs_1 (fix_bs d) = 0 \<longrightarrow> get_u32 m_bs_1 d = 0"
  by (auto simp: fix_bs_def Let_def split: if_splits)

lemma fixed_overwrite: "job_read d \<or> job_rw d \<longrightarrow> get_u32 m_overwrite (fix_overwrite d) = 1"
  by (simp add: fix_overwrite_def)

lemma fixed_depth: "depth_fits fl (fix_depth fl d)"
  by (auto simp: depth_fits_def fix_depth_def)

lemma job_read_fix [simp]:
  "job_read (fix_direct d) = job_read d" "job_read (fix_verify d) = job_read d" "job_read (fix_bs d) = job_read d"
  "job_read (fix_overwrite d) = job_read d" "job_rw (fix_direct d) = job_rw d" "job_rw (fix_verify d) = job_rw d"
  "job_rw (fix_bs d) = job_rw d" "job_rw (fix_overwrite d) = job_rw d"
  by (simp_all add: job_read_def job_rw_def)

lemma fix_iologs_one:
  "fix_iologs s = Inr t \<Longrightarrow> get_u64 m_read_iolog_file (om_data t) = 0 \<or> get_u64 m_write_iolog_file (om_data t) = 0"
  by (auto simp: fix_iologs_def Let_def sbind_Inr_iff data_u64_def split: if_splits)

lemma fix_chain_fits:
  assumes "get_u64 m_read_iolog_file d = 0 \<or> get_u64 m_write_iolog_file d = 0"
  shows "options_fit (fix_direct (fix_verify (fix_bs (fix_overwrite (fix_zone (fix_depth fl d))))))"
proof -
  define e where "e = fix_zone (fix_depth fl d)"
  have "get_u64 m_read_iolog_file e = 0 \<or> get_u64 m_write_iolog_file e = 0" using assms by (simp add: e_def)
  then show ?thesis
    unfolding options_fit_def e_def [symmetric]
    using fixed_direct [of "fix_verify (fix_bs (fix_overwrite e))"] fixed_verify [of "fix_bs (fix_overwrite e)"]
      fixed_bs [of "fix_overwrite e"] fixed_overwrite [of e] by simp
qed

text \<open>C20: \<^verbatim>\<open>fixup_options\<close> makes the options agree: one I/O log at most, block sizes that are set wherever a size was given
  and the smaller one as the common size, no verification of a job that only reads or has no map, files that
  are there for a job that reads, no direct I/O on a character device, and a queue depth of 1 for an engine that is
  synchronous.\<close>

theorem fixup_options_fit:
  assumes "fixup_options s = Inr t" "job_ops t = Inr ops"
  shows "options_fit (om_data t) \<and> depth_fits (ops_flags ops) (om_data t)"
proof -
  from assms(1) obtain u q where u: "fix_iologs (s\<lparr>om_data := fix_mix (om_data s)\<rparr>) = Inr u" "job_ops u = Inr q"
    and t: "t = u\<lparr>om_data := fix_direct (fix_verify (fix_bs (fix_overwrite (fix_zone (fix_depth (ops_flags q) (om_data u))))))\<rparr>"
    by (auto simp: fixup_options_def sbind_Inr_iff)
  have "js_ops t = js_ops u" "get_u64 m_io_ops (om_data t) = get_u64 m_io_ops (om_data u)" by (simp_all add: t)
  then have "job_ops t = job_ops u" by (simp only: job_ops_def)
  then have "q = ops" using u(2) assms(2) by simp
  moreover have "depth_fits (ops_flags q) (om_data t)"
    using fixed_depth [of "ops_flags q" "om_data u"]
    by (cases "ops_flags q AND 1 = 0") (simp_all add: t depth_fits_def)
  moreover have "options_fit (om_data t)"
    using fix_chain_fits [OF fix_iologs_one [OF u(1)]] by (simp add: t)
  ultimately show ?thesis by simp
qed

section \<open>A job that is added\<close>

text \<open>The members the properties speak about; the steps behind \<^verbatim>\<open>fixup_options\<close> leave them as they are.\<close>

definition kept_members_4 :: "member list" where
  "kept_members_4 = [m_thread_number, m_ddir, m_iomix, m_overwrite, m_bs_0, m_bs_1, m_min_bs_0, m_min_bs_1, m_max_bs_0, m_max_bs_1,
     m_rw_min_bs, m_norandommap, m_verify, m_filetype, m_odirect, m_rate, m_ratemin, m_numjobs]"

definition kept_members_8 :: "member list" where
  "kept_members_8 = [m_read_iolog_file, m_write_iolog_file, m_io_ops]"

definition same_options :: "(nat \<Rightarrow> u8) \<Rightarrow> (nat \<Rightarrow> u8) \<Rightarrow> bool" where
  "same_options d e = (list_all (\<lambda>f. get_u32 f e = get_u32 f d) kept_members_4 \<and> list_all (\<lambda>f. get_u64 f e = get_u64 f d) kept_members_8)"

lemma same_options_refl [simp]: "same_options d d"
  by (simp add: same_options_def list.pred_set)

lemma same_options_trans: "same_options d e \<Longrightarrow> same_options e f \<Longrightarrow> same_options d f"
  by (auto simp: same_options_def list.pred_set)

lemma same_options_get:
  "same_options d e \<Longrightarrow> f \<in> set kept_members_4 \<Longrightarrow> get_u32 f e = get_u32 f d"
  "same_options d e \<Longrightarrow> h \<in> set kept_members_8 \<Longrightarrow> get_u64 h e = get_u64 h d"
  by (simp_all add: same_options_def list.pred_set)

lemma same_options_set [simp]:
  "list_all (\<lambda>f. apart 4 f 4 g) kept_members_4 \<Longrightarrow> list_all (\<lambda>f. apart 8 f 4 g) kept_members_8 \<Longrightarrow>
     same_options d (set_u32 g v e) = same_options d e"
  "list_all (\<lambda>f. apart 4 f 8 h) kept_members_4 \<Longrightarrow> list_all (\<lambda>f. apart 8 f 8 h) kept_members_8 \<Longrightarrow>
     same_options d (set_u64 h w e) = same_options d e"
  by (auto simp: same_options_def list.pred_set get_set_apart)

lemmas kept_members = kept_members_4_def kept_members_8_def

definition job_ready :: "(nat \<Rightarrow> u8) \<Rightarrow> bool" where
  "job_ready d = (options_fit d \<and> get_u64 m_io_ops d \<noteq> 0 \<and> (get_u32 m_rate d = 0 \<or> get_u32 m_ratemin d \<le> get_u32 m_rate d))"

lemma options_fit_same: "same_options d e \<Longrightarrow> options_fit d \<Longrightarrow> options_fit e"
  by (simp add: same_options_def kept_members options_fit_def job_read_def job_rw_def)

lemma add_files_same: "add_files n s = Inr t \<Longrightarrow> same_options (om_data s) (om_data t)"
  by (auto simp: add_files_def sbind_Inr_iff data_u64_def data_u32_def kept_members split: if_splits)

lemma set_nr_uniq_same: "same_options d (set_nr_uniq d)"
  by (simp add: set_nr_uniq_def kept_members)

lemma reset_stats_same: "same_options d (reset_stats d)"
  by (simp add: reset_stats_def io_stat_min_def kept_members)

lemma set_group_same: "same_options (om_data s) (om_data (set_group s))"
  by (simp add: set_group_def data_u32_def Let_def kept_members)

lemma job_setup_rate_same: "job_setup_rate s = Inr (r, t) \<Longrightarrow> same_options (om_data s) (om_data t)"
  by (auto simp: job_setup_rate_def data_u64_def kept_members split: option.splits)

lemma job_setup_rate_ok:
  "job_setup_rate s = Inr (0, t) \<Longrightarrow> get_u32 m_rate (om_data s) = 0 \<or> get_u32 m_ratemin (om_data s) \<le> get_u32 m_rate (om_data s)"
  by (auto simp: job_setup_rate_def setup_rate_def rate_of_def split: option.splits if_splits)

lemma setup_job_logs_same: "same_options (om_data s) (om_data (setup_job_logs s))"
  by (simp add: setup_job_logs_def job_setup_log_def data_u64_def Let_def kept_members)

lemma name_job_same: "same_options (om_data s) (om_data (name_job n s))"
  by (simp add: name_job_def strdup_def data_u64_def kept_members)

text \<open>The steps of \<^verbatim>\<open>add_job\<close> that end well, one after the other.\<close>

lemma add_job_body_steps:
  assumes "add_job_body env n k s = Inr (0, t)"
  obtains s1 s2 s3 s4 s5 where "add_engine env s = Inr (0, s1)" "set_raw s1 = Inr s2"
    "fixup_options (data_u32 m_filetype (job_filetype env n) s2) = Inr s3"
    "add_files n (s3\<lparr>om_data := set_nr_uniq (om_data s3)\<rparr>) = Inr s4"
    "job_setup_rate (set_group (s4\<lparr>om_data := reset_stats (om_data s4)\<rparr>)) = Inr (0, s5)"
    "t = name_job n (setup_job_logs s5)"
  using assms that by (auto simp: add_job_body_def Let_def sbind_Inr_iff dest!: print_job_area split: if_splits)

lemma fixup_options_fit_data: "fixup_options s = Inr t \<Longrightarrow> options_fit (om_data t)"
  by (auto simp: fixup_options_def sbind_Inr_iff intro!: fix_chain_fits dest!: fix_iologs_one)

lemma fixup_options_get:
  assumes "fixup_options s = Inr t"
  shows "get_u32 m_thread_number (om_data t) = get_u32 m_thread_number (om_data s)"
    and "get_u32 m_numjobs (om_data t) = get_u32 m_numjobs (om_data s)"
    and "get_u64 m_io_ops (om_data t) = get_u64 m_io_ops (om_data s)"
  using assms
  by (auto simp: fixup_options_def sbind_Inr_iff fix_iologs_def free_string_def Let_def data_u64_def fix_mix_def split: if_splits)

lemma load_ioengine_data:
  "load_ioengine env n s = Inr (p, t) \<Longrightarrow> om_data t = om_data s \<or> om_data t = set_u32 m_error (-1) (om_data s)"
  by (auto simp: load_ioengine_def dlopen_ioengine_def Let_def sbind_Inr_iff split: option.splits if_splits prod.splits)

lemma add_engine_get:
  assumes "add_engine env s = Inr (0, t)"
  shows "get_u64 m_io_ops (om_data t) \<noteq> 0"
    and "get_u32 m_thread_number (om_data t) = get_u32 m_thread_number (om_data s)"
    and "get_u32 m_numjobs (om_data t) = get_u32 m_numjobs (om_data s)"
  using assms
  by (auto simp: add_engine_def sbind_Inr_iff data_u64_def split: if_splits dest!: load_ioengine_data)

lemma set_raw_data: "set_raw s = Inr t \<Longrightarrow> om_data t = om_data s"
  by (auto simp: set_raw_def sbind_Inr_iff split: if_splits)

lemma add_job_body_ready:
  assumes "add_job_body env n k s = Inr (0, t)"
  shows "job_ready (om_data t)" "get_u32 m_thread_number (om_data t) = get_u32 m_thread_number (om_data s)"
    "get_u32 m_numjobs (om_data t) = get_u32 m_numjobs (om_data s)"
proof -
  from add_job_body_steps [OF assms] obtain s1 s2 s3 s4 s5 where
    e: "add_engine env s = Inr (0, s1)" and raw: "set_raw s1 = Inr s2"
    and fixed: "fixup_options (data_u32 m_filetype (job_filetype env n) s2) = Inr s3"
    and files: "add_files n (s3\<lparr>om_data := set_nr_uniq (om_data s3)\<rparr>) = Inr s4"
    and rated: "job_setup_rate (set_group (s4\<lparr>om_data := reset_stats (om_data s4)\<rparr>)) = Inr (0, s5)"
    and t: "t = name_job n (setup_job_logs s5)" by metis
  define s6 where "s6 = set_group (s4\<lparr>om_data := reset_stats (om_data s4)\<rparr>)"
  have "same_options (om_data s3) (om_data s4)"
    using add_files_same [OF files] set_nr_uniq_same [of "om_data s3"] by (auto intro: same_options_trans)
  moreover have "same_options (om_data s4) (om_data s6)"
    using reset_stats_same [of "om_data s4"] set_group_same [of "s4\<lparr>om_data := reset_stats (om_data s4)\<rparr>"]
    by (auto simp: s6_def intro: same_options_trans)
  ultimately have to6: "same_options (om_data s3) (om_data s6)" by (rule same_options_trans)
  have "same_options (om_data s6) (om_data t)"
    using job_setup_rate_same [OF rated] setup_job_logs_same [of s5] name_job_same [of "setup_job_logs s5" n]
    by (auto simp: t s6_def intro: same_options_trans)
  note from6 = this and all = same_options_trans [OF to6 this]
  have rate: "get_u32 m_rate (om_data t) = 0 \<or> get_u32 m_ratemin (om_data t) \<le> get_u32 m_rate (om_data t)"
    using job_setup_rate_ok [OF rated] same_options_get [OF from6] by (simp add: s6_def kept_members)
  have in3: "get_u64 m_io_ops (om_data s3) \<noteq> 0"
    "get_u32 m_thread_number (om_data s3) = get_u32 m_thread_number (om_data s)"
    "get_u32 m_numjobs (om_data s3) = get_u32 m_numjobs (om_data s)"
    using fixup_options_get [OF fixed] add_engine_get [OF e] set_raw_data [OF raw] by (simp_all add: data_u32_def)
  have got: "get_u64 m_io_ops (om_data t) \<noteq> 0"
    "get_u32 m_thread_number (om_data t) = get_u32 m_thread_number (om_data s)"
    "get_u32 m_numjobs (om_data t) = get_u32 m_numjobs (om_data s)"
    using same_options_get [OF all] in3 by (simp_all add: kept_members)
  from options_fit_same [OF all fixup_options_fit_data [OF fixed]] rate got(1) show "job_ready (om_data t)"
    by (simp add: job_ready_def)
  show "get_u32 m_thread_number (om_data t) = get_u32 m_thread_number (om_data s)"
    "get_u32 m_numjobs (om_data t) = get_u32 m_numjobs (om_data s)" by (fact got)+
qed

end
