(* ===== verification/FioArea.thy ===== *)
theory FioArea
  imports FioReady
begin

text \<open>
  The thread area through the whole of \<^verbatim>\<open>parse_options\<close>: no option of the table changes the number of a job, so the jobs
  stay numbered by their slots, and every job that is kept is ready.
\<close>

section \<open>Options keep the number of the job\<close>

definition keeps_number :: "init_state \<Rightarrow> init_state \<Rightarrow> bool" where
  "keeps_number s t = (same_area s t \<and> get_u32 m_thread_number (om_data t) = get_u32 m_thread_number (om_data s))"

lemma keeps_number_refl [simp]: "keeps_number s s"
  by (simp add: keeps_number_def)

lemma keeps_number_trans: "keeps_number s t \<Longrightarrow> keeps_number t u \<Longrightarrow> keeps_number s u"
  by (auto simp: keeps_number_def intro: same_area_trans)

lemma keeps_number_set [simp]:
  "apart 4 m_thread_number 4 f \<Longrightarrow> keeps_number s (data_u32 f v t) = keeps_number s t"
  "apart 4 m_thread_number 8 f \<Longrightarrow> keeps_number s (data_u64 f w t) = keeps_number s t"
  by (simp_all add: keeps_number_def data_u32_def data_u64_def get_set_apart del: apart_simps)

lemma keeps_number_more [simp]:
  "keeps_number s (t\<lparr>om_heap := h\<rparr>) = keeps_number s t" "keeps_number s (t\<lparr>js_ops := q\<rparr>) = keeps_number s t"
  "keeps_number s (t\<lparr>om_erange := e\<rparr>) = keeps_number s t" "keeps_number s (t\<lparr>st_mlock_size := m\<rparr>) = keeps_number s t"
  "keeps_number s (t\<lparr>st_exitall := b\<rparr>) = keeps_number s t"
  by (simp_all add: keeps_number_def same_area_def)

text \<open>A handler keeps it.\<close>

fun handler_keeps :: "init_state opt_cb \<Rightarrow> bool" where
  "handler_keeps (Cb_str f) = (\<forall>p s r t. f p s = Inr (r, t) \<longrightarrow> keeps_number s t)"
| "handler_keeps (Cb_val g) = (\<forall>v s r t. g v s = Inr (r, t) \<longrightarrow> keeps_number s t)"
| "handler_keeps (Cb_int h) = (\<forall>v s r t. h v s = Inr (r, t) \<longrightarrow> keeps_number s t)"
| "handler_keeps (Cb_set k) = (\<forall>s r t. k s = Inr (r, t) \<longrightarrow> keeps_number s t)"

lemma load_ioengine_keeps: "load_ioengine env n s = Inr (p, t) \<Longrightarrow> keeps_number s t"
  using load_ioengine_area [of env n s p t] load_ioengine_data [of env n s p t]
  by (auto simp: keeps_number_def get_set_apart)

lemma get_mmap_file_keeps: "get_mmap_file str s = Inr (p, t) \<Longrightarrow> keeps_number s t"
  by (auto simp: get_mmap_file_def strdup_def Let_def split: option.splits)

lemma handlers_keep:
  "handler_keeps (Cb_str str_rw_cb)" "handler_keeps (Cb_str (str_ioengine_cb env))" "handler_keeps (Cb_str str_mem_cb)"
  "handler_keeps (Cb_str str_verify_cb)" "handler_keeps (Cb_val str_lockmem_cb)" "handler_keeps (Cb_int str_prio_cb)"
  "handler_keeps (Cb_int str_prioclass_cb)" "handler_keeps (Cb_int str_cpumask_cb)" "handler_keeps (Cb_set str_exitall_cb)"
proof -
  show "handler_keeps (Cb_str str_rw_cb)"
    by (auto simp: str_rw_cb_def set_ddir_def set_ddir_mix_def split: if_splits)
  show "handler_keeps (Cb_str (str_ioengine_cb env))"
    by (auto simp: str_ioengine_cb_def sbind_Inr_iff Let_def dest!: load_ioengine_keeps split: if_splits)
  show "handler_keeps (Cb_str str_mem_cb)"
    by (auto simp: str_mem_cb_def sbind_Inr_iff Let_def dest!: get_mmap_file_keeps split: if_splits)
  show "handler_keeps (Cb_str str_verify_cb)"
    by (auto simp: str_verify_cb_def split: if_splits)
qed (auto simp: str_lockmem_cb_def str_prio_cb_def str_prioclass_cb_def str_cpumask_cb_def str_exitall_cb_def Let_def)

text \<open>An option keeps it: by its handler, or because the bytes of the number are none it stores to.\<close>

definition option_keeps :: "init_state fio_option \<Rightarrow> bool" where
  "option_keeps x =
     (case opt_cb x of
        Some fn \<Rightarrow> handler_fits (opt_type x) fn \<and> handler_keeps fn
      | None \<Rightarrow> list_all (\<lambda>(off, n). apart 4 m_thread_number n (off, C_uint)) (option_writes x))"

lemma store_uint_area [simp]: "same_area s (store_uint v off t) = same_area s t"
  by (simp add: store_uint_def)

lemma store_ull_area [simp]: "same_area s (store_ull v off t) = same_area s t"
  by (simp add: store_ull_def)

lemma same_area_erange [simp]: "same_area s (t\<lparr>om_erange := e\<rparr>) = same_area s t"
  by (simp add: same_area_def)

lemma handle_range_area: "handle_range x p first again s = Inr (r, t) \<Longrightarrow> same_area s t"
proof -
  have "case handle_range x p first again s of Inl _ \<Rightarrow> True | Inr (r, t) \<Rightarrow> same_area s t"
    unfolding handle_range_def Let_def by (auto simp: sbind_def split: sum.splits option.splits prod.splits)
  then show "handle_range x p first again s = Inr (r, t) \<Longrightarrow> same_area s t" by simp
qed

lemma store_pair_area [simp]:
  "same_area s (store_pair store_uint v x first again t) = same_area s t"
  "same_area s (store_pair store_ull w x first again t) = same_area s t"
  by (simp_all add: store_pair_def Let_def)

lemma handle_str_val_area:
  assumes "opt_cb x = None" "handle_str_val x is_time p first again s = Inr (r, t)"
  shows "same_area s t"
proof -
  have "case handle_str_val x is_time p first again s of Inl _ \<Rightarrow> True | Inr (r, t) \<Rightarrow> same_area s t"
    unfolding handle_str_val_def Let_def using assms(1) by (auto split: option.splits prod.splits)
  then show ?thesis using assms(2) by simp
qed

lemma handle_plain_area:
  assumes "opt_cb x = None" "handle_one_option x ptr first again s = Inr (r, t)"
  shows "same_area s t"
proof (cases ptr)
  case None
  then show ?thesis using assms by (auto simp: handle_one_option_def handle_set_def split: if_splits)
next
  case (Some p)
  then show ?thesis using assms handle_range_area handle_str_val_area
    by (cases "opt_type x")
       (auto simp: handle_one_option_def handle_set_def handle_int_def strdup_def sbind_Inr_iff Let_def split: option.splits)
qed

lemma handle_called_str:
  assumes "opt_cb x = Some (Cb_str f)" "opt_type x = FIO_OPT_STR" "handler_keeps (Cb_str f)"
    and "handle_one_option x ptr first again s = Inr (r, t)"
  shows "keeps_number s t"
  using assms by (cases ptr) (auto simp: handle_one_option_def)

lemma handle_called_val:
  assumes "opt_cb x = Some (Cb_val g)" "handler_keeps (Cb_val g)" "handle_str_val x is_time p first again s = Inr (r, t)"
  shows "keeps_number s t"
proof -
  obtain v e where "(if is_time then check_str_time p (om_erange s) else check_str_bytes p (om_erange s)) = (v, e)"
    by fastforce
  then obtain u where "t = s\<lparr>om_erange := e\<rparr> \<or> g u (s\<lparr>om_erange := e\<rparr>) = Inr (r, t)"
    using assms(1,3) by (auto simp: handle_str_val_def Let_def split: option.splits)
  then have "keeps_number (s\<lparr>om_erange := e\<rparr>) t" using assms(2) by auto
  then show ?thesis by (simp add: keeps_number_def same_area_def)
qed

lemma handle_called_int:
  assumes "opt_cb x = Some (Cb_int h)" "handler_keeps (Cb_int h)" "handle_int x p first again s = Inr (r, t)"
  shows "keeps_number s t"
proof -
  from assms(3) obtain v where "check_int p = Inr v" by (auto simp: handle_int_def sbind_Inr_iff)
  then show ?thesis using assms by (cases v) (auto simp: handle_int_def Let_def)
qed

lemma handle_called:
  assumes "opt_cb x = Some fn" "handler_fits (opt_type x) fn" "handler_keeps fn"
    and "handle_one_option x ptr first again s = Inr (r, t)"
  shows "keeps_number s t"
proof (cases fn)
  case (Cb_str f)
  with assms handle_called_str show ?thesis by simp
next
  case (Cb_val g)
  with assms handle_called_val [of x g] show ?thesis by (cases ptr) (auto simp: handle_one_option_def)
next
  case (Cb_int h)
  with assms handle_called_int [of x h] show ?thesis by (cases ptr) (auto simp: handle_one_option_def)
next
  case (Cb_set k)
  with assms show ?thesis by (cases ptr) (auto simp: handle_one_option_def handle_set_def)
qed

lemma handle_one_option_number:
  assumes "option_keeps x" "handle_one_option x ptr first again s = Inr (r, t)"
  shows "keeps_number s t"
proof (cases "opt_cb x")
  case (Some fn)
  with assms handle_called show ?thesis by (fastforce simp: option_keeps_def)
next
  case None
  have "om_data t a = om_data s a" if "fst m_thread_number \<le> a" "a < fst m_thread_number + 4" for a
  proof (rule handle_one_option_data(2) [OF None assms(2)])
    show "outside_writes a x"
      using assms(1) None that by (fastforce simp: option_keeps_def outside_writes_def list_all_iff apart_def)
  qed
  then have "load_le 4 (fst m_thread_number) (om_data t) = load_le 4 (fst m_thread_number) (om_data s)"
    unfolding load_le_def by (intro arg_cong [where f = le_value] map_cong) auto
  with handle_plain_area [OF None assms(2)] show ?thesis
    by (simp add: keeps_number_def get_u32_def)
qed

lemma handle_option_number:
  assumes "option_keeps x" "handle_option x ptr s = Inr (r, t)"
  shows "keeps_number s t"
proof -
  define q where "q = Option.bind ptr (after_char CHR '','')"
  from assms(2) obtain r1 s1 where one: "handle_one_option x ptr True (q \<noteq> None) s = Inr (r1, s1)"
    and two: "q = None \<and> t = s1 \<or> (\<exists>r2. handle_one_option x q False False s1 = Inr (r2, t))"
    unfolding handle_option_def Let_def q_def [symmetric] by (auto simp: sbind_Inr_iff split: if_splits)
  from two have "keeps_number s1 t"
    using handle_one_option_number [OF assms(1), of q False False s1] by auto
  with handle_one_option_number [OF assms(1) one] show ?thesis by (rule keeps_number_trans)
qed

text \<open>Every option of the table.\<close>

lemma option_keeps_plain:
  "t \<in> {FIO_OPT_STR_STORE, FIO_OPT_STR_VAL, FIO_OPT_STR_VAL_TIME, FIO_OPT_INT, FIO_OPT_STR_SET} \<Longrightarrow> fst f < 4294967296 \<Longrightarrow>
     option_keeps (opt_plain n t f) = apart 4 m_thread_number (if t = FIO_OPT_INT \<or> t = FIO_OPT_STR_SET then 4 else 8) f"
  by (auto simp: option_keeps_def opt_plain_def option_writes_def Let_def unat_td_var_offset apart_def)

lemma option_keeps_handler: "option_keeps (opt_handler n t fn) = (handler_fits t fn \<and> handler_keeps fn)"
  by (simp add: option_keeps_def opt_handler_def)

lemma option_keeps_capped: "option_keeps (x\<lparr>opt_max := v\<rparr>) = option_keeps x"
proof -
  have w: "option_writes (x\<lparr>opt_max := v\<rparr>) = option_writes x"
    by (cases "opt_type x") (simp_all add: option_writes_def Let_def)
  have t: "opt_type (x\<lparr>opt_max := v\<rparr>) = opt_type x" "opt_cb (x\<lparr>opt_max := v\<rparr>) = opt_cb x" by simp_all
  show ?thesis by (simp only: option_keeps_def w t)
qed

lemma options_keep: "list_all option_keeps (options env)"
proof -
  have pair: "option_keeps ((opt_plain ''bs'' FIO_OPT_STR_VAL_INT m_bs_0)\<lparr>opt_off2 := td_var_offset m_bs_1\<rparr>)"
    by (simp add: option_keeps_def opt_plain_def option_writes_def td_var_offset_def)
  have four: "option_keeps ((opt_plain ''bsrange'' FIO_OPT_RANGE m_min_bs_0)\<lparr>opt_off2 := td_var_offset m_max_bs_0,
        opt_off3 := td_var_offset m_min_bs_1, opt_off4 := td_var_offset m_max_bs_1\<rparr>)"
    by (simp add: option_keeps_def opt_plain_def option_writes_def td_var_offset_def)
  show ?thesis
    unfolding options_def
    by (simp add: option_keeps_plain option_keeps_handler handlers_keep pair four option_keeps_capped del: handler_keeps.simps)
qed

lemma find_option_in: "find_option opts n = Some x \<Longrightarrow> x \<in> set opts"
  by (induction opts) (auto split: if_splits)

lemma found_option_keeps: "find_option (options env) n = Some x \<Longrightarrow> option_keeps x"
  using options_keep [of env] find_option_in by (fastforce simp: list_all_iff)

lemma parse_option_number: "parse_option p (options env) s = Inr (r, t) \<Longrightarrow> keeps_number s t"
  by (auto simp: parse_option_def Let_def sbind_Inr_iff dest!: found_option_keeps handle_option_number split: if_splits option.splits)

lemma parse_cmd_option_number: "parse_cmd_option n v (options env) s = Inr (r, t) \<Longrightarrow> keeps_number s t"
  by (auto simp: parse_cmd_option_def sbind_Inr_iff dest!: found_option_keeps handle_option_number split: option.splits)

section \<open>The slots\<close>

definition area :: "init_state \<Rightarrow> bool" where
  "area s =
     (length (st_threads s) \<le> 1024 \<and> 0 \<le> st_thread_number s \<and> st_thread_number s \<le> int (length (st_threads s))
      \<and> (\<forall>i. int i < st_thread_number s \<longrightarrow> get_u32 m_thread_number (st_threads s ! i) = of_nat (i + 1)))"

text \<open>All the jobs are ready, but for the one under construction, which has the last slot.\<close>

fun holding :: "td_ref option \<Rightarrow> init_state \<Rightarrow> bool" where
  "holding (Some (Slot k)) s =
     (area s \<and> st_thread_number s = int k + 1 \<and> (\<forall>i. i < k \<longrightarrow> job_ready (st_threads s ! i)))"
| "holding _ s = (area s \<and> (\<forall>i. int i < st_thread_number s \<longrightarrow> job_ready (st_threads s ! i)))"

lemma holding_area: "holding r s \<Longrightarrow> area s"
  by (cases "(r, s)" rule: holding.cases) auto

lemma same_area_holding: "same_area s t \<Longrightarrow> holding r t = holding r s"
  by (cases "(r, s)" rule: holding.cases) (auto simp: same_area_def area_def)

lemma holding_cong: "st_threads t = st_threads s \<Longrightarrow> st_thread_number t = st_thread_number s \<Longrightarrow> holding r t = holding r s"
  by (cases "(r, s)" rule: holding.cases) (auto simp: area_def)

lemma get_new_job_slot:
  assumes "holding None s" "get_new_job False parent s = Inr (Some r, t)"
  shows "holding (Some r) t"
proof -
  define n where "n = st_thread_number s"
  from assms have n: "0 \<le> n" "n < int (length (st_threads s))" and r: "r = Slot (nat n)"
    and t: "t = (put_td (Slot (nat n)) (set_u32 m_thread_number (word_of_int (n + 1)) (td_bytes parent s)) s)\<lparr>st_thread_number := n + 1\<rparr>"
    by (auto simp: get_new_job_def n_def Let_def split: if_splits)
  have one: "word_of_int (n + 1) = (of_nat (nat n + 1) :: u32)" proof -
    have "n + 1 = int (nat n + 1)" using n(1) by simp
    then show ?thesis by (simp only: of_int_of_nat_eq)
  qed
  show ?thesis
    using assms(1) n by (auto simp: r t put_td_def area_def n_def [symmetric] one nth_list_update less_Suc_eq)
qed

lemma get_new_job_holding:
  assumes "holding None s" "get_new_job global parent s = Inr (Some r, t)"
  shows "holding (Some r) t"
proof (cases global)
  case True
  with assms show ?thesis by (simp add: get_new_job_def)
next
  case False
  with assms get_new_job_slot show ?thesis by simp
qed

lemma get_new_job_none: "get_new_job global parent s = Inr (None, t) \<Longrightarrow> t = s"
  by (auto simp: get_new_job_def Let_def split: if_splits)

lemma with_td_holding:
  assumes "holding (Some r) s" "with_td r f s = Inr (v, t)"
    and "\<And>w u. f (s\<lparr>om_data := td_bytes r s\<rparr>) = Inr (w, u) \<Longrightarrow> keeps_number (s\<lparr>om_data := td_bytes r s\<rparr>) u"
  shows "holding (Some r) t"
proof -
  from assms(2) obtain u where u: "f (s\<lparr>om_data := td_bytes r s\<rparr>) = Inr (v, u)" "t = put_td r (om_data u) u"
    by (auto simp: with_td_def sbind_Inr_iff)
  from assms(3) [OF u(1)] have k: "same_area s u" "get_u32 m_thread_number (om_data u) = get_u32 m_thread_number (td_bytes r s)"
    by (simp_all add: keeps_number_def same_area_def)
  show ?thesis
  proof (cases r)
    case Def_thread
    with assms(1) k(1) show ?thesis by (simp add: u(2) put_td_def same_area_def area_def)
  next
    case (Slot i)
    with assms(1) k show ?thesis
      by (auto simp: u(2) put_td_def same_area_def area_def td_bytes_def nth_list_update)
  qed
qed

lemma slot_number:
  assumes "area s" "int i < st_thread_number s"
  shows "sint (get_u32 m_thread_number (st_threads s ! i)) = int i + 1"
proof -
  define k where "k = i + 1"
  have k: "k < 2 ^ 31" using assms by (auto simp: area_def k_def)
  have u: "unat (of_nat k :: u32) = k" using k by (simp add: unat_of_nat)
  with k sint_small [of "of_nat k :: u32"] have "sint (of_nat k :: u32) = int k" by simp
  moreover have "get_u32 m_thread_number (st_threads s ! i) = of_nat k" using assms by (simp add: area_def k_def)
  ultimately show ?thesis by (simp add: k_def)
qed

lemma put_job_slot:
  assumes "area s" "int i < st_thread_number s"
  shows "put_job (Slot i) s = Inr (s\<lparr>st_threads := (st_threads s)[i := \<lambda>_. 0], st_thread_number := st_thread_number s - 1\<rparr>)"
proof -
  have "int i < int (length (st_threads s))" using assms by (auto simp: area_def)
  then show ?thesis
    using slot_number [OF assms] by (simp add: put_job_def td_bytes_def Let_def put_td_def)
qed

lemma put_job_holding:
  assumes "holding (Some r) s" "put_job r s = Inr t"
  shows "holding None t"
proof (cases r)
  case Def_thread
  with assms show ?thesis by (simp add: put_job_def)
next
  case (Slot i)
  with assms have a: "area s" "st_thread_number s = int i + 1" by auto
  with put_job_slot [of s i] assms Slot show ?thesis
    by (auto simp: area_def nth_list_update)
qed

text \<open>A cleared slot has no number any more: putting it back once more writes in front of the area.\<close>

lemma zero_number: "get_u32 f (\<lambda>_. 0) = 0"
  by (simp add: get_u32_def load_le_def upt_rec)

lemma put_job_twice:
  assumes "area s" "int i < st_thread_number s" "put_job (Slot i) s = Inr t"
  shows "put_job (Slot i) t = Inl OutOfRange"
proof -
  have "i < length (st_threads s)" using assms by (auto simp: area_def)
  with assms put_job_slot [OF assms(1,2)] have "td_bytes (Slot i) t = (\<lambda>_. 0)" by (auto simp: td_bytes_def)
  then show ?thesis by (simp add: put_job_def zero_number Let_def)
qed

section \<open>Adding keeps the area\<close>

lemma same_options_number: "same_area s t \<Longrightarrow> same_options (om_data s) (om_data t) \<Longrightarrow> keeps_number s t"
  using same_options_get(1) [of "om_data s" "om_data t" m_thread_number] by (simp add: keeps_number_def kept_members)

lemma add_engine_number: "add_engine env s = Inr (r, t) \<Longrightarrow> keeps_number s t"
  by (auto simp: add_engine_def sbind_Inr_iff dest!: load_ioengine_keeps split: if_splits)

lemma fixup_options_number: "fixup_options s = Inr t \<Longrightarrow> keeps_number s t"
  by (simp add: keeps_number_def fixup_options_area fixup_options_get)

lemma add_job_body_number:
  assumes "add_job_body env n k s = Inr (r, t)"
  shows "keeps_number s t"
proof -
  from assms obtain r1 s1 where e: "add_engine env s = Inr (r1, s1)"
    and rest: "r1 \<noteq> 0 \<and> t = s1 \<or> (\<exists>s2 s3 s4 r5 s5. set_raw s1 = Inr s2
      \<and> fixup_options (data_u32 m_filetype (job_filetype env n) s2) = Inr s3
      \<and> add_files n (s3\<lparr>om_data := set_nr_uniq (om_data s3)\<rparr>) = Inr s4
      \<and> job_setup_rate (set_group (s4\<lparr>om_data := reset_stats (om_data s4)\<rparr>)) = Inr (r5, s5)
      \<and> (t = s5 \<or> t = name_job n (setup_job_logs s5)))"
    by (auto simp: add_job_body_def Let_def sbind_Inr_iff dest!: print_job_area split: if_splits)
  from rest show ?thesis
  proof
    assume "r1 \<noteq> 0 \<and> t = s1"
    with add_engine_number [OF e] show ?thesis by simp
  next
    assume "\<exists>s2 s3 s4 r5 s5. set_raw s1 = Inr s2
      \<and> fixup_options (data_u32 m_filetype (job_filetype env n) s2) = Inr s3
      \<and> add_files n (s3\<lparr>om_data := set_nr_uniq (om_data s3)\<rparr>) = Inr s4
      \<and> job_setup_rate (set_group (s4\<lparr>om_data := reset_stats (om_data s4)\<rparr>)) = Inr (r5, s5)
      \<and> (t = s5 \<or> t = name_job n (setup_job_logs s5))"
    then obtain s2 s3 s4 r5 s5 where p: "set_raw s1 = Inr s2"
      "fixup_options (data_u32 m_filetype (job_filetype env n) s2) = Inr s3"
      "add_files n (s3\<lparr>om_data := set_nr_uniq (om_data s3)\<rparr>) = Inr s4"
      "job_setup_rate (set_group (s4\<lparr>om_data := reset_stats (om_data s4)\<rparr>)) = Inr (r5, s5)"
      and t: "t = s5 \<or> t = name_job n (setup_job_logs s5)" by blast
    have 2: "keeps_number s1 s2"
      using set_raw_area [OF p(1)] set_raw_data [OF p(1)] by (simp add: keeps_number_def)
    have 3: "keeps_number s2 s3"
      using fixup_options_number [OF p(2)] by (simp add: keeps_number_def same_area_def data_u32_def)
    have 4: "keeps_number s3 s4"
      using same_options_number [OF add_files_area [OF p(3)] add_files_same [OF p(3)]] set_nr_uniq_same [of "om_data s3"]
      by (simp add: keeps_number_def same_area_def set_nr_uniq_def)
    have 5: "keeps_number s4 (set_group (s4\<lparr>om_data := reset_stats (om_data s4)\<rparr>))"
      using same_options_trans [OF reset_stats_same [of "om_data s4"]] set_group_same [of "s4\<lparr>om_data := reset_stats (om_data s4)\<rparr>"]
      by (intro same_options_number) auto
    have 6: "keeps_number (set_group (s4\<lparr>om_data := reset_stats (om_data s4)\<rparr>)) s5"
      by (rule same_options_number [OF job_setup_rate_area [OF p(4)] job_setup_rate_same [OF p(4)]])
    have 7: "keeps_number s5 t"
    proof -
      have "keeps_number s5 (name_job n (setup_job_logs s5))"
        using same_options_trans [OF setup_job_logs_same [of s5] name_job_same]
        by (intro same_options_number) simp_all
      with t show ?thesis by auto
    qed
    from add_engine_number [OF e] 2 3 4 5 6 7 show ?thesis by (meson keeps_number_trans)
  qed
qed

lemma add_job_body_codes: "add_job_body env n k s = Inr (r, t) \<Longrightarrow> r = 0 \<or> r = 1 \<or> r = -1"
  by (auto simp: add_job_body_def sbind_Inr_iff Let_def split: if_splits)

text \<open>How adding a job without its copies ends: ready, refused and still there, or put back.\<close>

lemma add_one_job_cases:
  assumes "holding (Some r) s" "add_one_job env r n k s = Inr (ret, t)"
  shows "ret = 0 \<and> holding None t \<or> ret = 1 \<and> holding (Some r) t
    \<or> ret = -1 \<and> put_job r t = Inl OutOfRange \<and> holding None t \<and> (\<exists>i. r = Slot i \<and> st_thread_number t = int i)"
proof (cases r)
  case Def_thread
  with assms show ?thesis by (simp add: add_one_job_def)
next
  case (Slot i)
  have a: "area s" "st_thread_number s = int i + 1" using assms(1) Slot by auto
  from assms(2) Slot obtain c u where c: "with_td r (add_job_body env n k) s = Inr (c, u)"
    and t: "c = -1 \<and> ret = -1 \<and> put_job r u = Inr t \<or> c \<noteq> -1 \<and> ret = c \<and> t = u"
    by (auto simp: add_one_job_def sbind_Inr_iff split: if_splits)
  then obtain v where v: "add_job_body env n k (s\<lparr>om_data := td_bytes r s\<rparr>) = Inr (c, v)" "u = put_td r (om_data v) v"
    by (auto simp: with_td_def sbind_Inr_iff)
  have same: "same_area s v" using add_job_body_area [OF v(1)] by (simp add: same_area_def)
  consider "c = 0" | "c = 1" | "c = -1" using add_job_body_codes [OF v(1)] by blast
  then show ?thesis
  proof cases
    case 1
    have i: "i < length (st_threads s)" using a by (auto simp: area_def)
    have "job_ready (om_data v)" "get_u32 m_thread_number (om_data v) = of_nat (i + 1)"
      using add_job_body_ready [of env n k "s\<lparr>om_data := td_bytes r s\<rparr>" v] v(1) 1 a Slot
      by (simp_all add: td_bytes_def area_def)
    then have "holding None u"
      using assms(1) Slot same a(2) i
      by (auto simp: v(2) put_td_def same_area_def area_def nth_list_update less_Suc_eq)
    with t 1 show ?thesis by simp
  next
    case 2
    have "holding (Some r) u"
      by (rule with_td_holding [OF assms(1) c]) (use add_job_body_number in auto)
    with t 2 show ?thesis by simp
  next
    case 3
    have "holding (Some r) u"
      by (rule with_td_holding [OF assms(1) c]) (use add_job_body_number in auto)
    then have h: "area u" "st_thread_number u = int i + 1" "holding (Some r) u" using Slot by auto
    have p: "put_job (Slot i) u = Inr t" using t 3 Slot by simp
    have "st_thread_number t = int i" using put_job_slot [OF h(1), of i] p h(2) by auto
    with put_job_twice [OF h(1), of i t] put_job_holding [OF h(3), of t] t 3 Slot p h(2) show ?thesis by auto
  qed
qed

lemma make_copy_holding:
  "holding (Some r) s \<Longrightarrow> with_td r make_copy s = Inr (v, t) \<Longrightarrow> holding (Some r) t"
  by (rule with_td_holding) (auto simp: make_copy_def)

lemma get_copy_holding:
  assumes "holding None s" "get_new_job False r s = Inr (Some q, t)"
  shows "holding (Some q) t" "st_thread_number s < st_thread_number t"
  using get_new_job_slot [OF assms] get_new_job_counts [OF assms(2)] by auto

text \<open>The loop over the copies: either all are there, or the first of the jobs was put back.\<close>

lemma add_copies_cases:
  assumes "holding None s" "int i < st_thread_number s" "add_copies env (Slot i) n k s = Inr (ret, t)"
  shows "ret = 0 \<and> holding None t \<or> ret = -1 \<and> put_job (Slot i) t = Inl OutOfRange"
  using assms
proof (induction env "Slot i" n k s rule: add_copies.induct)
  case (1 env n k s)
  define m where "m = k - 1"
  have put: "put_job (Slot i) t = Inl OutOfRange" if "put_job (Slot i) u = Inr t" "holding q u" "int i < st_thread_number u" for u q
    using put_job_twice [OF holding_area [OF that(2)] that(3,1)] .
  show ?case
  proof (cases "m = 0")
    case True
    with 1(4) have "ret = 0 \<and> t = s"
      by (subst (asm) add_copies.simps) (simp add: m_def [symmetric] Let_def)
    with 1(2) show ?thesis by simp
  next
    case more: False
    note step = 1(4) [unfolded add_copies.simps [of env "Slot i" n k s] Let_def, folded m_def, simplified more, simplified]
    from step obtain new s1 where new: "get_new_job False (Slot i) s = Inr (new, s1)"
      by (auto split: sum.splits prod.splits)
    show ?thesis
    proof (cases new)
      case None
      with step new have "put_job (Slot i) s1 = Inr t" "ret = -1" by (auto simp: sbind_Inr_iff)
      moreover have "s1 = s" using new None get_new_job_none by blast
      ultimately show ?thesis using put [of s None] 1(2,3) by simp
    next
      case (Some q)
      from get_copy_holding [OF 1(2), of "Slot i" q s1] new Some
      have h1: "holding (Some q) s1" "st_thread_number s < st_thread_number s1" by auto
      have q: "\<exists>k. q = Slot k \<and> int k = st_thread_number s"
        using get_new_job_counts [of "Slot i" s q s1] new Some by auto
      from step new Some obtain v s2 where copy: "with_td q make_copy s1 = Inr (v, s2)"
        by (auto split: sum.splits prod.splits)
      have h2: "holding (Some q) s2" "st_thread_number s2 = st_thread_number s1"
        using make_copy_holding [OF h1(1) copy] make_copy_counts [OF copy] by (simp_all add: same_counts_def)
      from step new Some copy obtain r3 s3 where one: "add_one_job env q n (m - 1) s2 = Inr (r3, s3)"
        by (auto split: sum.splits prod.splits)
      note cases3 = add_one_job_cases [OF h2(1) one]
      show ?thesis
      proof (cases "r3 = 0")
        case True
        with cases3 have h3: "holding None s3" by auto
        have n3: "int i < st_thread_number s3"
          using add_one_job_counts [of env q n "m - 1" s2 s3] one True h1(2) h2(2) 1(3) by (simp add: same_counts_def)
        from step new Some copy one True have rec: "add_copies env (Slot i) n m s3 = Inr (ret, t)" by simp
        show ?thesis
          using 1(1) [OF m_def more new refl Some copy refl one refl] True h3 n3 rec by simp
      next
        case False
        with step new Some copy one have p: "put_job (Slot i) s3 = Inr t" "ret = -1" by (auto simp: sbind_Inr_iff)
        show ?thesis
        proof (cases "r3 = 1")
          case True
          with cases3 have h3: "holding (Some q) s3" by auto
          moreover have "int i < st_thread_number s3" using h3 q 1(3) by auto
          ultimately show ?thesis using put [OF p(1)] p(2) by simp
        next
          case other: False
          with cases3 False have "holding None s3" "int i < st_thread_number s3" using q 1(3) by auto
          then show ?thesis using put [OF p(1)] p(2) by blast
        qed
      qed
    qed
  qed
qed

text \<open>What \<^verbatim>\<open>add_job\<close> leaves behind: all jobs ready; or, without an engine, the job as it was; or an area without the
  job, whose slot is cleared and must not be put back again.\<close>

lemma add_job_cases:
  assumes "holding (Some r) s" "add_job env r n k s = Inr (ret, t)"
  shows "ret = 0 \<and> holding None t \<or> ret = 1 \<and> holding (Some r) t \<or> ret = -1 \<and> put_job r t = Inl OutOfRange"
proof (cases r)
  case Def_thread
  with assms show ?thesis by (simp add: add_job_def)
next
  case (Slot i)
  from assms(2) Slot obtain c u where one: "add_one_job env r n k s = Inr (c, u)"
    and rest: "c \<noteq> 0 \<and> ret = c \<and> t = u \<or> c = 0 \<and> (\<exists>m. add_copies env r n m u = Inr (ret, t))"
    by (auto simp: add_job_def sbind_Inr_iff split: if_splits)
  note one_cases = add_one_job_cases [OF assms(1) one]
  show ?thesis
  proof (cases "c = 0")
    case True
    with rest one_cases obtain m where m: "add_copies env (Slot i) n m u = Inr (ret, t)" "holding None u"
      using Slot by auto
    have "int i < st_thread_number u"
      using add_one_job_counts [of env r n k s u] one True assms(1) Slot by (simp add: same_counts_def)
    from add_copies_cases [OF m(2) this m(1)] Slot show ?thesis by auto
  next
    case False
    with rest one_cases show ?thesis by auto
  qed
qed

text \<open>C21: a job of the command line that \<^verbatim>\<open>add_job\<close> gives up after it put the job back (no slot for a copy, a minimum rate
  above the rate) is put back a second time, by a number that is cleared: the program writes in front of the
  thread area.\<close>

theorem cmd_job_put_twice:
  assumes "holding (Some r) s" "cmd_job_name r s = Inr n" "add_job env r n 0 s = Inr (-1, t)"
  shows "add_cmd_job env r s = Inl OutOfRange"
  using add_job_cases [OF assms(1,3)] assms(2,3) by (simp add: add_cmd_job_def)

section \<open>Job files keep the area\<close>

lemma read_options_holding:
  "read_options env r inp off ret s = Inr (v, t) \<Longrightarrow> holding (Some r) s \<Longrightarrow> holding (Some r) t"
proof (induction env r inp off ret s rule: read_options.induct)
  case (1 env r inp off ret s)
  show ?case
  proof (cases "fgets 4096 inp")
    case None
    with 1(3,4) show ?thesis by (subst (asm) read_options.simps) simp
  next
    case (Some pr)
    obtain p rest where pr: "(p, rest) = pr" by (metis surj_pair)
    show ?thesis
    proof (cases "is_empty_or_comment p")
      case True
      from 1(3) have "read_options env r rest off ret s = Inr (v, t)"
        by (subst (asm) read_options.simps) (simp add: Some pr [symmetric] True)
      from 1(1) [OF Some pr True this 1(4)] show ?thesis .
    next
      case False
      define q where "q = strip_blank_front p"
      show ?thesis
      proof (cases "hd q = CHR ''[''")
        case True
        with 1(3) have "t = s"
          by (subst (asm) read_options.simps) (simp add: Some pr [symmetric] False q_def [symmetric] Let_def)
        with 1(4) show ?thesis by simp
      next
        case hd: False
        with 1(3) False Some pr [symmetric] obtain u w s2 where
          u: "strip_blank_end [] q = Some u" "with_td r (parse_option u (options (ie_engines env))) s = Inr (w, s2)"
          and rec: "read_options env r rest rest (ret OR w) s2 = Inr (v, t)"
          by (subst (asm) read_options.simps) (auto simp: q_def [symmetric] Let_def split: option.splits sum.splits prod.splits)
        have "holding (Some r) s2" by (rule with_td_holding [OF 1(4) u(2)]) (rule parse_option_number)
        from 1(2) [OF Some pr False q_def hd u(1) u(2) refl rec this] show ?thesis .
      qed
    qed
  qed
qed

lemma open_section_holding:
  assumes "holding None s" "open_section name w s = Inr ((Some r, v), t)"
  shows "holding (Some r) t"
proof -
  from assms(2) obtain u where u: "get_new_job (starts_with ''global'' name) Def_thread s = Inr (Some r, u)"
    and t: "t = u \<or> (\<exists>x. with_td r (\<lambda>s. Inr ((), data_u32 m_stonewall w s)) u = Inr (x, t))"
    by (auto simp: open_section_def Let_def sbind_Inr_iff split: option.splits if_splits)
  have h: "holding (Some r) u" by (rule get_new_job_holding [OF assms(1) u])
  from t show ?thesis
  proof
    assume "\<exists>x. with_td r (\<lambda>s. Inr ((), data_u32 m_stonewall w s)) u = Inr (x, t)"
    then obtain x where "with_td r (\<lambda>s. Inr ((), data_u32 m_stonewall w s)) u = Inr (x, t)" by blast
    from with_td_holding [OF h this] show ?thesis by auto
  qed (use h in simp)
qed

lemma close_section_holding:
  "holding (Some r) s \<Longrightarrow> close_section env r n ret s = Inr (0, t) \<Longrightarrow> holding None t"
  using add_job_cases [of r s env n 0 0 t] by (auto simp: close_section_def sbind_Inr_iff split: if_splits)

lemma parse_sections_holding:
  "parse_sections env inp w s = Inr (0, t) \<Longrightarrow> holding None s \<Longrightarrow> holding None t"
proof (induction env inp w s rule: parse_sections.induct)
  case (1 env inp w s)
  show ?case
  proof (cases "fgets 4095 inp")
    case None
    with 1(4,5) show ?thesis by (subst (asm) parse_sections.simps) simp
  next
    case (Some pr)
    obtain p rest where pr: "(p, rest) = pr" by (metis surj_pair)
    note step = 1(4) [unfolded parse_sections.simps [of env inp w s], unfolded Some pr [symmetric], simplified]
    show ?thesis
    proof (cases "is_empty_or_comment p \<or> scan_section p = None")
      case True
      then show ?thesis
      proof (cases "is_empty_or_comment p")
        case True
        with step 1(1) [OF Some pr True _ 1(5)] show ?thesis by simp
      next
        case False
        with True step 1(2) [OF Some pr False _ _ 1(5)] show ?thesis by simp
      qed
    next
      case False
      then obtain word where no: "\<not> is_empty_or_comment p" and word: "scan_section p = Some word" by auto
      from step no word obtain new v s1 where o: "open_section word w s = Inr ((new, v), s1)"
        by (auto simp: Let_def split: sum.splits prod.splits)
      show ?thesis
      proof (cases new)
        case None
        with step no word o show ?thesis by (simp add: Let_def)
      next
        case new: (Some r)
        have h1: "holding (Some r) s1" using open_section_holding [OF 1(5)] o new by simp
        from step no word o new obtain ret off s2 where ro: "read_options env r rest rest 0 s1 = Inr ((ret, off), s2)"
          by (auto simp: Let_def split: sum.splits prod.splits)
        have h2: "holding (Some r) s2" by (rule read_options_holding [OF ro h1])
        from step no word o new ro obtain c s3 where cl: "close_section env r (butlast word) ret s2 = Inr (c, s3)"
          by (auto simp: Let_def split: sum.splits prod.splits)
        with step no word o new ro have c: "c = 0" "parse_sections env off v s3 = Inr (0, t)"
          by (auto simp: Let_def split: if_splits)
        have h3: "holding None s3" using close_section_holding [OF h2] cl c(1) by simp
        from 1(3) [OF Some pr no word refl o refl refl new ro refl refl cl refl c(1) c(2) h3] show ?thesis .
      qed
    qed
  qed
qed

section \<open>The command line keeps the area\<close>

lemma add_cmd_job_holding:
  assumes "holding (Some r) s" "add_cmd_job env r s = Inr (ret, t)"
  shows "holding None t"
proof -
  from assms(2) obtain n c u where a: "add_job env r n 0 s = Inr (c, u)"
    and t: "c = 0 \<and> t = u \<or> c \<noteq> 0 \<and> put_job r u = Inr t"
    by (auto simp: add_cmd_job_def sbind_Inr_iff split: if_splits)
  from add_job_cases [OF assms(1) a] t put_job_holding show ?thesis by auto
qed

lemma cmd_job_option_holding:
  assumes "holding td s" "cmd_job_option env opt val td s = Inr ((stop, td'), t)"
  shows "holding td' t \<and> (stop \<longrightarrow> td' = None)"
proof -
  from assms(2) obtain stop1 td1 s1 where first:
      "(case td of
          Some r \<Rightarrow> if starts_with ''name'' opt then sbind (add_cmd_job env r s) (\<lambda>(ret, s). Inr ((ret \<noteq> 0, None), s))
                    else Inr ((False, td), s)
        | None \<Rightarrow> Inr ((False, None), s)) = Inr ((stop1, td1), s1)"
    and rest: "(if stop1 then Inr ((True, td1), s1)
     else
       sbind (case td1 of
                Some r \<Rightarrow> Inr (Some r, s1)
              | None \<Rightarrow>
                  (case val of
                     None \<Rightarrow> Inl NullDereference
                   | Some v \<Rightarrow> get_new_job (starts_with ''global'' v) Def_thread s1)) (\<lambda>(td, s).
       case td of
         None \<Rightarrow> Inr ((True, None), s)
       | Some r \<Rightarrow>
           sbind (with_td r (parse_cmd_option opt val (options (ie_engines env))) s) (\<lambda>(ret, s).
             if ret \<noteq> 0 then sbind (put_job r s) (\<lambda>s. Inr ((False, None), s)) else Inr ((False, Some r), s)))) = Inr ((stop, td'), t)"
    unfolding cmd_job_option_def sbind_Inr_iff by auto
  have h1: "holding td1 s1 \<and> (stop1 \<longrightarrow> td1 = None)"
    using first assms(1) add_cmd_job_holding
    by (auto simp: sbind_Inr_iff simp del: holding.simps split: option.splits if_splits)
  show ?thesis
  proof (cases stop1)
    case True
    with rest h1 show ?thesis by (auto simp del: holding.simps)
  next
    case False
    with rest obtain new s2 where n: "(case td1 of
                Some r \<Rightarrow> Inr (Some r, s1)
              | None \<Rightarrow>
                  (case val of
                     None \<Rightarrow> Inl NullDereference
                   | Some v \<Rightarrow> get_new_job (starts_with ''global'' v) Def_thread s1)) = Inr (new, s2)"
      and last: "(case new of
         None \<Rightarrow> Inr ((True, None), s2)
       | Some r \<Rightarrow>
           sbind (with_td r (parse_cmd_option opt val (options (ie_engines env))) s2) (\<lambda>(ret, s).
             if ret \<noteq> 0 then sbind (put_job r s) (\<lambda>s. Inr ((False, None), s)) else Inr ((False, Some r), s))) = Inr ((stop, td'), t)"
      by (auto simp: sbind_Inr_iff)
    show ?thesis
    proof (cases new)
      case None
      with n have "s2 = s1 \<and> td1 = None" by (auto dest: get_new_job_none split: option.splits)
      with h1 last None show ?thesis by (simp del: holding.simps)
    next
      case (Some r)
      have h2: "holding (Some r) s2"
      proof (cases td1)
        case None
        with n obtain g where "get_new_job g Def_thread s1 = Inr (new, s2)" by (auto split: option.splits)
        with h1 None Some show ?thesis using get_new_job_holding by blast
      next
        case (Some q)
        with n h1 \<open>new = Some r\<close> show ?thesis by simp
      qed
      from last Some obtain ret s3 where p: "with_td r (parse_cmd_option opt val (options (ie_engines env))) s2 = Inr (ret, s3)"
        and e: "ret \<noteq> 0 \<and> td' = None \<and> put_job r s3 = Inr t \<or> ret = 0 \<and> td' = Some r \<and> t = s3 \<and> \<not> stop"
        by (auto simp: sbind_Inr_iff split: if_splits)
      have h3: "holding (Some r) s3" by (rule with_td_holding [OF h2 p]) (rule parse_cmd_option_number)
      from e h3 put_job_holding show ?thesis by (auto simp del: holding.simps)
    qed
  qed
qed

lemma holding_more [simp]:
  "holding r (s\<lparr>st_def_timeout := v\<rparr>) = holding r s" "holding r (s\<lparr>st_write_lat_log := v\<rparr>) = holding r s"
  "holding r (s\<lparr>st_write_bw_log := v\<rparr>) = holding r s" "holding r (s\<lparr>st_terse_output := b\<rparr>) = holding r s"
  "holding r (s\<lparr>st_def_thread := d\<rparr>) = holding r s"
  by (rule holding_cong; simp)+

lemma parse_cmd_opts_holding:
  "parse_cmd_opts env gs td s = Inr ((stop, td'), t) \<Longrightarrow> holding td s \<Longrightarrow> holding td' t \<and> (stop \<longrightarrow> td' = None)"
proof (induction env gs td s arbitrary: stop td' t rule: parse_cmd_opts.induct)
  case (3 env opt val gs td s)
  from 3(2) obtain b q u where o: "cmd_job_option env opt val td s = Inr ((b, q), u)"
    and rest: "(if b then Inr ((True, q), u) else parse_cmd_opts env gs q u) = Inr ((stop, td'), t)"
    by (auto simp: sbind_Inr_iff)
  note h = cmd_job_option_holding [OF 3(3) o]
  show ?case
  proof (cases b)
    case True
    with rest h show ?thesis by (auto simp del: holding.simps)
  next
    case False
    with rest 3(1) [OF o refl refl] h show ?thesis by (simp del: holding.simps)
  qed
next
  case (4 env c arg gs td s)
  then show ?case
    by (auto simp: sbind_Inr_iff simp del: holding.simps split: if_splits option.splits)
qed (simp_all del: holding.simps)

lemma parse_cmd_line_holding:
  assumes "parse_cmd_line env args s = Inr (names, t)" "holding None s"
  shows "holding None t"
proof -
  obtain gs rest where g: "getopt_long (dupe_job_options (options (ie_engines env) :: init_state fio_option list)) args = (gs, rest)"
    by fastforce
  from assms(1) obtain stop td u where c: "parse_cmd_opts env gs None s = Inr ((stop, td), u)"
    and r: "stop \<and> t = u \<or> td = None \<and> t = u \<or> (\<exists>r v. td = Some r \<and> add_cmd_job env r u = Inr (v, t))"
    by (auto simp: parse_cmd_line_def g sbind_Inr_iff split: if_splits option.splits)
  from parse_cmd_opts_holding [OF c assms(2)] r add_cmd_job_holding show ?thesis by (auto simp del: holding.simps)
qed

section \<open>Every job of a successful start is ready\<close>

lemma shm_slots_le: "shm_slots env n = Some m \<Longrightarrow> m \<le> n"
proof (induction env n rule: shm_slots.induct)
  case (1 env n)
  then show ?case
    by (subst (asm) (2) shm_slots.simps) (auto simp: Let_def split: shm_answer.splits if_splits)
qed

lemma setup_thread_area_holding:
  assumes "setup_thread_area env s = (0, t)" "st_thread_number s = 0"
  shows "holding None t"
  using assms by (auto simp: setup_thread_area_def area_def dest: shm_slots_le split: option.splits if_splits)

lemma fill_def_thread_holding: "fill_def_thread env s = (r, t) \<Longrightarrow> holding q t = holding q s"
  by (auto simp: fill_def_thread_def Let_def split: option.splits)

lemma parse_jobs_ini_holding: "parse_jobs_ini env f w s = Inr (0, t) \<Longrightarrow> holding None s \<Longrightarrow> holding None t"
  by (auto simp: parse_jobs_ini_def simp del: holding.simps split: option.splits dest: parse_sections_holding)

lemma parse_files_holding: "parse_files env i fs s = Inr (0, t) \<Longrightarrow> holding None s \<Longrightarrow> holding None t"
proof (induction env i fs s rule: parse_files.induct)
  case (2 env i f rest s)
  obtain r u where fill: "fill_def_thread env s = (r, u)" by fastforce
  from 2(2) fill obtain v where ini: "parse_jobs_ini env f i u = Inr (0, v)" "parse_files env (i + 1) rest v = Inr (0, t)"
    and r: "r = 0" by (auto simp: Let_def sbind_Inr_iff split: if_splits)
  have hu: "holding None u" using fill_def_thread_holding [OF fill] 2(3) by blast
  from 2(1) [OF fill [symmetric] refl _ ini(1) refl _ ini(2)] parse_jobs_ini_holding [OF ini(1) hu] r show ?case by simp
qed simp

text \<open>C1: when \<^verbatim>\<open>parse_options\<close> succeeds, there is a job, at most 1024, each has the number of its slot, and every one is
  ready: its options agree, it has an engine, and its minimum rate is not above its rate.  This holds whatever mixture of
  command line, job files, global sections, copies and dropped jobs they come from.\<close>

theorem parse_options_ready:
  assumes "parse_options env args s = Inr (0, t)" "st_thread_number s = 0"
  shows "0 < st_thread_number t \<and> st_thread_number t \<le> 1024 \<and> area t
    \<and> (\<forall>i. int i < st_thread_number t \<longrightarrow> job_ready (st_threads t ! i))"
proof -
  from assms(1) obtain u v names w where a: "setup_thread_area env s = (0, u)" "fill_def_thread env u = (0, v)"
    "parse_cmd_line env args v = Inr (names, w)" "parse_files env 0 names w = Inr (0, t)" and n: "st_thread_number t \<noteq> 0"
    by (auto simp: parse_options_def Let_def sbind_Inr_iff split: prod.splits if_splits)
  have "holding None v"
    using setup_thread_area_holding [OF a(1) assms(2)] fill_def_thread_holding [OF a(2)] by blast
  then have "holding None t" using parse_cmd_line_holding [OF a(3)] parse_files_holding [OF a(4)] by blast
  then show ?thesis using n by (auto simp: area_def)
qed

end
