(* ===== verification/FioFile.thy ===== *)
theory FioFile
  imports FioArea
begin

text \<open>
  What a job file means (\<^verbatim>\<open>parse_jobs_ini\<close>): a file of sections, each a header and lines, is worked off section by
  section, option by option.  \<open>run_sections\<close> says so without text, lines, or positions in a file; the parser, with its two
  loops over \<^verbatim>\<open>fgets\<close>, the remembered position and the step back to it, refines it.
\<close>

section \<open>Sections\<close>

text \<open>A section: the word behind the opening bracket, with the closing one, and the lines.\<close>

type_synonym section_text = "string \<times> string list"

fun run_options :: "init_env \<Rightarrow> td_ref \<Rightarrow> string list \<Rightarrow> int \<Rightarrow> init_state \<Rightarrow> job_fault + int \<times> init_state" where
  "run_options env r [] ret s = Inr (ret, s)"
| "run_options env r (l # ls) ret s =
     (if is_empty_or_comment l then run_options env r ls ret s
      else sbind (with_td r (parse_option l (options (ie_engines env))) s) (\<lambda>(v, s). run_options env r ls (ret OR v) s))"

fun run_sections :: "init_env \<Rightarrow> section_text list \<Rightarrow> u32 \<Rightarrow> init_state \<Rightarrow> job_fault + int \<times> init_state" where
  "run_sections env [] stonewall s = Inr (0, s)"
| "run_sections env ((word, ls) # secs) stonewall s =
     sbind (open_section word stonewall s) (\<lambda>((new, stonewall), s).
       case new of
         None \<Rightarrow> Inr (1, s)
       | Some r \<Rightarrow>
           sbind (run_options env r ls 0 s) (\<lambda>(ret, s).
           sbind (close_section env r (butlast word) ret s) (\<lambda>(ret, s).
             if ret = 0 then run_sections env secs stonewall s else Inr (ret, s))))"

section \<open>Files\<close>

abbreviation newline :: char where "newline \<equiv> CHR 0x0A"

definition file_line :: "string \<Rightarrow> string" where
  "file_line l = l @ [newline]"

definition file_lines :: "string list \<Rightarrow> string" where
  "file_lines ls = concat (map file_line ls)"

fun file_text :: "section_text list \<Rightarrow> string" where
  "file_text [] = []"
| "file_text ((word, ls) # secs) = file_line (CHR ''['' # word) @ file_lines ls @ file_text secs"

text \<open>Lines that fit the buffers; an option starts and ends with a character that is visible.\<close>

definition line_fits :: "string \<Rightarrow> bool" where
  "line_fits l = (newline \<notin> set l \<and> length l \<le> 4093)"

definition option_line :: "string \<Rightarrow> bool" where
  "option_line l = (l \<noteq> [] \<and> hd l \<noteq> CHR ''['' \<and> \<not> is_space (last l) \<and> \<not> is_cntrl (last l))"

definition line_ok :: "string \<Rightarrow> bool" where
  "line_ok l = (line_fits l \<and> (is_empty_or_comment l \<or> option_line l))"

definition word_ok :: "string \<Rightarrow> bool" where
  "word_ok w = (w \<noteq> [] \<and> length w \<le> 255 \<and> list_all (\<lambda>c. \<not> is_space c) w)"

definition section_ok :: "section_text \<Rightarrow> bool" where
  "section_ok sec = (word_ok (fst sec) \<and> list_all line_ok (snd sec))"

section \<open>Reading lines\<close>

lemma newline_space: "is_space newline"
  by (simp add: is_space_def)

lemma fgets_line: "line_fits l \<Longrightarrow> 4095 \<le> n \<Longrightarrow> fgets n (file_line l @ rest) = Some (l @ [newline], rest)"
proof -
  assume l: "line_fits l" "4095 \<le> n"
  then have "length l < n - 1" unfolding line_fits_def by linarith
  with l(1) take_line_line [of l "n - 1" rest] show ?thesis by (simp add: fgets_def file_line_def line_fits_def)
qed

lemma empty_line [simp]: "is_empty_or_comment (l @ [newline]) = is_empty_or_comment l"
  using newline_space by (induction l) auto

lemma strip_line: "option_line l \<Longrightarrow> strip_blank_end [] (l @ [newline]) = Some l"
  using newline_space by (cases l rule: rev_cases) (auto simp: strip_blank_end_def option_line_def Let_def)

lemma file_lines_simps [simp]: "file_lines [] = []" "file_lines (l # ls) = file_line l @ file_lines ls"
  "file_lines (xs @ ys) = file_lines xs @ file_lines ys"
  by (simp_all add: file_lines_def)

text \<open>Where a section ends: at the end of the file or at a line that opens a section.\<close>

definition section_end :: "string \<Rightarrow> bool" where
  "section_end rest = (rest = [] \<or> (\<exists>l more_text. rest = file_line (CHR ''['' # l) @ more_text \<and> line_fits (CHR ''['' # l)))"

lemma bracket_visible: "\<not> is_space CHR ''[''" "\<not> is_cntrl CHR ''[''"
  by (simp_all add: is_space_def is_cntrl_def)

lemma read_options_end:
  assumes "section_end rest"
  shows "read_options env r rest off ret s = Inr ((ret, off), s)"
proof (cases "rest = []")
  case True
  then show ?thesis by (subst read_options.simps) (simp add: fgets_def)
next
  case False
  with assms obtain l m where "rest = file_line (CHR ''['' # l) @ m" "line_fits (CHR ''['' # l)"
    by (auto simp: section_end_def)
  then have f: "fgets 4096 rest = Some ((CHR ''['' # l) @ [newline], m)" by (simp only: fgets_line)
  show ?thesis
    by (subst read_options.simps) (simp add: f bracket_visible strip_blank_front_def)
qed

lemma read_options_lines:
  assumes "list_all line_ok ls" "section_end rest" "list_all is_empty_or_comment cs" "list_all line_fits cs"
  shows "\<exists>ds. list_all is_empty_or_comment ds \<and> list_all line_fits ds
    \<and> read_options env r (file_lines ls @ rest) (file_lines cs @ file_lines ls @ rest) ret s
      = sbind (run_options env r ls ret s) (\<lambda>(v, t). Inr ((v, file_lines ds @ rest), t))"
  using assms
proof (induction ls arbitrary: cs ret s)
  case Nil
  then show ?case using read_options_end [OF Nil(2)] by (auto intro!: exI [of _ cs])
next
  case (Cons l ls)
  have lok: "line_ok l" and ok: "list_all line_ok ls" using Cons(2) by simp_all
  have fits: "line_fits l" using lok by (simp add: line_ok_def)
  have f: "fgets 4096 (file_lines (l # ls) @ rest) = Some (l @ [newline], file_lines ls @ rest)"
    using fgets_line [OF fits, of 4096 "file_lines ls @ rest"] by simp
  show ?case
  proof (cases "is_empty_or_comment l")
    case True
    have "list_all is_empty_or_comment (cs @ [l])" "list_all line_fits (cs @ [l])" using Cons(4,5) True fits by simp_all
    from Cons(1) [OF ok Cons(3) this, of ret s] obtain ds where ds: "list_all is_empty_or_comment ds" "list_all line_fits ds"
      "read_options env r (file_lines ls @ rest) (file_lines (cs @ [l]) @ file_lines ls @ rest) ret s
        = sbind (run_options env r ls ret s) (\<lambda>(v, t). Inr ((v, file_lines ds @ rest), t))" by blast
    have "read_options env r (file_lines (l # ls) @ rest) (file_lines cs @ file_lines (l # ls) @ rest) ret s
        = read_options env r (file_lines ls @ rest) (file_lines cs @ file_lines (l # ls) @ rest) ret s"
      by (subst read_options.simps) (simp only: f option.case prod.case empty_line True if_True)
    with ds True show ?thesis by auto
  next
    case False
    then have opt: "option_line l" using lok by (simp add: line_ok_def)
    have h: "hd (l @ [newline]) \<noteq> CHR ''[''" using opt by (simp add: option_line_def)
    define res where "res = with_td r (parse_option l (options (ie_engines env))) s"
    have step: "read_options env r (file_lines (l # ls) @ rest) (file_lines cs @ file_lines (l # ls) @ rest) ret s
        = (case res of Inl e \<Rightarrow> Inl e
           | Inr (v, t) \<Rightarrow> read_options env r (file_lines ls @ rest) (file_lines ls @ rest) (ret OR v) t)"
      unfolding res_def
      by (subst read_options.simps)
         (simp only: f option.case prod.case empty_line False if_False strip_blank_front_def Let_def h strip_line [OF opt])
    show ?thesis
    proof (cases res)
      case (Inl e)
      then show ?thesis using step False by (auto simp: res_def [symmetric] intro!: exI [of _ "[]"])
    next
      case (Inr p)
      obtain v t where p: "p = (v, t)" by (cases p)
      from Cons(1) [OF ok Cons(3), of "[]" "ret OR v" t] obtain ds where "list_all is_empty_or_comment ds" "list_all line_fits ds"
        "read_options env r (file_lines ls @ rest) (file_lines ls @ rest) (ret OR v) t
          = sbind (run_options env r ls (ret OR v) t) (\<lambda>(v, t). Inr ((v, file_lines ds @ rest), t))" by auto
      then show ?thesis using step False Inr p by (auto simp: res_def [symmetric])
    qed
  qed
qed

lemma skip_comments:
  "list_all is_empty_or_comment cs \<Longrightarrow> list_all line_fits cs \<Longrightarrow>
     parse_sections env (file_lines cs @ rest) w s = parse_sections env rest w s"
proof (induction cs)
  case (Cons c cs)
  then have f: "fgets 4095 (file_lines (c # cs) @ rest) = Some (c @ [newline], file_lines cs @ rest)"
    using fgets_line [of c 4095 "file_lines cs @ rest"] by simp
  have "parse_sections env (file_lines (c # cs) @ rest) w s = parse_sections env (file_lines cs @ rest) w s"
    using Cons(2) by (subst parse_sections.simps) (simp add: f del: file_lines_simps)
  with Cons show ?case by simp
qed simp

lemma word_end: "word_ok w \<Longrightarrow> line_fits (CHR ''['' # w)"
  using newline_space by (auto simp: word_ok_def line_fits_def list_all_iff)

lemma file_text_end: "list_all section_ok secs \<Longrightarrow> section_end (file_text secs)"
  using word_end by (cases secs rule: file_text.cases) (auto simp: section_end_def section_ok_def)

lemma scan_word:
  assumes "word_ok w"
  shows "scan_section ((CHR ''['' # w) @ [newline]) = Some w"
proof -
  have w: "takeWhile (\<lambda>c. \<not> is_space c) (w @ [newline]) = w"
    using assms newline_space by (simp add: word_ok_def list_all_iff takeWhile_append2)
  have "dropWhile is_space (w @ [newline]) = w @ [newline]"
    using assms by (cases w) (auto simp: word_ok_def)
  with w assms show ?thesis by (simp add: scan_section_def Let_def word_ok_def)
qed

text \<open>C8: reading a job file of sections does what the sections say one after the other: a job for each header, its options
  in order with blank lines and comments left out, the job added at the end of its section, and a stop at the first
  section that fails.\<close>

theorem parse_sections_refines:
  assumes "list_all section_ok secs"
  shows "parse_sections env (file_text secs) w s = run_sections env secs w s"
  using assms
proof (induction env secs w s rule: run_sections.induct)
  case (1 env w s)
  then show ?case by (subst parse_sections.simps) (simp add: fgets_def)
next
  case (2 env word ls secs w s)
  have sec: "section_ok (word, ls)" and secs: "list_all section_ok secs" using 2(2) by simp_all
  have ok: "word_ok word" "list_all line_ok ls" "list_all section_ok secs" using sec secs by (simp_all add: section_ok_def)
  define rest where "rest = file_lines ls @ file_text secs"
  have f: "fgets 4095 (file_text ((word, ls) # secs)) = Some ((CHR ''['' # word) @ [newline], rest)"
    using fgets_line [OF word_end [OF ok(1)], of 4095 rest] by (simp add: rest_def)
  have no: "\<not> is_empty_or_comment ((CHR ''['' # word) @ [newline])"
    by (simp add: bracket_visible)
  have step: "parse_sections env (file_text ((word, ls) # secs)) w s =
      (case open_section word w s of
         Inl e \<Rightarrow> Inl e
       | Inr ((None, v), s) \<Rightarrow> Inr (1, s)
       | Inr ((Some r, v), s) \<Rightarrow>
           (case read_options env r rest rest 0 s of
              Inl e \<Rightarrow> Inl e
            | Inr ((ret, off), s) \<Rightarrow>
                (case close_section env r (butlast word) ret s of
                   Inl e \<Rightarrow> Inl e
                 | Inr (ret, s) \<Rightarrow> if ret = 0 then parse_sections env off v s else Inr (ret, s))))"
    by (subst parse_sections.simps) (simp only: f option.case prod.case no if_False scan_word [OF ok(1)] Let_def)
  show ?case
  proof (cases "open_section word w s")
    case (Inl e)
    then show ?thesis by (simp add: step del: file_text.simps)
  next
    case (Inr p)
    obtain new v t where p: "p = ((new, v), t)" by (metis surj_pair)
    show ?thesis
    proof (cases new)
      case None
      then show ?thesis using Inr p by (simp add: step del: file_text.simps)
    next
      case (Some r)
      from read_options_lines [OF ok(2) file_text_end [OF ok(3)], of "[]" env r 0 t] obtain ds where
        ds: "list_all is_empty_or_comment ds" "list_all line_fits ds"
        "read_options env r rest rest 0 t
          = sbind (run_options env r ls 0 t) (\<lambda>(v, t). Inr ((v, file_lines ds @ file_text secs), t))"
        by (auto simp: rest_def)
      have next_secs: "parse_sections env (file_lines ds @ file_text secs) v u = run_sections env secs v u"
        if "run_options env r ls 0 t = Inr (ret, t2)" "close_section env r (butlast word) ret t2 = Inr (0, u)" for ret t2 u
        using 2(1) [OF Inr [unfolded p Some] refl refl refl that(1) refl that(2) refl refl ok(3)] skip_comments [OF ds(1,2)] by simp
      show ?thesis
      proof (cases "run_options env r ls 0 t")
        case (Inl e)
        then show ?thesis using \<open>open_section word w s = Inr p\<close> p Some ds(3) by (simp add: step del: file_text.simps)
      next
        case ran: (Inr q)
        obtain ret t2 where q: "q = (ret, t2)" by (cases q)
        show ?thesis
        proof (cases "close_section env r (butlast word) ret t2")
          case (Inl e)
          then show ?thesis using \<open>open_section word w s = Inr p\<close> p Some ds(3) ran q by (simp add: step del: file_text.simps)
        next
          case (Inr c)
          obtain ret2 u where c: "c = (ret2, u)" by (cases c)
          then show ?thesis using \<open>open_section word w s = Inr p\<close> p Some ds(3) ran q Inr next_secs [of ret t2 u]
            by (auto simp: step simp del: file_text.simps)
        qed
      qed
    qed
  qed
qed

end
