(* ===== verification/FioDemo.thy ===== *)
theory FioDemo
  imports FioFile
begin

text \<open>
  A run of fio's set-up on a small machine: one engine, a thread area of two slots, and the command line
  \<^verbatim>\<open>fio --name=j\<close>.  The properties of the other theories are applied to it.
\<close>

definition demo_engine :: ioengine_ops where
  "demo_engine = \<lparr>ops_name = ''sync'', ops_version = 3, ops_flags = 1, ops_event = True, ops_getevents = True,
     ops_queue = True, ops_dlhandle = False\<rparr>"

definition demo_ienv :: init_env where
  "demo_ienv = \<lparr>ie_engines = \<lparr>engine_list = [demo_engine], dl_engine = (\<lambda>_. None)\<rparr>, ie_stat = (\<lambda>_. None),
     ie_affinity = Some (\<lambda>_. 0), ie_fopen = (\<lambda>_. None), ie_create = (\<lambda>_. True),
     ie_shmget = (\<lambda>n. if n \<le> 2 then Shm_ok else Shm_einval), ie_shmat = True\<rparr>"

definition demo_init :: init_state where
  "demo_init = \<lparr>om_data = (\<lambda>_. 0), om_heap = [], om_erange = False, js_ops = [], st_threads = [], st_def_thread = (\<lambda>_. 0),
     st_thread_number = 0, st_groupid = 0, st_files = [], st_logs = [], st_mlock_size = 0, st_exitall = False,
     st_terse_output = False, st_def_timeout = 0, st_write_lat_log = 0, st_write_bw_log = 0\<rparr>"

text \<open>A job without files to name but the default one, rate limit or logs is added.\<close>

definition plain_job :: "(nat \<Rightarrow> u8) \<Rightarrow> bool" where
  "plain_job d =
     (get_u64 m_io_ops d = 0 \<and> get_u64 m_write_iolog_file d = 0 \<and> get_u64 m_filename d = 0 \<and> get_u64 m_directory d = 0
      \<and> get_u32 m_nr_files d = 1 \<and> get_u32 m_write_lat_log d = 0 \<and> get_u32 m_write_bw_log d = 0
      \<and> get_u32 m_thread_number d = 1 \<and> get_u32 m_ddir d = 0 \<and> get_u32 m_iomix d = 0 \<and> get_u32 m_sequential d = 1
      \<and> get_u32 m_rwmixread d = 50 \<and> get_u32 m_numjobs d = 1 \<and> get_u64 m_name d = 1 \<and> get_u32 m_stonewall d = 0)"

lemma load_demo: "js_ops s = [] \<Longrightarrow> load_ioengine (ie_engines demo_ienv) ''sync'' s = Inr (1, s\<lparr>js_ops := [Some demo_engine]\<rparr>)"
  by (simp add: load_ioengine_def find_ioengine_def aio_alias_def starts_with_def demo_ienv_def demo_engine_def check_engine_ops_def)

lemma upt_1: "[0..<Suc 0] = [0]"
  by simp

lemma job_ops_one:
  "get_u64 m_io_ops (om_data s) = 1 \<Longrightarrow> js_ops s = [Some e] \<Longrightarrow> job_ops s = Inr e"
  by (simp add: job_ops_def)

lemma set_raw_demo:
  assumes "get_u64 m_io_ops (om_data s) = 1" "js_ops s = [Some demo_engine]"
  shows "\<exists>e. set_raw s = Inr (s\<lparr>js_ops := [Some e]\<rparr>)"
proof (cases "get_u32 m_odirect (om_data s) = 0")
  case True
  have "s = s\<lparr>js_ops := [Some demo_engine]\<rparr>" using assms(2) by simp
  with True show ?thesis by (metis set_raw_def)
next
  case False
  with assms job_ops_one [OF assms] show ?thesis by (auto simp: set_raw_def)
qed

lemma demo_digits: "dec_int 1 = ''1''" "dec 0 = ''0''"
proof -
  have "digit 0 = CHR ''0''" by code_simp
  then show "dec 0 = ''0''" by (simp add: dec_small)
  show "dec_int 1 = ''1''" using digit_char by (simp add: dec_int_def dec_small)
qed

lemma file_names_demo:
  assumes "get_u64 m_filename (om_data s) = 0" "get_u64 m_directory (om_data s) = 0" "get_u32 m_nr_files (om_data s) = 1"
    and "get_u32 m_thread_number (om_data s) = 1"
  shows "file_names ''j'' s = Inr [''j.1.0'']"
  using assms by (simp add: file_names_def print_tmp_def demo_digits Let_def)

lemma add_job_plain:
  assumes "plain_job (om_data s)" "js_ops s = []" "\<not> st_terse_output s"
  shows "get_u32 m_rate (om_data s) = 0 \<Longrightarrow> \<exists>t. add_job_body demo_ienv ''j'' 0 s = Inr (0, t)"
    and "get_u32 m_rate (om_data s) \<noteq> 0 \<Longrightarrow> get_u32 m_rate (om_data s) < get_u32 m_ratemin (om_data s) \<Longrightarrow>
      \<exists>t. add_job_body demo_ienv ''j'' 0 s = Inr (-1, t)"
proof -
  note p = assms(1) [unfolded plain_job_def]
  define s1 where "s1 = data_u64 m_io_ops 1 (s\<lparr>js_ops := [Some demo_engine]\<rparr>)"
  have 1: "add_engine demo_ienv s = Inr (0, s1)"
    using p load_demo [OF assms(2)] by (simp add: add_engine_def s1_def)
  have s1: "get_u64 m_io_ops (om_data s1) = 1" "js_ops s1 = [Some demo_engine]" by (simp_all add: s1_def data_u64_def)
  from set_raw_demo [OF s1] obtain e where 2: "set_raw s1 = Inr (s1\<lparr>js_ops := [Some e]\<rparr>)" by blast
  define s2 where "s2 = data_u32 m_filetype FIO_TYPE_FILE (s1\<lparr>js_ops := [Some e]\<rparr>)"
  have ops2: "job_ops (s2\<lparr>om_data := fix_mix (om_data s2)\<rparr>) = Inr e"
    using p by (intro job_ops_one) (simp_all add: s2_def s1_def data_u32_def data_u64_def fix_mix_def)
  define d3 where "d3 = fix_direct (fix_verify (fix_bs (fix_overwrite (fix_zone (fix_depth (ops_flags e) (fix_mix (om_data s2)))))))"
  have 3: "fixup_options s2 = Inr (s2\<lparr>om_data := d3\<rparr>)"
    using p ops2 by (simp add: fixup_options_def fix_iologs_def d3_def s2_def s1_def data_u32_def data_u64_def fix_mix_def)
  have d3: "get_u64 m_filename d3 = 0" "get_u64 m_directory d3 = 0" "get_u32 m_nr_files d3 = 1" "get_u32 m_thread_number d3 = 1"
    "get_u32 m_filetype d3 = 1" "get_u32 m_rate d3 = get_u32 m_rate (om_data s)" "get_u32 m_ratemin d3 = get_u32 m_ratemin (om_data s)" "get_u32 m_ddir d3 = 0" "get_u32 m_iomix d3 = 0" "get_u32 m_sequential d3 = 1"
    "get_u64 m_io_ops d3 = 1" "get_u32 m_write_lat_log d3 = 0" "get_u32 m_write_bw_log d3 = 0" "get_u64 m_name d3 = 1"
    using p by (simp_all add: d3_def s2_def s1_def data_u32_def data_u64_def fix_mix_def)
  define s3 where "s3 = s2\<lparr>om_data := set_nr_uniq d3\<rparr>"
  have names: "file_names ''j'' s3 = Inr [''j.1.0'']"
    using d3 by (intro file_names_demo) (simp_all add: s3_def set_nr_uniq_def)
  obtain fs where 4: "add_files ''j'' s3 = Inr (data_u64 m_files fs (s3\<lparr>st_files := st_files s3 @ [make_files [''j.1.0''] (om_data s3)]\<rparr>))"
    using names d3 by (simp add: add_files_def s3_def set_nr_uniq_def)
  define s4 where "s4 = data_u64 m_files fs (s3\<lparr>st_files := st_files s3 @ [make_files [''j.1.0''] (om_data s3)]\<rparr>)"
  define s5 where "s5 = set_group (s4\<lparr>om_data := reset_stats (om_data s4)\<rparr>)"
  have d5: "get_u32 m_rate (om_data s5) = get_u32 m_rate (om_data s)" "get_u32 m_ratemin (om_data s5) = get_u32 m_ratemin (om_data s)"
    "get_u32 m_ddir (om_data s5) = 0" "get_u32 m_iomix (om_data s5) = 0"
    "get_u32 m_sequential (om_data s5) = 1" "get_u64 m_io_ops (om_data s5) = 1" "get_u32 m_write_lat_log (om_data s5) = 0"
    "get_u32 m_write_bw_log (om_data s5) = 0" "get_u64 m_name (om_data s5) = 1" "js_ops s5 = [Some e]" "\<not> st_terse_output s5"
    using d3 assms(3) by (simp_all add: s5_def s4_def s3_def s2_def s1_def set_group_def reset_stats_def io_stat_min_def data_u32_def data_u64_def
        set_nr_uniq_def Let_def)
  have ft: "job_filetype demo_ienv ''j'' = 1" by (simp add: job_filetype_def demo_ienv_def)
  show "\<exists>t. add_job_body demo_ienv ''j'' 0 s = Inr (0, t)" if "get_u32 m_rate (om_data s) = 0"
  proof -
    have "setup_rate (rate_of (om_data s5)) = Some (0, rate_of (om_data s5))"
      using d5 that by (simp add: setup_rate_def rate_of_def)
    then obtain s6 where 6: "job_setup_rate s5 = Inr (0, s6)" and s6: "s6 = data_u64 m_rate_pending_usleep (rate_pending_usleep (rate_of (om_data s5)))
        (data_u64 m_rate_usec_cycle (rate_usec_cycle (rate_of (om_data s5))) s5)"
      by (simp add: job_setup_rate_def)
    have d6: "get_u32 m_ddir (om_data s6) = 0" "get_u32 m_iomix (om_data s6) = 0" "get_u32 m_sequential (om_data s6) = 1"
      "get_u64 m_io_ops (om_data s6) = 1" "get_u32 m_write_lat_log (om_data s6) = 0" "get_u32 m_write_bw_log (om_data s6) = 0"
      "get_u64 m_name (om_data s6) = 1" "js_ops s6 = [Some e]" "\<not> st_terse_output s6"
      using d5 by (simp_all add: s6 data_u64_def)
    have 7: "print_job 0 (name_job ''j'' (setup_job_logs s6)) = Inr s6"
      using d6 job_ops_one [of s6 e] by (simp add: name_job_def setup_job_logs_def print_job_def ddir_index_def)
    show ?thesis
      using 1 2 3 4 6 7 ft by (simp add: add_job_body_def s2_def [symmetric] s3_def s4_def s5_def Let_def)
  qed
  show "\<exists>t. add_job_body demo_ienv ''j'' 0 s = Inr (-1, t)"
    if "get_u32 m_rate (om_data s) \<noteq> 0" "get_u32 m_rate (om_data s) < get_u32 m_ratemin (om_data s)"
  proof -
    have "setup_rate (rate_of (om_data s5)) = Some (-1, rate_of (om_data s5))"
      using d5 that by (simp add: setup_rate_def rate_of_def)
    then obtain s6 where 6: "job_setup_rate s5 = Inr (-1, s6)"
      by (simp add: job_setup_rate_def)
    show ?thesis
      using 1 2 3 4 6 ft by (simp add: add_job_body_def s2_def [symmetric] s3_def s4_def s5_def Let_def)
  qed
qed

section \<open>The command line\<close>

definition demo_started :: init_state where
  "demo_started = snd (fill_def_thread demo_ienv (demo_init\<lparr>st_threads := [\<lambda>_. 0, \<lambda>_. 0]\<rparr>))"

lemma demo_slots: "setup_thread_area demo_ienv demo_init = (0, demo_init\<lparr>st_threads := [\<lambda>_. 0, \<lambda>_. 0]\<rparr>)"
proof -
  have "shm_slots demo_ienv 1024 = Some 2" by (simp add: shm_slots.simps demo_ienv_def)
  then show ?thesis by (simp add: setup_thread_area_def numeral_2_eq_2) (simp add: demo_ienv_def)
qed

lemma demo_fill: "fill_def_thread demo_ienv (demo_init\<lparr>st_threads := [\<lambda>_. 0, \<lambda>_. 0]\<rparr>) = (0, demo_started)"
  by (simp add: demo_started_def fill_def_thread_def demo_ienv_def Let_def)

lemma zero_u64: "get_u64 f (\<lambda>_. 0) = 0"
  by (simp add: get_u64_def load_le_def upt_rec)

lemma demo_started_eq:
  "demo_started = demo_init\<lparr>st_threads := [\<lambda>_. 0, \<lambda>_. 0],
     st_def_thread := set_u64 m_timeout 0 (fold (\<lambda>(f, v). set_u32 f v) (default_members demo_init) (\<lambda>_. 0))\<rparr>"
  by (simp add: demo_started_def fill_def_thread_def demo_ienv_def Let_def demo_init_def default_members_def)

text \<open>The slot of the job with its name.\<close>

definition demo_named :: "nat \<Rightarrow> u8" where
  "demo_named = set_u64 m_name 1 (set_u32 m_thread_number 1 (st_def_thread demo_started))"

lemma demo_named_plain: "plain_job demo_named \<and> get_u32 m_rate demo_named = 0"
  unfolding plain_job_def demo_named_def demo_started_eq default_members_def demo_init_def
  by (simp add: zero_u64 zero_number)

lemma demo_getopt:
  "getopt_long (dupe_job_options (options (ie_engines demo_ienv) :: init_state fio_option list)) [''--name=j'']
     = ([Got_job ''name'' (Some ''j'')], [])"
  by (simp add: dupe_job_options_def long_options_def options_def opt_plain_def starts_with_def after_char_def got_def)

lemma store_ull_member: "fst f < 4294967296 \<Longrightarrow> store_ull v (td_var_offset f) s = data_u64 f v s"
  by (simp add: store_ull_def data_u64_def set_u64_def unat_td_var_offset)

lemma demo_option:
  "parse_cmd_option ''name'' (Some ''j'') (options env) s
     = Inr (0, data_u64 m_name (of_nat (length (om_heap s) + 1)) (s\<lparr>om_heap := om_heap s @ [Some ''j'']\<rparr>))"
  by (simp add: parse_cmd_option_def options_def opt_plain_def handle_option_def handle_one_option_def after_char_def strdup_def
      store_ull_member)

text \<open>The state with the job named and not yet added.\<close>

definition demo_state :: init_state where
  "demo_state = demo_started\<lparr>om_data := demo_named, om_heap := [Some ''j''], st_threads := [demo_named, \<lambda>_. 0], st_thread_number := 1\<rparr>"

lemma demo_job_option:
  "cmd_job_option demo_ienv ''name'' (Some ''j'') None demo_started = Inr ((False, Some (Slot 0)), demo_state)"
proof -
  have new: "get_new_job False Def_thread demo_started = Inr (Some (Slot 0),
      demo_started\<lparr>st_threads := [set_u32 m_thread_number 1 (st_def_thread demo_started), \<lambda>_. 0], st_thread_number := 1\<rparr>)"
    by (simp add: get_new_job_def put_td_def td_bytes_def demo_started_eq demo_init_def)
  show ?thesis
    by (simp add: cmd_job_option_def starts_with_def new with_td_def demo_option td_bytes_def put_td_def data_u64_def
        demo_state_def demo_named_def) (simp add: demo_started_eq demo_init_def)
qed

lemma demo_holding: "holding (Some (Slot 0)) demo_state"
  by (simp add: demo_state_def area_def demo_named_def)

lemma demo_fields:
  "js_ops demo_state = []" "\<not> st_terse_output demo_state" "om_data demo_state = demo_named" "td_bytes (Slot 0) demo_state = demo_named"
  "om_heap demo_state = [Some ''j'']"
  by (simp_all add: demo_state_def demo_started_eq demo_init_def td_bytes_def)

lemma demo_one:
  "\<exists>t. add_one_job demo_ienv (Slot 0) ''j'' 0 demo_state = Inr (0, t) \<and> add_job demo_ienv (Slot 0) ''j'' 0 demo_state = Inr (0, t)
     \<and> get_u32 m_numjobs (td_bytes (Slot 0) t) = 1 \<and> st_thread_number t = 1"
proof -
  define s where "s = demo_state\<lparr>om_data := demo_named\<rparr>"
  have "plain_job (om_data s)" "js_ops s = []" "\<not> st_terse_output s"
    using demo_named_plain demo_fields by (simp_all add: s_def)
  moreover have "get_u32 m_rate (om_data s) = 0" using demo_named_plain by (simp add: s_def)
  ultimately obtain t where t: "add_job_body demo_ienv ''j'' 0 s = Inr (0, t)" using add_job_plain(1) by blast
  have area_t: "st_threads t = [demo_named, \<lambda>_. 0]" "st_thread_number t = 1"
    using add_job_body_area [OF t] by (simp_all add: same_area_def s_def demo_state_def)
  have nj: "get_u32 m_numjobs (om_data t) = 1"
    using add_job_body_ready(3) [OF t] demo_named_plain by (simp add: s_def plain_job_def)
  define u where "u = put_td (Slot 0) (om_data t) t"
  have one: "add_one_job demo_ienv (Slot 0) ''j'' 0 demo_state = Inr (0, u)"
    using t demo_fields by (simp add: add_one_job_def with_td_def s_def u_def)
  have u: "get_u32 m_numjobs (td_bytes (Slot 0) u) = 1" "st_thread_number u = 1"
    using area_t nj by (simp_all add: u_def put_td_def td_bytes_def)
  show ?thesis using one add_job_single [OF one u(1)] u by blast
qed

lemma demo_cmd: "\<exists>t. add_cmd_job demo_ienv (Slot 0) demo_state = Inr (0, t) \<and> st_thread_number t = 1"
proof -
  have "cmd_job_name (Slot 0) demo_state = Inr ''j''"
    using demo_named_plain by (simp add: cmd_job_name_def demo_fields plain_job_def string_at_def)
  then show ?thesis using demo_one by (auto simp: add_cmd_job_def)
qed

lemma demo_cmd_line: "\<exists>t. parse_cmd_line demo_ienv [''--name=j''] demo_started = Inr ([], t) \<and> st_thread_number t = 1"
  using demo_cmd by (auto simp: parse_cmd_line_def demo_getopt demo_job_option simp del: getopt_long.simps)

theorem parse_options_ready_witness:
  "\<exists>t. parse_options demo_ienv [''--name=j''] demo_init = Inr (0, t) \<and> 0 < st_thread_number t \<and> area t
    \<and> job_ready (st_threads t ! 0)"
proof -
  from demo_cmd_line obtain u where u: "parse_cmd_line demo_ienv [''--name=j''] demo_started = Inr ([], u)"
    and n: "st_thread_number u = 1" by blast
  have "parse_options demo_ienv [''--name=j''] demo_init = Inr (0, u)"
    by (simp add: parse_options_def demo_slots demo_fill u n)
  moreover have "st_thread_number demo_init = 0" by (simp add: demo_init_def)
  ultimately show ?thesis using parse_options_ready [of demo_ienv "[''--name=j'']" demo_init u] by auto
qed

theorem add_job_takes_numjobs_witness:
  "\<exists>t. add_job demo_ienv (Slot 0) ''j'' 0 demo_state = Inr (0, t) \<and> st_thread_number t + 1 = st_thread_number demo_state + 1"
proof -
  from demo_one obtain t where t: "add_one_job demo_ienv (Slot 0) ''j'' 0 demo_state = Inr (0, t)"
    "add_job demo_ienv (Slot 0) ''j'' 0 demo_state = Inr (0, t)" "get_u32 m_numjobs (td_bytes (Slot 0) t) = 1" by blast
  from add_job_takes_numjobs [OF t(2,1)] t(2,3) show ?thesis by auto
qed

section \<open>A file and the other properties\<close>

text \<open>A file with a comment and one section: it is worked off as its sections say, here up to the end of the only job.\<close>

definition demo_sections :: "section_text list" where
  "demo_sections = [(''j]'', [''; a comment'', ''name=j''])]"

theorem parse_sections_refines_witness:
  "parse_sections demo_ienv (file_text demo_sections) 0 demo_started = run_sections demo_ienv demo_sections 0 demo_started"
  by (rule parse_sections_refines)
     (simp add: demo_sections_def section_ok_def word_ok_def line_ok_def line_fits_def option_line_def is_space_def is_cntrl_def)


theorem directory_is_ignored_witness:
  "file_names ''j'' (data_u64 m_directory 0 (demo_state\<lparr>om_data := set_u64 m_directory 1 demo_named\<rparr>)) = Inr [''j.1.0'']"
proof (rule directory_is_ignored)
  have "print_tmp ''j/'' = Inr ''j/''" "print_tmp ''j.1.0'' = Inr ''j.1.0''" by (simp_all add: print_tmp_def)
  then show "file_names ''j'' (demo_state\<lparr>om_data := set_u64 m_directory 1 demo_named\<rparr>) = Inr [''j.1.0'']"
    using demo_named_plain by (simp add: file_names_def plain_job_def string_at_def demo_fields demo_digits Let_def)
qed

text \<open>The same job with a rate of 1 and a minimum rate of 2.\<close>

definition demo_slow :: "nat \<Rightarrow> u8" where
  "demo_slow = set_u32 m_rate 1 (set_u32 m_ratemin 2 demo_named)"

definition demo_slow_state :: init_state where
  "demo_slow_state = demo_state\<lparr>st_threads := [demo_slow, \<lambda>_. 0]\<rparr>"

lemma demo_slow_holding: "holding (Some (Slot 0)) demo_slow_state"
  by (simp add: demo_slow_state_def demo_state_def area_def demo_slow_def demo_named_def)

lemma demo_slow_refused: "\<exists>t. add_job demo_ienv (Slot 0) ''j'' 0 demo_slow_state = Inr (-1, t)"
proof -
  define s where "s = demo_slow_state\<lparr>om_data := demo_slow\<rparr>"
  have "plain_job (om_data s)" using demo_named_plain by (simp add: s_def demo_slow_def plain_job_def)
  moreover have "js_ops s = []" "\<not> st_terse_output s" using demo_fields by (simp_all add: s_def demo_slow_state_def)
  moreover have "get_u32 m_rate (om_data s) \<noteq> 0" "get_u32 m_rate (om_data s) < get_u32 m_ratemin (om_data s)"
    by (simp_all add: s_def demo_slow_def)
  ultimately obtain t where t: "add_job_body demo_ienv ''j'' 0 s = Inr (-1, t)" using add_job_plain(2) by blast
  define u where "u = put_td (Slot 0) (om_data t) t"
  have w: "with_td (Slot 0) (add_job_body demo_ienv ''j'' 0) demo_slow_state = Inr (-1, u)"
    using t by (simp add: with_td_def s_def u_def td_bytes_def demo_slow_state_def)
  have "holding (Some (Slot 0)) u"
    by (rule with_td_holding [OF demo_slow_holding w]) (use add_job_body_number in auto)
  then have "area u" "st_thread_number u = 1" by simp_all
  then show ?thesis
    using w put_job_slot [of u 0] by (auto simp: add_job_def add_one_job_def)
qed

theorem cmd_job_put_twice_witness: "add_cmd_job demo_ienv (Slot 0) demo_slow_state = Inl OutOfRange"
proof -
  from demo_slow_refused obtain t where t: "add_job demo_ienv (Slot 0) ''j'' 0 demo_slow_state = Inr (-1, t)" by blast
  have n: "cmd_job_name (Slot 0) demo_slow_state = Inr ''j''"
    using demo_named_plain
    by (simp add: cmd_job_name_def td_bytes_def demo_slow_state_def demo_slow_def plain_job_def string_at_def demo_fields)
  from cmd_job_put_twice [OF demo_slow_holding n t] show ?thesis .
qed

theorem fixup_options_fit_witness:
  "\<exists>t. fixup_options (data_u64 m_io_ops 1 (demo_state\<lparr>js_ops := [Some demo_engine]\<rparr>)) = Inr t
    \<and> options_fit (om_data t) \<and> depth_fits 1 (om_data t)"
proof -
  define s where "s = data_u64 m_io_ops 1 (demo_state\<lparr>js_ops := [Some demo_engine]\<rparr>)"
  have "job_ops (s\<lparr>om_data := fix_mix (om_data s)\<rparr>) = Inr demo_engine"
    by (intro job_ops_one) (simp_all add: s_def data_u64_def fix_mix_def)
  then obtain t where t: "fixup_options s = Inr t" and d: "js_ops t = [Some demo_engine]"
    using demo_named_plain
    by (simp add: fixup_options_def fix_iologs_def s_def data_u64_def fix_mix_def plain_job_def demo_fields)
  have "get_u64 m_io_ops (om_data t) = 1" using fixup_options_get(3) [OF t] by (simp add: s_def data_u64_def)
  from fixup_options_fit [OF t job_ops_one [OF this d]] t show ?thesis by (auto simp: s_def demo_engine_def)
qed

end
