(* ===== verification/Spec2Isabelle.thy ===== *)
theory Spec2Isabelle
  imports RedisRand RedisZmalloc RedisVm LinuxEpoll LinuxBuddy LinuxBootmem LinuxMinix LinuxExt2 LinuxCfsQueue FioIoU FioDemo
begin

text \<open>
  A verification of the C sources of RTFSC, a repository that annotates the core of several systems: the event
  loop, the allocator and the virtual memory of redis, the block-I/O tester fio, and parts of the Linux kernel.
  The systems do not call each other; each is a group of theories over a common prelude.  The sources are taken as
  they stand in \<^verbatim>\<open>src/\<close>, annotations included where they change the code.  What a source calls and the repository
  does not hold is an argument of the definitions that use it (a record of functions, the environment), with a
  named predicate for what it documents (\<open>quiet\<close>, \<open>ext2_alloc_ok\<close>, \<open>cfs_env_ok\<close>, ...); each theorem with such
  a hypothesis is applied to a concrete environment in its witness.

  \<^bold>\<open>Prelude.\<close>
  \<^item> \<^verbatim>\<open>RTFSC_Prelude\<close>: machine integers (\<open>u8\<close> to \<open>u64\<close>, LP64), the collections of simplification rules, facts on words
    and lists.
  \<^item> \<^verbatim>\<open>CStrings\<close>: what \<^verbatim>\<open>printf\<close>, \<^verbatim>\<open>sscanf\<close> and \<^verbatim>\<open>fgets\<close> do with the formats that fio uses; printing and scanning are
    inverse.

  \<^bold>\<open>redis\<close> (\<^verbatim>\<open>src/redis/\<close>).
  \<^item> \<^verbatim>\<open>RedisRand\<close> (\<^verbatim>\<open>rand.c\<close> of 6.0): the generator on three 16-bit limbs is the 48-bit linear congruential one.
  \<^item> \<^verbatim>\<open>RedisZmalloc\<close> (\<^verbatim>\<open>zmalloc.c\<close> of 2.2): a heap of blocks with a size prefix; the counter of used memory is the sum of
    the live blocks through allocation, reallocation, release and failure.
  \<^item> \<^verbatim>\<open>RedisAe\<close> (\<^verbatim>\<open>ae.c\<close>, \<^verbatim>\<open>ae_epoll.c\<close>): the tables of file events and the list of time events, one turn of the loop
    (\<^verbatim>\<open>aeProcessEvents\<close>) and the main loop; handlers are functions of the environment that may change the loop.  The kernel
    side of the epoll set mirrors the masks, the nearest timer is minimal, the timers of a turn return.
  \<^item> \<^verbatim>\<open>RedisVmPages\<close>, \<^verbatim>\<open>RedisVm\<close> (\<^verbatim>\<open>VM/vm.c\<close>): the bitmap of pages and the search for a free run, then objects, pointers
    to the swap file, the job queues with their threads as explicit steps, and clients that wait for keys.  Swapping out
    and in gives the object back, with and without threads; cancelling undoes a queued job.

  \<^bold>\<open>fio\<close> (\<^verbatim>\<open>src/fio/\<close>).
  \<^item> \<^verbatim>\<open>FioChecksum\<close> (\<^verbatim>\<open>hash.h\<close>, \<^verbatim>\<open>crc32.c\<close>, \<^verbatim>\<open>md5.c\<close>): the table-driven CRC is polynomial division; the buffered MD5 update
    refines the digest of the whole stream.
  \<^item> \<^verbatim>\<open>FioVerify\<close> (\<^verbatim>\<open>verify.c\<close>): header, fill and check of a block, on those checksums.
  \<^item> \<^verbatim>\<open>FioTime\<close> (\<^verbatim>\<open>time.c\<close>, \<^verbatim>\<open>gettime.c\<close>, the rate part of \<^verbatim>\<open>log.c\<close>): clocks, sleeps and the rate limiter; the system calls are a
    tape of answers.
  \<^item> \<^verbatim>\<open>FioData\<close> (\<^verbatim>\<open>fio.h\<close>): the records \<open>thread_data\<close>, \<open>fio_file\<close>, \<open>io_u\<close> the next theories share.
  \<^item> \<^verbatim>\<open>FioStat\<close> (\<^verbatim>\<open>stat.c\<close>): samples, growing sample logs, the summary of a group.
  \<^item> \<^verbatim>\<open>FioLog\<close> (\<^verbatim>\<open>log.c\<close>): the history of writes in the order of their offsets, read back for verification, and the text log
    with its round trip.
  \<^item> \<^verbatim>\<open>FioIoU\<close> (\<^verbatim>\<open>io_u.c\<close>): the pool of I/O units, the map of random blocks, the choice of direction, offset and length, and
    completion.  No unit is lost, every unit lies in its file, the map is claimed exactly.

  \<^bold>\<open>fio, from its options to its jobs.\<close>
  \<^item> \<^verbatim>\<open>FioParse\<close> (\<^verbatim>\<open>parse.c\<close>, \<^verbatim>\<open>parse.h\<close>): the table of options as data, decimals with suffixes, the handlers by type, and one
    option from a file or from the command line; handlers write through offsets into the bytes of the structure, as the
    code does.
  \<^item> \<^verbatim>\<open>FioLayout\<close> (\<^verbatim>\<open>fio.h\<close>): where the members of \<^verbatim>\<open>struct thread_data\<close> that options and job set-up use lie among its
    bytes, and reading and writing them.
  \<^item> \<^verbatim>\<open>FioEngine\<close> (\<^verbatim>\<open>ioengines.c\<close>): the registry of engines and loading one; what an engine does is an argument.
  \<^item> \<^verbatim>\<open>FioOptions\<close> (\<^verbatim>\<open>init.c\<close>): the callbacks of the options and the table itself.  Every entry names a member of the size
    that its type writes, so that an option changes no other member.
  \<^item> \<^verbatim>\<open>FioInit\<close>, \<^verbatim>\<open>FioReady\<close> (\<^verbatim>\<open>init.c\<close>): slots of jobs, fixing up options, sizes for the eye, adding a job and its
    copies; options that were fixed up agree.
  \<^item> \<^verbatim>\<open>FioJobs\<close>, \<^verbatim>\<open>FioArea\<close>, \<^verbatim>\<open>FioFile\<close> (\<^verbatim>\<open>init.c\<close>): the default job, job files, the command line and \<^verbatim>\<open>parse_options\<close>.  After a
    success every job in the table is ready, however it got there; a file is worked off section by section.
  \<^item> \<^verbatim>\<open>FioDemo\<close>: these theorems at concrete tables, command lines and files.

  \<^bold>\<open>Linux\<close> (\<^verbatim>\<open>src/linux/\<close>).
  \<^item> \<^verbatim>\<open>LinuxEpoll\<close> (\<^verbatim>\<open>io/epoll\<close>): \<^verbatim>\<open>epoll_ctl\<close> with its error paths, the wake-up callback, the scan of the ready list with the
    overflow list, and \<^verbatim>\<open>epoll_wait\<close>.  Callbacks that arrive during a scan are explicit steps.  No event is lost, lists and
    tree agree, an addition happens completely or not at all.
  \<^item> \<^verbatim>\<open>LinuxBuddy\<close> (\<^verbatim>\<open>mm/buddy\<close>, the allocation side): the free lists by order and migrate type, splitting, the fallback and
    the per-CPU lists.  Blocks stay disjoint, an allocation takes exactly its pages.
  \<^item> \<^verbatim>\<open>LinuxBootmem\<close> (\<^verbatim>\<open>mm/buddy\<close>, the hand-over of boot memory): exactly the pages that the bitmap has free are released,
    once each, in blocks that are aligned.
  \<^item> \<^verbatim>\<open>LinuxBlockTree\<close> (the part of \<^verbatim>\<open>fs/ext2/get_block.c\<close> and \<^verbatim>\<open>fs/minix/get_block.c\<close> that is common): the tree of block
    pointers of a file, the walk along it, and what grafting a branch does.
  \<^item> \<^verbatim>\<open>LinuxMinix\<close>, \<^verbatim>\<open>LinuxExt2\<close> (the two \<^verbatim>\<open>get_block.c\<close>, and \<^verbatim>\<open>ext2_alloc_blocks\<close>): paths, allocation of a branch and the
    mapping.  Both mappings find what is there, allocate what is missing, and change no other block of the file.
  \<^item> \<^verbatim>\<open>LinuxLoadWeight\<close>, \<^verbatim>\<open>LinuxCfs\<close>, \<^verbatim>\<open>LinuxCfsQueue\<close> (\<^verbatim>\<open>proc/sched\<close>): the scaling of times by weights, the operations of the fair
    scheduler, and the invariants of its queue over runs of steps.  The tree is sorted by a virtual time that wraps
    around; the next entity is fair up to the wake-up granularity; a choice always returns.

  \<^bold>\<open>State and errors.\<close>  A structure is a record, a pointer a number, a list of the kernel or of redis a list; a null pointer,
  a panic, a failed system call and every error code are values of a sum or option type, so that a statement about
  results covers them.  Integers keep their width as words; they are numbers where the code cannot overflow them or
  where an overflow is undefined in C and a value of the error type.

  \<^bold>\<open>Interfaces.\<close>  A locale states what one component relies on: the tree of pointers of a file system
  (\<open>block_paths\<close>, \<open>new_branch\<close>, interpreted by minix and by ext2), the scaling of a time
  (\<open>load_scaling\<close>, interpreted by both divisions), the operations that leave the queue of the scheduler alone
  (\<open>quiet_op\<close>, interpreted by each of them), and the interfaces of the older components in their theories.

  \<^bold>\<open>Loops and fuel.\<close>  A loop of the code is a recursion; \<^const>\<open>None\<close> of a \<^verbatim>\<open>partial_function\<close> is a loop that does not
  end (\<open>ext2_alloc_loop\<close>, \<open>pick_next_task_fair\<close>, the loops of the redis event loop and of \<^verbatim>\<open>epoll_wait\<close>), and the
  theorems prove that a result is returned.  Fuel is used twice: the rounding to a double
  (\<open>excess_bits\<close>) halves its argument at each turn and gets the argument as fuel, and the loop that keeps the swap
  threads busy (\<open>swap_more\<close>) queues a job in each turn but the last and gets one turn more than there are threads.

  \<^bold>\<open>Not modelled.\<close>  Printing and terminal output (fio's status lines, \<^verbatim>\<open>hexdump\<close>); the processes of fio, long
  options that are abbreviated, and what its engines do with the system;
  the parts of redis that work on encodings which are not in the repository (\<^verbatim>\<open>object.c\<close>); in Linux the call paths
  through the page cache, dentries and block requests, the context switch, the slab allocator, page faults and
  mappings, whose work is done by functions that the repository does not hold; group scheduling, bandwidth control and
  load averages of the scheduler; memory ordering (each critical section is one step).  The annotated C++
  and Java sources (\<^verbatim>\<open>STL\<close>, \<^verbatim>\<open>bionic\<close>, \<^verbatim>\<open>boost\<close>, \<^verbatim>\<open>bolt\<close>, \<^verbatim>\<open>jdk\<close>) are templates and excerpts of libraries, not part of the
  C programs.
\<close>

end
